(* ===== verification/Igpu_Prelude.thy ===== *)
theory Igpu_Prelude
  imports Main "HOL-Library.Word" "HOL-Library.AList" "HOL-Library.Monad_Syntax"
begin

text \<open>
  Shared vocabulary of the development: the machine integers of the Rust code, its checked and
  saturating arithmetic, little-endian byte encodings, association lists standing for the Rust
  hash maps, and the interfaces that several components implement.

  Conventions. A Rust \<open>u8/u16/u32/u64\<close> field that travels on the wire is an \<open>n word\<close>;
  \<open>i32\<close> fields keep their bit pattern as \<open>32 word\<close> and are read with \<open>sint\<close>. \<open>usize\<close> values
  and counters are \<open>nat\<close>; where the width matters the wrap-around is written out with
  \<open>wrap_u64\<close> and \<open>wrap_i64\<close>. \<open>f32\<close> values are carried as their bit patterns, because no
  modelled code computes with them.
\<close>

named_theorems igpu_defs "definitions of small helpers to unfold together"
named_theorems codec_simps "evaluation rules for the byte codecs"
named_theorems alist_simps "sums and lengths over association lists"

type_synonym u8 = "8 word"
type_synonym u16 = "16 word"
type_synonym u32 = "32 word"
type_synonym u64 = "64 word"
type_synonym bytes = "u8 list"

subsection \<open>Rust integer arithmetic\<close>

abbreviation (input) u64_range :: "nat \<Rightarrow> bool" where
  "u64_range n \<equiv> n < 2 ^ 64"

definition wrap_u64 :: "nat \<Rightarrow> nat" where
  "wrap_u64 n = n mod 2 ^ 64"

definition wrap_u32 :: "nat \<Rightarrow> nat" where
  "wrap_u32 n = n mod 2 ^ 32"

definition wrap_i64 :: "int \<Rightarrow> int" where
  "wrap_i64 i = (i + 2 ^ 63) mod 2 ^ 64 - 2 ^ 63"

definition checked_u64 :: "nat \<Rightarrow> nat option" where
  "checked_u64 n = (if n < 2 ^ 64 then Some n else None)"

definition saturating_u64 :: "nat \<Rightarrow> nat" where
  "saturating_u64 n = min n (2 ^ 64 - 1)"

definition div_ceil :: "nat \<Rightarrow> nat \<Rightarrow> nat" where
  "div_ceil a b = (a + b - 1) div b"

lemma wrap_u64_id [simp]: "n < 2 ^ 64 \<Longrightarrow> wrap_u64 n = n"
  by (simp add: wrap_u64_def)

lemma wrap_u64_lt: "wrap_u64 n < 2 ^ 64"
  by (simp add: wrap_u64_def)

lemma wrap_u32_id [simp]: "n < 2 ^ 32 \<Longrightarrow> wrap_u32 n = n"
  by (simp add: wrap_u32_def)

lemma wrap_i64_id: "- (2 ^ 63) \<le> i \<Longrightarrow> i < 2 ^ 63 \<Longrightarrow> wrap_i64 i = i"
  by (simp add: wrap_i64_def)

lemma wrap_i64_range: "- (2 ^ 63) \<le> wrap_i64 i \<and> wrap_i64 i < 2 ^ 63"
proof -
  have "0 \<le> (i + 2 ^ 63) mod 2 ^ 64 \<and> (i + 2 ^ 63) mod 2 ^ 64 < (2::int) ^ 64"
    by simp
  then show ?thesis by (simp add: wrap_i64_def)
qed

lemma checked_u64_eq_Some [simp]: "checked_u64 n = Some m \<longleftrightarrow> n < 2 ^ 64 \<and> m = n"
  by (auto simp: checked_u64_def)

lemma checked_u64_eq_None [simp]: "checked_u64 n = None \<longleftrightarrow> 2 ^ 64 \<le> n"
  by (simp add: checked_u64_def not_less)

lemma checked_u64_fits [simp]: "n < 2 ^ 64 \<Longrightarrow> checked_u64 n = Some n"
  by simp

lemma checked_u64_overflow [simp]: "2 ^ 64 \<le> n \<Longrightarrow> checked_u64 n = None"
  by simp

subsection \<open>Powers of two\<close>

fun pow2_from :: "nat \<Rightarrow> nat \<Rightarrow> bool" where
  "pow2_from 0 n = False"
| "pow2_from (Suc k) n = (n = 1 \<or> (even n \<and> 0 < n \<and> pow2_from k (n div 2)))"

text \<open>\<open>usize::is_power_of_two\<close>: 64 halvings are enough for a 64-bit value.\<close>

definition is_power_of_two :: "nat \<Rightarrow> bool" where
  "is_power_of_two n = pow2_from 64 n"

lemma pow2_from_iff: "pow2_from k n \<longleftrightarrow> (\<exists>e. e < k \<and> n = 2 ^ e)"
proof (induction k arbitrary: n)
  case 0
  then show ?case by simp
next
  case (Suc k)
  show ?case
  proof
    assume "pow2_from (Suc k) n"
    then consider "n = 1" | "even n" "0 < n" "pow2_from k (n div 2)" by auto
    then show "\<exists>e. e < Suc k \<and> n = 2 ^ e"
    proof cases
      case 1
      then show ?thesis by (intro exI [of _ 0]) simp
    next
      case 2
      then obtain e where "e < k" "n div 2 = 2 ^ e" using Suc.IH by blast
      with 2(1) have "n = 2 ^ Suc e" by (metis dvd_mult_div_cancel power_Suc)
      with \<open>e < k\<close> show ?thesis by (intro exI [of _ "Suc e"]) simp
    qed
  next
    assume "\<exists>e. e < Suc k \<and> n = 2 ^ e"
    then obtain e where e: "e < Suc k" "n = 2 ^ e" by blast
    show "pow2_from (Suc k) n"
    proof (cases e)
      case 0
      with e show ?thesis by simp
    next
      case (Suc e')
      with e have "n div 2 = 2 ^ e'" "even n" "0 < n" "e' < k" by auto
      then show ?thesis using Suc.IH by auto
    qed
  qed
qed

lemma is_power_of_two_iff: "is_power_of_two n \<longleftrightarrow> (\<exists>e. e < 64 \<and> n = 2 ^ e)"
  by (simp add: is_power_of_two_def pow2_from_iff)

lemma is_power_of_two_pos: "is_power_of_two n \<Longrightarrow> 0 < n"
  by (auto simp: is_power_of_two_iff)

subsection \<open>Little-endian bytes\<close>

lemma unat_width_lt: "unat (w :: 'a::len word) < 2 ^ LENGTH('a)"
  by (rule unsigned_less)

lemma unat_u_lt [simp]:
  "unat (a :: u8) < 256" "unat (b :: u16) < 65536" "unat (c :: u32) < 4294967296"
  "unat (d :: u64) < 18446744073709551616"
  using unat_width_lt [of a] unat_width_lt [of b] unat_width_lt [of c] unat_width_lt [of d]
  by simp_all

fun nat_of_le :: "bytes \<Rightarrow> nat" where
  "nat_of_le [] = 0"
| "nat_of_le (b # bs) = unat b + 256 * nat_of_le bs"

fun le_of_nat :: "nat \<Rightarrow> nat \<Rightarrow> bytes" where
  "le_of_nat 0 n = []"
| "le_of_nat (Suc k) n = word_of_nat (n mod 256) # le_of_nat k (n div 256)"

lemma length_le_of_nat [simp]: "length (le_of_nat k n) = k"
  by (induction k arbitrary: n) auto

lemma unat_byte_mod [simp]: "unat (word_of_nat (n mod 256) :: u8) = n mod 256"
  by (simp add: unat_of_nat)

lemma nat_of_le_of_nat: "nat_of_le (le_of_nat k n) = n mod 256 ^ k"
  by (induction k arbitrary: n) (auto simp: mod_mult2_eq mult.commute)

lemma nat_of_le_bound: "nat_of_le bs < 256 ^ length bs"
proof (induction bs)
  case (Cons b bs)
  have "unat b < 256" by simp
  moreover have "Suc (nat_of_le bs) \<le> 256 ^ length bs" using Cons.IH by simp
  then have "256 + 256 * nat_of_le bs \<le> 256 ^ length (b # bs)" by simp
  ultimately show ?case unfolding nat_of_le.simps by linarith
qed simp

lemma le_of_nat_of_le: "le_of_nat (length bs) (nat_of_le bs) = bs"
proof (induction bs)
  case (Cons b bs)
  have "unat b < 256" by simp
  with Cons show ?case by simp
qed simp

definition u16_le :: "u16 \<Rightarrow> bytes" where "u16_le w = le_of_nat 2 (unat w)"
definition u32_le :: "u32 \<Rightarrow> bytes" where "u32_le w = le_of_nat 4 (unat w)"
definition u64_le :: "u64 \<Rightarrow> bytes" where "u64_le w = le_of_nat 8 (unat w)"

definition get_u8 :: "bytes \<Rightarrow> nat \<Rightarrow> u8" where
  "get_u8 bs off = word_of_nat (nat_of_le (take 1 (drop off bs)))"
definition get_u16 :: "bytes \<Rightarrow> nat \<Rightarrow> u16" where
  "get_u16 bs off = word_of_nat (nat_of_le (take 2 (drop off bs)))"
definition get_u32 :: "bytes \<Rightarrow> nat \<Rightarrow> u32" where
  "get_u32 bs off = word_of_nat (nat_of_le (take 4 (drop off bs)))"
definition get_u64 :: "bytes \<Rightarrow> nat \<Rightarrow> u64" where
  "get_u64 bs off = word_of_nat (nat_of_le (take 8 (drop off bs)))"

lemma length_u_le [simp]:
  "length (u16_le a) = 2" "length (u32_le b) = 4" "length (u64_le c) = 8"
  by (simp_all add: u16_le_def u32_le_def u64_le_def)

lemma word_of_le_le [simp]:
  "(word_of_nat (nat_of_le (u16_le a)) :: u16) = a"
  "(word_of_nat (nat_of_le (u32_le b)) :: u32) = b"
  "(word_of_nat (nat_of_le (u64_le c)) :: u64) = c"
  by (simp_all add: u16_le_def u32_le_def u64_le_def nat_of_le_of_nat)

lemma le_word_of_le [simp]:
  "length bs = 2 \<Longrightarrow> u16_le (word_of_nat (nat_of_le bs)) = bs"
  "length bs = 4 \<Longrightarrow> u32_le (word_of_nat (nat_of_le bs)) = bs"
  "length bs = 8 \<Longrightarrow> u64_le (word_of_nat (nat_of_le bs)) = bs"
  using nat_of_le_bound [of bs] le_of_nat_of_le [of bs]
  by (simp_all add: u16_le_def u32_le_def u64_le_def unat_of_nat)


lemma take_drop_append_hit [codec_simps]:
  "length a = n \<Longrightarrow> take n (drop 0 (a @ r)) = a"
  by simp

lemmas get_defs = get_u8_def get_u16_def get_u32_def get_u64_def

lemma get_u8_unat: "off < length bs \<Longrightarrow> get_u8 bs off = bs ! off"
  by (simp add: get_u8_def take_Suc hd_drop_conv_nth)

lemma get_u8_append_left [simp]: "off < length a \<Longrightarrow> get_u8 (a @ b) off = get_u8 a off"
  by (simp add: get_u8_def)

lemma get_u16_append_left [simp]: "off + 2 \<le> length a \<Longrightarrow> get_u16 (a @ b) off = get_u16 a off"
  by (simp add: get_u16_def)

lemma get_u32_append_left [simp]: "off + 4 \<le> length a \<Longrightarrow> get_u32 (a @ b) off = get_u32 a off"
  by (simp add: get_u32_def)

lemma get_u64_append_left [simp]: "off + 8 \<le> length a \<Longrightarrow> get_u64 (a @ b) off = get_u64 a off"
  by (simp add: get_u64_def)

subsection \<open>The contract of a fixed-layout wire record\<close>

text \<open>
  Every \<open>zerocopy\<close> record of the ABI is read with \<open>read_from_prefix\<close> (the record and the rest
  of the buffer, or an error when the buffer is shorter than the record) and written with
  \<open>as_bytes\<close>. The codec contract says what both sides of the VM boundary rely on.
\<close>

locale wire_codec =
  fixes enc :: "'m \<Rightarrow> bytes" and dec :: "bytes \<Rightarrow> ('m \<times> bytes) option" and size :: nat
  assumes length_enc: "length (enc m) = size"
    and dec_enc: "dec (enc m @ rest) = Some (m, rest)"
    and dec_short: "length bs < size \<Longrightarrow> dec bs = None"
    and dec_sound: "dec bs = Some (m, rest) \<Longrightarrow> bs = enc m @ rest"
    and dec_enough: "size \<le> length bs \<Longrightarrow> dec bs \<noteq> None"
begin

lemma dec_exact: "dec (enc m) = Some (m, [])"
  using dec_enc [of m "[]"] by simp

lemma enc_inject: "enc m = enc m' \<longleftrightarrow> m = m'"
  by (metis dec_exact option.inject prod.inject)

lemma dec_None_iff: "dec bs = None \<longleftrightarrow> length bs < size"
  using dec_short dec_enough by (meson not_less)

lemma dec_rest: "dec bs = Some (m, rest) \<Longrightarrow> rest = drop size bs \<and> enc m = take size bs"
  by (drule dec_sound) (simp add: length_enc)

lemma dec_prefix_stable:
  "dec bs = Some (m, rest) \<Longrightarrow> dec (bs @ extra) = Some (m, rest @ extra)"
  by (drule dec_sound) (simp add: dec_enc)

lemma enc_not_prefix: "enc m @ r = enc m' @ r' \<Longrightarrow> m = m' \<and> r = r'"
  by (metis dec_enc option.inject prod.inject)

end

subsection \<open>Association lists for the hash maps\<close>

text \<open>
  A Rust map is an association list with distinct keys: \<open>map_of\<close> looks a key up, \<open>AList.update\<close>
  inserts or replaces, \<open>AList.delete\<close> removes. The iteration order of a \<open>HashMap\<close> is not
  specified; the models below only fold it with order-insensitive functions or sort it first.
\<close>

definition amap_ok :: "('k \<times> 'v) list \<Rightarrow> bool" where
  "amap_ok m = distinct (map fst m)"

abbreviation (input) amap_sum :: "('v \<Rightarrow> nat) \<Rightarrow> ('k \<times> 'v) list \<Rightarrow> nat" where
  "amap_sum f m \<equiv> sum_list (map (\<lambda>(k, v). f v) m)"

lemma amap_ok_empty [simp]: "amap_ok []"
  by (simp add: amap_ok_def)

lemma amap_ok_update [simp]: "amap_ok m \<Longrightarrow> amap_ok (AList.update k v m)"
  by (simp add: amap_ok_def distinct_update)

lemma amap_ok_delete [simp]: "amap_ok m \<Longrightarrow> amap_ok (AList.delete k m)"
  by (simp add: amap_ok_def distinct_delete)

lemma map_of_update [simp]: "map_of (AList.update k v m) k' = (if k' = k then Some v else map_of m k')"
  by (simp add: update_conv')

lemma map_of_delete [simp]: "map_of (AList.delete k m) k' = (if k' = k then None else map_of m k')"
  by (simp add: delete_conv')

lemma set_update_le: "set (AList.update k v m) \<subseteq> insert (k, v) (set m)"
  by (induction m) auto

lemma set_delete_le: "set (AList.delete k m) \<subseteq> set m"
  by (auto simp: AList.delete_eq)

lemma length_update_new [alist_simps]:
  "map_of m k = None \<Longrightarrow> length (AList.update k v m) = Suc (length m)"
  by (induction m) (auto split: if_splits)

lemma length_update_old [alist_simps]:
  "map_of m k = Some w \<Longrightarrow> length (AList.update k v m) = length m"
  by (induction m) (auto split: if_splits)

lemma delete_absent: "map_of m k = None \<Longrightarrow> AList.delete k m = m"
  by (induction m) (auto split: if_splits)

lemma length_delete_old [alist_simps]:
  "amap_ok m \<Longrightarrow> map_of m k = Some w \<Longrightarrow> Suc (length (AList.delete k m)) = length m"
proof (induction m)
  case (Cons p m)
  then show ?case
    by (cases p) (auto simp: amap_ok_def delete_absent map_of_eq_None_iff split: if_splits)
qed simp

lemma sum_update_new [alist_simps]:
  "map_of m k = None \<Longrightarrow> amap_sum f (AList.update k v m) = amap_sum f m + f v"
  by (induction m) (auto split: if_splits)

lemma sum_update_old [alist_simps]:
  "map_of m k = Some w \<Longrightarrow> amap_sum f (AList.update k v m) + f w = amap_sum f m + f v"
  by (induction m) (auto split: if_splits)

lemma sum_delete_old [alist_simps]:
  "amap_ok m \<Longrightarrow> map_of m k = Some w \<Longrightarrow> amap_sum f (AList.delete k m) + f w = amap_sum f m"
proof (induction m)
  case (Cons p m)
  then show ?case
    by (cases p) (auto simp: amap_ok_def delete_absent map_of_eq_None_iff split: if_splits)
qed simp

lemma sum_member_le: "map_of m k = Some v \<Longrightarrow> f v \<le> amap_sum f m"
  by (induction m) (auto split: if_splits)

subsection \<open>Latest-wins hand-off\<close>

text \<open>
  Three components hand work from a producer that must not block to a consumer through one slot:
  the device mailbox, the encoder mailbox and the viewer frame slot. Their shared contract: after
  a post the slot holds exactly the newest item, a take empties it, and a closed slot accepts
  nothing. \<open>pending\<close> is the abstraction to the buffered item.
\<close>

locale latest_wins =
  fixes post :: "'a \<Rightarrow> 's \<Rightarrow> 's" and take_item :: "'s \<Rightarrow> 'a option \<times> 's"
    and pending :: "'s \<Rightarrow> 'a option" and accepts :: "'s \<Rightarrow> bool"
  assumes pending_post: "accepts s \<Longrightarrow> pending (post x s) = Some x"
    and accepts_post: "accepts (post x s) = accepts s"
    and post_refused: "\<not> accepts s \<Longrightarrow> post x s = s"
    and take_result: "fst (take_item s) = pending s"
    and pending_take: "pending (snd (take_item s)) = None"
    and accepts_take: "accepts (snd (take_item s)) = accepts s"
begin

lemma accepts_posts: "accepts (foldl (\<lambda>s x. post x s) s xs) = accepts s"
  by (induction xs arbitrary: s) (simp_all add: accepts_post)

lemma pending_posts:
  "accepts s \<Longrightarrow> pending (foldl (\<lambda>s x. post x s) s xs) =
    (if xs = [] then pending s else Some (last xs))"
proof (induction xs arbitrary: s)
  case (Cons x xs)
  then show ?case by (simp add: accepts_post pending_post)
qed simp

lemma take_after_posts:
  "accepts s \<Longrightarrow> xs \<noteq> [] \<Longrightarrow> fst (take_item (foldl (\<lambda>s x. post x s) s xs)) = Some (last xs)"
  by (simp add: take_result pending_posts)

lemma second_take_empty: "fst (take_item (snd (take_item s))) = None"
  by (simp add: take_result pending_take)

lemma posts_refused: "\<not> accepts s \<Longrightarrow> foldl (\<lambda>s x. post x s) s xs = s"
  by (induction xs) (simp_all add: post_refused)

end

end
