(* ===== verification/Abi_Wire.thy ===== *)
theory Abi_Wire
  imports Igpu_Prelude
begin

text \<open>
  The fixed-layout framing records of \<open>crates/infinigpu-abi/src/wire.rs\<close> and the constants
  they carry. Each \<open>repr(C)\<close> struct is a record with the fields in declaration order; the fields
  have a per-record prefix because Isabelle records share one name space. \<open>enc_T\<close> is
  \<open>T::as_bytes\<close>, \<open>dec_T\<close> is \<open>T::read_from_prefix\<close> (little-endian, no padding), and every pair
  is an instance of the \<open>wire_codec\<close> contract. The offsets asserted at compile time in
  \<open>crates/infinigpu-abi/src/lib.rs\<close> are proved at the end.
\<close>

subsection \<open>Field readers\<close>

definition rd_u16 :: "bytes \<Rightarrow> (u16 \<times> bytes) option" where
  "rd_u16 bs = (if length bs < 2 then None
     else Some (word_of_nat (nat_of_le (take 2 bs)), drop 2 bs))"

definition rd_u32 :: "bytes \<Rightarrow> (u32 \<times> bytes) option" where
  "rd_u32 bs = (if length bs < 4 then None
     else Some (word_of_nat (nat_of_le (take 4 bs)), drop 4 bs))"

definition rd_u64 :: "bytes \<Rightarrow> (u64 \<times> bytes) option" where
  "rd_u64 bs = (if length bs < 8 then None
     else Some (word_of_nat (nat_of_le (take 8 bs)), drop 8 bs))"

lemma rd_le [simp]:
  "rd_u16 (u16_le a @ r) = Some (a, r)"
  "rd_u32 (u32_le b @ r) = Some (b, r)"
  "rd_u64 (u64_le c @ r) = Some (c, r)"
  by (simp_all add: rd_u16_def rd_u32_def rd_u64_def)

lemma rd_sound:
  "rd_u16 bs = Some (a, r) \<Longrightarrow> bs = u16_le a @ r"
  "rd_u32 bs = Some (b, r) \<Longrightarrow> bs = u32_le b @ r"
  "rd_u64 bs = Some (c, r) \<Longrightarrow> bs = u64_le c @ r"
  by (auto simp: rd_u16_def rd_u32_def rd_u64_def split: if_splits)

lemma rd_None_iff [simp]:
  "rd_u16 bs = None \<longleftrightarrow> length bs < 2"
  "rd_u32 bs = None \<longleftrightarrow> length bs < 4"
  "rd_u64 bs = None \<longleftrightarrow> length bs < 8"
  by (auto simp: rd_u16_def rd_u32_def rd_u64_def)

text \<open>One step of a decoder: elimination for soundness, introduction for totality.\<close>

lemma rd_bindE:
  "rd_u16 bs \<bind> (\<lambda>(x, y). f x y) = Some z \<Longrightarrow>
     (\<And>a r. bs = u16_le a @ r \<Longrightarrow> f a r = Some z \<Longrightarrow> P) \<Longrightarrow> P"
  "rd_u32 bs \<bind> (\<lambda>(x, y). g x y) = Some z \<Longrightarrow>
     (\<And>a r. bs = u32_le a @ r \<Longrightarrow> g a r = Some z \<Longrightarrow> P) \<Longrightarrow> P"
  "rd_u64 bs \<bind> (\<lambda>(x, y). h x y) = Some z \<Longrightarrow>
     (\<And>a r. bs = u64_le a @ r \<Longrightarrow> h a r = Some z \<Longrightarrow> P) \<Longrightarrow> P"
  by (auto simp: bind_eq_Some_conv dest: rd_sound)

lemma rd_bind_total:
  "2 \<le> length bs \<Longrightarrow> (\<And>a r. length r + 2 = length bs \<Longrightarrow> f a r \<noteq> None) \<Longrightarrow>
     rd_u16 bs \<bind> (\<lambda>(x, y). f x y) \<noteq> None"
  "4 \<le> length bs \<Longrightarrow> (\<And>a r. length r + 4 = length bs \<Longrightarrow> g a r \<noteq> None) \<Longrightarrow>
     rd_u32 bs \<bind> (\<lambda>(x, y). g x y) \<noteq> None"
  "8 \<le> length bs \<Longrightarrow> (\<And>a r. length r + 8 = length bs \<Longrightarrow> h a r \<noteq> None) \<Longrightarrow>
     rd_u64 bs \<bind> (\<lambda>(x, y). h x y) \<noteq> None"
  by (simp_all add: rd_u16_def rd_u32_def rd_u64_def)

text \<open>The contract from soundness, one round trip and totality on long enough buffers.\<close>

lemma wire_codecI:
  fixes enc :: "'m \<Rightarrow> bytes" and dec :: "bytes \<Rightarrow> ('m \<times> bytes) option"
  assumes len: "\<And>m. length (enc m) = sz"
    and rt: "\<And>m rest. dec (enc m @ rest) = Some (m, rest)"
    and sound: "\<And>bs m rest. dec bs = Some (m, rest) \<Longrightarrow> bs = enc m @ rest"
    and enough: "\<And>bs. sz \<le> length bs \<Longrightarrow> dec bs \<noteq> None"
  shows "wire_codec enc dec sz"
proof
  fix bs :: bytes assume short: "length bs < sz"
  show "dec bs = None"
  proof (cases "dec bs")
    case (Some p)
    then obtain m rest where "dec bs = Some (m, rest)" by (cases p) auto
    then have "bs = enc m @ rest" by (rule sound)
    then have "sz \<le> length bs" using len [of m] by simp
    with short show ?thesis by simp
  qed
qed (use len rt sound enough in blast)+

subsection \<open>Constants\<close>

text \<open>\<open>wire::msg_type\<close>\<close>

definition MSG_NEGOTIATE :: u32 where [simp]: "MSG_NEGOTIATE = 0x1"
definition MSG_GET_CAPSETS :: u32 where [simp]: "MSG_GET_CAPSETS = 0x2"
definition MSG_GET_DEVICE_INFO :: u32 where [simp]: "MSG_GET_DEVICE_INFO = 0x3"
definition MSG_CTX_CREATE :: u32 where [simp]: "MSG_CTX_CREATE = 0x10"
definition MSG_CTX_ATTACH_RING :: u32 where [simp]: "MSG_CTX_ATTACH_RING = 0x11"
definition MSG_CTX_DESTROY :: u32 where [simp]: "MSG_CTX_DESTROY = 0x12"
definition MSG_RESOURCE_CREATE_BLOB :: u32 where [simp]: "MSG_RESOURCE_CREATE_BLOB = 0x20"
definition MSG_RESOURCE_ATTACH_BACKING :: u32 where [simp]: "MSG_RESOURCE_ATTACH_BACKING = 0x21"
definition MSG_RESOURCE_MAP_BLOB :: u32 where [simp]: "MSG_RESOURCE_MAP_BLOB = 0x22"
definition MSG_RESOURCE_UNMAP_BLOB :: u32 where [simp]: "MSG_RESOURCE_UNMAP_BLOB = 0x23"
definition MSG_RESOURCE_DESTROY :: u32 where [simp]: "MSG_RESOURCE_DESTROY = 0x24"
definition MSG_SUBMIT_CMD :: u32 where [simp]: "MSG_SUBMIT_CMD = 0x30"
definition MSG_FENCE_WAIT :: u32 where [simp]: "MSG_FENCE_WAIT = 0x31"
definition MSG_SET_SCANOUT_BLOB :: u32 where [simp]: "MSG_SET_SCANOUT_BLOB = 0x40"
definition MSG_RESOURCE_FLUSH :: u32 where [simp]: "MSG_RESOURCE_FLUSH = 0x41"
definition MSG_CURSOR_UPDATE :: u32 where [simp]: "MSG_CURSOR_UPDATE = 0x42"
definition MSG_MEDIA_REGION :: u32 where [simp]: "MSG_MEDIA_REGION = 0x43"
definition MSG_RESET :: u32 where [simp]: "MSG_RESET = 0x50"
definition MSG_EVENT :: u32 where [simp]: "MSG_EVENT = 0x51"

text \<open>\<open>wire::capset\<close>\<close>

definition CAP_VULKAN :: u32 where [simp]: "CAP_VULKAN = 1"
definition CAP_D3D12 :: u32 where [simp]: "CAP_D3D12 = 2"
definition CAP_DISPLAY_ONLY :: u32 where [simp]: "CAP_DISPLAY_ONLY = 4"
definition CAP_DISPLAY_2D :: u32 where [simp]: "CAP_DISPLAY_2D = 8"

text \<open>\<open>wire::api_type\<close>\<close>

definition API_DISPLAY :: u32 where [simp]: "API_DISPLAY = 0"
definition API_VULKAN :: u32 where [simp]: "API_VULKAN = 1"
definition API_D3D12 :: u32 where [simp]: "API_D3D12 = 2"

text \<open>\<open>wire::encoding\<close>\<close>

definition ENC_VULKAN_VENUSLIKE :: u32 where [simp]: "ENC_VULKAN_VENUSLIKE = 1"
definition ENC_D3D12_DDI :: u32 where [simp]: "ENC_D3D12_DDI = 2"
definition ENC_DXGI_PRESENT :: u32 where [simp]: "ENC_DXGI_PRESENT = 3"
definition ENC_DISPLAY_CLEAR :: u32 where [simp]: "ENC_DISPLAY_CLEAR = 0x100"
definition ENC_DISPLAY_SCANOUT :: u32 where [simp]: "ENC_DISPLAY_SCANOUT = 0x101"
definition ENC_DISPLAY_SCANOUT_DAMAGE :: u32 where [simp]: "ENC_DISPLAY_SCANOUT_DAMAGE = 0x102"

text \<open>\<open>wire::blob_mem\<close>\<close>

definition BLOB_GUEST :: u32 where [simp]: "BLOB_GUEST = 1"
definition BLOB_HOST3D :: u32 where [simp]: "BLOB_HOST3D = 2"
definition BLOB_HOST3D_GUEST :: u32 where [simp]: "BLOB_HOST3D_GUEST = 3"

text \<open>\<open>wire::format\<close>\<close>

definition FMT_B8G8R8A8 :: u32 where [simp]: "FMT_B8G8R8A8 = 1"
definition FMT_R8G8B8A8 :: u32 where [simp]: "FMT_R8G8B8A8 = 2"
definition FMT_B8G8R8X8 :: u32 where [simp]: "FMT_B8G8R8X8 = 3"

text \<open>\<open>wire::cursor_flags\<close>\<close>

definition CURSOR_VISIBLE :: u32 where [simp]: "CURSOR_VISIBLE = 1"
definition CURSOR_MOVE_ONLY :: u32 where [simp]: "CURSOR_MOVE_ONLY = 2"
definition CURSOR_SHAPE_BY_RESID :: u32 where [simp]: "CURSOR_SHAPE_BY_RESID = 4"
definition CURSOR_PREMULTIPLIED :: u32 where [simp]: "CURSOR_PREMULTIPLIED = 8"
definition CURSOR_WARP :: u32 where [simp]: "CURSOR_WARP = 16"
definition CURSOR_RELATIVE :: u32 where [simp]: "CURSOR_RELATIVE = 32"

text \<open>\<open>wire::desc_flags\<close>\<close>

definition DESC_FENCED :: u32 where [simp]: "DESC_FENCED = 1"
definition DESC_INLINE :: u32 where [simp]: "DESC_INLINE = 2"
definition DESC_PAYLOAD_ABS :: u32 where [simp]: "DESC_PAYLOAD_ABS = 4"

text \<open>\<open>wire::vk_op\<close>\<close>

definition VK_OP_CLEAR :: u32 where [simp]: "VK_OP_CLEAR = 0"
definition VK_OP_TRIANGLE :: u32 where [simp]: "VK_OP_TRIANGLE = 1"
definition VK_OP_FORWARDED :: u32 where [simp]: "VK_OP_FORWARDED = 2"
definition VK_OP_FORWARDED_CMDLIST :: u32 where [simp]: "VK_OP_FORWARDED_CMDLIST = 3"

text \<open>\<open>wire::vk_vformat\<close>\<close>

definition VF_R32_SFLOAT :: u32 where [simp]: "VF_R32_SFLOAT = 0"
definition VF_R32G32_SFLOAT :: u32 where [simp]: "VF_R32G32_SFLOAT = 1"
definition VF_R32G32B32_SFLOAT :: u32 where [simp]: "VF_R32G32B32_SFLOAT = 2"
definition VF_R32G32B32A32_SFLOAT :: u32 where [simp]: "VF_R32G32B32A32_SFLOAT = 3"
definition VF_R8G8B8A8_UNORM :: u32 where [simp]: "VF_R8G8B8A8_UNORM = 4"
definition VF_R32_UINT :: u32 where [simp]: "VF_R32_UINT = 5"

text \<open>\<open>wire::index_type\<close>\<close>

definition INDEX_U16 :: u32 where [simp]: "INDEX_U16 = 0"
definition INDEX_U32 :: u32 where [simp]: "INDEX_U32 = 1"

text \<open>\<open>wire::depth_compare\<close>\<close>

definition CMP_NEVER :: u32 where [simp]: "CMP_NEVER = 0"
definition CMP_LESS :: u32 where [simp]: "CMP_LESS = 1"
definition CMP_EQUAL :: u32 where [simp]: "CMP_EQUAL = 2"
definition CMP_LESS_OR_EQUAL :: u32 where [simp]: "CMP_LESS_OR_EQUAL = 3"
definition CMP_GREATER :: u32 where [simp]: "CMP_GREATER = 4"
definition CMP_NOT_EQUAL :: u32 where [simp]: "CMP_NOT_EQUAL = 5"
definition CMP_GREATER_OR_EQUAL :: u32 where [simp]: "CMP_GREATER_OR_EQUAL = 6"
definition CMP_ALWAYS :: u32 where [simp]: "CMP_ALWAYS = 7"

text \<open>\<open>wire::depth_flags\<close>\<close>

definition DEPTH_TEST :: u32 where [simp]: "DEPTH_TEST = 1"
definition DEPTH_WRITE :: u32 where [simp]: "DEPTH_WRITE = 2"
definition DEPTH_COMPARE_SHIFT :: u32 where [simp]: "DEPTH_COMPARE_SHIFT = 4"
definition DEPTH_COMPARE_MASK :: u32 where [simp]: "DEPTH_COMPARE_MASK = 0x70"

text \<open>\<open>wire::cull_mode\<close>\<close>

definition CULL_NONE :: u32 where [simp]: "CULL_NONE = 0"
definition CULL_FRONT :: u32 where [simp]: "CULL_FRONT = 1"
definition CULL_BACK :: u32 where [simp]: "CULL_BACK = 2"
definition CULL_FRONT_AND_BACK :: u32 where [simp]: "CULL_FRONT_AND_BACK = 3"

text \<open>\<open>wire::raster_flags\<close>\<close>

definition RASTER_CULL_SHIFT :: u32 where [simp]: "RASTER_CULL_SHIFT = 0"
definition RASTER_CULL_MASK :: u32 where [simp]: "RASTER_CULL_MASK = 0x3"
definition RASTER_FRONT_FACE_CW :: u32 where [simp]: "RASTER_FRONT_FACE_CW = 4"
definition RASTER_BLEND :: u32 where [simp]: "RASTER_BLEND = 8"

text \<open>\<open>wire::vk_topology\<close>\<close>

definition TOPO_TRIANGLE_LIST :: u32 where [simp]: "TOPO_TRIANGLE_LIST = 0"
definition TOPO_TRIANGLE_STRIP :: u32 where [simp]: "TOPO_TRIANGLE_STRIP = 1"

text \<open>\<open>wire::sampler_flags\<close>\<close>

definition SAMPLER_LINEAR :: u32 where [simp]: "SAMPLER_LINEAR = 1"
definition SAMPLER_REPEAT :: u32 where [simp]: "SAMPLER_REPEAT = 2"

subsection \<open>Packed state words\<close>

definition depth_pack :: "bool \<Rightarrow> bool \<Rightarrow> u32 \<Rightarrow> u32" where
  "depth_pack test write compare =
     or (or (of_bool test) (push_bit 1 (of_bool write))) (push_bit 4 (and compare 7))"

definition raster_pack :: "u32 \<Rightarrow> bool \<Rightarrow> bool \<Rightarrow> u32" where
  "raster_pack cull front_face_cw blend =
     or (or (push_bit 0 (and cull RASTER_CULL_MASK)) (push_bit 2 (of_bool front_face_cw)))
        (push_bit 3 (of_bool blend))"

definition raster_cull :: "u32 \<Rightarrow> u32" where
  "raster_cull flags = and (drop_bit 0 flags) RASTER_CULL_MASK"

subsection \<open>Records\<close>

type_synonym rgba_bits = "u32 \<times> u32 \<times> u32 \<times> u32"

definition rgba_le :: "rgba_bits \<Rightarrow> bytes" where
  "rgba_le c = (case c of (r, g, b, a) \<Rightarrow> u32_le r @ u32_le g @ u32_le b @ u32_le a)"

definition rd_rgba :: "bytes \<Rightarrow> (rgba_bits \<times> bytes) option" where
  "rd_rgba bs = do {
     (r, bs) \<leftarrow> rd_u32 bs; (g, bs) \<leftarrow> rd_u32 bs; (b, bs) \<leftarrow> rd_u32 bs; (a, bs) \<leftarrow> rd_u32 bs;
     Some ((r, g, b, a), bs) }"

lemma length_rgba_le [simp]: "length (rgba_le c) = 16"
  by (simp add: rgba_le_def split: prod.splits)

lemma rd_rgba_le [simp]: "rd_rgba (rgba_le c @ r) = Some (c, r)"
  by (cases c) (simp add: rgba_le_def rd_rgba_def)

lemma rd_rgba_sound: "rd_rgba bs = Some (c, r) \<Longrightarrow> bs = rgba_le c @ r"
  unfolding rd_rgba_def by (elim rd_bindE) (auto simp: rgba_le_def)

lemma rd_rgba_bindE:
  "rd_rgba bs \<bind> (\<lambda>(x, y). f x y) = Some z \<Longrightarrow>
     (\<And>a r. bs = rgba_le a @ r \<Longrightarrow> f a r = Some z \<Longrightarrow> P) \<Longrightarrow> P"
  by (auto simp: bind_eq_Some_conv dest: rd_rgba_sound)

lemma rd_rgba_total: "16 \<le> length bs \<Longrightarrow> rd_rgba bs \<noteq> None"
  unfolding rd_rgba_def by (intro rd_bind_total) (linarith | simp)+

lemma rd_rgba_bind_total:
  assumes "16 \<le> length bs" "\<And>a r. length r + 16 = length bs \<Longrightarrow> f a r \<noteq> None"
  shows "rd_rgba bs \<bind> (\<lambda>(x, y). f x y) \<noteq> None"
proof -
  obtain a r where ar: "rd_rgba bs = Some (a, r)" using rd_rgba_total [OF assms(1)] by auto
  have "length bs = 16 + length r" using arg_cong [OF rd_rgba_sound [OF ar], of length] by simp
  then have "f a r \<noteq> None" by (intro assms(2)) simp
  with ar show ?thesis by simp
qed

lemmas rd_elims = rd_bindE rd_rgba_bindE
lemmas rd_totals = rd_bind_total rd_rgba_bind_total

record Descriptor =
  d_msg_type :: u32
  d_flags :: u32
  d_len :: u32
  d_data_offset :: u32
  d_seqno :: u64
  d_payload_addr :: u64

definition enc_Descriptor :: "Descriptor \<Rightarrow> bytes" where
  "enc_Descriptor m =
     u32_le (d_msg_type m) @ u32_le (d_flags m) @ u32_le (d_len m) @ u32_le (d_data_offset m) @
     u64_le (d_seqno m) @ u64_le (d_payload_addr m)"

definition dec_Descriptor :: "bytes \<Rightarrow> (Descriptor \<times> bytes) option" where
  "dec_Descriptor bs = do {
     (x0, bs) \<leftarrow> rd_u32 bs;
     (x1, bs) \<leftarrow> rd_u32 bs;
     (x2, bs) \<leftarrow> rd_u32 bs;
     (x3, bs) \<leftarrow> rd_u32 bs;
     (x4, bs) \<leftarrow> rd_u64 bs;
     (x5, bs) \<leftarrow> rd_u64 bs;
     Some (\<lparr>d_msg_type = x0, d_flags = x1, d_len = x2, d_data_offset = x3,
       d_seqno = x4, d_payload_addr = x5\<rparr>, bs) }"

interpretation d_codec: wire_codec enc_Descriptor dec_Descriptor 32
proof (rule wire_codecI)
  show "length (enc_Descriptor m) = 32" for m
    by (simp add: enc_Descriptor_def)
  show "dec_Descriptor (enc_Descriptor m @ rest) = Some (m, rest)" for m rest
    by (simp add: enc_Descriptor_def dec_Descriptor_def)
  show "bs = enc_Descriptor m @ rest" if "dec_Descriptor bs = Some (m, rest)" for bs m rest
    using that unfolding dec_Descriptor_def by (elim rd_elims) (clarsimp simp: enc_Descriptor_def)
  show "dec_Descriptor bs \<noteq> None" if "32 \<le> length bs" for bs
    unfolding dec_Descriptor_def using that by (intro rd_totals) (linarith | simp)+
qed

record MsgHeader =
  mh_msg_type :: u32
  mh_length :: u32

definition enc_MsgHeader :: "MsgHeader \<Rightarrow> bytes" where
  "enc_MsgHeader m =
     u32_le (mh_msg_type m) @ u32_le (mh_length m)"

definition dec_MsgHeader :: "bytes \<Rightarrow> (MsgHeader \<times> bytes) option" where
  "dec_MsgHeader bs = do {
     (x0, bs) \<leftarrow> rd_u32 bs;
     (x1, bs) \<leftarrow> rd_u32 bs;
     Some (\<lparr>mh_msg_type = x0, mh_length = x1\<rparr>, bs) }"

interpretation mh_codec: wire_codec enc_MsgHeader dec_MsgHeader 8
proof (rule wire_codecI)
  show "length (enc_MsgHeader m) = 8" for m
    by (simp add: enc_MsgHeader_def)
  show "dec_MsgHeader (enc_MsgHeader m @ rest) = Some (m, rest)" for m rest
    by (simp add: enc_MsgHeader_def dec_MsgHeader_def)
  show "bs = enc_MsgHeader m @ rest" if "dec_MsgHeader bs = Some (m, rest)" for bs m rest
    using that unfolding dec_MsgHeader_def by (elim rd_elims) (clarsimp simp: enc_MsgHeader_def)
  show "dec_MsgHeader bs \<noteq> None" if "8 \<le> length bs" for bs
    unfolding dec_MsgHeader_def using that by (intro rd_totals) (linarith | simp)+
qed

record RingGeometry =
  rg_magic :: u32
  rg_abi_major :: u16
  rg_abi_minor :: u16
  rg_capacity :: u32
  rg_desc_stride :: u32
  rg_data_offset :: u32
  rg_data_len :: u32
  rg_flags :: u32
  rg_reserved :: u32

definition enc_RingGeometry :: "RingGeometry \<Rightarrow> bytes" where
  "enc_RingGeometry m =
     u32_le (rg_magic m) @ u16_le (rg_abi_major m) @ u16_le (rg_abi_minor m) @
     u32_le (rg_capacity m) @ u32_le (rg_desc_stride m) @ u32_le (rg_data_offset m) @
     u32_le (rg_data_len m) @ u32_le (rg_flags m) @ u32_le (rg_reserved m)"

definition dec_RingGeometry :: "bytes \<Rightarrow> (RingGeometry \<times> bytes) option" where
  "dec_RingGeometry bs = do {
     (x0, bs) \<leftarrow> rd_u32 bs;
     (x1, bs) \<leftarrow> rd_u16 bs;
     (x2, bs) \<leftarrow> rd_u16 bs;
     (x3, bs) \<leftarrow> rd_u32 bs;
     (x4, bs) \<leftarrow> rd_u32 bs;
     (x5, bs) \<leftarrow> rd_u32 bs;
     (x6, bs) \<leftarrow> rd_u32 bs;
     (x7, bs) \<leftarrow> rd_u32 bs;
     (x8, bs) \<leftarrow> rd_u32 bs;
     Some (\<lparr>rg_magic = x0, rg_abi_major = x1, rg_abi_minor = x2, rg_capacity = x3,
       rg_desc_stride = x4, rg_data_offset = x5, rg_data_len = x6, rg_flags = x7,
       rg_reserved = x8\<rparr>, bs) }"

interpretation rg_codec: wire_codec enc_RingGeometry dec_RingGeometry 32
proof (rule wire_codecI)
  show "length (enc_RingGeometry m) = 32" for m
    by (simp add: enc_RingGeometry_def)
  show "dec_RingGeometry (enc_RingGeometry m @ rest) = Some (m, rest)" for m rest
    by (simp add: enc_RingGeometry_def dec_RingGeometry_def)
  show "bs = enc_RingGeometry m @ rest" if "dec_RingGeometry bs = Some (m, rest)" for bs m rest
    using that unfolding dec_RingGeometry_def by (elim rd_elims) (clarsimp simp: enc_RingGeometry_def)
  show "dec_RingGeometry bs \<noteq> None" if "32 \<le> length bs" for bs
    unfolding dec_RingGeometry_def using that by (intro rd_totals) (linarith | simp)+
qed

record Negotiate =
  ng_abi_major :: u16
  ng_abi_minor :: u16
  ng_capsets :: u32
  ng_flags :: u32
  ng_reserved :: u32

definition enc_Negotiate :: "Negotiate \<Rightarrow> bytes" where
  "enc_Negotiate m =
     u16_le (ng_abi_major m) @ u16_le (ng_abi_minor m) @ u32_le (ng_capsets m) @
     u32_le (ng_flags m) @ u32_le (ng_reserved m)"

definition dec_Negotiate :: "bytes \<Rightarrow> (Negotiate \<times> bytes) option" where
  "dec_Negotiate bs = do {
     (x0, bs) \<leftarrow> rd_u16 bs;
     (x1, bs) \<leftarrow> rd_u16 bs;
     (x2, bs) \<leftarrow> rd_u32 bs;
     (x3, bs) \<leftarrow> rd_u32 bs;
     (x4, bs) \<leftarrow> rd_u32 bs;
     Some (\<lparr>ng_abi_major = x0, ng_abi_minor = x1, ng_capsets = x2, ng_flags = x3,
       ng_reserved = x4\<rparr>, bs) }"

interpretation ng_codec: wire_codec enc_Negotiate dec_Negotiate 16
proof (rule wire_codecI)
  show "length (enc_Negotiate m) = 16" for m
    by (simp add: enc_Negotiate_def)
  show "dec_Negotiate (enc_Negotiate m @ rest) = Some (m, rest)" for m rest
    by (simp add: enc_Negotiate_def dec_Negotiate_def)
  show "bs = enc_Negotiate m @ rest" if "dec_Negotiate bs = Some (m, rest)" for bs m rest
    using that unfolding dec_Negotiate_def by (elim rd_elims) (clarsimp simp: enc_Negotiate_def)
  show "dec_Negotiate bs \<noteq> None" if "16 \<le> length bs" for bs
    unfolding dec_Negotiate_def using that by (intro rd_totals) (linarith | simp)+
qed

record CtxCreate =
  cc_ctx_id :: u32
  cc_capset_id :: u32
  cc_api_type :: u32
  cc_flags :: u32

definition enc_CtxCreate :: "CtxCreate \<Rightarrow> bytes" where
  "enc_CtxCreate m =
     u32_le (cc_ctx_id m) @ u32_le (cc_capset_id m) @ u32_le (cc_api_type m) @
     u32_le (cc_flags m)"

definition dec_CtxCreate :: "bytes \<Rightarrow> (CtxCreate \<times> bytes) option" where
  "dec_CtxCreate bs = do {
     (x0, bs) \<leftarrow> rd_u32 bs;
     (x1, bs) \<leftarrow> rd_u32 bs;
     (x2, bs) \<leftarrow> rd_u32 bs;
     (x3, bs) \<leftarrow> rd_u32 bs;
     Some (\<lparr>cc_ctx_id = x0, cc_capset_id = x1, cc_api_type = x2, cc_flags = x3\<rparr>, bs) }"

interpretation cc_codec: wire_codec enc_CtxCreate dec_CtxCreate 16
proof (rule wire_codecI)
  show "length (enc_CtxCreate m) = 16" for m
    by (simp add: enc_CtxCreate_def)
  show "dec_CtxCreate (enc_CtxCreate m @ rest) = Some (m, rest)" for m rest
    by (simp add: enc_CtxCreate_def dec_CtxCreate_def)
  show "bs = enc_CtxCreate m @ rest" if "dec_CtxCreate bs = Some (m, rest)" for bs m rest
    using that unfolding dec_CtxCreate_def by (elim rd_elims) (clarsimp simp: enc_CtxCreate_def)
  show "dec_CtxCreate bs \<noteq> None" if "16 \<le> length bs" for bs
    unfolding dec_CtxCreate_def using that by (intro rd_totals) (linarith | simp)+
qed

record ResourceCreateBlob =
  rcb_res_id :: u32
  rcb_ctx_id :: u32
  rcb_blob_mem :: u32
  rcb_blob_flags :: u32
  rcb_size :: u64

definition enc_ResourceCreateBlob :: "ResourceCreateBlob \<Rightarrow> bytes" where
  "enc_ResourceCreateBlob m =
     u32_le (rcb_res_id m) @ u32_le (rcb_ctx_id m) @ u32_le (rcb_blob_mem m) @
     u32_le (rcb_blob_flags m) @ u64_le (rcb_size m)"

definition dec_ResourceCreateBlob :: "bytes \<Rightarrow> (ResourceCreateBlob \<times> bytes) option" where
  "dec_ResourceCreateBlob bs = do {
     (x0, bs) \<leftarrow> rd_u32 bs;
     (x1, bs) \<leftarrow> rd_u32 bs;
     (x2, bs) \<leftarrow> rd_u32 bs;
     (x3, bs) \<leftarrow> rd_u32 bs;
     (x4, bs) \<leftarrow> rd_u64 bs;
     Some (\<lparr>rcb_res_id = x0, rcb_ctx_id = x1, rcb_blob_mem = x2, rcb_blob_flags = x3,
       rcb_size = x4\<rparr>, bs) }"

interpretation rcb_codec: wire_codec enc_ResourceCreateBlob dec_ResourceCreateBlob 24
proof (rule wire_codecI)
  show "length (enc_ResourceCreateBlob m) = 24" for m
    by (simp add: enc_ResourceCreateBlob_def)
  show "dec_ResourceCreateBlob (enc_ResourceCreateBlob m @ rest) = Some (m, rest)" for m rest
    by (simp add: enc_ResourceCreateBlob_def dec_ResourceCreateBlob_def)
  show "bs = enc_ResourceCreateBlob m @ rest" if "dec_ResourceCreateBlob bs = Some (m, rest)" for bs m rest
    using that unfolding dec_ResourceCreateBlob_def by (elim rd_elims) (clarsimp simp: enc_ResourceCreateBlob_def)
  show "dec_ResourceCreateBlob bs \<noteq> None" if "24 \<le> length bs" for bs
    unfolding dec_ResourceCreateBlob_def using that by (intro rd_totals) (linarith | simp)+
qed

record AttachBacking =
  ab_res_id :: u32
  ab_num_entries :: u32

definition enc_AttachBacking :: "AttachBacking \<Rightarrow> bytes" where
  "enc_AttachBacking m =
     u32_le (ab_res_id m) @ u32_le (ab_num_entries m)"

definition dec_AttachBacking :: "bytes \<Rightarrow> (AttachBacking \<times> bytes) option" where
  "dec_AttachBacking bs = do {
     (x0, bs) \<leftarrow> rd_u32 bs;
     (x1, bs) \<leftarrow> rd_u32 bs;
     Some (\<lparr>ab_res_id = x0, ab_num_entries = x1\<rparr>, bs) }"

interpretation ab_codec: wire_codec enc_AttachBacking dec_AttachBacking 8
proof (rule wire_codecI)
  show "length (enc_AttachBacking m) = 8" for m
    by (simp add: enc_AttachBacking_def)
  show "dec_AttachBacking (enc_AttachBacking m @ rest) = Some (m, rest)" for m rest
    by (simp add: enc_AttachBacking_def dec_AttachBacking_def)
  show "bs = enc_AttachBacking m @ rest" if "dec_AttachBacking bs = Some (m, rest)" for bs m rest
    using that unfolding dec_AttachBacking_def by (elim rd_elims) (clarsimp simp: enc_AttachBacking_def)
  show "dec_AttachBacking bs \<noteq> None" if "8 \<le> length bs" for bs
    unfolding dec_AttachBacking_def using that by (intro rd_totals) (linarith | simp)+
qed

record MemEntry =
  me_addr :: u64
  me_length :: u64

definition enc_MemEntry :: "MemEntry \<Rightarrow> bytes" where
  "enc_MemEntry m =
     u64_le (me_addr m) @ u64_le (me_length m)"

definition dec_MemEntry :: "bytes \<Rightarrow> (MemEntry \<times> bytes) option" where
  "dec_MemEntry bs = do {
     (x0, bs) \<leftarrow> rd_u64 bs;
     (x1, bs) \<leftarrow> rd_u64 bs;
     Some (\<lparr>me_addr = x0, me_length = x1\<rparr>, bs) }"

interpretation me_codec: wire_codec enc_MemEntry dec_MemEntry 16
proof (rule wire_codecI)
  show "length (enc_MemEntry m) = 16" for m
    by (simp add: enc_MemEntry_def)
  show "dec_MemEntry (enc_MemEntry m @ rest) = Some (m, rest)" for m rest
    by (simp add: enc_MemEntry_def dec_MemEntry_def)
  show "bs = enc_MemEntry m @ rest" if "dec_MemEntry bs = Some (m, rest)" for bs m rest
    using that unfolding dec_MemEntry_def by (elim rd_elims) (clarsimp simp: enc_MemEntry_def)
  show "dec_MemEntry bs \<noteq> None" if "16 \<le> length bs" for bs
    unfolding dec_MemEntry_def using that by (intro rd_totals) (linarith | simp)+
qed

record MapBlob =
  mb_res_id :: u32
  mb_flags :: u32
  mb_offset :: u64

definition enc_MapBlob :: "MapBlob \<Rightarrow> bytes" where
  "enc_MapBlob m =
     u32_le (mb_res_id m) @ u32_le (mb_flags m) @ u64_le (mb_offset m)"

definition dec_MapBlob :: "bytes \<Rightarrow> (MapBlob \<times> bytes) option" where
  "dec_MapBlob bs = do {
     (x0, bs) \<leftarrow> rd_u32 bs;
     (x1, bs) \<leftarrow> rd_u32 bs;
     (x2, bs) \<leftarrow> rd_u64 bs;
     Some (\<lparr>mb_res_id = x0, mb_flags = x1, mb_offset = x2\<rparr>, bs) }"

interpretation mb_codec: wire_codec enc_MapBlob dec_MapBlob 16
proof (rule wire_codecI)
  show "length (enc_MapBlob m) = 16" for m
    by (simp add: enc_MapBlob_def)
  show "dec_MapBlob (enc_MapBlob m @ rest) = Some (m, rest)" for m rest
    by (simp add: enc_MapBlob_def dec_MapBlob_def)
  show "bs = enc_MapBlob m @ rest" if "dec_MapBlob bs = Some (m, rest)" for bs m rest
    using that unfolding dec_MapBlob_def by (elim rd_elims) (clarsimp simp: enc_MapBlob_def)
  show "dec_MapBlob bs \<noteq> None" if "16 \<le> length bs" for bs
    unfolding dec_MapBlob_def using that by (intro rd_totals) (linarith | simp)+
qed

record SubmitCmd =
  sc_ctx_id :: u32
  sc_encoding :: u32
  sc_payload_len :: u32
  sc_flags :: u32
  sc_seqno :: u64
  sc_in_fence :: u64
  sc_out_fence :: u64

definition enc_SubmitCmd :: "SubmitCmd \<Rightarrow> bytes" where
  "enc_SubmitCmd m =
     u32_le (sc_ctx_id m) @ u32_le (sc_encoding m) @ u32_le (sc_payload_len m) @
     u32_le (sc_flags m) @ u64_le (sc_seqno m) @ u64_le (sc_in_fence m) @ u64_le (sc_out_fence m)"

definition dec_SubmitCmd :: "bytes \<Rightarrow> (SubmitCmd \<times> bytes) option" where
  "dec_SubmitCmd bs = do {
     (x0, bs) \<leftarrow> rd_u32 bs;
     (x1, bs) \<leftarrow> rd_u32 bs;
     (x2, bs) \<leftarrow> rd_u32 bs;
     (x3, bs) \<leftarrow> rd_u32 bs;
     (x4, bs) \<leftarrow> rd_u64 bs;
     (x5, bs) \<leftarrow> rd_u64 bs;
     (x6, bs) \<leftarrow> rd_u64 bs;
     Some (\<lparr>sc_ctx_id = x0, sc_encoding = x1, sc_payload_len = x2, sc_flags = x3,
       sc_seqno = x4, sc_in_fence = x5, sc_out_fence = x6\<rparr>, bs) }"

interpretation sc_codec: wire_codec enc_SubmitCmd dec_SubmitCmd 40
proof (rule wire_codecI)
  show "length (enc_SubmitCmd m) = 40" for m
    by (simp add: enc_SubmitCmd_def)
  show "dec_SubmitCmd (enc_SubmitCmd m @ rest) = Some (m, rest)" for m rest
    by (simp add: enc_SubmitCmd_def dec_SubmitCmd_def)
  show "bs = enc_SubmitCmd m @ rest" if "dec_SubmitCmd bs = Some (m, rest)" for bs m rest
    using that unfolding dec_SubmitCmd_def by (elim rd_elims) (clarsimp simp: enc_SubmitCmd_def)
  show "dec_SubmitCmd bs \<noteq> None" if "40 \<le> length bs" for bs
    unfolding dec_SubmitCmd_def using that by (intro rd_totals) (linarith | simp)+
qed

record Fence =
  fe_ctx_id :: u32
  fe_flags :: u32
  fe_seqno :: u64

definition enc_Fence :: "Fence \<Rightarrow> bytes" where
  "enc_Fence m =
     u32_le (fe_ctx_id m) @ u32_le (fe_flags m) @ u64_le (fe_seqno m)"

definition dec_Fence :: "bytes \<Rightarrow> (Fence \<times> bytes) option" where
  "dec_Fence bs = do {
     (x0, bs) \<leftarrow> rd_u32 bs;
     (x1, bs) \<leftarrow> rd_u32 bs;
     (x2, bs) \<leftarrow> rd_u64 bs;
     Some (\<lparr>fe_ctx_id = x0, fe_flags = x1, fe_seqno = x2\<rparr>, bs) }"

interpretation fe_codec: wire_codec enc_Fence dec_Fence 16
proof (rule wire_codecI)
  show "length (enc_Fence m) = 16" for m
    by (simp add: enc_Fence_def)
  show "dec_Fence (enc_Fence m @ rest) = Some (m, rest)" for m rest
    by (simp add: enc_Fence_def dec_Fence_def)
  show "bs = enc_Fence m @ rest" if "dec_Fence bs = Some (m, rest)" for bs m rest
    using that unfolding dec_Fence_def by (elim rd_elims) (clarsimp simp: enc_Fence_def)
  show "dec_Fence bs \<noteq> None" if "16 \<le> length bs" for bs
    unfolding dec_Fence_def using that by (intro rd_totals) (linarith | simp)+
qed

record SetScanoutBlob =
  ssb_scanout_id :: u32
  ssb_res_id :: u32
  ssb_width :: u32
  ssb_height :: u32
  ssb_format :: u32
  ssb_stride :: u32

definition enc_SetScanoutBlob :: "SetScanoutBlob \<Rightarrow> bytes" where
  "enc_SetScanoutBlob m =
     u32_le (ssb_scanout_id m) @ u32_le (ssb_res_id m) @ u32_le (ssb_width m) @
     u32_le (ssb_height m) @ u32_le (ssb_format m) @ u32_le (ssb_stride m)"

definition dec_SetScanoutBlob :: "bytes \<Rightarrow> (SetScanoutBlob \<times> bytes) option" where
  "dec_SetScanoutBlob bs = do {
     (x0, bs) \<leftarrow> rd_u32 bs;
     (x1, bs) \<leftarrow> rd_u32 bs;
     (x2, bs) \<leftarrow> rd_u32 bs;
     (x3, bs) \<leftarrow> rd_u32 bs;
     (x4, bs) \<leftarrow> rd_u32 bs;
     (x5, bs) \<leftarrow> rd_u32 bs;
     Some (\<lparr>ssb_scanout_id = x0, ssb_res_id = x1, ssb_width = x2, ssb_height = x3,
       ssb_format = x4, ssb_stride = x5\<rparr>, bs) }"

interpretation ssb_codec: wire_codec enc_SetScanoutBlob dec_SetScanoutBlob 24
proof (rule wire_codecI)
  show "length (enc_SetScanoutBlob m) = 24" for m
    by (simp add: enc_SetScanoutBlob_def)
  show "dec_SetScanoutBlob (enc_SetScanoutBlob m @ rest) = Some (m, rest)" for m rest
    by (simp add: enc_SetScanoutBlob_def dec_SetScanoutBlob_def)
  show "bs = enc_SetScanoutBlob m @ rest" if "dec_SetScanoutBlob bs = Some (m, rest)" for bs m rest
    using that unfolding dec_SetScanoutBlob_def by (elim rd_elims) (clarsimp simp: enc_SetScanoutBlob_def)
  show "dec_SetScanoutBlob bs \<noteq> None" if "24 \<le> length bs" for bs
    unfolding dec_SetScanoutBlob_def using that by (intro rd_totals) (linarith | simp)+
qed

record ResourceFlush =
  rf_res_id :: u32
  rf_x :: u32
  rf_y :: u32
  rf_w :: u32
  rf_h :: u32
  rf_reserved :: u32

definition enc_ResourceFlush :: "ResourceFlush \<Rightarrow> bytes" where
  "enc_ResourceFlush m =
     u32_le (rf_res_id m) @ u32_le (rf_x m) @ u32_le (rf_y m) @ u32_le (rf_w m) @
     u32_le (rf_h m) @ u32_le (rf_reserved m)"

definition dec_ResourceFlush :: "bytes \<Rightarrow> (ResourceFlush \<times> bytes) option" where
  "dec_ResourceFlush bs = do {
     (x0, bs) \<leftarrow> rd_u32 bs;
     (x1, bs) \<leftarrow> rd_u32 bs;
     (x2, bs) \<leftarrow> rd_u32 bs;
     (x3, bs) \<leftarrow> rd_u32 bs;
     (x4, bs) \<leftarrow> rd_u32 bs;
     (x5, bs) \<leftarrow> rd_u32 bs;
     Some (\<lparr>rf_res_id = x0, rf_x = x1, rf_y = x2, rf_w = x3,
       rf_h = x4, rf_reserved = x5\<rparr>, bs) }"

interpretation rf_codec: wire_codec enc_ResourceFlush dec_ResourceFlush 24
proof (rule wire_codecI)
  show "length (enc_ResourceFlush m) = 24" for m
    by (simp add: enc_ResourceFlush_def)
  show "dec_ResourceFlush (enc_ResourceFlush m @ rest) = Some (m, rest)" for m rest
    by (simp add: enc_ResourceFlush_def dec_ResourceFlush_def)
  show "bs = enc_ResourceFlush m @ rest" if "dec_ResourceFlush bs = Some (m, rest)" for bs m rest
    using that unfolding dec_ResourceFlush_def by (elim rd_elims) (clarsimp simp: enc_ResourceFlush_def)
  show "dec_ResourceFlush bs \<noteq> None" if "24 \<le> length bs" for bs
    unfolding dec_ResourceFlush_def using that by (intro rd_totals) (linarith | simp)+
qed

record ClearPresent =
  cp_width :: u32
  cp_height :: u32
  cp_rgba :: rgba_bits
  cp_scanout_addr :: u64

definition enc_ClearPresent :: "ClearPresent \<Rightarrow> bytes" where
  "enc_ClearPresent m =
     u32_le (cp_width m) @ u32_le (cp_height m) @ rgba_le (cp_rgba m) @
     u64_le (cp_scanout_addr m)"

definition dec_ClearPresent :: "bytes \<Rightarrow> (ClearPresent \<times> bytes) option" where
  "dec_ClearPresent bs = do {
     (x0, bs) \<leftarrow> rd_u32 bs;
     (x1, bs) \<leftarrow> rd_u32 bs;
     (x2, bs) \<leftarrow> rd_rgba bs;
     (x3, bs) \<leftarrow> rd_u64 bs;
     Some (\<lparr>cp_width = x0, cp_height = x1, cp_rgba = x2, cp_scanout_addr = x3\<rparr>, bs) }"

interpretation cp_codec: wire_codec enc_ClearPresent dec_ClearPresent 32
proof (rule wire_codecI)
  show "length (enc_ClearPresent m) = 32" for m
    by (simp add: enc_ClearPresent_def)
  show "dec_ClearPresent (enc_ClearPresent m @ rest) = Some (m, rest)" for m rest
    by (simp add: enc_ClearPresent_def dec_ClearPresent_def)
  show "bs = enc_ClearPresent m @ rest" if "dec_ClearPresent bs = Some (m, rest)" for bs m rest
    using that unfolding dec_ClearPresent_def by (elim rd_elims) (clarsimp simp: enc_ClearPresent_def)
  show "dec_ClearPresent bs \<noteq> None" if "32 \<le> length bs" for bs
    unfolding dec_ClearPresent_def using that by (intro rd_totals) (linarith | simp)+
qed

record VulkanWorkload =
  wl_op :: u32
  wl_width :: u32
  wl_height :: u32
  wl_pad :: u32
  wl_bg :: rgba_bits
  wl_scanout_addr :: u64

definition enc_VulkanWorkload :: "VulkanWorkload \<Rightarrow> bytes" where
  "enc_VulkanWorkload m =
     u32_le (wl_op m) @ u32_le (wl_width m) @ u32_le (wl_height m) @ u32_le (wl_pad m) @
     rgba_le (wl_bg m) @ u64_le (wl_scanout_addr m)"

definition dec_VulkanWorkload :: "bytes \<Rightarrow> (VulkanWorkload \<times> bytes) option" where
  "dec_VulkanWorkload bs = do {
     (x0, bs) \<leftarrow> rd_u32 bs;
     (x1, bs) \<leftarrow> rd_u32 bs;
     (x2, bs) \<leftarrow> rd_u32 bs;
     (x3, bs) \<leftarrow> rd_u32 bs;
     (x4, bs) \<leftarrow> rd_rgba bs;
     (x5, bs) \<leftarrow> rd_u64 bs;
     Some (\<lparr>wl_op = x0, wl_width = x1, wl_height = x2, wl_pad = x3,
       wl_bg = x4, wl_scanout_addr = x5\<rparr>, bs) }"

interpretation wl_codec: wire_codec enc_VulkanWorkload dec_VulkanWorkload 40
proof (rule wire_codecI)
  show "length (enc_VulkanWorkload m) = 40" for m
    by (simp add: enc_VulkanWorkload_def)
  show "dec_VulkanWorkload (enc_VulkanWorkload m @ rest) = Some (m, rest)" for m rest
    by (simp add: enc_VulkanWorkload_def dec_VulkanWorkload_def)
  show "bs = enc_VulkanWorkload m @ rest" if "dec_VulkanWorkload bs = Some (m, rest)" for bs m rest
    using that unfolding dec_VulkanWorkload_def by (elim rd_elims) (clarsimp simp: enc_VulkanWorkload_def)
  show "dec_VulkanWorkload bs \<noteq> None" if "40 \<le> length bs" for bs
    unfolding dec_VulkanWorkload_def using that by (intro rd_totals) (linarith | simp)+
qed

record ForwardedDrawTail =
  fdt_vertex_count :: u32
  fdt_topology :: u32
  fdt_vertex_spirv_len :: u32
  fdt_fragment_spirv_len :: u32
  fdt_vertex_entry_len :: u32
  fdt_fragment_entry_len :: u32

definition enc_ForwardedDrawTail :: "ForwardedDrawTail \<Rightarrow> bytes" where
  "enc_ForwardedDrawTail m =
     u32_le (fdt_vertex_count m) @ u32_le (fdt_topology m) @ u32_le (fdt_vertex_spirv_len m) @
     u32_le (fdt_fragment_spirv_len m) @ u32_le (fdt_vertex_entry_len m) @
     u32_le (fdt_fragment_entry_len m)"

definition dec_ForwardedDrawTail :: "bytes \<Rightarrow> (ForwardedDrawTail \<times> bytes) option" where
  "dec_ForwardedDrawTail bs = do {
     (x0, bs) \<leftarrow> rd_u32 bs;
     (x1, bs) \<leftarrow> rd_u32 bs;
     (x2, bs) \<leftarrow> rd_u32 bs;
     (x3, bs) \<leftarrow> rd_u32 bs;
     (x4, bs) \<leftarrow> rd_u32 bs;
     (x5, bs) \<leftarrow> rd_u32 bs;
     Some (\<lparr>fdt_vertex_count = x0, fdt_topology = x1, fdt_vertex_spirv_len = x2, fdt_fragment_spirv_len = x3,
       fdt_vertex_entry_len = x4, fdt_fragment_entry_len = x5\<rparr>, bs) }"

interpretation fdt_codec: wire_codec enc_ForwardedDrawTail dec_ForwardedDrawTail 24
proof (rule wire_codecI)
  show "length (enc_ForwardedDrawTail m) = 24" for m
    by (simp add: enc_ForwardedDrawTail_def)
  show "dec_ForwardedDrawTail (enc_ForwardedDrawTail m @ rest) = Some (m, rest)" for m rest
    by (simp add: enc_ForwardedDrawTail_def dec_ForwardedDrawTail_def)
  show "bs = enc_ForwardedDrawTail m @ rest" if "dec_ForwardedDrawTail bs = Some (m, rest)" for bs m rest
    using that unfolding dec_ForwardedDrawTail_def by (elim rd_elims) (clarsimp simp: enc_ForwardedDrawTail_def)
  show "dec_ForwardedDrawTail bs \<noteq> None" if "24 \<le> length bs" for bs
    unfolding dec_ForwardedDrawTail_def using that by (intro rd_totals) (linarith | simp)+
qed

record ForwardedCmdListTail =
  fcl_vertex_spirv_len :: u32
  fcl_fragment_spirv_len :: u32
  fcl_vertex_entry_len :: u32
  fcl_fragment_entry_len :: u32
  fcl_vertex_stride :: u32
  fcl_attr_count :: u32
  fcl_vertex_data_len :: u32
  fcl_index_data_len :: u32
  fcl_index_type :: u32
  fcl_draw_count :: u32
  fcl_topology :: u32
  fcl_depth_flags :: u32
  fcl_push_const_len :: u32
  fcl_tex_count :: u32
  fcl_ubo_len :: u32
  fcl_ubo_count :: u32
  fcl_tex_binding :: u32
  fcl_raster_flags :: u32
  fcl_ssbo_len :: u32
  fcl_ssbo_binding :: u32

definition enc_ForwardedCmdListTail :: "ForwardedCmdListTail \<Rightarrow> bytes" where
  "enc_ForwardedCmdListTail m =
     u32_le (fcl_vertex_spirv_len m) @ u32_le (fcl_fragment_spirv_len m) @
     u32_le (fcl_vertex_entry_len m) @ u32_le (fcl_fragment_entry_len m) @
     u32_le (fcl_vertex_stride m) @ u32_le (fcl_attr_count m) @ u32_le (fcl_vertex_data_len m) @
     u32_le (fcl_index_data_len m) @ u32_le (fcl_index_type m) @ u32_le (fcl_draw_count m) @
     u32_le (fcl_topology m) @ u32_le (fcl_depth_flags m) @ u32_le (fcl_push_const_len m) @
     u32_le (fcl_tex_count m) @ u32_le (fcl_ubo_len m) @ u32_le (fcl_ubo_count m) @
     u32_le (fcl_tex_binding m) @ u32_le (fcl_raster_flags m) @ u32_le (fcl_ssbo_len m) @
     u32_le (fcl_ssbo_binding m)"

definition dec_ForwardedCmdListTail :: "bytes \<Rightarrow> (ForwardedCmdListTail \<times> bytes) option" where
  "dec_ForwardedCmdListTail bs = do {
     (x0, bs) \<leftarrow> rd_u32 bs;
     (x1, bs) \<leftarrow> rd_u32 bs;
     (x2, bs) \<leftarrow> rd_u32 bs;
     (x3, bs) \<leftarrow> rd_u32 bs;
     (x4, bs) \<leftarrow> rd_u32 bs;
     (x5, bs) \<leftarrow> rd_u32 bs;
     (x6, bs) \<leftarrow> rd_u32 bs;
     (x7, bs) \<leftarrow> rd_u32 bs;
     (x8, bs) \<leftarrow> rd_u32 bs;
     (x9, bs) \<leftarrow> rd_u32 bs;
     (x10, bs) \<leftarrow> rd_u32 bs;
     (x11, bs) \<leftarrow> rd_u32 bs;
     (x12, bs) \<leftarrow> rd_u32 bs;
     (x13, bs) \<leftarrow> rd_u32 bs;
     (x14, bs) \<leftarrow> rd_u32 bs;
     (x15, bs) \<leftarrow> rd_u32 bs;
     (x16, bs) \<leftarrow> rd_u32 bs;
     (x17, bs) \<leftarrow> rd_u32 bs;
     (x18, bs) \<leftarrow> rd_u32 bs;
     (x19, bs) \<leftarrow> rd_u32 bs;
     Some (\<lparr>fcl_vertex_spirv_len = x0, fcl_fragment_spirv_len = x1, fcl_vertex_entry_len = x2, fcl_fragment_entry_len = x3,
       fcl_vertex_stride = x4, fcl_attr_count = x5, fcl_vertex_data_len = x6, fcl_index_data_len = x7,
       fcl_index_type = x8, fcl_draw_count = x9, fcl_topology = x10, fcl_depth_flags = x11,
       fcl_push_const_len = x12, fcl_tex_count = x13, fcl_ubo_len = x14, fcl_ubo_count = x15,
       fcl_tex_binding = x16, fcl_raster_flags = x17, fcl_ssbo_len = x18, fcl_ssbo_binding = x19\<rparr>, bs) }"

interpretation fcl_codec: wire_codec enc_ForwardedCmdListTail dec_ForwardedCmdListTail 80
proof (rule wire_codecI)
  show "length (enc_ForwardedCmdListTail m) = 80" for m
    by (simp add: enc_ForwardedCmdListTail_def)
  show "dec_ForwardedCmdListTail (enc_ForwardedCmdListTail m @ rest) = Some (m, rest)" for m rest
    by (simp add: enc_ForwardedCmdListTail_def dec_ForwardedCmdListTail_def)
  show "bs = enc_ForwardedCmdListTail m @ rest" if "dec_ForwardedCmdListTail bs = Some (m, rest)" for bs m rest
    using that unfolding dec_ForwardedCmdListTail_def by (elim rd_elims) (clarsimp simp: enc_ForwardedCmdListTail_def)
  show "dec_ForwardedCmdListTail bs \<noteq> None" if "80 \<le> length bs" for bs
    unfolding dec_ForwardedCmdListTail_def using that by (intro rd_totals) (linarith | simp)+
qed

record TextureDescWire =
  td_width :: u32
  td_height :: u32
  td_data_len :: u32
  td_sampler_flags :: u32

definition enc_TextureDescWire :: "TextureDescWire \<Rightarrow> bytes" where
  "enc_TextureDescWire m =
     u32_le (td_width m) @ u32_le (td_height m) @ u32_le (td_data_len m) @
     u32_le (td_sampler_flags m)"

definition dec_TextureDescWire :: "bytes \<Rightarrow> (TextureDescWire \<times> bytes) option" where
  "dec_TextureDescWire bs = do {
     (x0, bs) \<leftarrow> rd_u32 bs;
     (x1, bs) \<leftarrow> rd_u32 bs;
     (x2, bs) \<leftarrow> rd_u32 bs;
     (x3, bs) \<leftarrow> rd_u32 bs;
     Some (\<lparr>td_width = x0, td_height = x1, td_data_len = x2, td_sampler_flags = x3\<rparr>, bs) }"

interpretation td_codec: wire_codec enc_TextureDescWire dec_TextureDescWire 16
proof (rule wire_codecI)
  show "length (enc_TextureDescWire m) = 16" for m
    by (simp add: enc_TextureDescWire_def)
  show "dec_TextureDescWire (enc_TextureDescWire m @ rest) = Some (m, rest)" for m rest
    by (simp add: enc_TextureDescWire_def dec_TextureDescWire_def)
  show "bs = enc_TextureDescWire m @ rest" if "dec_TextureDescWire bs = Some (m, rest)" for bs m rest
    using that unfolding dec_TextureDescWire_def by (elim rd_elims) (clarsimp simp: enc_TextureDescWire_def)
  show "dec_TextureDescWire bs \<noteq> None" if "16 \<le> length bs" for bs
    unfolding dec_TextureDescWire_def using that by (intro rd_totals) (linarith | simp)+
qed

record VertexAttrWire =
  va_location :: u32
  va_format :: u32
  va_offset :: u32

definition enc_VertexAttrWire :: "VertexAttrWire \<Rightarrow> bytes" where
  "enc_VertexAttrWire m =
     u32_le (va_location m) @ u32_le (va_format m) @ u32_le (va_offset m)"

definition dec_VertexAttrWire :: "bytes \<Rightarrow> (VertexAttrWire \<times> bytes) option" where
  "dec_VertexAttrWire bs = do {
     (x0, bs) \<leftarrow> rd_u32 bs;
     (x1, bs) \<leftarrow> rd_u32 bs;
     (x2, bs) \<leftarrow> rd_u32 bs;
     Some (\<lparr>va_location = x0, va_format = x1, va_offset = x2\<rparr>, bs) }"

interpretation va_codec: wire_codec enc_VertexAttrWire dec_VertexAttrWire 12
proof (rule wire_codecI)
  show "length (enc_VertexAttrWire m) = 12" for m
    by (simp add: enc_VertexAttrWire_def)
  show "dec_VertexAttrWire (enc_VertexAttrWire m @ rest) = Some (m, rest)" for m rest
    by (simp add: enc_VertexAttrWire_def dec_VertexAttrWire_def)
  show "bs = enc_VertexAttrWire m @ rest" if "dec_VertexAttrWire bs = Some (m, rest)" for bs m rest
    using that unfolding dec_VertexAttrWire_def by (elim rd_elims) (clarsimp simp: enc_VertexAttrWire_def)
  show "dec_VertexAttrWire bs \<noteq> None" if "12 \<le> length bs" for bs
    unfolding dec_VertexAttrWire_def using that by (intro rd_totals) (linarith | simp)+
qed

record DrawCmdWire =
  dc_count :: u32
  dc_instance_count :: u32
  dc_first :: u32
  dc_vertex_offset :: u32
  dc_vp_x :: u32
  dc_vp_y :: u32
  dc_vp_w :: u32
  dc_vp_h :: u32

definition enc_DrawCmdWire :: "DrawCmdWire \<Rightarrow> bytes" where
  "enc_DrawCmdWire m =
     u32_le (dc_count m) @ u32_le (dc_instance_count m) @ u32_le (dc_first m) @
     u32_le (dc_vertex_offset m) @ u32_le (dc_vp_x m) @ u32_le (dc_vp_y m) @ u32_le (dc_vp_w m) @
     u32_le (dc_vp_h m)"

definition dec_DrawCmdWire :: "bytes \<Rightarrow> (DrawCmdWire \<times> bytes) option" where
  "dec_DrawCmdWire bs = do {
     (x0, bs) \<leftarrow> rd_u32 bs;
     (x1, bs) \<leftarrow> rd_u32 bs;
     (x2, bs) \<leftarrow> rd_u32 bs;
     (x3, bs) \<leftarrow> rd_u32 bs;
     (x4, bs) \<leftarrow> rd_u32 bs;
     (x5, bs) \<leftarrow> rd_u32 bs;
     (x6, bs) \<leftarrow> rd_u32 bs;
     (x7, bs) \<leftarrow> rd_u32 bs;
     Some (\<lparr>dc_count = x0, dc_instance_count = x1, dc_first = x2, dc_vertex_offset = x3,
       dc_vp_x = x4, dc_vp_y = x5, dc_vp_w = x6, dc_vp_h = x7\<rparr>, bs) }"

interpretation dc_codec: wire_codec enc_DrawCmdWire dec_DrawCmdWire 32
proof (rule wire_codecI)
  show "length (enc_DrawCmdWire m) = 32" for m
    by (simp add: enc_DrawCmdWire_def)
  show "dec_DrawCmdWire (enc_DrawCmdWire m @ rest) = Some (m, rest)" for m rest
    by (simp add: enc_DrawCmdWire_def dec_DrawCmdWire_def)
  show "bs = enc_DrawCmdWire m @ rest" if "dec_DrawCmdWire bs = Some (m, rest)" for bs m rest
    using that unfolding dec_DrawCmdWire_def by (elim rd_elims) (clarsimp simp: enc_DrawCmdWire_def)
  show "dec_DrawCmdWire bs \<noteq> None" if "32 \<le> length bs" for bs
    unfolding dec_DrawCmdWire_def using that by (intro rd_totals) (linarith | simp)+
qed

record ScanoutPresent =
  sp_width :: u32
  sp_height :: u32
  sp_pitch :: u32
  sp_format :: u32
  sp_scanout_addr :: u64

definition enc_ScanoutPresent :: "ScanoutPresent \<Rightarrow> bytes" where
  "enc_ScanoutPresent m =
     u32_le (sp_width m) @ u32_le (sp_height m) @ u32_le (sp_pitch m) @ u32_le (sp_format m) @
     u64_le (sp_scanout_addr m)"

definition dec_ScanoutPresent :: "bytes \<Rightarrow> (ScanoutPresent \<times> bytes) option" where
  "dec_ScanoutPresent bs = do {
     (x0, bs) \<leftarrow> rd_u32 bs;
     (x1, bs) \<leftarrow> rd_u32 bs;
     (x2, bs) \<leftarrow> rd_u32 bs;
     (x3, bs) \<leftarrow> rd_u32 bs;
     (x4, bs) \<leftarrow> rd_u64 bs;
     Some (\<lparr>sp_width = x0, sp_height = x1, sp_pitch = x2, sp_format = x3,
       sp_scanout_addr = x4\<rparr>, bs) }"

interpretation sp_codec: wire_codec enc_ScanoutPresent dec_ScanoutPresent 24
proof (rule wire_codecI)
  show "length (enc_ScanoutPresent m) = 24" for m
    by (simp add: enc_ScanoutPresent_def)
  show "dec_ScanoutPresent (enc_ScanoutPresent m @ rest) = Some (m, rest)" for m rest
    by (simp add: enc_ScanoutPresent_def dec_ScanoutPresent_def)
  show "bs = enc_ScanoutPresent m @ rest" if "dec_ScanoutPresent bs = Some (m, rest)" for bs m rest
    using that unfolding dec_ScanoutPresent_def by (elim rd_elims) (clarsimp simp: enc_ScanoutPresent_def)
  show "dec_ScanoutPresent bs \<noteq> None" if "24 \<le> length bs" for bs
    unfolding dec_ScanoutPresent_def using that by (intro rd_totals) (linarith | simp)+
qed

record ScanoutPresentDamaged =
  spd_width :: u32
  spd_height :: u32
  spd_pitch :: u32
  spd_format :: u32
  spd_scanout_addr :: u64
  spd_dx :: u32
  spd_dy :: u32
  spd_dw :: u32
  spd_dh :: u32

definition enc_ScanoutPresentDamaged :: "ScanoutPresentDamaged \<Rightarrow> bytes" where
  "enc_ScanoutPresentDamaged m =
     u32_le (spd_width m) @ u32_le (spd_height m) @ u32_le (spd_pitch m) @
     u32_le (spd_format m) @ u64_le (spd_scanout_addr m) @ u32_le (spd_dx m) @
     u32_le (spd_dy m) @ u32_le (spd_dw m) @ u32_le (spd_dh m)"

definition dec_ScanoutPresentDamaged :: "bytes \<Rightarrow> (ScanoutPresentDamaged \<times> bytes) option" where
  "dec_ScanoutPresentDamaged bs = do {
     (x0, bs) \<leftarrow> rd_u32 bs;
     (x1, bs) \<leftarrow> rd_u32 bs;
     (x2, bs) \<leftarrow> rd_u32 bs;
     (x3, bs) \<leftarrow> rd_u32 bs;
     (x4, bs) \<leftarrow> rd_u64 bs;
     (x5, bs) \<leftarrow> rd_u32 bs;
     (x6, bs) \<leftarrow> rd_u32 bs;
     (x7, bs) \<leftarrow> rd_u32 bs;
     (x8, bs) \<leftarrow> rd_u32 bs;
     Some (\<lparr>spd_width = x0, spd_height = x1, spd_pitch = x2, spd_format = x3,
       spd_scanout_addr = x4, spd_dx = x5, spd_dy = x6, spd_dw = x7,
       spd_dh = x8\<rparr>, bs) }"

interpretation spd_codec: wire_codec enc_ScanoutPresentDamaged dec_ScanoutPresentDamaged 40
proof (rule wire_codecI)
  show "length (enc_ScanoutPresentDamaged m) = 40" for m
    by (simp add: enc_ScanoutPresentDamaged_def)
  show "dec_ScanoutPresentDamaged (enc_ScanoutPresentDamaged m @ rest) = Some (m, rest)" for m rest
    by (simp add: enc_ScanoutPresentDamaged_def dec_ScanoutPresentDamaged_def)
  show "bs = enc_ScanoutPresentDamaged m @ rest" if "dec_ScanoutPresentDamaged bs = Some (m, rest)" for bs m rest
    using that unfolding dec_ScanoutPresentDamaged_def by (elim rd_elims) (clarsimp simp: enc_ScanoutPresentDamaged_def)
  show "dec_ScanoutPresentDamaged bs \<noteq> None" if "40 \<le> length bs" for bs
    unfolding dec_ScanoutPresentDamaged_def using that by (intro rd_totals) (linarith | simp)+
qed

record CursorUpdate =
  cu_scanout_id :: u32
  cu_flags :: u32
  cu_pos_x :: u32
  cu_pos_y :: u32
  cu_hot_x :: u16
  cu_hot_y :: u16
  cu_width :: u16
  cu_height :: u16
  cu_pitch :: u32
  cu_format :: u32
  cu_shape_ref :: u64
  cu_reserved :: u64

definition enc_CursorUpdate :: "CursorUpdate \<Rightarrow> bytes" where
  "enc_CursorUpdate m =
     u32_le (cu_scanout_id m) @ u32_le (cu_flags m) @ u32_le (cu_pos_x m) @ u32_le (cu_pos_y m) @
     u16_le (cu_hot_x m) @ u16_le (cu_hot_y m) @ u16_le (cu_width m) @ u16_le (cu_height m) @
     u32_le (cu_pitch m) @ u32_le (cu_format m) @ u64_le (cu_shape_ref m) @
     u64_le (cu_reserved m)"

definition dec_CursorUpdate :: "bytes \<Rightarrow> (CursorUpdate \<times> bytes) option" where
  "dec_CursorUpdate bs = do {
     (x0, bs) \<leftarrow> rd_u32 bs;
     (x1, bs) \<leftarrow> rd_u32 bs;
     (x2, bs) \<leftarrow> rd_u32 bs;
     (x3, bs) \<leftarrow> rd_u32 bs;
     (x4, bs) \<leftarrow> rd_u16 bs;
     (x5, bs) \<leftarrow> rd_u16 bs;
     (x6, bs) \<leftarrow> rd_u16 bs;
     (x7, bs) \<leftarrow> rd_u16 bs;
     (x8, bs) \<leftarrow> rd_u32 bs;
     (x9, bs) \<leftarrow> rd_u32 bs;
     (x10, bs) \<leftarrow> rd_u64 bs;
     (x11, bs) \<leftarrow> rd_u64 bs;
     Some (\<lparr>cu_scanout_id = x0, cu_flags = x1, cu_pos_x = x2, cu_pos_y = x3,
       cu_hot_x = x4, cu_hot_y = x5, cu_width = x6, cu_height = x7,
       cu_pitch = x8, cu_format = x9, cu_shape_ref = x10, cu_reserved = x11\<rparr>, bs) }"

interpretation cu_codec: wire_codec enc_CursorUpdate dec_CursorUpdate 48
proof (rule wire_codecI)
  show "length (enc_CursorUpdate m) = 48" for m
    by (simp add: enc_CursorUpdate_def)
  show "dec_CursorUpdate (enc_CursorUpdate m @ rest) = Some (m, rest)" for m rest
    by (simp add: enc_CursorUpdate_def dec_CursorUpdate_def)
  show "bs = enc_CursorUpdate m @ rest" if "dec_CursorUpdate bs = Some (m, rest)" for bs m rest
    using that unfolding dec_CursorUpdate_def by (elim rd_elims) (clarsimp simp: enc_CursorUpdate_def)
  show "dec_CursorUpdate bs \<noteq> None" if "48 \<le> length bs" for bs
    unfolding dec_CursorUpdate_def using that by (intro rd_totals) (linarith | simp)+
qed

subsection \<open>The asserted field offsets\<close>

text \<open>Every \<open>offset_of!\<close> assertion of \<open>lib.rs\<close>: the field is read back at that byte offset.\<close>

lemmas get_enc_defs = get_u16_def get_u32_def get_u64_def rgba_le_def

lemma Descriptor_offsets:
  "get_u64 (enc_Descriptor m) 16 = d_seqno m"
  by (simp_all add: enc_Descriptor_def get_enc_defs split: prod.splits)

lemma MemEntry_offsets:
  "get_u64 (enc_MemEntry m) 8 = me_length m"
  by (simp_all add: enc_MemEntry_def get_enc_defs split: prod.splits)

lemma SubmitCmd_offsets:
  "get_u64 (enc_SubmitCmd m) 16 = sc_seqno m"
  by (simp_all add: enc_SubmitCmd_def get_enc_defs split: prod.splits)

lemma ClearPresent_offsets:
  "get_u64 (enc_ClearPresent m) 24 = cp_scanout_addr m"
  by (simp_all add: enc_ClearPresent_def get_enc_defs split: prod.splits)

lemma VulkanWorkload_offsets:
  "get_u64 (enc_VulkanWorkload m) 32 = wl_scanout_addr m"
  by (simp_all add: enc_VulkanWorkload_def get_enc_defs split: prod.splits)

lemma ForwardedCmdListTail_offsets:
  "get_u32 (enc_ForwardedCmdListTail m) 48 = fcl_push_const_len m"
  "get_u32 (enc_ForwardedCmdListTail m) 52 = fcl_tex_count m"
  "get_u32 (enc_ForwardedCmdListTail m) 56 = fcl_ubo_len m"
  "get_u32 (enc_ForwardedCmdListTail m) 60 = fcl_ubo_count m"
  "get_u32 (enc_ForwardedCmdListTail m) 64 = fcl_tex_binding m"
  "get_u32 (enc_ForwardedCmdListTail m) 68 = fcl_raster_flags m"
  "get_u32 (enc_ForwardedCmdListTail m) 72 = fcl_ssbo_len m"
  "get_u32 (enc_ForwardedCmdListTail m) 76 = fcl_ssbo_binding m"
  by (simp_all add: enc_ForwardedCmdListTail_def get_enc_defs split: prod.splits)

lemma ScanoutPresent_offsets:
  "get_u64 (enc_ScanoutPresent m) 16 = sp_scanout_addr m"
  by (simp_all add: enc_ScanoutPresent_def get_enc_defs split: prod.splits)

lemma ScanoutPresentDamaged_offsets:
  "get_u64 (enc_ScanoutPresentDamaged m) 16 = spd_scanout_addr m"
  "get_u32 (enc_ScanoutPresentDamaged m) 24 = spd_dx m"
  "get_u32 (enc_ScanoutPresentDamaged m) 36 = spd_dh m"
  by (simp_all add: enc_ScanoutPresentDamaged_def get_enc_defs split: prod.splits)

lemma CursorUpdate_offsets:
  "get_u32 (enc_CursorUpdate m) 8 = cu_pos_x m"
  "get_u16 (enc_CursorUpdate m) 16 = cu_hot_x m"
  "get_u32 (enc_CursorUpdate m) 24 = cu_pitch m"
  "get_u32 (enc_CursorUpdate m) 28 = cu_format m"
  "get_u64 (enc_CursorUpdate m) 32 = cu_shape_ref m"
  "get_u64 (enc_CursorUpdate m) 40 = cu_reserved m"
  by (simp_all add: enc_CursorUpdate_def get_enc_defs split: prod.splits)

text \<open>A damaged present starts with the bytes of the plain present.\<close>

lemma damaged_present_prefix:
  "take 24 (enc_ScanoutPresentDamaged m) = enc_ScanoutPresent
     \<lparr>sp_width = spd_width m, sp_height = spd_height m, sp_pitch = spd_pitch m,
       sp_format = spd_format m, sp_scanout_addr = spd_scanout_addr m\<rparr>"
  by (simp add: enc_ScanoutPresentDamaged_def enc_ScanoutPresent_def)

end
