(* ===== verification/Spsc_Ring.thy ===== *)
theory Spsc_Ring
  imports Abi_Wire
begin

text \<open>
  \<open>crates/infinigpu-ring/src/lib.rs\<close>: the single-producer / single-consumer descriptor ring.
  The ring is a view of caller memory: the slot array, and the index words of the shared index
  page. Indices are free-running \<open>u32\<close> counters that wrap; the slot of an index is the index
  masked with \<open>capacity - 1\<close>. This theory has the ring as each end sees it when the other end is
  quiet; \<open>Spsc_Interleaving\<close> splits \<open>push\<close> and \<open>pop\<close> into their atomic accesses.
\<close>

subsection \<open>State and operations\<close>

record Indices =
  ix_tail :: u32
  ix_head :: u32
  ix_seqno_submit :: u64
  ix_seqno_retired :: u64
  ix_status :: u32

definition Indices_new :: Indices where
  "Indices_new = \<lparr>ix_tail = 0, ix_head = 0, ix_seqno_submit = 0, ix_seqno_retired = 0, ix_status = 0\<rparr>"

datatype RingError = BadGeometry | Full

record 'a Ring =
  ring_slots :: "'a list"
  ring_idx :: Indices
  ring_mask :: u32

definition from_parts :: "'a list \<Rightarrow> Indices \<Rightarrow> RingError + 'a Ring" where
  "from_parts slots idx = (let cap = length slots in
     if cap = 0 \<or> \<not> is_power_of_two cap \<or> 2 ^ 32 - 1 < cap then Inl BadGeometry
     else Inr \<lparr>ring_slots = slots, ring_idx = idx, ring_mask = word_of_nat (cap - 1)\<rparr>)"

definition ring_capacity :: "'a Ring \<Rightarrow> u32" where
  "ring_capacity r = ring_mask r + 1"

definition ring_len :: "'a Ring \<Rightarrow> u32" where
  "ring_len r = ix_tail (ring_idx r) - ix_head (ring_idx r)"

definition ring_is_empty :: "'a Ring \<Rightarrow> bool" where
  "ring_is_empty r = (ring_len r = 0)"

definition ring_push :: "'a \<Rightarrow> 'a Ring \<Rightarrow> (RingError + u64) \<times> 'a Ring" where
  "ring_push item r = (let tail = ix_tail (ring_idx r); head = ix_head (ring_idx r) in
     if ring_capacity r \<le> tail - head then (Inl Full, r)
     else let seqno = (ucast (tail + 1) :: u64) in
       (Inr seqno, r\<lparr>ring_slots := (ring_slots r)[unat (and tail (ring_mask r)) := item],
          ring_idx := (ring_idx r)\<lparr>ix_seqno_submit := seqno, ix_tail := tail + 1\<rparr>\<rparr>))"

definition ring_pop :: "'a Ring \<Rightarrow> 'a option \<times> 'a Ring" where
  "ring_pop r = (let head = ix_head (ring_idx r); tail = ix_tail (ring_idx r) in
     if head = tail then (None, r)
     else (Some (ring_slots r ! unat (and head (ring_mask r))),
           r\<lparr>ring_idx := (ring_idx r)\<lparr>ix_head := head + 1\<rparr>\<rparr>))"

definition ring_retire :: "u64 \<Rightarrow> 'a Ring \<Rightarrow> 'a Ring" where
  "ring_retire seqno r = r\<lparr>ring_idx := (ring_idx r)\<lparr>ix_seqno_retired := seqno\<rparr>\<rparr>"

definition ring_retired :: "'a Ring \<Rightarrow> u64" where
  "ring_retired r = ix_seqno_retired (ring_idx r)"

definition ring_submitted :: "'a Ring \<Rightarrow> u64" where
  "ring_submitted r = ix_seqno_submit (ring_idx r)"

definition is_fence_signaled :: "u64 \<Rightarrow> 'a Ring \<Rightarrow> bool" where
  "is_fence_signaled seqno r =
     (ring_retired r - seqno < push_bit 63 1 \<and> seqno \<le> ring_retired r)"

definition ring_set_status :: "u32 \<Rightarrow> 'a Ring \<Rightarrow> 'a Ring" where
  "ring_set_status bits r = r\<lparr>ring_idx := (ring_idx r)\<lparr>ix_status := bits\<rparr>\<rparr>"

definition ring_status :: "'a Ring \<Rightarrow> u32" where
  "ring_status r = ix_status (ring_idx r)"

subsection \<open>Masked indices\<close>

text \<open>A valid capacity, and the position a free-running index denotes.\<close>

definition cap_ok :: "nat \<Rightarrow> bool" where
  "cap_ok n \<longleftrightarrow> 0 < n \<and> is_power_of_two n \<and> n \<le> 2 ^ 32 - 1"

definition slot_of :: "u32 \<Rightarrow> nat \<Rightarrow> nat" where
  "slot_of i cap = unat (and i (word_of_nat (cap - 1)))"

lemma cap_okE:
  assumes "cap_ok n"
  obtains e where "n = 2 ^ e" "e < 32"
proof -
  obtain e where e: "n = 2 ^ e" using assms by (auto simp: cap_ok_def is_power_of_two_iff)
  have "e < 32"
  proof (rule ccontr)
    assume "\<not> e < 32"
    then have "(2::nat) ^ 32 \<le> 2 ^ e" by (intro power_increasing) auto
    with assms e show False by (simp add: cap_ok_def)
  qed
  with e that show thesis by blast
qed

lemma cap_ok_pow: "e < 32 \<Longrightarrow> cap_ok (2 ^ e)"
proof -
  assume e: "e < 32"
  then have "(2::nat) ^ e \<le> 2 ^ 31" by (intro power_increasing) auto
  then have "(2::nat) ^ e \<le> 2 ^ 32 - 1" by simp
  with e show ?thesis by (auto simp: cap_ok_def is_power_of_two_iff intro!: exI [of _ e])
qed

lemma slot_of_nat:
  assumes "cap_ok cap"
  shows "slot_of (word_of_nat n) cap = n mod cap"
proof -
  obtain e where e: "cap = 2 ^ e" "e < 32" using assms by (rule cap_okE)
  have m: "(word_of_nat (cap - 1) :: u32) = mask e"
    by (simp add: e mask_eq_exp_minus_1)
  have "slot_of (word_of_nat n) cap = unat (take_bit e (word_of_nat n :: u32))"
    unfolding slot_of_def m by (simp add: take_bit_eq_mask)
  also have "\<dots> = take_bit e (unat (word_of_nat n :: u32))"
    by (rule unsigned_take_bit_eq)
  also have "\<dots> = n mod cap"
    using e(2) by (simp add: unsigned_of_nat min_absorb1) (simp add: take_bit_eq_mod e(1))
  finally show ?thesis .
qed

lemma slot_of_unat: "cap_ok cap \<Longrightarrow> slot_of i cap = unat i mod cap"
  using slot_of_nat [of cap "unat i"] by simp

lemma slot_of_lt: "cap_ok cap \<Longrightarrow> slot_of i cap < cap"
  by (simp add: slot_of_unat cap_ok_def)

lemma slot_of_add: "cap_ok cap \<Longrightarrow> slot_of (i + word_of_nat k) cap = (unat i + k) mod cap"
  using slot_of_nat [of cap "unat i + k"] by simp

text \<open>Distinct live positions: two indices less than a capacity apart use different slots.\<close>

lemma mod_window_inj:
  "i < cap \<Longrightarrow> j < cap \<Longrightarrow> (h + i) mod cap = (h + j) mod cap \<Longrightarrow> i = (j :: nat)"
proof (induction i j rule: linorder_wlog)
  case (le i j)
  have "h + i \<le> h + j" using le by simp
  then have "cap dvd (h + j - (h + i))" using le by (metis mod_eq_dvd_iff_nat)
  then have "cap dvd (j - i)" by simp
  moreover have "j - i < cap" using le by simp
  ultimately have "j - i = 0" by (meson dvd_imp_le not_less neq0_conv)
  with le show ?case by simp
qed simp

subsection \<open>The ring as a queue\<close>

text \<open>
  The abstract content of a ring: the live slots from \<open>head\<close> to \<open>tail\<close> in order. A ring is well
  formed when its mask belongs to a valid capacity and no more than a capacity of entries is live;
  \<open>from_parts\<close> checks the former, the SPSC discipline keeps the latter.
\<close>

definition ring_items :: "'a Ring \<Rightarrow> 'a list" where
  "ring_items r = map (\<lambda>k. ring_slots r ! slot_of (ix_head (ring_idx r) + word_of_nat k) (length (ring_slots r)))
     [0..<unat (ring_len r)]"

definition ring_ok :: "'a Ring \<Rightarrow> bool" where
  "ring_ok r \<longleftrightarrow> cap_ok (length (ring_slots r)) \<and>
     ring_mask r = word_of_nat (length (ring_slots r) - 1) \<and>
     unat (ring_len r) \<le> length (ring_slots r)"

definition ring_cap :: "'a Ring \<Rightarrow> nat" where
  "ring_cap r = length (ring_slots r)"

lemma cap_ok_bounds: "cap_ok n \<Longrightarrow> 0 < n \<and> n < 2 ^ 32"
  by (auto simp: cap_ok_def)

lemma capacity_word:
  assumes "cap_ok n"
  shows "(word_of_nat (n - 1) :: u32) + 1 = word_of_nat n"
proof -
  have "(word_of_nat (n - 1) :: u32) + 1 = word_of_nat (Suc (n - 1))" by simp
  also have "Suc (n - 1) = n" using assms by (simp add: cap_ok_def)
  finally show ?thesis .
qed

lemma ring_capacity_ok: "ring_ok r \<Longrightarrow> unat (ring_capacity r) = ring_cap r"
  using cap_ok_bounds [of "length (ring_slots r)"]
  by (simp only: ring_ok_def ring_capacity_def ring_cap_def capacity_word) (simp add: unat_of_nat)

lemma ring_items_length [simp]: "length (ring_items r) = unat (ring_len r)"
  by (simp add: ring_items_def)

lemma ring_items_nth:
  "ring_ok r \<Longrightarrow> k < unat (ring_len r) \<Longrightarrow>
   ring_items r ! k = ring_slots r ! ((unat (ix_head (ring_idx r)) + k) mod ring_cap r)"
  by (simp add: ring_items_def ring_ok_def slot_of_add ring_cap_def)

lemma ring_slot:
  "ring_ok r \<Longrightarrow> unat (and i (ring_mask r)) = unat i mod ring_cap r"
  using slot_of_unat [of "length (ring_slots r)" i] by (simp add: ring_ok_def ring_cap_def slot_of_def)

lemma tail_slot:
  assumes "ring_ok r"
  shows "unat (ix_tail (ring_idx r)) mod ring_cap r =
    (unat (ix_head (ring_idx r)) + unat (ring_len r)) mod ring_cap r"
proof -
  have "ix_tail (ring_idx r) = ix_head (ring_idx r) + word_of_nat (unat (ring_len r))"
    by (simp add: ring_len_def)
  then show ?thesis
    using assms slot_of_add [of "ring_cap r" "ix_head (ring_idx r)" "unat (ring_len r)"]
      slot_of_unat [of "ring_cap r" "ix_tail (ring_idx r)"]
    by (simp add: ring_ok_def ring_cap_def)
qed

lemma full_iff: "ring_ok r \<Longrightarrow> ring_capacity r \<le> ring_len r \<longleftrightarrow> length (ring_items r) = ring_cap r"
  using ring_capacity_ok [of r] by (auto simp: word_le_nat_alt ring_ok_def ring_cap_def)

lemma from_parts_ok:
  "from_parts slots idx = Inr r \<Longrightarrow> unat (ix_tail idx - ix_head idx) \<le> length slots \<Longrightarrow> ring_ok r"
  by (auto simp: from_parts_def Let_def ring_ok_def cap_ok_def ring_len_def split: if_splits)

lemma from_parts_iff:
  "(\<exists>r. from_parts slots idx = Inr r) \<longleftrightarrow> cap_ok (length slots)"
  by (auto simp: from_parts_def Let_def cap_ok_def)

lemma push_full:
  "ring_ok r \<Longrightarrow> length (ring_items r) = ring_cap r \<Longrightarrow> ring_push x r = (Inl Full, r)"
  using full_iff [of r] by (simp add: ring_push_def Let_def ring_len_def)

lemma unat_suc_len:
  fixes n :: u32
  shows "unat n < 2 ^ 32 - 1 \<Longrightarrow> unat (n + 1) = Suc (unat n)"
  by (rule unat_plus_if' [THEN trans]) simp

lemma push_room:
  assumes ok: "ring_ok r" and room: "length (ring_items r) < ring_cap r"
  obtains r' where "ring_push x r = (Inr (ucast (ix_tail (ring_idx r) + 1)), r')"
    "ring_ok r'" "ring_items r' = ring_items r @ [x]" "ring_cap r' = ring_cap r"
    "ring_retired r' = ring_retired r" "ring_status r' = ring_status r"
proof -
  let ?i = "unat (and (ix_tail (ring_idx r)) (ring_mask r))"
  let ?r' = "r\<lparr>ring_slots := (ring_slots r)[?i := x],
          ring_idx := (ring_idx r)\<lparr>ix_seqno_submit := ucast (ix_tail (ring_idx r) + 1),
            ix_tail := ix_tail (ring_idx r) + 1\<rparr>\<rparr>"
  let ?n = "unat (ring_len r)"
  have eq: "ring_push x r = (Inr (ucast (ix_tail (ring_idx r) + 1)), ?r')"
    using full_iff [OF ok] room by (simp add: ring_push_def Let_def ring_len_def)
  have cap: "cap_ok (ring_cap r)" using ok by (simp add: ring_ok_def ring_cap_def)
  have len': "ring_len ?r' = ring_len r + 1" by (simp add: ring_len_def)
  have "?n < 2 ^ 32 - 1" using room cap by (auto simp: cap_ok_def)
  with len' have n': "unat (ring_len ?r') = Suc ?n" by (simp add: unat_suc_len)
  have cap': "ring_cap ?r' = ring_cap r" by (simp add: ring_cap_def)
  have ok': "ring_ok ?r'"
    using ok n' room by (simp add: ring_ok_def ring_cap_def)
  have i: "?i = (unat (ix_head (ring_idx r)) + ?n) mod ring_cap r"
    using ring_slot [OF ok] tail_slot [OF ok] by simp
  have "ring_items ?r' = ring_items r @ [x]"
  proof (rule nth_equalityI)
    show "length (ring_items ?r') = length (ring_items r @ [x])" using n' by simp
    fix k assume "k < length (ring_items ?r')"
    then have k: "k < Suc ?n" using n' by simp
    have nth': "ring_items ?r' ! k =
      ((ring_slots r)[?i := x]) ! ((unat (ix_head (ring_idx r)) + k) mod ring_cap r)"
      using ring_items_nth [OF ok', of k] n' k cap' by simp
    have lt: "(unat (ix_head (ring_idx r)) + k) mod ring_cap r < length (ring_slots r)"
      using cap by (simp add: cap_ok_def ring_cap_def)
    show "ring_items ?r' ! k = (ring_items r @ [x]) ! k"
    proof (cases "k = ?n")
      case True
      then show ?thesis using nth' lt i by (simp add: nth_append)
    next
      case False
      with k have k2: "k < ?n" by simp
      with room have "(unat (ix_head (ring_idx r)) + k) mod ring_cap r \<noteq> ?i"
        using mod_window_inj [of k "ring_cap r" ?n] i by (metis less_irrefl less_trans ring_items_length)
      then show ?thesis using nth' k2 ring_items_nth [OF ok k2] by (simp add: nth_append)
    qed
  qed
  with eq ok' cap' that show thesis by (simp add: ring_retired_def ring_status_def)
qed

lemma pop_empty: "ring_items r = [] \<Longrightarrow> ring_pop r = (None, r)"
proof -
  assume "ring_items r = []"
  then have "unat (ring_len r) = 0" using ring_items_length [of r] by (metis list.size(3))
  then have "ring_len r = 0" by (simp add: unat_eq_zero)
  then show ?thesis by (simp add: ring_pop_def Let_def ring_len_def)
qed

lemma pop_items:
  assumes ok: "ring_ok r" and items: "ring_items r = x # xs"
  obtains r' where "ring_pop r = (Some x, r')" "ring_ok r'" "ring_items r' = xs"
    "ring_cap r' = ring_cap r" "ring_retired r' = ring_retired r" "ring_slots r' = ring_slots r"
    "ix_tail (ring_idx r') = ix_tail (ring_idx r)"
proof -
  let ?r' = "r\<lparr>ring_idx := (ring_idx r)\<lparr>ix_head := ix_head (ring_idx r) + 1\<rparr>\<rparr>"
  have n: "unat (ring_len r) = Suc (length xs)" using ring_items_length [of r] items by simp
  then have ne: "ix_head (ring_idx r) \<noteq> ix_tail (ring_idx r)" by (auto simp: ring_len_def)
  have len': "ring_len ?r' = ring_len r - 1" by (simp add: ring_len_def)
  have n': "unat (ring_len ?r') = length xs"
    using n len' by (metis diff_Suc_1 unat_0 unat_minus_one nat.distinct(1))
  have cap': "ring_cap ?r' = ring_cap r" by (simp add: ring_cap_def)
  have ok': "ring_ok ?r'" using ok n n' by (simp add: ring_ok_def)
  have cap: "cap_ok (ring_cap r)" using ok by (simp add: ring_ok_def ring_cap_def)
  have x: "ring_slots r ! unat (and (ix_head (ring_idx r)) (ring_mask r)) = x"
    using ring_items_nth [OF ok, of 0] ring_slot [OF ok] n items by simp
  have "ring_items ?r' = xs"
  proof (rule nth_equalityI)
    show "length (ring_items ?r') = length xs" using n' by simp
    fix k assume "k < length (ring_items ?r')"
    then have k: "k < length xs" using n' by simp
    have "ring_items ?r' ! k = ring_slots r ! ((unat (ix_head (ring_idx r) + 1) + k) mod ring_cap r)"
      using ring_items_nth [OF ok', of k] n' k cap' by simp
    also have "(unat (ix_head (ring_idx r) + 1) + k) mod ring_cap r =
      (unat (ix_head (ring_idx r)) + Suc k) mod ring_cap r"
      using slot_of_add [OF cap, of "ix_head (ring_idx r) + 1" k]
        slot_of_add [OF cap, of "ix_head (ring_idx r)" "Suc k"] by (simp add: add.assoc)
    also have "ring_slots r ! ((unat (ix_head (ring_idx r)) + Suc k) mod ring_cap r) = xs ! k"
      using ring_items_nth [OF ok, of "Suc k"] n k items by simp
    finally show "ring_items ?r' ! k = xs ! k" .
  qed
  moreover have "ring_pop r = (Some x, ?r')" using ne x by (simp add: ring_pop_def Let_def)
  ultimately show thesis using ok' cap' that by (simp add: ring_retired_def)
qed

subsection \<open>The queue contract\<close>

text \<open>
  What the users of a ring (the drain of the device, the guest's submit path) rely on: a bounded
  first-in first-out queue. \<open>items\<close> abstracts the representation, \<open>ok\<close> is its invariant.
\<close>

datatype 'a ring_op = Push 'a | Pop

fun run_ops :: "('a \<Rightarrow> 'r \<Rightarrow> ('e + 's) \<times> 'r) \<Rightarrow> ('r \<Rightarrow> 'a option \<times> 'r) \<Rightarrow>
    'a ring_op list \<Rightarrow> 'r \<Rightarrow> 'a list \<times> 'a list \<times> 'r" where
  "run_ops push pop [] r = ([], [], r)"
| "run_ops push pop (Push x # ops) r = (case push x r of
     (Inr _, r') \<Rightarrow> (case run_ops push pop ops r' of (acc, out, r'') \<Rightarrow> (x # acc, out, r''))
   | (Inl _, r') \<Rightarrow> run_ops push pop ops r')"
| "run_ops push pop (Pop # ops) r = (case pop r of
     (Some x, r') \<Rightarrow> (case run_ops push pop ops r' of (acc, out, r'') \<Rightarrow> (acc, x # out, r''))
   | (None, r') \<Rightarrow> run_ops push pop ops r')"

locale fifo_ring =
  fixes push :: "'a \<Rightarrow> 'r \<Rightarrow> ('e + 's) \<times> 'r" and pop :: "'r \<Rightarrow> 'a option \<times> 'r"
    and items :: "'r \<Rightarrow> 'a list" and ok :: "'r \<Rightarrow> bool" and cap :: "'r \<Rightarrow> nat"
  assumes bounded: "ok r \<Longrightarrow> length (items r) \<le> cap r"
    and push_accepts: "ok r \<Longrightarrow> length (items r) < cap r \<Longrightarrow>
      \<exists>s r'. push x r = (Inr s, r') \<and> ok r' \<and> items r' = items r @ [x] \<and> cap r' = cap r"
    and push_refuses: "ok r \<Longrightarrow> length (items r) = cap r \<Longrightarrow> \<exists>e. push x r = (Inl e, r)"
    and pop_takes: "ok r \<Longrightarrow> items r = x # xs \<Longrightarrow>
      \<exists>r'. pop r = (Some x, r') \<and> ok r' \<and> items r' = xs \<and> cap r' = cap r"
    and pop_stops: "items r = [] \<Longrightarrow> pop r = (None, r)"
begin

lemma push_cases:
  assumes "ok r"
  obtains (accepted) s r' where "push x r = (Inr s, r')" "ok r'" "items r' = items r @ [x]"
      "cap r' = cap r" "length (items r) < cap r"
    | (refused) e where "push x r = (Inl e, r)" "length (items r) = cap r"
  using push_accepts [OF assms] push_refuses [OF assms] bounded [OF assms]
  by (metis le_neq_implies_less)

lemma pop_cases:
  assumes "ok r"
  obtains (some) x xs r' where "pop r = (Some x, r')" "ok r'" "items r = x # xs" "items r' = xs"
      "cap r' = cap r"
    | (none) "pop r = (None, r)" "items r = []"
  using pop_takes [OF assms] pop_stops by (cases "items r") metis+

lemma run_fifo:
  "ok r \<Longrightarrow> run_ops push pop ops r = (acc, out, r') \<Longrightarrow>
   ok r' \<and> cap r' = cap r \<and> out @ items r' = items r @ acc"
proof (induction ops arbitrary: r acc out)
  case (Cons oper ops)
  show ?case
  proof (cases oper)
    case (Push x)
    from \<open>ok r\<close> show ?thesis
      by (cases rule: push_cases [of r x])
        (use Cons Push in \<open>auto split: prod.splits\<close>)
  next
    case Pop
    from \<open>ok r\<close> show ?thesis
      by (cases rule: pop_cases) (use Cons Pop in \<open>auto split: prod.splits\<close>)
  qed
qed simp

lemma run_count:
  "ok r \<Longrightarrow> run_ops push pop ops r = (acc, out, r') \<Longrightarrow>
   length out + length (items r') = length (items r) + length acc"
  by (drule (1) run_fifo) (metis length_append)

end

interpretation spsc: fifo_ring ring_push ring_pop ring_items ring_ok ring_cap
proof
  show "length (ring_items r) \<le> ring_cap r" if "ring_ok r" for r :: "'a Ring"
    using that by (simp add: ring_ok_def ring_cap_def)
  show "\<exists>s r'. ring_push x r = (Inr s, r') \<and> ring_ok r' \<and> ring_items r' = ring_items r @ [x] \<and>
      ring_cap r' = ring_cap r"
    if "ring_ok r" "length (ring_items r) < ring_cap r" for x :: 'a and r
    using push_room [OF that, of x] by metis
  show "\<exists>e. ring_push x r = (Inl e, r)"
    if "ring_ok r" "length (ring_items r) = ring_cap r" for x :: 'a and r
    using push_full [OF that] by blast
  show "\<exists>r'. ring_pop r = (Some x, r') \<and> ring_ok r' \<and> ring_items r' = xs \<and> ring_cap r' = ring_cap r"
    if "ring_ok r" "ring_items r = x # xs" for x :: 'a and xs r
    using pop_items [OF that] by metis
qed (rule pop_empty)

subsection \<open>Fences\<close>

lemma fence_plain_compare: "is_fence_signaled seqno r \<longleftrightarrow>
    unat (ring_retired r) < unat seqno + 2 ^ 63 \<and> unat seqno \<le> unat (ring_retired r)"
proof -
  have "unat (push_bit 63 1 :: u64) = 2 ^ 63" by simp
  then show ?thesis
    by (auto simp: is_fence_signaled_def word_less_nat_alt word_le_nat_alt unat_sub)
qed

text \<open>So the comparison does not wrap: after the retired word has wrapped past a fence's seqno, the
  fence reads as pending.\<close>

lemma fence_not_wrap_safe:
  "\<not> is_fence_signaled 0xFFFFFFFFFFFFFFFF \<lparr>ring_slots = [0 :: nat],
     ring_idx = Indices_new\<lparr>ix_seqno_retired := 3\<rparr>, ring_mask = 0\<rparr>"
  by (simp add: fence_plain_compare ring_retired_def Indices_new_def)

subsection \<open>Properties\<close>

text \<open>C4: whatever sequence of pushes and pops runs on a well-formed ring, the popped entries
  followed by what is still queued are the entries queued at the start followed by the accepted
  pushes: nothing is lost, duplicated, invented or reordered, also across the wrap of the
  \<open>u32\<close> indices, and the ring stays well formed.\<close>

theorem ring_lossless_fifo:
  assumes "ring_ok r" and "run_ops ring_push ring_pop ops r = (acc, out, r')"
  shows "out @ ring_items r' = ring_items r @ acc \<and> ring_ok r' \<and> ring_cap r' = ring_cap r"
  using spsc.run_fifo [OF assms] by blast

theorem ring_lossless_fifo_witness:
  "let r = \<lparr>ring_slots = [0, 0 :: nat],
      ring_idx = Indices_new\<lparr>ix_tail := -1, ix_head := -1\<rparr>, ring_mask = 1\<rparr>;
      (acc, out, r') = run_ops ring_push ring_pop [Push 7, Push 8, Push 9, Pop, Pop] r in
   acc = [7, 8] \<and> out = [7, 8] \<and> out @ ring_items r' = ring_items r @ acc"
proof -
  let ?r = "\<lparr>ring_slots = [0, 0 :: nat],
      ring_idx = Indices_new\<lparr>ix_tail := -1, ix_head := -1\<rparr>, ring_mask = 1\<rparr>"
  have ok: "ring_ok ?r"
    using cap_ok_pow [of 1]
    by (simp add: ring_ok_def ring_len_def Indices_new_def numeral_2_eq_2)
  obtain acc out r' where run:
    "run_ops ring_push ring_pop [Push 7, Push 8, Push 9, Pop, Pop] ?r = (acc, out, r')"
    by (cases "run_ops ring_push ring_pop [Push 7, Push 8, Push 9, Pop, Pop] ?r") auto
  moreover have "acc = [7, 8] \<and> out = [7, 8]"
    using run by (auto simp: ring_push_def ring_pop_def Let_def ring_capacity_def Indices_new_def
        word_le_nat_alt)
  ultimately show ?thesis using ring_lossless_fifo [OF ok run] by (simp add: Let_def)
qed

text \<open>Submission on a well-formed ring. A push is refused with \<open>Full\<close> exactly when a full
  capacity of entries is queued, and then changes nothing; otherwise the entry is queued last, the
  capacity and the retired word are untouched, and the returned seqno, also published as the
  submitted word, is the successor of the \<open>u32\<close> tail.\<close>

theorem ring_push_contract:
  assumes "ring_ok r"
  shows "(case ring_push x r of
      (Inl e, r') \<Rightarrow> e = Full \<and> r' = r \<and> length (ring_items r) = ring_cap r
    | (Inr s, r') \<Rightarrow> length (ring_items r) < ring_cap r \<and> ring_items r' = ring_items r @ [x] \<and>
        unat s = (unat (ix_tail (ring_idx r)) + 1) mod 2 ^ 32 \<and> ring_submitted r' = s \<and>
        ring_retired r' = ring_retired r)"
proof (cases "length (ring_items r) = ring_cap r")
  case True
  then show ?thesis using push_full [OF assms] by simp
next
  case False
  then have room: "length (ring_items r) < ring_cap r" using spsc.bounded [OF assms] by simp
  have u: "unat (ucast (ix_tail (ring_idx r) + 1) :: u64) = (unat (ix_tail (ring_idx r)) + 1) mod 2 ^ 32"
    by (simp add: unsigned_ucast_eq unat_word_ariths take_bit_eq_mod)
  have sub: "ring_submitted (snd (ring_push x r)) = ucast (ix_tail (ring_idx r) + 1)"
    using full_iff [OF assms] False
    by (simp add: ring_push_def Let_def ring_submitted_def ring_len_def)
  obtain r' where "ring_push x r = (Inr (ucast (ix_tail (ring_idx r) + 1)), r')"
    "ring_items r' = ring_items r @ [x]" "ring_retired r' = ring_retired r"
    by (rule push_room [OF assms room])
  then show ?thesis using room u sub by simp
qed

theorem ring_push_contract_witness:
  "\<exists>r'. ring_push (5 :: nat)
       \<lparr>ring_slots = [1, 2], ring_idx = Indices_new\<lparr>ix_tail := 1\<rparr>, ring_mask = 1\<rparr> = (Inr 2, r') \<and>
     ring_items r' = [1, 5]"
proof -
  let ?r = "\<lparr>ring_slots = [1, 2 :: nat], ring_idx = Indices_new\<lparr>ix_tail := 1\<rparr>, ring_mask = 1\<rparr>"
  have ok: "ring_ok ?r"
    using cap_ok_pow [of 1]
    by (simp add: ring_ok_def ring_len_def Indices_new_def numeral_2_eq_2)
  have items: "ring_items ?r = [1]" by code_simp
  have "fst (ring_push 5 ?r) = Inr 2" by code_simp
  then obtain r' where r': "ring_push 5 ?r = (Inr 2, r')" by (metis prod.collapse)
  with ring_push_contract [OF ok, of 5] items show ?thesis by simp
qed

text \<open>The submission seqno is not monotonic over the life of a ring: the push that wraps the
  \<open>u32\<close> tail returns 0, the value a drain takes for "nothing to retire".\<close>

lemma push_seqno_wraps:
  "fst (ring_push (5 :: nat) \<lparr>ring_slots = [1, 2],
     ring_idx = Indices_new\<lparr>ix_tail := -1, ix_head := -1, ix_seqno_submit := 0xFFFFFFFF\<rparr>,
     ring_mask = 1\<rparr>) = Inr 0"
  by (simp add: ring_push_def ring_capacity_def Let_def Indices_new_def)

text \<open>A ring view is built exactly over a slot array whose length is a power of two not
  above \<open>2^31\<close>, the largest that fits a \<open>u32\<close>; a view over a zeroed index page is an empty
  well-formed ring with the whole array as its capacity.\<close>

theorem ring_from_parts_geometry:
  "(case from_parts slots idx of
      Inl e \<Rightarrow> e = BadGeometry \<and> (\<nexists>k. k < 32 \<and> length slots = 2 ^ k)
    | Inr r \<Rightarrow> (\<exists>k<32. length slots = 2 ^ k) \<and> ring_slots r = slots \<and> ring_idx r = idx \<and>
        unat (ring_capacity r) = length slots \<and>
        (idx = Indices_new \<longrightarrow> ring_ok r \<and> ring_items r = []))"
proof (cases "cap_ok (length slots)")
  case True
  then obtain k where k: "length slots = 2 ^ k" "k < 32" by (rule cap_okE)
  obtain r where r: "from_parts slots idx = Inr r" using True from_parts_iff by metis
  then have parts: "ring_slots r = slots" "ring_idx r = idx"
      "ring_mask r = word_of_nat (length slots - 1)"
    by (auto simp: from_parts_def Let_def split: if_splits)
  have c: "unat (ring_capacity r) = length slots"
    using cap_ok_bounds [OF True]
    by (simp only: parts ring_capacity_def capacity_word [OF True]) (simp add: unat_of_nat)
  have new: "ring_ok r \<and> ring_items r = []" if "idx = Indices_new"
    using that from_parts_ok [OF r] parts by (simp add: Indices_new_def ring_items_def ring_len_def)
  from r k parts c new show ?thesis by auto
next
  case False
  then have no: "\<nexists>k. k < 32 \<and> length slots = 2 ^ k" using cap_ok_pow by metis
  have "from_parts slots idx = Inl BadGeometry"
    using False from_parts_iff [of slots idx] by (auto simp: from_parts_def Let_def split: if_splits)
  with no show ?thesis by simp
qed

theorem ring_from_parts_geometry_witness:
  "from_parts [0, 0, 0 :: nat] Indices_new = Inl BadGeometry \<and>
   (\<exists>r. from_parts [0, 0, 0, 0 :: nat] Indices_new = Inr r \<and> ring_ok r \<and> ring_items r = [])"
proof
  show "from_parts [0, 0, 0 :: nat] Indices_new = Inl BadGeometry" by code_simp
  obtain r where r: "from_parts [0, 0, 0, 0 :: nat] Indices_new = Inr r"
    using from_parts_iff [of "[0, 0, 0, 0 :: nat]" Indices_new] cap_ok_pow [of 2]
    by (auto simp: eval_nat_numeral)
  with ring_from_parts_geometry [of "[0, 0, 0, 0 :: nat]" Indices_new]
  show "\<exists>r. from_parts [0, 0, 0, 0 :: nat] Indices_new = Inr r \<and> ring_ok r \<and> ring_items r = []"
    by simp
qed

end
