(* ===== verification/Spsc_Interleaving.thy ===== *)
theory Spsc_Interleaving
  imports Spsc_Ring
begin

text \<open>
  The two ends of the ring of \<open>crates/infinigpu-ring/src/lib.rs\<close> running against each other. Each
  atomic access of \<open>push\<close> (lines 217-237) and \<open>pop\<close> (lines 242-258) is one step, in program
  order, and the steps of the two ends interleave arbitrarily. The release / acquire pairs on
  \<open>tail\<close> and \<open>head\<close> are what makes sequentially consistent interleavings the right model of these
  accesses; the loom test of the crate explores the same space. \<open>published\<close> and \<open>consumed\<close> are
  ghost logs of the completed operations.
\<close>

datatype 'a producer =
    PIdle
  | PLoadedTail 'a u32
  | PReserved 'a u32
  | PWrote 'a u32
  | PStamped 'a u32

datatype 'a consumer =
    CIdle
  | CLoadedHead u32
  | CSaw u32
  | CRead u32 'a

record 'a spsc =
  sp_ring :: "'a Ring"
  sp_prod :: "'a producer"
  sp_cons :: "'a consumer"
  sp_published :: "'a list"
  sp_consumed :: "'a list"

definition spsc_init :: "'a list \<Rightarrow> 'a spsc" where
  "spsc_init slots = \<lparr>sp_ring = \<lparr>ring_slots = slots, ring_idx = Indices_new,
       ring_mask = word_of_nat (length slots - 1)\<rparr>,
     sp_prod = PIdle, sp_cons = CIdle, sp_published = [], sp_consumed = []\<rparr>"

abbreviation "sp_tail s \<equiv> ix_tail (ring_idx (sp_ring s))"
abbreviation "sp_head s \<equiv> ix_head (ring_idx (sp_ring s))"
abbreviation "sp_slots s \<equiv> ring_slots (sp_ring s)"
abbreviation "sp_mask s \<equiv> ring_mask (sp_ring s)"

inductive spsc_step :: "'a spsc \<Rightarrow> 'a spsc \<Rightarrow> bool" where
  push_begin: "sp_prod s = PIdle \<Longrightarrow> spsc_step s (s\<lparr>sp_prod := PLoadedTail x (sp_tail s)\<rparr>)"
| push_full: "sp_prod s = PLoadedTail x t \<Longrightarrow> ring_capacity (sp_ring s) \<le> t - sp_head s \<Longrightarrow>
    spsc_step s (s\<lparr>sp_prod := PIdle\<rparr>)"
| push_reserve: "sp_prod s = PLoadedTail x t \<Longrightarrow> \<not> ring_capacity (sp_ring s) \<le> t - sp_head s \<Longrightarrow>
    spsc_step s (s\<lparr>sp_prod := PReserved x t\<rparr>)"
| push_write: "sp_prod s = PReserved x t \<Longrightarrow>
    spsc_step s (s\<lparr>sp_ring := (sp_ring s)\<lparr>ring_slots := (sp_slots s)[unat (and t (sp_mask s)) := x]\<rparr>,
      sp_prod := PWrote x t\<rparr>)"
| push_stamp: "sp_prod s = PWrote x t \<Longrightarrow>
    spsc_step s (s\<lparr>sp_ring := (sp_ring s)\<lparr>ring_idx := (ring_idx (sp_ring s))\<lparr>ix_seqno_submit := ucast (t + 1)\<rparr>\<rparr>,
      sp_prod := PStamped x t\<rparr>)"
| push_publish: "sp_prod s = PStamped x t \<Longrightarrow>
    spsc_step s (s\<lparr>sp_ring := (sp_ring s)\<lparr>ring_idx := (ring_idx (sp_ring s))\<lparr>ix_tail := t + 1\<rparr>\<rparr>,
      sp_prod := PIdle, sp_published := sp_published s @ [x]\<rparr>)"
| pop_begin: "sp_cons s = CIdle \<Longrightarrow> spsc_step s (s\<lparr>sp_cons := CLoadedHead (sp_head s)\<rparr>)"
| pop_empty: "sp_cons s = CLoadedHead h \<Longrightarrow> h = sp_tail s \<Longrightarrow> spsc_step s (s\<lparr>sp_cons := CIdle\<rparr>)"
| pop_saw: "sp_cons s = CLoadedHead h \<Longrightarrow> h \<noteq> sp_tail s \<Longrightarrow> spsc_step s (s\<lparr>sp_cons := CSaw h\<rparr>)"
| pop_read: "sp_cons s = CSaw h \<Longrightarrow>
    spsc_step s (s\<lparr>sp_cons := CRead h (sp_slots s ! unat (and h (sp_mask s)))\<rparr>)"
| pop_free: "sp_cons s = CRead h x \<Longrightarrow>
    spsc_step s (s\<lparr>sp_ring := (sp_ring s)\<lparr>ring_idx := (ring_idx (sp_ring s))\<lparr>ix_head := h + 1\<rparr>\<rparr>,
      sp_cons := CIdle, sp_consumed := sp_consumed s @ [x]\<rparr>)"

inductive spsc_reach :: "'a list \<Rightarrow> 'a spsc \<Rightarrow> bool" for slots where
  init: "spsc_reach slots (spsc_init slots)"
| step: "spsc_reach slots s \<Longrightarrow> spsc_step s s' \<Longrightarrow> spsc_reach slots s'"

subsection \<open>The invariant\<close>

text \<open>
  With \<open>P\<close> entries published and \<open>C\<close> consumed, the index words are \<open>P\<close> and \<open>C\<close> modulo \<open>2^32\<close>,
  the live slots hold the entries \<open>C ..< P\<close> of the log, and each end's local state is about its
  own index, which the other end never moves.
\<close>

fun prod_inv :: "nat \<Rightarrow> 'a list \<Rightarrow> nat \<Rightarrow> nat \<Rightarrow> 'a producer \<Rightarrow> bool" where
  "prod_inv cap slots P C PIdle = True"
| "prod_inv cap slots P C (PLoadedTail x t) = (t = word_of_nat P)"
| "prod_inv cap slots P C (PReserved x t) = (t = word_of_nat P \<and> P < C + cap)"
| "prod_inv cap slots P C (PWrote x t) = (t = word_of_nat P \<and> P < C + cap \<and> slots ! (P mod cap) = x)"
| "prod_inv cap slots P C (PStamped x t) = (t = word_of_nat P \<and> P < C + cap \<and> slots ! (P mod cap) = x)"

fun cons_inv :: "'a list \<Rightarrow> nat \<Rightarrow> 'a consumer \<Rightarrow> bool" where
  "cons_inv log C CIdle = True"
| "cons_inv log C (CLoadedHead h) = (h = word_of_nat C)"
| "cons_inv log C (CSaw h) = (h = word_of_nat C \<and> C < length log)"
| "cons_inv log C (CRead h x) = (h = word_of_nat C \<and> C < length log \<and> x = log ! C)"

definition spsc_inv :: "nat \<Rightarrow> 'a spsc \<Rightarrow> bool" where
  "spsc_inv cap s = (let log = sp_published s; P = length log; C = length (sp_consumed s) in
     cap_ok cap \<and> length (sp_slots s) = cap \<and> sp_mask s = word_of_nat (cap - 1) \<and>
     sp_tail s = word_of_nat P \<and> sp_head s = word_of_nat C \<and>
     C \<le> P \<and> P \<le> C + cap \<and> sp_consumed s = take C log \<and>
     (\<forall>k. C \<le> k \<and> k < P \<longrightarrow> sp_slots s ! (k mod cap) = log ! k) \<and>
     prod_inv cap (sp_slots s) P C (sp_prod s) \<and> cons_inv log C (sp_cons s))"

lemma prod_inv_mono: "prod_inv cap slots P C p \<Longrightarrow> prod_inv cap slots P (Suc C) p"
  by (cases p) auto

lemma cons_inv_mono: "cons_inv log C c \<Longrightarrow> cons_inv (log @ [x]) C c"
  by (cases c) (auto simp: nth_append)

lemma word_count_diff:
  assumes "C \<le> P" "P \<le> C + cap" "cap_ok cap"
  shows "unat (word_of_nat P - word_of_nat C :: u32) = P - C"
proof -
  have "(word_of_nat P - word_of_nat C :: u32) = word_of_nat (P - C)"
    using assms(1) by (simp add: of_nat_diff)
  moreover have "P - C < 2 ^ 32" using assms cap_ok_bounds [of cap] by linarith
  ultimately show ?thesis by (simp add: unat_of_nat)
qed

lemma window_not_reused:
  fixes C k P cap :: nat
  assumes "C \<le> k" "k < P" "P < C + cap"
  shows "k mod cap \<noteq> P mod cap"
proof
  assume "k mod cap = P mod cap"
  then have "(C + (k - C)) mod cap = (C + (P - C)) mod cap" using assms by simp
  moreover have "k - C < cap" "P - C < cap" using assms by simp_all
  ultimately have "k - C = P - C" by (metis mod_window_inj)
  with assms show False by simp
qed

lemma and_slot: "cap_ok cap \<Longrightarrow> unat (and (word_of_nat n) (word_of_nat (cap - 1)) :: u32) = n mod cap"
  using slot_of_nat [of cap n] by (simp add: slot_of_def)

lemma spsc_inv_init: "cap_ok (length slots) \<Longrightarrow> spsc_inv (length slots) (spsc_init slots)"
  by (simp add: spsc_inv_def spsc_init_def Indices_new_def)


lemma capacity_unat: "cap_ok cap \<Longrightarrow> ring_mask r = word_of_nat (cap - 1) \<Longrightarrow> unat (ring_capacity r) = cap"
  using cap_ok_bounds [of cap]
  by (simp only: ring_capacity_def capacity_word) (simp add: unat_of_nat)

lemma count_facts:
  assumes "spsc_inv cap s"
  shows "unat (sp_tail s - sp_head s) = length (sp_published s) - length (sp_consumed s)"
    "unat (ring_capacity (sp_ring s)) = cap"
    "length (sp_consumed s) \<le> length (sp_published s)"
    "length (sp_published s) \<le> length (sp_consumed s) + cap"
proof -
  have inv: "cap_ok cap" "sp_mask s = word_of_nat (cap - 1)"
    "sp_tail s = word_of_nat (length (sp_published s))"
    "sp_head s = word_of_nat (length (sp_consumed s))"
    and le: "length (sp_consumed s) \<le> length (sp_published s)"
    "length (sp_published s) \<le> length (sp_consumed s) + cap"
    using assms unfolding spsc_inv_def Let_def by blast+
  show "unat (sp_tail s - sp_head s) = length (sp_published s) - length (sp_consumed s)"
    unfolding inv by (rule word_count_diff [OF le inv(1)])
  show "unat (ring_capacity (sp_ring s)) = cap" by (rule capacity_unat [OF inv(1,2)])
qed (use assms in \<open>auto simp: spsc_inv_def Let_def\<close>)

lemma room_check:
  assumes "spsc_inv cap s"
  shows "ring_capacity (sp_ring s) \<le> sp_tail s - sp_head s \<longleftrightarrow>
    length (sp_published s) = length (sp_consumed s) + cap"
  unfolding word_le_nat_alt count_facts [OF assms]
  using count_facts(3,4) [OF assms] by linarith

lemma empty_check:
  assumes "spsc_inv cap s"
  shows "sp_head s = sp_tail s \<longleftrightarrow> length (sp_published s) = length (sp_consumed s)"
proof -
  have "sp_head s = sp_tail s \<longleftrightarrow> unat (sp_tail s - sp_head s) = 0"
    by (metis right_minus_eq unat_0 unat_eq_zero)
  then show ?thesis unfolding count_facts(1) [OF assms] using count_facts(3) [OF assms] by linarith
qed

lemma take_suc_snoc: "C < length log \<Longrightarrow> take C log @ [log ! C] = take (Suc C) log"
  by (simp add: take_Suc_conv_app_nth)

lemma step_push_write:
  assumes inv: "spsc_inv cap s" and pc: "sp_prod s = PReserved x t"
  shows "spsc_inv cap (s\<lparr>sp_ring := (sp_ring s)\<lparr>ring_slots := (sp_slots s)[unat (and t (sp_mask s)) := x]\<rparr>,
      sp_prod := PWrote x t\<rparr>)"
proof -
  let ?P = "length (sp_published s)" and ?C = "length (sp_consumed s)"
  have cap: "cap_ok cap" and t: "t = word_of_nat ?P" "?P < ?C + cap"
    and mask: "sp_mask s = word_of_nat (cap - 1)" and len: "length (sp_slots s) = cap"
    using inv pc by (auto simp: spsc_inv_def Let_def)
  have i: "unat (and t (sp_mask s)) = ?P mod cap" using t mask and_slot [OF cap] by simp
  have "?P mod cap < cap" using cap by (simp add: cap_ok_def)
  then have hit: "(sp_slots s)[?P mod cap := x] ! (?P mod cap) = x" using len by simp
  have miss: "(sp_slots s)[?P mod cap := x] ! (k mod cap) = sp_slots s ! (k mod cap)"
    if "?C \<le> k" "k < ?P" for k
    using window_not_reused [OF that t(2)] by simp
  show ?thesis using inv pc i hit miss by (simp add: spsc_inv_def Let_def)
qed

lemma step_push_publish:
  assumes inv: "spsc_inv cap s" and pc: "sp_prod s = PStamped x t"
  shows "spsc_inv cap (s\<lparr>sp_ring := (sp_ring s)\<lparr>ring_idx := (ring_idx (sp_ring s))\<lparr>ix_tail := t + 1\<rparr>\<rparr>,
      sp_prod := PIdle, sp_published := sp_published s @ [x]\<rparr>)"
  using inv pc cons_inv_mono [of "sp_published s" "length (sp_consumed s)" "sp_cons s" x]
  by (auto simp: spsc_inv_def Let_def nth_append less_Suc_eq)

lemma step_pop_read:
  assumes inv: "spsc_inv cap s" and pc: "sp_cons s = CSaw h"
  shows "spsc_inv cap (s\<lparr>sp_cons := CRead h (sp_slots s ! unat (and h (sp_mask s)))\<rparr>)"
  using inv pc and_slot [of cap "length (sp_consumed s)"] by (auto simp: spsc_inv_def Let_def)

lemma step_pop_free:
  assumes inv: "spsc_inv cap s" and pc: "sp_cons s = CRead h x"
  shows "spsc_inv cap (s\<lparr>sp_ring := (sp_ring s)\<lparr>ring_idx := (ring_idx (sp_ring s))\<lparr>ix_head := h + 1\<rparr>\<rparr>,
      sp_cons := CIdle, sp_consumed := sp_consumed s @ [x]\<rparr>)"
  using inv pc prod_inv_mono [of cap "sp_slots s" "length (sp_published s)" "length (sp_consumed s)" "sp_prod s"]
    take_suc_snoc [of "length (sp_consumed s)" "sp_published s"]
  by (auto simp: spsc_inv_def Let_def)

lemma spsc_inv_step: "spsc_step s s' \<Longrightarrow> spsc_inv cap s \<Longrightarrow> spsc_inv cap s'"
proof (induction rule: spsc_step.induct)
  case (push_reserve s x t)
  then show ?case using room_check [of cap s] by (auto simp: spsc_inv_def Let_def)
next
  case (push_write s x t)
  then show ?case by (intro step_push_write)
next
  case (push_publish s x t)
  then show ?case by (intro step_push_publish)
next
  case (pop_saw s h)
  then show ?case using empty_check [of cap s] by (auto simp: spsc_inv_def Let_def)
next
  case (pop_read s h)
  then show ?case by (intro step_pop_read)
next
  case (pop_free s h x)
  then show ?case by (intro step_pop_free)
qed (auto simp: spsc_inv_def Let_def)

lemma spsc_reach_inv: "spsc_reach slots s \<Longrightarrow> cap_ok (length slots) \<Longrightarrow> spsc_inv (length slots) s"
  by (induction rule: spsc_reach.induct) (auto intro: spsc_inv_init spsc_inv_step)

subsection \<open>Runs of one end\<close>

text \<open>A push whose steps run back to back, as \<open>ring_push\<close> has it.\<close>

lemma solo_push:
  assumes "spsc_reach slots s" "sp_prod s = PIdle"
    and push: "ring_push x (sp_ring s) = (Inr q, r')"
  shows "spsc_reach slots (s\<lparr>sp_ring := r', sp_published := sp_published s @ [x]\<rparr>)"
proof -
  let ?t = "sp_tail s"
  have room: "\<not> ring_capacity (sp_ring s) \<le> ?t - sp_head s"
    and r': "r' = (sp_ring s)\<lparr>ring_slots := (sp_slots s)[unat (and ?t (sp_mask s)) := x],
          ring_idx := (ring_idx (sp_ring s))\<lparr>ix_seqno_submit := ucast (?t + 1), ix_tail := ?t + 1\<rparr>\<rparr>"
    using push by (auto simp: ring_push_def Let_def split: if_splits)
  note assms(1)
  also have "spsc_step s (s\<lparr>sp_prod := PLoadedTail x ?t\<rparr>)" by (rule push_begin) fact
  finally (spsc_reach.step) have "spsc_reach slots (s\<lparr>sp_prod := PLoadedTail x ?t\<rparr>)" .
  from spsc_reach.step [OF this push_reserve [of _ x ?t]] room
  have "spsc_reach slots (s\<lparr>sp_prod := PReserved x ?t\<rparr>)" by simp
  from spsc_reach.step [OF this push_write [of _ x ?t]]
  have "spsc_reach slots (s\<lparr>sp_ring := (sp_ring s)\<lparr>ring_slots := (sp_slots s)[unat (and ?t (sp_mask s)) := x]\<rparr>,
      sp_prod := PWrote x ?t\<rparr>)" by simp
  from spsc_reach.step [OF this push_stamp [of _ x ?t]]
    have "spsc_reach slots (s\<lparr>sp_ring := (sp_ring s)\<lparr>ring_slots := (sp_slots s)[unat (and ?t (sp_mask s)) := x],
      ring_idx := (ring_idx (sp_ring s))\<lparr>ix_seqno_submit := ucast (?t + 1)\<rparr>\<rparr>,
      sp_prod := PStamped x ?t\<rparr>)" by simp
  from spsc_reach.step [OF this push_publish [of _ x ?t]]
  have "spsc_reach slots (s\<lparr>sp_ring := r', sp_prod := PIdle, sp_published := sp_published s @ [x]\<rparr>)"
    by (simp add: r')
  moreover have "s\<lparr>sp_ring := r', sp_prod := PIdle, sp_published := sp_published s @ [x]\<rparr> =
    s\<lparr>sp_ring := r', sp_published := sp_published s @ [x]\<rparr>"
    using assms(2) by (cases s) simp
  ultimately show ?thesis by simp
qed

subsection \<open>Properties\<close>

text \<open>C1: under every interleaving of the atomic accesses of one producer and one consumer, what
  the consumer has taken is a prefix of what the producer has published, and the rest, at most a
  capacity of entries, is queued in the slots in order.\<close>

theorem spsc_lossless_under_interleaving:
  assumes "spsc_reach slots s" and "cap_ok (length slots)"
  shows "\<exists>queued. sp_published s = sp_consumed s @ queued \<and> length queued \<le> length slots \<and>
    ring_items (sp_ring s) = queued"
proof -
  let ?P = "length (sp_published s)" and ?C = "length (sp_consumed s)" and ?cap = "length slots"
  have inv: "spsc_inv ?cap s" using assms by (rule spsc_reach_inv)
  then have cap: "cap_ok ?cap" and C: "?C \<le> ?P" and P: "?P \<le> ?C + ?cap"
    and len: "length (sp_slots s) = ?cap" and pre: "sp_consumed s = take ?C (sp_published s)"
    and head: "sp_head s = word_of_nat ?C" and tail: "sp_tail s = word_of_nat ?P"
    and live: "\<And>k. ?C \<le> k \<Longrightarrow> k < ?P \<Longrightarrow> sp_slots s ! (k mod ?cap) = sp_published s ! k"
    by (auto simp: spsc_inv_def Let_def)
  have n: "unat (ring_len (sp_ring s)) = ?P - ?C"
    using word_count_diff [OF C P cap] by (simp add: ring_len_def head tail)
  have "ring_items (sp_ring s) = drop ?C (sp_published s)"
  proof (rule nth_equalityI)
    fix k assume "k < length (ring_items (sp_ring s))"
    then have k: "k < ?P - ?C" by (simp add: n)
    have "ring_items (sp_ring s) ! k = sp_slots s ! ((?C + k) mod ?cap)"
      using k n slot_of_nat [OF cap, of "?C + k"] by (simp add: ring_items_def len head)
    also have "\<dots> = sp_published s ! (?C + k)" using k by (intro live) auto
    finally show "ring_items (sp_ring s) ! k = drop ?C (sp_published s) ! k" using C by simp
  qed (use n in simp)
  moreover have "sp_published s = sp_consumed s @ drop ?C (sp_published s)"
    using pre by (metis append_take_drop_id)
  ultimately show ?thesis using P by (intro exI [of _ "drop ?C (sp_published s)"]) auto
qed

theorem spsc_lossless_under_interleaving_witness:
  "\<exists>s. spsc_reach [0, 0 :: nat] s \<and> sp_published s = [7] \<and> ring_items (sp_ring s) = [7]"
proof -
  have cap: "cap_ok (length [0, 0 :: nat])" using cap_ok_pow [of 1] by (simp add: numeral_2_eq_2)
  let ?i = "spsc_init [0, 0 :: nat]"
  obtain q r' where p: "ring_push 7 (sp_ring ?i) = (Inr q, r')"
    by (simp add: spsc_init_def ring_push_def ring_capacity_def Indices_new_def)
  let ?s = "?i\<lparr>sp_ring := r', sp_published := sp_published ?i @ [7]\<rparr>"
  have r: "spsc_reach [0, 0] ?s"
    by (rule solo_push [OF spsc_reach.init _ p]) (simp add: spsc_init_def)
  then show ?thesis
    using spsc_lossless_under_interleaving [OF r cap]
    by (intro exI [of _ ?s]) (simp add: spsc_init_def)
qed

text \<open>C2: the two ends never touch the same slot at the same time. Whenever the producer is about
  to write a slot and the consumer is about to read one, the slots differ, so handing the slot
  array to both threads (\<open>unsafe impl Sync for Slot\<close>) is sound.\<close>

theorem spsc_no_slot_race:
  assumes "spsc_reach slots s" and "cap_ok (length slots)"
    and "sp_prod s = PReserved x t" and "sp_cons s = CSaw h"
  shows "unat (and t (sp_mask s)) \<noteq> unat (and h (sp_mask s))"
proof -
  let ?P = "length (sp_published s)" and ?C = "length (sp_consumed s)" and ?cap = "length slots"
  have "spsc_inv ?cap s" using assms by (intro spsc_reach_inv)
  then have "t = word_of_nat ?P" "h = word_of_nat ?C" "?C < ?P" "?P < ?C + ?cap"
    "sp_mask s = word_of_nat (?cap - 1)"
    using assms by (auto simp: spsc_inv_def Let_def)
  then show ?thesis
    using window_not_reused [of ?C ?C ?P ?cap] and_slot [OF assms(2)] by simp
qed

text \<open>A capacity-two ring with one entry queued, both ends inside their critical step.\<close>

lemma race_state_reached:
  "\<exists>s :: nat spsc. spsc_reach [0, 0] s \<and> sp_prod s = PReserved 8 1 \<and> sp_cons s = CSaw 0"
proof -
  let ?i = "spsc_init [0, 0 :: nat]"
  have cap: "cap_ok (length [0, 0 :: nat])" using cap_ok_pow [of 1] by (simp add: numeral_2_eq_2)
  let ?s = "\<lparr>sp_ring = \<lparr>ring_slots = [7, 0 :: nat],
      ring_idx = Indices_new\<lparr>ix_seqno_submit := 1, ix_tail := 1\<rparr>, ring_mask = 1\<rparr>,
      sp_prod = PIdle, sp_cons = CIdle, sp_published = [7], sp_consumed = []\<rparr>"
  have push: "\<exists>r'. ring_push 7 (sp_ring ?i) = (Inr 1, r') \<and>
      ?i\<lparr>sp_ring := r', sp_published := sp_published ?i @ [7]\<rparr> = ?s"
    by (simp add: spsc_init_def ring_push_def ring_capacity_def Indices_new_def)
  then have s: "spsc_reach [0, 0] ?s"
    using solo_push [OF spsc_reach.init [of "[0, 0 :: nat]"], of 7 1]
    by (metis (no_types, lifting) spsc.select_convs(2) spsc_init_def)
  have "spsc_reach [0, 0] (?s\<lparr>sp_prod := PLoadedTail 8 1\<rparr>)"
    using spsc_reach.step [OF s push_begin [of ?s 8]] by simp
  then have "spsc_reach [0, 0] (?s\<lparr>sp_prod := PReserved 8 1\<rparr>)"
    by (drule_tac spsc_reach.step [OF _ push_reserve [of _ 8 1]])
      (simp_all add: ring_capacity_def Indices_new_def word_le_nat_alt)
  then have "spsc_reach [0, 0] (?s\<lparr>sp_prod := PReserved 8 1, sp_cons := CLoadedHead 0\<rparr>)"
    by (drule_tac spsc_reach.step [OF _ pop_begin]) (simp_all add: Indices_new_def)
  then have "spsc_reach [0, 0] (?s\<lparr>sp_prod := PReserved 8 1, sp_cons := CSaw 0\<rparr>)"
    by (drule_tac spsc_reach.step [OF _ pop_saw]) (simp_all add: Indices_new_def)
  then show ?thesis by (intro exI) auto
qed

theorem spsc_no_slot_race_witness:
  "\<exists>s :: nat spsc. sp_prod s = PReserved 8 1 \<and> sp_cons s = CSaw 0 \<and>
     unat (and 1 (sp_mask s)) \<noteq> unat (and 0 (sp_mask s))"
proof -
  have cap: "cap_ok (length [0, 0 :: nat])" using cap_ok_pow [of 1] by (simp add: numeral_2_eq_2)
  obtain s :: "nat spsc" where s: "spsc_reach [0, 0] s" "sp_prod s = PReserved 8 1" "sp_cons s = CSaw 0"
    using race_state_reached by blast
  from spsc_no_slot_race [OF s(1) cap s(2,3)] s(2,3) show ?thesis by blast
qed

end
