(* ===== verification/Mailbox_Slot.thy ===== *)
theory Mailbox_Slot
  imports Igpu_Prelude "HOL-Library.Multiset"
begin

text \<open>
  \<open>crates/infinigpu-device/src/mailbox.rs\<close>: the single-slot, latest-wins hand-off from the callback
  thread to a worker. Every operation is one critical section on the slot. A blocked \<open>recv\<close> is one
  that has not produced a result yet.
\<close>

record 'a Slot =
  sl_item :: "'a option"
  sl_closed :: bool

definition mailbox_new :: "'a Slot" where
  "mailbox_new = \<lparr>sl_item = None, sl_closed = False\<rparr>"

definition mb_post :: "'a \<Rightarrow> 'a Slot \<Rightarrow> 'a option \<times> 'a Slot" where
  "mb_post item s = (if sl_closed s then (Some item, s)
     else (sl_item s, s\<lparr>sl_item := Some item\<rparr>))"

definition mb_close :: "'a Slot \<Rightarrow> 'a Slot" where
  "mb_close s = s\<lparr>sl_closed := True\<rparr>"

datatype 'a received = Got 'a | Ended | Blocked

definition mb_recv :: "'a Slot \<Rightarrow> 'a received \<times> 'a Slot" where
  "mb_recv s = (case sl_item s of
     Some item \<Rightarrow> (Got item, s\<lparr>sl_item := None\<rparr>)
   | None \<Rightarrow> (if sl_closed s then Ended else Blocked, s))"

definition mb_try_take :: "'a Slot \<Rightarrow> 'a option \<times> 'a Slot" where
  "mb_try_take s = (sl_item s, s\<lparr>sl_item := None\<rparr>)"

definition mb_is_closed :: "'a Slot \<Rightarrow> bool" where
  "mb_is_closed s = sl_closed s"

definition mb_receiver_drop :: "'a Slot \<Rightarrow> 'a Slot" where
  "mb_receiver_drop s = s\<lparr>sl_closed := True\<rparr>"

interpretation mailbox: latest_wins "\<lambda>x s. snd (mb_post x s)" mb_try_take sl_item "\<lambda>s. \<not> sl_closed s"
  by unfold_locales (auto simp: mb_post_def mb_try_take_def)

text \<open>Every item goes to exactly one place: the worker, or back to a poster.\<close>

datatype 'a mb_op = Post 'a | Recv | TryTake | Close

fun mb_run :: "'a mb_op list \<Rightarrow> 'a Slot \<Rightarrow> 'a list \<times> 'a list \<times> 'a Slot" where
  "mb_run [] s = ([], [], s)"
| "mb_run (Post x # ops) s = (case mb_post x s of (back, s') \<Rightarrow>
     case mb_run ops s' of (taken, returned, s'') \<Rightarrow> (taken, case_option [] (\<lambda>y. [y]) back @ returned, s''))"
| "mb_run (Recv # ops) s = (case mb_recv s of
     (Got x, s') \<Rightarrow> (case mb_run ops s' of (taken, returned, s'') \<Rightarrow> (x # taken, returned, s''))
   | (_, s') \<Rightarrow> mb_run ops s')"
| "mb_run (TryTake # ops) s = (case mb_try_take s of (got, s') \<Rightarrow>
     case mb_run ops s' of (taken, returned, s'') \<Rightarrow> (case_option [] (\<lambda>y. [y]) got @ taken, returned, s''))"
| "mb_run (Close # ops) s = mb_run ops (mb_close s)"

definition mb_posts :: "'a mb_op list \<Rightarrow> 'a list" where
  "mb_posts ops = concat (map (\<lambda>oper. case oper of Post x \<Rightarrow> [x] | _ \<Rightarrow> []) ops)"

subsection \<open>Properties\<close>

text \<open>C29: the hand-off conserves its items. Over any sequence of posts, receives, takes and closes on
  a new mailbox, every posted item is delivered to the worker, or handed back to a poster (displaced
  by a newer one, or refused because the mailbox is closed), or still in the slot, exactly once; and
  at most one item is ever buffered.\<close>

theorem mailbox_conserves_items:
  "case mb_run ops mailbox_new of (taken, returned, s) \<Rightarrow>
     mset taken + mset returned + (case sl_item s of None \<Rightarrow> {#} | Some x \<Rightarrow> {#x#}) = mset (mb_posts ops)"
proof -
  have "mset taken + mset returned + (case sl_item s' of None \<Rightarrow> {#} | Some x \<Rightarrow> {#x#}) =
      mset (mb_posts ops) + (case sl_item s of None \<Rightarrow> {#} | Some x \<Rightarrow> {#x#})"
    if "mb_run ops s = (taken, returned, s')" for s s' :: "'a Slot" and taken returned
    using that
  proof (induction ops arbitrary: s taken returned s')
    case (Cons oper ops)
    show ?case
    proof (cases oper)
      case (Post x)
      obtain t r s2 where run: "mb_run ops (snd (mb_post x s)) = (t, r, s2)" by (metis prod_cases3)
      show ?thesis
        using Cons.prems Post run Cons.IH [OF run]
        by (cases "sl_closed s"; cases "sl_item s") (auto simp: mb_post_def mb_posts_def)
    next
      case Recv
      obtain t r s2 where run: "mb_run ops (snd (mb_recv s)) = (t, r, s2)" by (metis prod_cases3)
      show ?thesis
        using Cons.prems Recv run Cons.IH [OF run]
        by (cases "sl_closed s"; cases "sl_item s") (auto simp: mb_recv_def mb_posts_def)
    next
      case TryTake
      obtain t r s2 where run: "mb_run ops (snd (mb_try_take s)) = (t, r, s2)" by (metis prod_cases3)
      show ?thesis
        using Cons.prems TryTake run Cons.IH [OF run]
        by (cases "sl_item s") (auto simp: mb_try_take_def mb_posts_def)
    next
      case Close
      then show ?thesis
        using Cons.prems Cons.IH [of "mb_close s" taken returned] by (simp add: mb_close_def mb_posts_def)
    qed
  qed (auto simp: mb_posts_def)
  then show ?thesis by (auto simp: mailbox_new_def split: prod.split)
qed

text \<open>Latest wins, and closing drains. After any posts to an open mailbox the worker receives
  exactly the last one; if the mailbox is closed first it still receives it, and only then the end
  of the stream; and a closed mailbox hands a post straight back.\<close>

theorem mailbox_latest_then_end:
  fixes xs :: "'a list"
  assumes "xs \<noteq> []"
  shows "let s = mb_close (foldl (\<lambda>s x. snd (mb_post x s)) mailbox_new xs); (r, s') = mb_recv s in
    r = Got (last xs) \<and> fst (mb_recv s') = Ended \<and> mb_post y s = (Some y, s)"
proof -
  let ?s = "foldl (\<lambda>s x. snd (mb_post x s)) mailbox_new xs"
  have "sl_item ?s = Some (last xs)"
    using mailbox.pending_posts [of mailbox_new xs] assms by (simp add: mailbox_new_def)
  then show ?thesis by (simp add: mb_close_def mb_recv_def mb_post_def)
qed

theorem mailbox_latest_then_end_witness:
  "fst (mb_recv (mb_close (foldl (\<lambda>s x. snd (mb_post x s)) mailbox_new [1, 2, 3 :: nat]))) = Got 3"
  using mailbox_latest_then_end [of "[1, 2, 3 :: nat]" 9] by (simp add: Let_def case_prod_beta)

end
