(* ===== verification/Pixel_Proto.thy ===== *)
theory Pixel_Proto
  imports Igpu_Prelude
begin

unbundle bit_operations_syntax

text \<open>
  The wire side of \<open>crates/infinigpu-pixel/src/lib.rs\<close>: the frame and plane headers both ends of
  the display stream share, and the splitter that cuts the encoder's Annex-B byte stream into
  access units at the access-unit delimiters.
\<close>

subsection \<open>Constants and codecs\<close>

definition PROTO_MAGIC :: u32 where [simp]: "PROTO_MAGIC = 0x49504958"
definition PROTO_HEADER_LEN :: nat where [simp]: "PROTO_HEADER_LEN = 32"
definition PROTO_VERSION :: u8 where [simp]: "PROTO_VERSION = 1"
definition CODEC_H264 :: u8 where [simp]: "CODEC_H264 = 1"
definition CODEC_HEVC :: u8 where [simp]: "CODEC_HEVC = 2"
definition CODEC_AV1 :: u8 where [simp]: "CODEC_AV1 = 3"
definition FLAG_KEYFRAME :: u8 where [simp]: "FLAG_KEYFRAME = 1"
definition PLANE_MAGIC :: u32 where [simp]: "PLANE_MAGIC = 0x4C504958"
definition PLANE_HEADER_LEN :: nat where [simp]: "PLANE_HEADER_LEN = 36"
definition PLANE_VERSION :: u8 where [simp]: "PLANE_VERSION = 1"
definition PLANE_OP_DEFINE :: u8 where [simp]: "PLANE_OP_DEFINE = 1"
definition PLANE_OP_MOVE :: u8 where [simp]: "PLANE_OP_MOVE = 2"
definition PLANE_OP_DATA :: u8 where [simp]: "PLANE_OP_DATA = 3"
definition PLANE_OP_DESTROY :: u8 where [simp]: "PLANE_OP_DESTROY = 4"
definition PLANE_KIND_CURSOR :: u8 where [simp]: "PLANE_KIND_CURSOR = 1"
definition PLANE_KIND_VIDEO :: u8 where [simp]: "PLANE_KIND_VIDEO = 2"
definition PLANE_VISIBLE :: u8 where [simp]: "PLANE_VISIBLE = 1"
definition PLANE_PREMULTIPLIED :: u8 where [simp]: "PLANE_PREMULTIPLIED = 2"
definition PLANE_WARP :: u8 where [simp]: "PLANE_WARP = 4"
definition PLANE_RELATIVE :: u8 where [simp]: "PLANE_RELATIVE = 8"

datatype Codec = H264 | Hevc

fun codec_wire :: "Codec \<Rightarrow> u8" where
  "codec_wire H264 = CODEC_H264"
| "codec_wire Hevc = CODEC_HEVC"

fun aud_type :: "Codec \<Rightarrow> u8" where
  "aud_type H264 = 9"
| "aud_type Hevc = 35"

fun nal_type :: "Codec \<Rightarrow> u8 \<Rightarrow> u8" where
  "nal_type H264 b = b AND 0x1F"
| "nal_type Hevc b = drop_bit 1 b AND 0x3F"

fun is_keyframe_nal :: "Codec \<Rightarrow> u8 \<Rightarrow> bool" where
  "is_keyframe_nal H264 t = (t = 5 \<or> t = 7)"
| "is_keyframe_nal Hevc t = (t \<in> {19, 20, 21, 32, 33, 34})"

record EncodedAu =
  au_data :: bytes
  au_keyframe :: bool
  au_seq :: nat

subsection \<open>Frame header\<close>

record FrameHeader =
  fh_flags :: u8
  fh_codec :: u8
  fh_frame_seq :: u32
  fh_width :: u16
  fh_height :: u16
  fh_pts_us :: u64
  fh_payload_len :: u32

definition frame_header_bytes :: "FrameHeader \<Rightarrow> bytes" where
  "frame_header_bytes h = u32_le PROTO_MAGIC @ [PROTO_VERSION, fh_flags h, fh_codec h, 0] @
     u32_le (fh_frame_seq h) @ u16_le (fh_width h) @ u16_le (fh_height h) @
     u64_le (fh_pts_us h) @ u32_le (fh_payload_len h) @ [0, 0, 0, 0]"

definition frame_message :: "FrameHeader \<Rightarrow> bytes \<Rightarrow> bytes" where
  "frame_message h au = frame_header_bytes h @ au"

definition frame_parse :: "bytes \<Rightarrow> FrameHeader option" where
  "frame_parse buf = (if length buf < PROTO_HEADER_LEN then None
     else if get_u32 buf 0 \<noteq> PROTO_MAGIC then None
     else Some \<lparr>fh_flags = get_u8 buf 5, fh_codec = get_u8 buf 6, fh_frame_seq = get_u32 buf 8,
       fh_width = get_u16 buf 12, fh_height = get_u16 buf 14, fh_pts_us = get_u64 buf 16,
       fh_payload_len = get_u32 buf 24\<rparr>)"

definition frame_is_keyframe :: "FrameHeader \<Rightarrow> bool" where
  "frame_is_keyframe h = (fh_flags h AND FLAG_KEYFRAME \<noteq> 0)"

subsection \<open>Plane header\<close>

record PlaneHeader =
  ph_op :: u8
  ph_plane_kind :: u8
  ph_flags :: u8
  ph_plane_id :: u32
  ph_codec_or_format :: u8
  ph_z_order :: u8
  ph_width :: u16
  ph_height :: u16
  ph_hot_x :: u16
  ph_hot_y :: u16
  ph_pos_x :: u32
  ph_pos_y :: u32
  ph_payload_len :: u32

definition plane_header_bytes :: "PlaneHeader \<Rightarrow> bytes" where
  "plane_header_bytes h = u32_le PLANE_MAGIC @ [PLANE_VERSION, ph_op h, ph_plane_kind h, ph_flags h] @
     u32_le (ph_plane_id h) @ [ph_codec_or_format h, ph_z_order h, 0, 0] @
     u16_le (ph_width h) @ u16_le (ph_height h) @ u16_le (ph_hot_x h) @ u16_le (ph_hot_y h) @
     u32_le (ph_pos_x h) @ u32_le (ph_pos_y h) @ u32_le (ph_payload_len h)"

definition plane_message :: "PlaneHeader \<Rightarrow> bytes \<Rightarrow> bytes" where
  "plane_message h body = plane_header_bytes h @ body"

definition plane_parse :: "bytes \<Rightarrow> PlaneHeader option" where
  "plane_parse buf = (if length buf < PLANE_HEADER_LEN then None
     else if get_u32 buf 0 \<noteq> PLANE_MAGIC then None
     else Some \<lparr>ph_op = get_u8 buf 5, ph_plane_kind = get_u8 buf 6, ph_flags = get_u8 buf 7,
       ph_plane_id = get_u32 buf 8, ph_codec_or_format = get_u8 buf 12, ph_z_order = get_u8 buf 13,
       ph_width = get_u16 buf 16, ph_height = get_u16 buf 18, ph_hot_x = get_u16 buf 20,
       ph_hot_y = get_u16 buf 22, ph_pos_x = get_u32 buf 24, ph_pos_y = get_u32 buf 28,
       ph_payload_len = get_u32 buf 32\<rparr>)"

subsection \<open>Access units\<close>

definition start_code_at :: "bytes \<Rightarrow> nat \<Rightarrow> bool" where
  "start_code_at buf i = (buf ! i = 0 \<and> buf ! (i + 1) = 0 \<and> buf ! (i + 2) = 1)"

function find_aud :: "bytes \<Rightarrow> nat \<Rightarrow> Codec \<Rightarrow> nat option" where
  "find_aud buf i codec = (if i + 3 < length buf then
     (if start_code_at buf i \<and> nal_type codec (buf ! (i + 3)) = aud_type codec then Some i
      else find_aud buf (i + 1) codec)
   else None)"
  by pat_completeness auto
termination by (relation "measure (\<lambda>(buf, i, codec). length buf - i)") auto

function keyframe_from :: "bytes \<Rightarrow> nat \<Rightarrow> Codec \<Rightarrow> bool" where
  "keyframe_from au i codec = (if i + 3 < length au then
     (if start_code_at au i then
        (if is_keyframe_nal codec (nal_type codec (au ! (i + 3))) then True
         else keyframe_from au (i + 3) codec)
      else keyframe_from au (i + 1) codec)
   else False)"
  by pat_completeness auto
termination by (relation "measure (\<lambda>(buf, i, codec). length buf - i)") auto

declare find_aud.simps [simp del] keyframe_from.simps [simp del]

definition au_is_keyframe :: "bytes \<Rightarrow> Codec \<Rightarrow> bool" where
  "au_is_keyframe au codec = keyframe_from au 0 codec"

record AuSplitter =
  as_buf :: bytes
  as_codec :: Codec

definition AuSplitter_new :: "Codec \<Rightarrow> AuSplitter" where
  "AuSplitter_new codec = \<lparr>as_buf = [], as_codec = codec\<rparr>"

lemma find_aud_Some:
  "find_aud buf i codec = Some n \<Longrightarrow> i \<le> n \<and> n + 3 < length buf"
  by (induction buf i codec rule: find_aud.induct) (subst (asm) (2) find_aud.simps, auto split: if_splits)

function emit_units :: "Codec \<Rightarrow> bytes \<Rightarrow> bytes list \<times> bytes" where
  "emit_units codec buf = (case find_aud buf 4 codec of
     Some next \<Rightarrow> (case emit_units codec (drop next buf) of (aus, rest) \<Rightarrow> (take next buf # aus, rest))
   | None \<Rightarrow> ([], buf))"
  by pat_completeness auto
termination
  by (relation "measure (\<lambda>(codec, buf). length buf)") (auto dest: find_aud_Some)

declare emit_units.simps [simp del]

definition splitter_push :: "bytes \<Rightarrow> AuSplitter \<Rightarrow> bytes list \<times> AuSplitter" where
  "splitter_push incoming s = (let buf = as_buf s @ incoming in
     case find_aud buf 0 (as_codec s) of
       None \<Rightarrow> ([], s\<lparr>as_buf := buf\<rparr>)
     | Some first \<Rightarrow> (case emit_units (as_codec s) (drop first buf) of
         (aus, rest) \<Rightarrow> (aus, s\<lparr>as_buf := rest\<rparr>)))"

definition splitter_flush :: "AuSplitter \<Rightarrow> bytes list \<times> AuSplitter" where
  "splitter_flush s = (if 6 < length (as_buf s) \<and> find_aud (as_buf s) 0 (as_codec s) = Some 0
     then ([as_buf s], s\<lparr>as_buf := []\<rparr>) else ([], s\<lparr>as_buf := []\<rparr>))"

text \<open>\<open>reader_loop\<close> over the reads of the encoder's output; an empty read is its end, and so is a failed
  one, which the list does not contain.\<close>

fun send_aus :: "Codec \<Rightarrow> nat \<Rightarrow> bytes list \<Rightarrow> EncodedAu list" where
  "send_aus codec seq [] = []"
| "send_aus codec seq (au # aus) =
     \<lparr>au_data = au, au_keyframe = au_is_keyframe au codec, au_seq = seq\<rparr> # send_aus codec (seq + 1) aus"

fun reader_loop :: "Codec \<Rightarrow> AuSplitter \<Rightarrow> nat \<Rightarrow> bytes list \<Rightarrow> EncodedAu list" where
  "reader_loop codec s seq [] = send_aus codec seq (fst (splitter_flush s))"
| "reader_loop codec s seq (chunk # chunks) =
     (if chunk = [] then send_aus codec seq (fst (splitter_flush s))
      else case splitter_push chunk s of (aus, s') \<Rightarrow>
        send_aus codec seq aus @ reader_loop codec s' (seq + length aus) chunks)"

subsection \<open>Header lemmas\<close>

lemmas get_byte_defs = get_u8_def get_u16_def get_u32_def get_u64_def

lemma length_frame_header [simp]: "length (frame_header_bytes h) = 32"
  by (simp add: frame_header_bytes_def)

lemma length_plane_header [simp]: "length (plane_header_bytes h) = 36"
  by (simp add: plane_header_bytes_def)

lemma frame_header_fields:
  "get_u32 (frame_header_bytes h) 0 = PROTO_MAGIC"
  "get_u8 (frame_header_bytes h) 5 = fh_flags h" "get_u8 (frame_header_bytes h) 6 = fh_codec h"
  "get_u32 (frame_header_bytes h) 8 = fh_frame_seq h" "get_u16 (frame_header_bytes h) 12 = fh_width h"
  "get_u16 (frame_header_bytes h) 14 = fh_height h" "get_u64 (frame_header_bytes h) 16 = fh_pts_us h"
  "get_u32 (frame_header_bytes h) 24 = fh_payload_len h"
  by (simp_all add: frame_header_bytes_def get_byte_defs)

lemma plane_header_fields:
  "get_u32 (plane_header_bytes h) 0 = PLANE_MAGIC"
  "get_u8 (plane_header_bytes h) 5 = ph_op h" "get_u8 (plane_header_bytes h) 6 = ph_plane_kind h"
  "get_u8 (plane_header_bytes h) 7 = ph_flags h" "get_u32 (plane_header_bytes h) 8 = ph_plane_id h"
  "get_u8 (plane_header_bytes h) 12 = ph_codec_or_format h"
  "get_u8 (plane_header_bytes h) 13 = ph_z_order h"
  "get_u16 (plane_header_bytes h) 16 = ph_width h" "get_u16 (plane_header_bytes h) 18 = ph_height h"
  "get_u16 (plane_header_bytes h) 20 = ph_hot_x h" "get_u16 (plane_header_bytes h) 22 = ph_hot_y h"
  "get_u32 (plane_header_bytes h) 24 = ph_pos_x h" "get_u32 (plane_header_bytes h) 28 = ph_pos_y h"
  "get_u32 (plane_header_bytes h) 32 = ph_payload_len h"
  by (simp_all add: plane_header_bytes_def get_byte_defs)

subsection \<open>Scanning lemmas\<close>

definition aud_at :: "Codec \<Rightarrow> bytes \<Rightarrow> nat \<Rightarrow> bool" where
  "aud_at codec buf i \<longleftrightarrow> i + 3 < length buf \<and> start_code_at buf i \<and>
     nal_type codec (buf ! (i + 3)) = aud_type codec"

lemma find_aud_first:
  "find_aud buf i codec = Some n \<Longrightarrow> aud_at codec buf n \<and> (\<forall>j. i \<le> j \<and> j < n \<longrightarrow> \<not> aud_at codec buf j)"
proof (induction buf i codec rule: find_aud.induct)
  case (1 buf i codec)
  show ?case
  proof (cases "aud_at codec buf i")
    case True
    then have "n = i" using "1.prems" by (subst (asm) find_aud.simps) (auto simp: aud_at_def)
    with True show ?thesis by auto
  next
    case False
    then have next': "i + 3 < length buf" "find_aud buf (i + 1) codec = Some n"
      using "1.prems" by (subst (asm) find_aud.simps, auto simp: aud_at_def split: if_splits)+
    then have ih: "aud_at codec buf n \<and> (\<forall>j. i + 1 \<le> j \<and> j < n \<longrightarrow> \<not> aud_at codec buf j)"
      using "1.IH" False by (auto simp: aud_at_def)
    have "\<not> aud_at codec buf j" if "i \<le> j" "j < n" for j
      using ih False that by (cases "j = i") auto
    with ih show ?thesis by blast
  qed
qed

lemma find_aud_none:
  "find_aud buf i codec = None \<Longrightarrow> i \<le> j \<Longrightarrow> \<not> aud_at codec buf j"
proof (induction buf i codec rule: find_aud.induct)
  case (1 buf i codec)
  show ?case
  proof (cases "i + 3 < length buf")
    case True
    then have "\<not> aud_at codec buf i" "find_aud buf (i + 1) codec = None"
      using "1.prems" by (subst (asm) find_aud.simps, auto simp: aud_at_def split: if_splits)+
    then show ?thesis
      using "1.IH" True "1.prems"(2) by (cases "j = i") (auto simp: aud_at_def)
  next
    case False
    then show ?thesis using "1.prems"(2) by (simp add: aud_at_def)
  qed
qed

lemma find_aud_eq_Some_iff:
  "find_aud buf i codec = Some n \<longleftrightarrow>
     i \<le> n \<and> aud_at codec buf n \<and> (\<forall>j. i \<le> j \<and> j < n \<longrightarrow> \<not> aud_at codec buf j)"
proof
  assume n: "i \<le> n \<and> aud_at codec buf n \<and> (\<forall>j. i \<le> j \<and> j < n \<longrightarrow> \<not> aud_at codec buf j)"
  then obtain m where m: "find_aud buf i codec = Some m"
    using find_aud_none [of buf i codec n] by (cases "find_aud buf i codec") auto
  then have "i \<le> m" "aud_at codec buf m" "\<forall>j. i \<le> j \<and> j < m \<longrightarrow> \<not> aud_at codec buf j"
    using find_aud_first [OF m] find_aud_Some [OF m] by auto
  with n have "m = n" by (metis nat_neq_iff)
  with m show "find_aud buf i codec = Some n" by simp
qed (use find_aud_first find_aud_Some in blast)

lemma aud_at_append: "i + 3 < length a \<Longrightarrow> aud_at codec (a @ b) i = aud_at codec a i"
  by (auto simp: aud_at_def start_code_at_def nth_append)

lemma find_aud_append: "find_aud a i codec = Some n \<Longrightarrow> find_aud (a @ b) i codec = Some n"
proof -
  assume n: "find_aud a i codec = Some n"
  then have "n + 3 < length a" using find_aud_Some by blast
  moreover from this have "aud_at codec (a @ b) j = aud_at codec a j" if "j \<le> n" for j
    using that by (intro aud_at_append) simp
  ultimately show ?thesis using n unfolding find_aud_eq_Some_iff by auto
qed

lemma aud_at_drop: "k \<le> length buf \<Longrightarrow> aud_at codec (drop k buf) i = aud_at codec buf (k + i)"
  by (auto simp: aud_at_def start_code_at_def add.assoc less_diff_conv algebra_simps)

lemma aud_at_zero: "find_aud buf 0 codec = Some 0 \<longleftrightarrow> aud_at codec buf 0"
  by (simp add: find_aud_eq_Some_iff)

lemma aud_at_first: "find_aud buf i codec = Some n \<Longrightarrow> aud_at codec (drop n buf) 0"
  using find_aud_first [of buf i codec n] find_aud_Some [of buf i codec n] by (simp add: aud_at_drop)

subsection \<open>The splitter does not see the chunking\<close>

definition split_from :: "Codec \<Rightarrow> bytes \<Rightarrow> bytes list \<times> bytes" where
  "split_from codec buf = (case find_aud buf 0 codec of
     None \<Rightarrow> ([], buf) | Some first \<Rightarrow> emit_units codec (drop first buf))"

lemma splitter_push_split:
  "splitter_push incoming s = (fst (split_from (as_codec s) (as_buf s @ incoming)),
     s\<lparr>as_buf := snd (split_from (as_codec s) (as_buf s @ incoming))\<rparr>)"
  by (auto simp: splitter_push_def split_from_def Let_def split: option.split prod.split)

lemma emit_units_keeps_aud:
  "aud_at codec buf 0 \<Longrightarrow> aud_at codec (snd (emit_units codec buf)) 0"
proof (induction codec buf rule: emit_units.induct)
  case (1 codec buf)
  show ?case
  proof (cases "find_aud buf 4 codec")
    case None
    then show ?thesis using "1.prems" by (simp add: emit_units.simps)
  next
    case (Some n)
    then show ?thesis
      using "1.IH" [OF Some aud_at_first [OF Some]]
      by (subst emit_units.simps) (simp add: case_prod_beta)
  qed
qed

lemma emit_units_append:
  "aud_at codec buf 0 \<Longrightarrow> emit_units codec (buf @ extra) =
    (case emit_units codec buf of (aus, rest) \<Rightarrow>
     case emit_units codec (rest @ extra) of (aus', rest') \<Rightarrow> (aus @ aus', rest'))"
proof (induction codec buf rule: emit_units.induct)
  case (1 codec buf)
  show ?case
  proof (cases "find_aud buf 4 codec")
    case None
    then show ?thesis by (simp add: emit_units.simps [of codec buf] split: prod.split)
  next
    case (Some n)
    have n: "n \<le> length buf" using find_aud_Some [OF Some] by simp
    have "emit_units codec (buf @ extra) =
        (case emit_units codec (drop n buf @ extra) of (aus, rest) \<Rightarrow> (take n buf # aus, rest))"
      using find_aud_append [OF Some, of extra] n by (subst emit_units.simps) simp
    then show ?thesis
      using "1.IH" [OF Some aud_at_first [OF Some]] Some
      by (simp add: emit_units.simps [of codec buf] split: prod.splits)
  qed
qed

lemma split_from_append:
  "split_from codec (buf @ extra) = (case split_from codec buf of (aus, rest) \<Rightarrow>
     case split_from codec (rest @ extra) of (aus', rest') \<Rightarrow> (aus @ aus', rest'))"
proof (cases "find_aud buf 0 codec")
  case None
  then show ?thesis by (simp add: split_from_def [of codec buf] split: prod.split)
next
  case (Some n)
  have n: "n \<le> length buf" using find_aud_Some [OF Some] by simp
  have aud: "aud_at codec (drop n buf) 0" by (rule aud_at_first [OF Some])
  obtain aus rest where e: "emit_units codec (drop n buf) = (aus, rest)"
    by (cases "emit_units codec (drop n buf)")
  have "aud_at codec rest 0" using emit_units_keeps_aud [OF aud] e by simp
  then have "find_aud rest 0 codec = Some 0" by (simp add: aud_at_zero)
  then have "split_from codec (rest @ extra) = emit_units codec (rest @ extra)"
    using find_aud_append [of rest 0 codec 0 extra] by (simp add: split_from_def)
  then show ?thesis
    using find_aud_append [OF Some, of extra] Some n e emit_units_append [OF aud, of extra]
    by (simp add: split_from_def [of codec buf] split_from_def [of codec "buf @ extra"])
qed

fun splitter_feed :: "bytes list \<Rightarrow> AuSplitter \<Rightarrow> bytes list \<times> AuSplitter" where
  "splitter_feed [] s = ([], s)"
| "splitter_feed (c # cs) s = (case splitter_push c s of (aus, s') \<Rightarrow>
     case splitter_feed cs s' of (aus', s'') \<Rightarrow> (aus @ aus', s''))"

lemma split_from_again: "split_from codec (snd (split_from codec buf)) = ([], snd (split_from codec buf))"
  using split_from_append [of codec buf "[]"] by (auto split: prod.splits)

lemma splitter_feed_split:
  "snd (split_from (as_codec s) (as_buf s)) = as_buf s \<Longrightarrow> splitter_feed cs s =
     (fst (split_from (as_codec s) (as_buf s @ concat cs)),
      s\<lparr>as_buf := snd (split_from (as_codec s) (as_buf s @ concat cs))\<rparr>)"
proof (induction cs arbitrary: s)
  case Nil
  then show ?case using split_from_again [of "as_codec s" "as_buf s"] by simp
next
  case (Cons c cs)
  obtain aus rest where 1: "split_from (as_codec s) (as_buf s @ c) = (aus, rest)"
    by (cases "split_from (as_codec s) (as_buf s @ c)")
  have fix': "snd (split_from (as_codec s) rest) = rest"
    using split_from_again [of "as_codec s" "as_buf s @ c"] 1 by simp
  have "splitter_feed cs (s\<lparr>as_buf := rest\<rparr>) = (fst (split_from (as_codec s) (rest @ concat cs)),
      s\<lparr>as_buf := snd (split_from (as_codec s) (rest @ concat cs))\<rparr>)"
    using Cons.IH [of "s\<lparr>as_buf := rest\<rparr>"] fix' by simp
  then show ?case
    using split_from_append [of "as_codec s" "as_buf s @ c" "concat cs"] 1
    by (simp add: splitter_push_split split: prod.split)
qed

definition unit_ok :: "Codec \<Rightarrow> bytes \<Rightarrow> bool" where
  "unit_ok codec au \<longleftrightarrow> (\<forall>i. aud_at codec au i \<longrightarrow> i = 0) \<and> start_code_at au 0"

text \<open>No delimiter hides in the first four bytes of a unit: the start code and a delimiter's NAL byte
  cannot begin another start code.\<close>

lemma aud_gap:
  assumes "aud_at codec buf 0" "aud_at codec buf j" "j < 4"
  shows "j = 0"
proof -
  have nal: "buf ! 3 \<noteq> 0"
    using assms(1) by (cases codec) (auto simp: aud_at_def)
  have "j = 1 \<or> j = 2 \<or> j = 3 \<or> j = 0" using assms(3) by linarith
  then show ?thesis using assms nal by (auto simp: aud_at_def start_code_at_def eval_nat_numeral)
qed

lemma emit_units_ok:
  "aud_at codec buf 0 \<Longrightarrow> emit_units codec buf = (aus, rest) \<Longrightarrow>
     concat aus @ rest = buf \<and> (\<forall>au \<in> set aus. unit_ok codec au) \<and>
     aud_at codec rest 0 \<and> (\<forall>i. aud_at codec rest i \<longrightarrow> i = 0)"
proof (induction codec buf arbitrary: aus rest rule: emit_units.induct)
  case (1 codec buf)
  show ?case
  proof (cases "find_aud buf 4 codec")
    case None
    have "i = 0" if "aud_at codec buf i" for i
      using find_aud_none [OF None, of i] aud_gap [OF "1.prems"(1) that] that by (cases "i < 4") auto
    then show ?thesis using None "1.prems" by (simp add: emit_units.simps)
  next
    case (Some n)
    obtain aus' where e: "emit_units codec (drop n buf) = (aus', rest)" "aus = take n buf # aus'"
      using "1.prems"(2) Some by (subst (asm) emit_units.simps) (auto split: prod.splits)
    have n: "4 \<le> n" "n + 3 < length buf" and first: "\<And>j. 4 \<le> j \<Longrightarrow> j < n \<Longrightarrow> \<not> aud_at codec buf j"
      using find_aud_Some [OF Some] find_aud_first [OF Some] by auto
    have "i = 0" if "aud_at codec (take n buf) i" for i
    proof -
      have i: "i < n" "aud_at codec buf i"
        using that n by (auto simp: aud_at_def start_code_at_def)
      then show ?thesis using first [of i] aud_gap [OF "1.prems"(1), of i] by (cases "i < 4") auto
    qed
    moreover have "start_code_at (take n buf) 0"
      using "1.prems"(1) n by (auto simp: aud_at_def start_code_at_def)
    ultimately have "unit_ok codec (take n buf)" by (simp add: unit_ok_def)
    then show ?thesis using "1.IH" [OF Some aud_at_first [OF Some] e(1)] e(2) by auto
  qed
qed

subsection \<open>Keyframe scan\<close>

definition keyframe_at :: "Codec \<Rightarrow> bytes \<Rightarrow> nat \<Rightarrow> bool" where
  "keyframe_at codec au j \<longleftrightarrow> j + 3 < length au \<and> start_code_at au j \<and>
     is_keyframe_nal codec (nal_type codec (au ! (j + 3)))"

lemma start_codes_apart: "start_code_at au i \<Longrightarrow> start_code_at au j \<Longrightarrow> i < j \<Longrightarrow> i + 3 \<le> j"
proof (rule ccontr)
  assume "start_code_at au i" "start_code_at au j" "i < j" "\<not> i + 3 \<le> j"
  moreover from this have "j = i + 1 \<or> j = i + 2" by linarith
  ultimately show False by (auto simp: start_code_at_def add.assoc)
qed

lemma keyframe_from_iff: "keyframe_from au i codec \<longleftrightarrow> (\<exists>j\<ge>i. keyframe_at codec au j)"
proof (induction au i codec rule: keyframe_from.induct)
  case (1 au i codec)
  show ?case
  proof (cases "i + 3 < length au")
    case False
    then show ?thesis by (subst keyframe_from.simps) (auto simp: keyframe_at_def)
  next
    case len: True
    show ?thesis
    proof (cases "start_code_at au i")
      case False
      then have "keyframe_from au i codec = (\<exists>j\<ge>i + 1. keyframe_at codec au j)"
        using "1.IH"(2) len by (subst keyframe_from.simps) simp
      also have "\<dots> = (\<exists>j\<ge>i. keyframe_at codec au j)"
        using False by (metis keyframe_at_def Suc_eq_plus1 Suc_leI le_neq_implies_less le_add1 order_trans)
      finally show ?thesis .
    next
      case code: True
      show ?thesis
      proof (cases "is_keyframe_nal codec (nal_type codec (au ! (i + 3)))")
        case True
        then show ?thesis
          using len code by (subst keyframe_from.simps) (auto simp: keyframe_at_def intro!: exI [of _ i])
      next
        case False
        then have "keyframe_from au i codec = (\<exists>j\<ge>i + 3. keyframe_at codec au j)"
          using "1.IH"(1) len code by (subst keyframe_from.simps) simp
        also have "\<dots> = (\<exists>j\<ge>i. keyframe_at codec au j)"
          using False start_codes_apart [OF code]
          by (metis keyframe_at_def le_neq_implies_less le_add1 order_trans)
        finally show ?thesis .
      qed
    qed
  qed
qed

subsection \<open>Properties\<close>

text \<open>Both ends agree on the headers and cannot confuse them. Parsing a message returns exactly
  the header that was written, whatever payload follows; a video frame never parses as a plane
  message and a plane message never parses as a video frame.\<close>

theorem pixel_headers_roundtrip:
  "frame_parse (frame_message fh au) = Some fh \<and> plane_parse (plane_message ph body) = Some ph \<and>
   plane_parse (frame_message fh au) = None \<and> frame_parse (plane_message ph body) = None"
  using frame_header_fields [of fh] plane_header_fields [of ph]
  by (simp add: frame_parse_def frame_message_def plane_parse_def plane_message_def)

text \<open>The access units do not depend on how the encoder's output was cut into reads. For any
  sequence of reads the splitter has emitted the same units and holds the same bytes as after one
  read of all of it.\<close>

theorem au_splitter_chunking:
  "splitter_feed cs (AuSplitter_new codec) = splitter_feed [concat cs] (AuSplitter_new codec)"
proof -
  have "snd (split_from codec []) = []"
    by (simp add: split_from_def find_aud.simps)
  then show ?thesis
    using splitter_feed_split [of "AuSplitter_new codec" cs]
      splitter_feed_split [of "AuSplitter_new codec" "[concat cs]"]
    by (simp add: AuSplitter_new_def)
qed

text \<open>The splitter loses nothing and cuts exactly at the delimiters. What it emitted followed by
  what it holds is the stream from its first delimiter on; every emitted unit starts with a start
  code and contains no further delimiter, and neither do the held bytes; before the first delimiter
  nothing is emitted.\<close>

lemma au_splitter_all:
  "case splitter_feed cs (AuSplitter_new codec) of (aus, s) \<Rightarrow>
    (case find_aud (concat cs) 0 codec of
       None \<Rightarrow> aus = [] \<and> as_buf s = concat cs
     | Some first \<Rightarrow> concat aus @ as_buf s = drop first (concat cs) \<and>
         (\<forall>au \<in> set aus. unit_ok codec au) \<and> unit_ok codec (as_buf s) \<and> aud_at codec (as_buf s) 0 \<and> as_codec s = codec)"
proof -
  have empty: "snd (split_from codec []) = []"
    by (simp add: split_from_def find_aud.simps)
  have feed: "splitter_feed cs (AuSplitter_new codec) = (fst (split_from codec (concat cs)),
      (AuSplitter_new codec)\<lparr>as_buf := snd (split_from codec (concat cs))\<rparr>)"
    using splitter_feed_split [of "AuSplitter_new codec" cs] empty by (simp add: AuSplitter_new_def)
  have codec: "as_codec (AuSplitter_new codec) = codec" by (simp add: AuSplitter_new_def)
  show ?thesis
  proof (cases "find_aud (concat cs) 0 codec")
    case None
    then show ?thesis by (simp add: feed split_from_def)
  next
    case (Some n)
    obtain aus rest where e: "emit_units codec (drop n (concat cs)) = (aus, rest)"
      by (cases "emit_units codec (drop n (concat cs))")
    from emit_units_ok [OF aud_at_first [OF Some] e] show ?thesis
      by (auto simp: feed codec split_from_def Some e unit_ok_def aud_at_def)
  qed
qed

text \<open>The unit held back at the end of the stream is emitted by the flush when it is more than a bare
  delimiter.\<close>

lemma splitter_flush_emits:
  "splitter_flush s = (if 6 < length (as_buf s) \<and> aud_at (as_codec s) (as_buf s) 0
     then [as_buf s] else [], s\<lparr>as_buf := []\<rparr>)"
  by (simp add: splitter_flush_def aud_at_zero)

text \<open>A unit is reported as a keyframe exactly when one of its NAL units has a type that starts a
  decodable run; the skip past a start code never jumps over another.\<close>

theorem au_is_keyframe_iff:
  "au_is_keyframe au codec \<longleftrightarrow> (\<exists>j. j + 3 < length au \<and> au ! j = 0 \<and> au ! (j + 1) = 0 \<and>
     au ! (j + 2) = 1 \<and> is_keyframe_nal codec (nal_type codec (au ! (j + 3))))"
  by (simp add: au_is_keyframe_def keyframe_from_iff keyframe_at_def start_code_at_def)

lemma send_aus_append: "send_aus codec n (xs @ ys) = send_aus codec n xs @ send_aus codec (n + length xs) ys"
  by (induction xs arbitrary: n) simp_all

lemma send_aus_props:
  "map au_data (send_aus codec n aus) = aus" "map au_seq (send_aus codec n aus) = [n..<n + length aus]"
  "length (send_aus codec n aus) = length aus"
  "au \<in> set (send_aus codec n aus) \<Longrightarrow> au_data au \<in> set aus \<and> au_keyframe au = au_is_keyframe (au_data au) codec"
  by (induction aus arbitrary: n) (auto simp: upt_rec)

lemma reader_loop_feed:
  "[] \<notin> set chunks \<Longrightarrow> reader_loop codec s n chunks = send_aus codec n
      (fst (splitter_feed chunks s) @ fst (splitter_flush (snd (splitter_feed chunks s))))"
  by (induction chunks arbitrary: s n) (auto simp: send_aus_append add.assoc split: prod.split)

text \<open>C38: The encoder's output reaches the streamer whole: the units are numbered from zero without
  gaps, carry their keyframe flag, and joined together are the stream from its first delimiter on,
  except for a last unit of at most six bytes.\<close>

theorem reader_loop_complete:
  assumes "find_aud (concat chunks) 0 codec = Some first" and "[] \<notin> set chunks"
  shows "\<exists>tail. concat (map au_data (reader_loop codec (AuSplitter_new codec) 0 chunks)) @ tail
       = drop first (concat chunks) \<and> length tail \<le> 6 \<and>
     map au_seq (reader_loop codec (AuSplitter_new codec) 0 chunks)
       = [0..<length (reader_loop codec (AuSplitter_new codec) 0 chunks)] \<and>
     (\<forall>au \<in> set (reader_loop codec (AuSplitter_new codec) 0 chunks).
        unit_ok codec (au_data au) \<and> au_keyframe au = au_is_keyframe (au_data au) codec)"
proof -
  obtain aus s where feed: "splitter_feed chunks (AuSplitter_new codec) = (aus, s)" by fastforce
  have all: "concat aus @ as_buf s = drop first (concat chunks)" "\<forall>au \<in> set aus. unit_ok codec au"
      "unit_ok codec (as_buf s)" "aud_at (as_codec s) (as_buf s) 0"
    using au_splitter_all [of chunks codec] feed assms(1) by auto
  define last_unit where "last_unit = (if 6 < length (as_buf s) then [as_buf s] else [])"
  have run: "reader_loop codec (AuSplitter_new codec) 0 chunks = send_aus codec 0 (aus @ last_unit)"
    using feed all(4) by (simp add: reader_loop_feed [OF assms(2)] splitter_flush_emits last_unit_def)
  have "concat (aus @ last_unit) @ (if 6 < length (as_buf s) then [] else as_buf s) = drop first (concat chunks)"
    using all(1) by (simp add: last_unit_def)
  moreover have "\<forall>au \<in> set (aus @ last_unit). unit_ok codec au"
    using all(2,3) by (auto simp: last_unit_def)
  ultimately show ?thesis
    unfolding run send_aus_props
    by (intro exI [of _ "if 6 < length (as_buf s) then [] else as_buf s"]) (auto dest: send_aus_props(4))
qed

theorem reader_loop_complete_witness:
  "\<exists>tail. concat (map au_data (reader_loop H264 (AuSplitter_new H264) 0 [[7, 0, 0], [1, 9, 16, 0], [0, 1, 9, 16]]))
     @ tail = [0, 0, 1, 9, 16, 0, 0, 1, 9, 16]"
proof -
  let ?cs = "[[7, 0, 0], [1, 9, 16, 0], [0, 1, 9, 16]] :: bytes list"
  have "find_aud (concat ?cs) 0 H264 = Some 1" by code_simp
  with reader_loop_complete [of ?cs H264 1] show ?thesis by auto
qed

end
