(* ===== verification/Pixel_Hub.thy ===== *)
theory Pixel_Hub
  imports Pixel_Proto
begin

text \<open>
  The fan-out half of \<open>crates/infinigpu-pixel/src/lib.rs\<close>: the bounded client queue that sheds to a
  keyframe, the hub that broadcasts frames and plane messages and primes joining clients, the
  unchanged-frame check and the encoder mailbox. Every method of a queue or of the hub is one
  critical section. A client queue is reached through \<open>Arc\<close>s of the hub and of its send thread;
  the model keeps it in the hub's client list and lets the send thread act on it there.
\<close>

subsection \<open>Client queue\<close>

definition client_queue_cap :: "nat option \<Rightarrow> nat" where
  "client_queue_cap env = (case env of Some n \<Rightarrow> if 1 \<le> n then n else 8 | None \<Rightarrow> 8)"

record 'm ClientQueue =
  cq_items :: "'m list"
  cq_closed :: bool
  cq_dropping :: bool
  cq_cap :: nat

definition ClientQueue_new :: "nat \<Rightarrow> 'm ClientQueue" where
  "ClientQueue_new cap = \<lparr>cq_items = [], cq_closed = False, cq_dropping = False, cq_cap = cap\<rparr>"

definition cq_push :: "'m \<Rightarrow> bool \<Rightarrow> 'm ClientQueue \<Rightarrow> bool \<times> 'm ClientQueue" where
  "cq_push msg keyframe q =
    (if cq_closed q then (False, q)
     else if cq_dropping q then
       (if keyframe then (False, q\<lparr>cq_dropping := False, cq_items := cq_items q @ [msg]\<rparr>) else (False, q))
     else let items = cq_items q @ [msg] in
       if cq_cap q < length items then (True, q\<lparr>cq_items := [], cq_dropping := True\<rparr>)
       else (False, q\<lparr>cq_items := items\<rparr>))"

definition cq_push_control :: "'m \<Rightarrow> 'm ClientQueue \<Rightarrow> 'm ClientQueue" where
  "cq_push_control msg q = (if cq_closed q then q else q\<lparr>cq_items := cq_items q @ [msg]\<rparr>)"

text \<open>\<open>None\<close> is the end of the stream; a \<open>pop\<close> of an empty open queue is still waiting.\<close>

datatype 'm popped = Next 'm | Finished | Waiting

definition cq_pop :: "'m ClientQueue \<Rightarrow> 'm popped \<times> 'm ClientQueue" where
  "cq_pop q = (case cq_items q of
     m # rest \<Rightarrow> (Next m, q\<lparr>cq_items := rest\<rparr>)
   | [] \<Rightarrow> (if cq_closed q then Finished else Waiting, q))"

definition cq_close :: "'m ClientQueue \<Rightarrow> 'm ClientQueue" where
  "cq_close q = q\<lparr>cq_closed := True, cq_items := []\<rparr>"

subsection \<open>Hub\<close>

record Client =
  cl_q :: "bytes ClientQueue"
  cl_alive :: bool

record PlaneCache =
  pc_last_define :: "bytes option"
  pc_last_move :: "bytes option"

definition PlaneCache_default :: PlaneCache where
  "PlaneCache_default = \<lparr>pc_last_define = None, pc_last_move = None\<rparr>"

record Hub =
  hub_clients :: "Client list"
  hub_last_keyframe :: "bytes option"
  hub_planes :: "(u32 \<times> PlaneCache) list"
  hub_keyframe_requested :: bool

definition Hub_new :: Hub where
  "Hub_new = \<lparr>hub_clients = [], hub_last_keyframe = None, hub_planes = [], hub_keyframe_requested = False\<rparr>"

definition request_keyframe :: "Hub \<Rightarrow> Hub" where
  "request_keyframe h = h\<lparr>hub_keyframe_requested := True\<rparr>"

definition take_keyframe_request :: "Hub \<Rightarrow> bool \<times> Hub" where
  "take_keyframe_request h = (hub_keyframe_requested h, h\<lparr>hub_keyframe_requested := False\<rparr>)"

definition hub_broadcast :: "bytes \<Rightarrow> bool \<Rightarrow> Hub \<Rightarrow> Hub" where
  "hub_broadcast msg keyframe h =
     (let h = (if keyframe then h\<lparr>hub_last_keyframe := Some msg\<rparr> else h) in
      h\<lparr>hub_clients := map (\<lambda>c. c\<lparr>cl_q := snd (cq_push msg keyframe (cl_q c))\<rparr>)
          (filter cl_alive (hub_clients h))\<rparr>)"

definition plane_of :: "u32 \<Rightarrow> Hub \<Rightarrow> PlaneCache" where
  "plane_of plane_id h = (case map_of (hub_planes h) plane_id of Some c \<Rightarrow> c | None \<Rightarrow> PlaneCache_default)"

definition cache_plane :: "u32 \<Rightarrow> u8 \<Rightarrow> bytes \<Rightarrow> Hub \<Rightarrow> Hub" where
  "cache_plane plane_id op msg h =
    (if op = PLANE_OP_DEFINE then h\<lparr>hub_planes := AList.update plane_id
        ((plane_of plane_id h)\<lparr>pc_last_define := Some msg, pc_last_move := None\<rparr>) (hub_planes h)\<rparr>
     else if op = PLANE_OP_MOVE then h\<lparr>hub_planes := AList.update plane_id
        ((plane_of plane_id h)\<lparr>pc_last_move := Some msg\<rparr>) (hub_planes h)\<rparr>
     else if op = PLANE_OP_DESTROY then h\<lparr>hub_planes := AList.delete plane_id (hub_planes h)\<rparr>
     else h)"

definition hub_broadcast_control :: "u32 \<Rightarrow> u8 \<Rightarrow> bytes \<Rightarrow> Hub \<Rightarrow> Hub" where
  "hub_broadcast_control plane_id op msg h = (let h = cache_plane plane_id op msg h in
     h\<lparr>hub_clients := map (\<lambda>c. c\<lparr>cl_q := cq_push_control msg (cl_q c)\<rparr>)
          (filter cl_alive (hub_clients h))\<rparr>)"

definition reset_keyframe :: "Hub \<Rightarrow> Hub" where
  "reset_keyframe h = h\<lparr>hub_last_keyframe := None\<rparr>"

definition reset_planes :: "Hub \<Rightarrow> Hub" where
  "reset_planes h = h\<lparr>hub_planes := []\<rparr>"

definition client_count :: "Hub \<Rightarrow> nat" where
  "client_count h = length (hub_clients h)"

text \<open>The messages a joining client is primed with after the keyframe, plane by plane.\<close>

definition plane_messages :: "PlaneCache \<Rightarrow> bytes list" where
  "plane_messages c = case_option [] (\<lambda>m. [m]) (pc_last_define c) @
     case_option [] (\<lambda>m. [m]) (pc_last_move c)"

definition joiner_messages :: "Hub \<Rightarrow> bytes list" where
  "joiner_messages h = case_option [] (\<lambda>k. [k]) (hub_last_keyframe h) @
     concat (map (plane_messages \<circ> snd) (hub_planes h))"

text \<open>\<open>register\<close> after a successful handshake; the iteration order of the plane map is its list order.\<close>

definition hub_register :: "nat \<Rightarrow> Hub \<Rightarrow> Hub" where
  "hub_register cap h =
    (let q = ClientQueue_new cap;
         q = (case hub_last_keyframe h of Some k \<Rightarrow> snd (cq_push k True q) | None \<Rightarrow> q);
         q = foldl (\<lambda>q m. cq_push_control m q) q (concat (map (plane_messages \<circ> snd) (hub_planes h)))
     in request_keyframe (h\<lparr>hub_clients := hub_clients h @ [\<lparr>cl_q = q, cl_alive = True\<rparr>]\<rparr>))"

text \<open>One turn of a client's send thread: \<open>sent_ok\<close> is whether the socket accepted the message.\<close>

definition client_send :: "bool \<Rightarrow> Client \<Rightarrow> bytes option \<times> Client" where
  "client_send sent_ok c = (case cq_pop (cl_q c) of
     (Next m, q) \<Rightarrow> if sent_ok then (Some m, c\<lparr>cl_q := q\<rparr>) else (None, \<lparr>cl_q = cq_close q, cl_alive = False\<rparr>)
   | (Finished, q) \<Rightarrow> (None, \<lparr>cl_q = cq_close q, cl_alive = False\<rparr>)
   | (Waiting, q) \<Rightarrow> (None, c))"

subsection \<open>Idle skip\<close>

fun chunks_exact_hash :: "u64 \<Rightarrow> bytes \<Rightarrow> u64" where
  "chunks_exact_hash h (a # b # c # d # e # f # g # i # rest) =
     chunks_exact_hash ((h XOR get_u64 [a, b, c, d, e, f, g, i] 0) * 0x100000001b3) rest"
| "chunks_exact_hash h bs = foldl (\<lambda>h x. (h XOR ucast x) * 0x100000001b3) h bs"

definition frame_hash :: "bytes \<Rightarrow> u64" where
  "frame_hash b = chunks_exact_hash 0xcbf29ce484222325 b"

record Deduper =
  dd_last :: "u64 option"

definition Deduper_new :: Deduper where
  "Deduper_new = \<lparr>dd_last = None\<rparr>"

definition deduper_changed :: "bytes \<Rightarrow> Deduper \<Rightarrow> bool \<times> Deduper" where
  "deduper_changed bgra d = (let h = frame_hash bgra in
     if dd_last d = Some h then (False, d) else (True, d\<lparr>dd_last := Some h\<rparr>))"

subsection \<open>Encoder mailbox\<close>

record MailboxSlot =
  ms_frame :: "bytes option"
  ms_closed :: bool

definition Mailbox_new :: MailboxSlot where
  "Mailbox_new = \<lparr>ms_frame = None, ms_closed = False\<rparr>"

datatype MailboxTake = Frame bytes | Timeout | Closed

definition mailbox_put :: "bytes \<Rightarrow> MailboxSlot \<Rightarrow> MailboxSlot" where
  "mailbox_put frame s = (if ms_closed s then s else s\<lparr>ms_frame := Some frame\<rparr>)"

text \<open>\<open>take\<close>: \<open>None\<close> while it waits, otherwise the value it returns.\<close>

definition mailbox_take :: "MailboxSlot \<Rightarrow> bytes option option \<times> MailboxSlot" where
  "mailbox_take s = (case ms_frame s of
     Some f \<Rightarrow> (Some (Some f), s\<lparr>ms_frame := None\<rparr>)
   | None \<Rightarrow> (if ms_closed s then Some None else None, s))"

text \<open>\<open>take_timeout\<close> seen at one wake-up: \<open>timed_out\<close> is what the condition variable reports.\<close>

definition mailbox_take_timeout :: "bool \<Rightarrow> MailboxSlot \<Rightarrow> MailboxTake option \<times> MailboxSlot" where
  "mailbox_take_timeout timed_out s = (case ms_frame s of
     Some f \<Rightarrow> (Some (Frame f), s\<lparr>ms_frame := None\<rparr>)
   | None \<Rightarrow> (if ms_closed s then Some Closed else if timed_out then Some Timeout else None, s))"

definition mailbox_close :: "MailboxSlot \<Rightarrow> MailboxSlot" where
  "mailbox_close s = s\<lparr>ms_closed := True, ms_frame := None\<rparr>"

interpretation encoder_mailbox: latest_wins mailbox_put
    "\<lambda>s. (ms_frame s, snd (mailbox_take_timeout False s))" ms_frame "\<lambda>s. \<not> ms_closed s"
  by unfold_locales (auto simp: mailbox_put_def mailbox_take_timeout_def split: option.split)

subsection \<open>Runs of one queue\<close>

text \<open>Video messages carry their position in the encoder's output and whether they are keyframes.\<close>

datatype 'c msg = Video nat bool | Control 'c

datatype 'c q_op = PushVideo bool | PushControl 'c | PopMsg | CloseQueue

fun q_run :: "'c q_op list \<Rightarrow> nat \<Rightarrow> 'c msg ClientQueue \<Rightarrow> 'c msg list \<times> 'c msg ClientQueue" where
  "q_run [] n q = ([], q)"
| "q_run (PushVideo k # ops) n q = q_run ops (Suc n) (snd (cq_push (Video n k) k q))"
| "q_run (PushControl c # ops) n q = q_run ops n (cq_push_control (Control c) q)"
| "q_run (PopMsg # ops) n q = (case cq_pop q of
     (Next m, q') \<Rightarrow> (case q_run ops n q' of (out, q'') \<Rightarrow> (m # out, q''))
   | (_, q') \<Rightarrow> q_run ops n q')"
| "q_run (CloseQueue # ops) n q = q_run ops n (cq_close q)"

fun video_of :: "'c msg \<Rightarrow> (nat \<times> bool) option" where
  "video_of (Video n k) = Some (n, k)"
| "video_of (Control c) = None"

definition videos :: "'c msg list \<Rightarrow> (nat \<times> bool) list" where
  "videos ms = List.map_filter video_of ms"

text \<open>A run of video a decoder can follow: each frame is the successor of the one before, or starts
  anew with a keyframe.\<close>

definition follows :: "nat \<times> bool \<Rightarrow> nat \<times> bool \<Rightarrow> bool" where
  "follows a b \<longleftrightarrow> fst a < fst b \<and> (fst b = Suc (fst a) \<or> snd b)"

definition queue_inv :: "'c msg list \<Rightarrow> nat \<Rightarrow> 'c msg ClientQueue \<Rightarrow> bool" where
  "queue_inv sent n q \<longleftrightarrow> (let D = videos (sent @ cq_items q) in
     successively follows D \<and> (D \<noteq> [] \<longrightarrow> fst (last D) < n) \<and>
     (\<not> cq_closed q \<and> \<not> cq_dropping q \<and> D \<noteq> [] \<longrightarrow> Suc (fst (last D)) = n) \<and>
     (if cq_dropping q then videos (cq_items q) = [] else length (videos (cq_items q)) \<le> cq_cap q) \<and>
     1 \<le> cq_cap q)"

lemma videos_simps [simp]:
  "videos [] = []" "videos (Video n k # ms) = (n, k) # videos ms" "videos (Control c # ms) = videos ms"
  "videos (xs @ ys) = videos xs @ videos ys"
  by (simp_all add: videos_def map_filter_simps map_filter_def)

lemma videos_length: "length (videos ms) \<le> length ms"
  by (induction ms) (auto simp: videos_def map_filter_simps split: option.split)

lemma successively_prefix: "successively P (xs @ ys) \<Longrightarrow> successively P xs"
  by (simp add: successively_append_iff)

lemma last_prefix_lt:
  "successively follows (xs @ ys) \<Longrightarrow> xs \<noteq> [] \<Longrightarrow> fst (last (xs @ ys)) < n \<Longrightarrow> fst (last xs) < n"
proof (induction ys rule: rev_induct)
  case (snoc y ys)
  then have "fst (last (xs @ ys)) < fst y"
    by (auto simp: successively_append_iff follows_def simp flip: append_assoc)
  then show ?case using snoc by (auto simp: successively_append_iff simp flip: append_assoc)
qed simp

lemma successively_snoc:
  "successively P xs \<Longrightarrow> (xs \<noteq> [] \<Longrightarrow> P (last xs) y) \<Longrightarrow> successively P (xs @ [y])"
  by (auto simp: successively_append_iff)

lemma queue_inv_push:
  assumes "queue_inv sent n q"
  shows "queue_inv sent (Suc n) (snd (cq_push (Video n k) k q))"
proof -
  let ?D = "videos sent @ videos (cq_items q)"
  have D: "successively follows ?D" "?D \<noteq> [] \<Longrightarrow> fst (last ?D) < n" "1 \<le> cq_cap q"
    using assms by (simp_all add: queue_inv_def Let_def)
  have add: "successively follows (?D @ [(n, k)])"
    if "k \<or> (\<not> cq_closed q \<and> \<not> cq_dropping q)"
  proof (rule successively_snoc [OF D(1)])
    assume ne: "?D \<noteq> []"
    have "\<not> cq_closed q \<and> \<not> cq_dropping q \<and> ?D \<noteq> [] \<longrightarrow> Suc (fst (last ?D)) = n"
      using assms by (simp add: queue_inv_def Let_def)
    with ne that D(2) [OF ne] show "follows (last ?D) (n, k)" by (auto simp: follows_def)
  qed
  have pre: "successively follows (videos sent)" "videos sent \<noteq> [] \<Longrightarrow> fst (last (videos sent)) < n"
    using D(1) successively_prefix D(2) last_prefix_lt [OF D(1), of n] by auto
  consider (closed) "cq_closed q" | (drop) "\<not> cq_closed q" "cq_dropping q" "\<not> k"
    | (resume) "\<not> cq_closed q" "cq_dropping q" "k"
    | (shed) "\<not> cq_closed q" "\<not> cq_dropping q" "cq_cap q < length (cq_items q) + 1"
    | (room) "\<not> cq_closed q" "\<not> cq_dropping q" "length (cq_items q) + 1 \<le> cq_cap q" by linarith
  then show ?thesis
  proof cases
    case resume
    then show ?thesis using assms add
      by (auto simp: cq_push_def queue_inv_def Let_def append_assoc)
  next
    case shed
    then show ?thesis using assms pre
      by (auto simp: cq_push_def queue_inv_def Let_def)
  next
    case room
    then show ?thesis using assms add videos_length [of "cq_items q"]
      by (auto simp: cq_push_def queue_inv_def Let_def append_assoc)
  qed (use assms in \<open>auto simp: cq_push_def queue_inv_def Let_def\<close>)
qed

lemma queue_inv_control: "queue_inv sent n q \<Longrightarrow> queue_inv sent n (cq_push_control (Control c) q)"
  by (auto simp: cq_push_control_def queue_inv_def Let_def split: if_splits)

lemma queue_inv_pop:
  assumes "queue_inv sent n q" "cq_pop q = (Next m, q')"
  shows "queue_inv (sent @ [m]) n q'"
proof -
  have items: "cq_items q = m # cq_items q'" "cq_closed q' = cq_closed q" "cq_dropping q' = cq_dropping q"
      "cq_cap q' = cq_cap q"
    using assms(2) by (auto simp: cq_pop_def split: list.splits if_splits)
  then show ?thesis using assms(1)
    by (cases m) (auto simp: queue_inv_def Let_def)
qed

lemma queue_inv_close:
  assumes "queue_inv sent n q"
  shows "queue_inv sent n (cq_close q)"
  using assms last_prefix_lt [of "videos sent" "videos (cq_items q)" n]
    successively_prefix [of follows "videos sent" "videos (cq_items q)"]
  by (auto simp: queue_inv_def Let_def cq_close_def)

lemma q_run_inv:
  "queue_inv sent n q \<Longrightarrow> q_run ops n q = (out, q') \<Longrightarrow> \<exists>n'. queue_inv (sent @ out) n' q'"
proof (induction ops n q arbitrary: sent out rule: q_run.induct)
  case (2 k ops n q)
  then show ?case using queue_inv_push by fastforce
next
  case (3 c ops n q)
  then show ?case using queue_inv_control by fastforce
next
  case (4 ops n q)
  show ?case
  proof (cases "cq_pop q")
    case (Pair r q1)
    show ?thesis
    proof (cases r)
      case (Next m)
      then obtain out' where "q_run ops n q1 = (out', q')" "out = m # out'"
        using "4.prems"(2) Pair by (auto split: prod.splits)
      then show ?thesis
        using "4.IH"(1) [OF Pair [symmetric] Next queue_inv_pop [OF "4.prems"(1)]] Pair Next by simp
    next
      case Finished
      then have "q1 = q" using Pair by (auto simp: cq_pop_def split: list.splits if_splits)
      then show ?thesis using "4.IH"(2) [OF Pair [symmetric]] "4.prems" Pair Finished by simp
    next
      case Waiting
      then have "q1 = q" using Pair by (auto simp: cq_pop_def split: list.splits if_splits)
      then show ?thesis using "4.IH"(3) [OF Pair [symmetric]] "4.prems" Pair Waiting by simp
    qed
  qed
next
  case (5 ops n q)
  then show ?case using queue_inv_close by fastforce
qed auto

subsection \<open>Properties\<close>



text \<open>An overflow of the video backlog discards the queued control messages with it, and queued control
  messages count towards the overflow: here one frame and one cursor message fill a queue of two.\<close>

lemma overflow_drops_control:
  "q_run [PushVideo True, PushControl c, PushVideo False, PopMsg] 0 (ClientQueue_new 2) =
     ([], \<lparr>cq_items = [], cq_closed = False, cq_dropping = True, cq_cap = 2\<rparr>)"
  by (simp add: ClientQueue_new_def cq_push_def cq_push_control_def cq_pop_def)

text \<open>A joining client starts from the current state and misses nothing after it. It is registered
  behind the existing clients with a queue that holds exactly the cached keyframe, if there is one,
  and then for every plane its shape and its last move; a fresh keyframe is requested; and the next
  broadcast, of either kind, is appended behind that.\<close>

theorem joining_client_primed:
  assumes "1 \<le> cap"
  shows "hub_clients (hub_register cap h) = hub_clients h @ [\<lparr>cl_q = \<lparr>cq_items = joiner_messages h, cq_closed = False,
      cq_dropping = False, cq_cap = cap\<rparr>, cl_alive = True\<rparr>] \<and>
    hub_keyframe_requested (hub_register cap h) \<and>
    cq_items (cl_q (last (hub_clients (hub_broadcast_control pid oper msg (hub_register cap h))))) = joiner_messages h @ [msg] \<and>
    (length (joiner_messages h) < cap \<longrightarrow>
      cq_items (cl_q (last (hub_clients (hub_broadcast msg keyframe (hub_register cap h))))) = joiner_messages h @ [msg])"
proof -
  have ctl: "foldl (\<lambda>q m. cq_push_control m q) q ms = q\<lparr>cq_items := cq_items q @ ms\<rparr>"
    if "\<not> cq_closed q" for q :: "bytes ClientQueue" and ms
    using that by (induction ms arbitrary: q) (auto simp: cq_push_control_def)
  have q: "foldl (\<lambda>q m. cq_push_control m q)
      (case hub_last_keyframe h of Some k \<Rightarrow> snd (cq_push k True (ClientQueue_new cap)) | None \<Rightarrow> ClientQueue_new cap)
      (concat (map (plane_messages \<circ> snd) (hub_planes h))) =
    \<lparr>cq_items = joiner_messages h, cq_closed = False, cq_dropping = False, cq_cap = cap\<rparr>"
    using assms(1) unfolding joiner_messages_def
    by (cases "hub_last_keyframe h") (simp_all add: ctl cq_push_def ClientQueue_new_def)
  have reg: "hub_clients (hub_register cap h) = hub_clients h @ [\<lparr>cl_q = \<lparr>cq_items = joiner_messages h,
      cq_closed = False, cq_dropping = False, cq_cap = cap\<rparr>, cl_alive = True\<rparr>]"
    by (simp add: hub_register_def Let_def request_keyframe_def q)
  have planes: "hub_clients (cache_plane pid oper msg g) = hub_clients g" for g
    by (simp add: cache_plane_def)
  show ?thesis
    using reg by (auto simp: hub_register_def request_keyframe_def Let_def hub_broadcast_control_def planes
        cq_push_control_def hub_broadcast_def cq_push_def)
qed

theorem joining_client_primed_witness:
  "cq_items (cl_q (last (hub_clients (hub_broadcast_control 0 PLANE_OP_MOVE [3]
     (hub_register 8 (Hub_new\<lparr>hub_last_keyframe := Some [1],
        hub_planes := [(0, \<lparr>pc_last_define = Some [2], pc_last_move = None\<rparr>)]\<rparr>)))))) = [[1], [2], [3]]"
  using joining_client_primed [of 8 "Hub_new\<lparr>hub_last_keyframe := Some [1],
        hub_planes := [(0, \<lparr>pc_last_define = Some [2], pc_last_move = None\<rparr>)]\<rparr>" 0 PLANE_OP_MOVE "[3]"]
  by (simp add: Hub_new_def plane_messages_def joiner_messages_def)

text \<open>A slow, dead or departed client disturbs nobody. A broadcast keeps exactly the live clients in
  their order, and the queue of each one afterwards depends on its own queue alone; in particular a
  client whose queue has room holds the new frame last, whatever the others do.\<close>

theorem broadcast_isolated:
  assumes "i < length (filter cl_alive (hub_clients h))"
  shows "let c = filter cl_alive (hub_clients h) ! i in
    hub_clients (hub_broadcast msg keyframe h) ! i =
      c\<lparr>cl_q := snd (cq_push msg keyframe (cl_q c))\<rparr> \<and>
    length (hub_clients (hub_broadcast msg keyframe h)) = length (filter cl_alive (hub_clients h)) \<and>
    (\<not> cq_closed (cl_q c) \<and> \<not> cq_dropping (cl_q c) \<and> length (cq_items (cl_q c)) < cq_cap (cl_q c) \<longrightarrow>
      cq_items (cl_q (hub_clients (hub_broadcast msg keyframe h) ! i)) = cq_items (cl_q c) @ [msg])"
  using assms(1) by (auto simp: hub_broadcast_def Let_def cq_push_def)

theorem broadcast_isolated_witness:
  "let dead = \<lparr>cl_q = ClientQueue_new 1, cl_alive = False\<rparr>;
       full = \<lparr>cl_q = (ClientQueue_new 1)\<lparr>cq_items := [[0]]\<rparr>, cl_alive = True\<rparr>;
       free = \<lparr>cl_q = ClientQueue_new 1, cl_alive = True\<rparr>
   in cq_items (cl_q (hub_clients (hub_broadcast [5] False (Hub_new\<lparr>hub_clients := [dead, full, free]\<rparr>)) ! 1)) = [[5]]"
  using broadcast_isolated [of 1 "Hub_new\<lparr>hub_clients := [\<lparr>cl_q = ClientQueue_new 1, cl_alive = False\<rparr>,
       \<lparr>cl_q = (ClientQueue_new 1)\<lparr>cq_items := [[0]]\<rparr>, cl_alive = True\<rparr>,
       \<lparr>cl_q = ClientQueue_new 1, cl_alive = True\<rparr>]\<rparr>" "[5]" False]
  by (simp add: ClientQueue_new_def Let_def cq_push_def)

fun dedup_run :: "bytes list \<Rightarrow> Deduper \<Rightarrow> bool list" where
  "dedup_run [] d = []"
| "dedup_run (f # fs) d = (case deduper_changed f d of (c, d') \<Rightarrow> c # dedup_run fs d')"

text \<open>The idle skip compares each frame with the one submitted before it, skipped or not: the first
  frame is always encoded, and a later one is skipped exactly when its hash equals the hash of its
  predecessor, so a run of identical frames is encoded once.\<close>

theorem deduper_skips_repeats:
  "dedup_run (f # fs) Deduper_new = True # map (\<lambda>(a, b). frame_hash b \<noteq> frame_hash a) (zip (f # fs) fs)"
proof -
  have "dedup_run fs \<lparr>dd_last = Some (frame_hash f)\<rparr> =
      map (\<lambda>(a, b). frame_hash b \<noteq> frame_hash a) (zip (f # fs) fs)" for f
    by (induction fs arbitrary: f) (auto simp: deduper_changed_def Let_def)
  then show ?thesis by (simp add: deduper_changed_def Deduper_new_def Let_def)
qed

text \<open>The comparison is by hash, and distinct frames can share one: changing one word of a frame can be
  compensated in the next word.\<close>

lemma changed_frame_skipped:
  "dedup_run [[0, 0, 0, 0, 0, 0, 0, 0, 0, 0, 0, 0, 0, 0, 0, 0],
     [1, 0, 0, 0, 0, 0, 0, 0, 243, 1, 0, 0, 0, 1, 0, 0]] Deduper_new = [True, False]"
  unfolding deduper_skips_repeats by (simp add: frame_hash_def get_u64_def)

end
