(* ===== verification/Pixel_Streamer.thy ===== *)
theory Pixel_Streamer
  imports Pixel_Hub
begin

text \<open>
  The streamer of \<open>crates/infinigpu-pixel/src/lib.rs\<close>: the encoder session with its feeder and drain
  threads, and the decision per submitted frame to skip, to encode, or to respawn the encoder.
  Starting \<open>ffmpeg\<close> is outside: \<open>spawn\<close> tells whether an encoder with a configuration starts. What
  the session's threads do later (the encoder dying, units arriving) are separate steps.
\<close>

record EncoderConfig =
  ec_width :: u32
  ec_height :: u32
  ec_fps :: u32
  ec_bitrate_kbps :: u32
  ec_prefer_hardware :: bool
  ec_codec :: Codec
  ec_intra_refresh :: bool

definition EncoderConfig_default :: EncoderConfig where
  "EncoderConfig_default = \<lparr>ec_width = 1280, ec_height = 720, ec_fps = 30, ec_bitrate_kbps = 8000,
     ec_prefer_hardware = True, ec_codec = H264, ec_intra_refresh = False\<rparr>"

text \<open>\<open>to_string\<close> of a \<open>u32\<close>, and the command line of the encoder process. The product of the frame
  rate and two wraps as a \<open>u32\<close>.\<close>

fun digits :: "nat \<Rightarrow> string" where
  "digits n = (if n < 10 then [char_of (48 + n)] else digits (n div 10) @ [char_of (48 + n mod 10)])"

declare digits.simps [simp del]

definition u32_string :: "u32 \<Rightarrow> string" where
  "u32_string n = digits (unat n)"

definition codec_names :: "Codec \<Rightarrow> string \<times> string \<times> string \<times> string \<times> string" where
  "codec_names c = (case c of
     H264 \<Rightarrow> (''h264_nvenc'', ''libx264'', ''h264_metadata=aud=insert'', ''-x264-params'', ''h264'')
   | Hevc \<Rightarrow> (''hevc_nvenc'', ''libx265'', ''hevc_metadata=aud=insert'', ''-x265-params'', ''hevc''))"

definition ffmpeg_args :: "EncoderConfig \<Rightarrow> bool \<Rightarrow> string list" where
  "ffmpeg_args cfg hardware =
    (let gop = max (ec_fps cfg * 2) 2;
         (nvenc, sw_enc, meta_bsf, sw_params_key, muxer) = codec_names (ec_codec cfg);
         bitrate = u32_string (ec_bitrate_kbps cfg) @ ''k''
     in [''-hide_banner'', ''-loglevel'', ''error'', ''-f'', ''rawvideo'', ''-pix_fmt'', ''bgra'',
         ''-s'', u32_string (ec_width cfg) @ ''x'' @ u32_string (ec_height cfg),
         ''-r'', u32_string (ec_fps cfg), ''-i'', ''-'', ''-an''] @
        (if hardware then
           [''-c:v'', nvenc, ''-preset'', ''p1'', ''-tune'', ''ull'', ''-rc'', ''cbr'', ''-b:v'', bitrate,
            ''-bf'', ''0'', ''-delay'', ''0''] @
           (if ec_intra_refresh cfg then [''-intra-refresh'', ''1'', ''-g'', u32_string gop]
            else [''-g'', u32_string gop, ''-forced-idr'', ''1''])
         else [''-c:v'', sw_enc, ''-preset'', ''ultrafast'', ''-tune'', ''zerolatency'', sw_params_key,
            ''bframes=0:scenecut=0'', ''-b:v'', bitrate, ''-g'', u32_string gop]) @
        [''-bsf:v'', meta_bsf, ''-f'', muxer, ''-''])"

record EncoderSession =
  es_w :: u32
  es_h :: u32
  es_hardware :: bool
  es_codec :: Codec
  es_mailbox :: MailboxSlot
  es_alive :: bool
  es_produced :: nat

record PixelStreamer =
  ps_hub :: Hub
  ps_fps :: u32
  ps_bitrate_kbps :: u32
  ps_codec :: Codec
  ps_intra_refresh :: bool
  ps_enc :: "EncoderSession option"
  ps_hardware_failed :: bool
  ps_dedup :: Deduper
  ps_pending_flush :: bool
  ps_force_respawn :: bool
  ps_last_forced_idr :: "nat option"
  ps_sent :: nat
  ps_skipped :: nat

definition MIN_FORCED_IDR_INTERVAL :: nat where [simp]: "MIN_FORCED_IDR_INTERVAL = 500"

text \<open>\<open>new\<close> once the port is bound.\<close>

definition PixelStreamer_new :: "u32 \<Rightarrow> u32 \<Rightarrow> PixelStreamer" where
  "PixelStreamer_new fps bitrate = \<lparr>ps_hub = Hub_new, ps_fps = fps, ps_bitrate_kbps = bitrate,
     ps_codec = H264, ps_intra_refresh = False, ps_enc = None, ps_hardware_failed = False,
     ps_dedup = Deduper_new, ps_pending_flush = False, ps_force_respawn = False,
     ps_last_forced_idr = None, ps_sent = 0, ps_skipped = 0\<rparr>"

definition with_codec :: "Codec \<Rightarrow> PixelStreamer \<Rightarrow> PixelStreamer" where
  "with_codec c s = s\<lparr>ps_codec := c\<rparr>"

definition with_intra_refresh :: "bool \<Rightarrow> PixelStreamer \<Rightarrow> PixelStreamer" where
  "with_intra_refresh b s = s\<lparr>ps_intra_refresh := b\<rparr>"

subsection \<open>The session and its threads\<close>

definition session_config :: "u32 \<Rightarrow> u32 \<Rightarrow> bool \<Rightarrow> PixelStreamer \<Rightarrow> EncoderConfig" where
  "session_config w h hardware s = \<lparr>ec_width = w, ec_height = h, ec_fps = ps_fps s,
     ec_bitrate_kbps = ps_bitrate_kbps s, ec_prefer_hardware = hardware, ec_codec = ps_codec s,
     ec_intra_refresh = (ps_intra_refresh s \<and> hardware)\<rparr>"

definition spawn_session :: "(EncoderConfig \<Rightarrow> bool) \<Rightarrow> u32 \<Rightarrow> u32 \<Rightarrow> bool \<Rightarrow> PixelStreamer \<Rightarrow> EncoderSession option" where
  "spawn_session spawn w h hardware s = (if spawn (session_config w h hardware s)
     then Some \<lparr>es_w = w, es_h = h, es_hardware = hardware, es_codec = ps_codec s,
       es_mailbox = Mailbox_new, es_alive = True, es_produced = 0\<rparr> else None)"

definition session_submit :: "bytes \<Rightarrow> EncoderSession \<Rightarrow> EncoderSession" where
  "session_submit bgra e = e\<lparr>es_mailbox := mailbox_put bgra (es_mailbox e)\<rparr>"

text \<open>\<open>shutdown\<close>: the threads are joined, the answer is whether the session ever produced a unit.\<close>

definition session_shutdown :: "EncoderSession \<Rightarrow> bool" where
  "session_shutdown e = (0 < es_produced e)"

text \<open>The feeder: the last frame written and whether it still has to be flushed. One step handles one
  result of \<open>take_timeout\<close>; \<open>ok\<close> is whether a write to the encoder succeeds. The step returns the
  frames written and the new state, \<open>None\<close> when the thread ends, and whether it marks the session
  dead.\<close>

type_synonym feeder_state = "bytes option \<times> bool"

fun feeder_step :: "bool \<Rightarrow> MailboxTake \<Rightarrow> feeder_state \<Rightarrow> bytes list \<times> feeder_state option \<times> bool" where
  "feeder_step ok (Frame f) (prev, flush) =
     (if ok then ([f], Some (Some f, True), False) else ([], None, True))"
| "feeder_step ok Timeout (prev, flush) =
     (if flush then (case prev of
          Some f \<Rightarrow> if ok then ([f], Some (prev, False), False) else ([], None, True)
        | None \<Rightarrow> ([], Some (prev, False), False))
      else ([], Some (prev, flush), False))"
| "feeder_step ok Closed st = ([], None, False)"

definition drain_header :: "Codec \<Rightarrow> u32 \<Rightarrow> u32 \<Rightarrow> u32 \<Rightarrow> EncodedAu \<Rightarrow> FrameHeader" where
  "drain_header codec fps w h au = \<lparr>fh_flags = (if au_keyframe au then FLAG_KEYFRAME else 0),
     fh_codec = codec_wire codec, fh_frame_seq = word_of_nat (au_seq au), fh_width = ucast w,
     fh_height = ucast h, fh_pts_us = word_of_nat (au_seq au * (1000000 div max (unat fps) 1)),
     fh_payload_len = word_of_nat (length (au_data au))\<rparr>"

text \<open>One unit through the drain thread.\<close>

definition drain_unit :: "EncodedAu \<Rightarrow> PixelStreamer \<Rightarrow> PixelStreamer" where
  "drain_unit au s = (case ps_enc s of
     None \<Rightarrow> s
   | Some e \<Rightarrow> s\<lparr>ps_enc := Some (e\<lparr>es_produced := wrap_u64 (es_produced e + 1)\<rparr>),
       ps_hub := hub_broadcast (frame_message (drain_header (es_codec e) (ps_fps s) (es_w e) (es_h e) au)
         (au_data au)) (au_keyframe au) (ps_hub s)\<rparr>)"

text \<open>The drain ending, or the feeder failing to write.\<close>

definition session_dies :: "PixelStreamer \<Rightarrow> PixelStreamer" where
  "session_dies s = s\<lparr>ps_enc := map_option (\<lambda>e. e\<lparr>es_alive := False\<rparr>) (ps_enc s)\<rparr>"

subsection \<open>Frames\<close>

definition session_fits :: "u32 \<Rightarrow> u32 \<Rightarrow> EncoderSession \<Rightarrow> bool" where
  "session_fits w h e = (es_w e = w \<and> es_h e = h \<and> es_alive e)"

text \<open>Tearing the old session down, with the software latch and the keyframe cache.\<close>

definition teardown :: "u32 \<Rightarrow> u32 \<Rightarrow> PixelStreamer \<Rightarrow> PixelStreamer" where
  "teardown w h s = (case ps_enc s of
     None \<Rightarrow> s
   | Some old \<Rightarrow>
       (let latch = es_hardware old \<and> \<not> es_alive old \<and> \<not> session_shutdown old \<and> \<not> ps_hardware_failed s;
            s = s\<lparr>ps_enc := None, ps_hardware_failed := (latch \<or> ps_hardware_failed s)\<rparr>
        in if es_w old \<noteq> w \<or> es_h old \<noteq> h then s\<lparr>ps_hub := reset_keyframe (ps_hub s)\<rparr> else s))"

definition install :: "EncoderSession \<Rightarrow> PixelStreamer \<Rightarrow> PixelStreamer" where
  "install e s = s\<lparr>ps_enc := Some e, ps_dedup := Deduper_new, ps_pending_flush := False\<rparr>"

text \<open>The boolean result is \<open>Ok\<close> / \<open>Err\<close>.\<close>

definition ensure_encoder :: "(EncoderConfig \<Rightarrow> bool) \<Rightarrow> u32 \<Rightarrow> u32 \<Rightarrow> PixelStreamer \<Rightarrow> bool \<times> PixelStreamer" where
  "ensure_encoder spawn w h s0 =
    (let force = ps_force_respawn s0; s = s0\<lparr>ps_force_respawn := False\<rparr> in
     if \<not> force \<and> (case ps_enc s of Some e \<Rightarrow> session_fits w h e | None \<Rightarrow> False) then (True, s)
     else (let s = teardown w h s; hardware = \<not> ps_hardware_failed s in
       case spawn_session spawn w h hardware s of
         Some e \<Rightarrow> (True, install e s)
       | None \<Rightarrow> if hardware then
           (let s = s\<lparr>ps_hardware_failed := True\<rparr> in
            case spawn_session spawn w h False s of
              Some e \<Rightarrow> (True, install e s)
            | None \<Rightarrow> (False, s))
         else (False, s)))"

definition push_frame :: "bytes \<Rightarrow> PixelStreamer \<Rightarrow> PixelStreamer" where
  "push_frame bgra s = (case ps_enc s of
     None \<Rightarrow> s
   | Some e \<Rightarrow> s\<lparr>ps_sent := wrap_u64 (ps_sent s + 1), ps_enc := Some (session_submit bgra e)\<rparr>)"

definition idr_due :: "nat \<Rightarrow> PixelStreamer \<Rightarrow> bool" where
  "idr_due now s = (case ps_last_forced_idr s of None \<Rightarrow> True | Some t \<Rightarrow> MIN_FORCED_IDR_INTERVAL \<le> now - t)"

definition submit_idr :: "(EncoderConfig \<Rightarrow> bool) \<Rightarrow> nat \<Rightarrow> bytes \<Rightarrow> u32 \<Rightarrow> u32 \<Rightarrow> PixelStreamer \<Rightarrow> bool \<times> PixelStreamer" where
  "submit_idr spawn now bgra w h s =
    (case ensure_encoder spawn w h (s\<lparr>ps_last_forced_idr := Some now, ps_force_respawn := True\<rparr>) of
       (False, s) \<Rightarrow> (False, s)
     | (True, s) \<Rightarrow> (True, push_frame bgra
         (s\<lparr>ps_dedup := snd (deduper_changed bgra (ps_dedup s)), ps_pending_flush := True\<rparr>)))"

definition submit_normal :: "(EncoderConfig \<Rightarrow> bool) \<Rightarrow> bytes \<Rightarrow> u32 \<Rightarrow> u32 \<Rightarrow> PixelStreamer \<Rightarrow> bool \<times> PixelStreamer" where
  "submit_normal spawn bgra w h s0 =
    (let (changed, d) = deduper_changed bgra (ps_dedup s0); s = s0\<lparr>ps_dedup := d\<rparr> in
     if \<not> changed then
       (let s = s\<lparr>ps_skipped := wrap_u64 (ps_skipped s + 1)\<rparr> in
        if ps_pending_flush s then
          (case ensure_encoder spawn w h (s\<lparr>ps_pending_flush := False\<rparr>) of
             (False, s) \<Rightarrow> (False, s) | (True, s) \<Rightarrow> (True, push_frame bgra s))
        else (True, s))
     else (case ensure_encoder spawn w h s of
         (False, s) \<Rightarrow> (False, s)
       | (True, s) \<Rightarrow> (True, push_frame bgra (s\<lparr>ps_pending_flush := True\<rparr>))))"

definition submit_bgra :: "(EncoderConfig \<Rightarrow> bool) \<Rightarrow> nat \<Rightarrow> bytes \<Rightarrow> u32 \<Rightarrow> u32 \<Rightarrow> PixelStreamer \<Rightarrow> bool \<times> PixelStreamer" where
  "submit_bgra spawn now bgra w h s0 =
    (let (requested, hub) = take_keyframe_request (ps_hub s0); s = s0\<lparr>ps_hub := hub\<rparr> in
     if requested then
       (if idr_due now s then submit_idr spawn now bgra w h s
        else submit_normal spawn bgra w h (s\<lparr>ps_hub := request_keyframe (ps_hub s)\<rparr>))
     else submit_normal spawn bgra w h s)"

definition streamer_stats :: "PixelStreamer \<Rightarrow> nat \<times> nat" where
  "streamer_stats s = (ps_sent s, ps_skipped s)"

definition send_plane :: "PlaneHeader \<Rightarrow> bytes \<Rightarrow> PixelStreamer \<Rightarrow> PixelStreamer" where
  "send_plane hdr body s = s\<lparr>ps_hub := hub_broadcast_control (ph_plane_id hdr) (ph_op hdr)
     (plane_message hdr body) (ps_hub s)\<rparr>"

text \<open>\<open>reset_planes\<close> of the streamer.\<close>

definition streamer_reset_planes :: "PixelStreamer \<Rightarrow> PixelStreamer" where
  "streamer_reset_planes s = s\<lparr>ps_hub := reset_planes (ps_hub s)\<rparr>"

subsection \<open>The encoder decision\<close>

lemma teardown_simps [simp]:
  "ps_force_respawn (teardown w h s) = ps_force_respawn s" "ps_codec (teardown w h s) = ps_codec s"
  "ps_sent (teardown w h s) = ps_sent s" "ps_skipped (teardown w h s) = ps_skipped s"
  "ps_dedup (teardown w h s) = ps_dedup s" "ps_pending_flush (teardown w h s) = ps_pending_flush s"
  "ps_last_forced_idr (teardown w h s) = ps_last_forced_idr s" "ps_enc (teardown w h s) = None"
  by (auto simp: teardown_def Let_def split: option.split)

lemma teardown_failed: "ps_hardware_failed s \<Longrightarrow> ps_hardware_failed (teardown w h s)"
  by (auto simp: teardown_def Let_def split: option.split)

lemma teardown_hub: "ps_hub (teardown w h s) = (case ps_enc s of
    Some e \<Rightarrow> if es_w e \<noteq> w \<or> es_h e \<noteq> h then reset_keyframe (ps_hub s) else ps_hub s | None \<Rightarrow> ps_hub s)"
  by (auto simp: teardown_def Let_def split: option.split)

lemma install_simps [simp]:
  "ps_enc (install e s) = Some e" "ps_hub (install e s) = ps_hub s" "ps_sent (install e s) = ps_sent s"
  "ps_skipped (install e s) = ps_skipped s" "ps_last_forced_idr (install e s) = ps_last_forced_idr s"
  "ps_hardware_failed (install e s) = ps_hardware_failed s" "ps_dedup (install e s) = Deduper_new"
  "ps_pending_flush (install e s) = False" "ps_force_respawn (install e s) = ps_force_respawn s"
  by (simp_all add: install_def)

lemma spawn_session_cases:
  "spawn_session spawn w h hw s = None \<longleftrightarrow> \<not> spawn (session_config w h hw s)"
  "spawn_session spawn w h hw s = Some e \<Longrightarrow> session_fits w h e \<and> es_hardware e = hw"
  by (auto simp: spawn_session_def session_fits_def split: if_splits)

lemma ensure_encoder_reuse:
  assumes "\<not> ps_force_respawn s" and "ps_enc s = Some e" and "session_fits w h e"
  shows "ensure_encoder spawn w h s = (True, s)"
  using assms by (simp add: ensure_encoder_def)

lemma ensure_encoder_frame:
  assumes "ensure_encoder spawn w h s = (ok, s')"
  shows "ps_sent s' = ps_sent s" and "ps_skipped s' = ps_skipped s"
    and "ps_last_forced_idr s' = ps_last_forced_idr s" and "\<not> ps_force_respawn s'"
    and "hub_keyframe_requested (ps_hub s') = hub_keyframe_requested (ps_hub s)"
  using assms by (auto simp: ensure_encoder_def Let_def teardown_hub reset_keyframe_def
      split: if_splits option.splits)



subsection \<open>The cost of a still screen\<close>

fun submit_all :: "(EncoderConfig \<Rightarrow> bool) \<Rightarrow> u32 \<Rightarrow> u32 \<Rightarrow> (nat \<times> bytes) list \<Rightarrow> PixelStreamer \<Rightarrow> bool \<times> PixelStreamer" where
  "submit_all spawn w h [] s = (True, s)"
| "submit_all spawn w h ((now, f) # rest) s =
     (case submit_bgra spawn now f w h s of (ok, s) \<Rightarrow>
      case submit_all spawn w h rest s of (oks, s) \<Rightarrow> (ok \<and> oks, s))"

text \<open>Submitting to a session that fits, with no keyframe request pending.\<close>

definition steady :: "u32 \<Rightarrow> u32 \<Rightarrow> PixelStreamer \<Rightarrow> bool" where
  "steady w h s = (\<not> ps_force_respawn s \<and> \<not> hub_keyframe_requested (ps_hub s) \<and>
     (case ps_enc s of Some e \<Rightarrow> session_fits w h e | None \<Rightarrow> False))"

definition frame_due :: "bytes \<Rightarrow> PixelStreamer \<Rightarrow> nat" where
  "frame_due f s = (if dd_last (ps_dedup s) \<noteq> Some (frame_hash f) then 2
     else if ps_pending_flush s then 1 else 0)"

lemma submit_steady:
  assumes "steady w h s"
  obtains s' where "submit_bgra spawn now f w h s = (True, s')" and "steady w h s'"
    and "dd_last (ps_dedup s') = Some (frame_hash f)" and "frame_due f s' = frame_due f s - 1"
    and "ps_sent s' = (if 0 < frame_due f s then wrap_u64 (ps_sent s + 1) else ps_sent s)"
    and "ps_skipped s' = (if frame_due f s = 2 then ps_skipped s else wrap_u64 (ps_skipped s + 1))"
    and "ps_hub s' = ps_hub s"
proof -
  from assms obtain e where e: "\<not> ps_force_respawn s" "ps_enc s = Some e" "session_fits w h e"
    and k: "\<not> hub_keyframe_requested (ps_hub s)" by (auto simp: steady_def split: option.splits)
  let ?r = "submit_bgra spawn now f w h s"
  have hub: "(ps_hub s)\<lparr>hub_keyframe_requested := False\<rparr> = ps_hub s" using k by simp
  have "fst ?r \<and> steady w h (snd ?r) \<and> dd_last (ps_dedup (snd ?r)) = Some (frame_hash f) \<and>
      frame_due f (snd ?r) = frame_due f s - 1 \<and>
      ps_sent (snd ?r) = (if 0 < frame_due f s then wrap_u64 (ps_sent s + 1) else ps_sent s) \<and>
      ps_skipped (snd ?r) = (if frame_due f s = 2 then ps_skipped s else wrap_u64 (ps_skipped s + 1)) \<and>
      ps_hub (snd ?r) = ps_hub s"
    using e k hub
    by (auto simp: submit_bgra_def take_keyframe_request_def submit_normal_def deduper_changed_def Let_def
        ensure_encoder_def push_frame_def session_submit_def steady_def session_fits_def frame_due_def)
  then show thesis using that by (metis prod.collapse)
qed



subsection \<open>Forced keyframes\<close>

text \<open>The times at which a run of submissions respawned the encoder for a keyframe request. Between two
  submissions clients may join or the session may die.\<close>

datatype between = Request | Dies | Unit EncodedAu

fun happens :: "between \<Rightarrow> PixelStreamer \<Rightarrow> PixelStreamer" where
  "happens Request s = s\<lparr>ps_hub := request_keyframe (ps_hub s)\<rparr>"
| "happens Dies s = session_dies s"
| "happens (Unit au) s = drain_unit au s"

fun forced_idrs :: "(EncoderConfig \<Rightarrow> bool) \<Rightarrow> (between list \<times> nat \<times> bytes \<times> u32 \<times> u32) list \<Rightarrow> PixelStreamer \<Rightarrow> nat list" where
  "forced_idrs spawn [] s = []"
| "forced_idrs spawn ((bs, now, f, w, h) # rest) s =
     (let s1 = foldl (\<lambda>s b. happens b s) s bs; forced = hub_keyframe_requested (ps_hub s1) \<and> idr_due now s1
      in (if forced then [now] else []) @ forced_idrs spawn rest (snd (submit_bgra spawn now f w h s1)))"

lemma happens_idr: "ps_last_forced_idr (foldl (\<lambda>s b. happens b s) s bs) = ps_last_forced_idr s"
proof (induction bs arbitrary: s)
  case (Cons b bs)
  have "ps_last_forced_idr (happens b s) = ps_last_forced_idr s"
    by (cases b) (auto simp: session_dies_def drain_unit_def split: option.split)
  then show ?case using Cons by simp
qed simp

lemma push_frame_idr [simp]: "ps_last_forced_idr (push_frame f s) = ps_last_forced_idr s"
  by (simp add: push_frame_def split: option.split)

lemma submit_normal_idr: "ps_last_forced_idr (snd (submit_normal spawn f w h s)) = ps_last_forced_idr s"
  by (auto simp: submit_normal_def Let_def dest: ensure_encoder_frame(3) split: prod.split bool.split)

lemma submit_idr_idr: "ps_last_forced_idr (snd (submit_idr spawn now f w h s)) = Some now"
  by (auto simp: submit_idr_def dest: ensure_encoder_frame(3) split: prod.split bool.split)

lemma submit_bgra_idr: "ps_last_forced_idr (snd (submit_bgra spawn now f w h s)) =
    (if hub_keyframe_requested (ps_hub s) \<and> idr_due now s then Some now else ps_last_forced_idr s)"
  by (simp add: submit_bgra_def take_keyframe_request_def Let_def submit_normal_idr submit_idr_idr idr_due_def)

lemma forced_idrs_spaced:
  "successively (\<lambda>a b. a + MIN_FORCED_IDR_INTERVAL \<le> b)
     (case_option [] (\<lambda>t. [t]) (ps_last_forced_idr s) @ forced_idrs spawn subs s)"
proof (induction spawn subs s rule: forced_idrs.induct)
  case (1 spawn s) then show ?case by (simp split: option.split)
next
  case (2 spawn bs now f w h rest s)
  let ?s1 = "foldl (\<lambda>s b. happens b s) s bs"
  show ?case
    using 2 [OF refl refl]
    by (cases "ps_last_forced_idr s")
      (auto simp: Let_def submit_bgra_idr happens_idr idr_due_def)
qed


subsection \<open>The feeder\<close>

text \<open>The frames the feeder writes for a sequence of mailbox results, while the encoder accepts them.\<close>

fun feeder_run :: "MailboxTake list \<Rightarrow> feeder_state \<Rightarrow> bytes list" where
  "feeder_run [] st = []"
| "feeder_run (t # ts) st = (case feeder_step True t st of
     (out, Some st', _) \<Rightarrow> out @ feeder_run ts st'
   | (out, None, _) \<Rightarrow> out)"

text \<open>The specification: each frame is written once, and once more when an idle period follows it.\<close>

fun feeder_spec :: "MailboxTake list \<Rightarrow> bytes list" where
  "feeder_spec [] = []"
| "feeder_spec (Closed # ts) = []"
| "feeder_spec (Timeout # ts) = feeder_spec ts"
| "feeder_spec (Frame f # Timeout # ts) = f # f # feeder_spec ts"
| "feeder_spec (Frame f # ts) = f # feeder_spec ts"

lemma feeder_idle: "feeder_run ts (prev, False) = feeder_spec ts \<and>
    feeder_run ts (Some f, True) = (case ts of Timeout # us \<Rightarrow> f # feeder_spec us | _ \<Rightarrow> feeder_spec ts)"
proof (induction ts arbitrary: prev f)
  case Nil then show ?case by simp
next
  case (Cons t ts)
  show ?case
  proof (cases t)
    case (Frame g)
    have "feeder_spec (Frame g # ts) = g # (case ts of Timeout # us \<Rightarrow> g # feeder_spec us | _ \<Rightarrow> feeder_spec ts)"
      by (cases ts rule: list.exhaust; cases "hd ts") auto
    then show ?thesis using Cons Frame by simp
  qed (use Cons in simp_all)
qed

text \<open>The feeder writes every frame once and repeats it exactly once when an idle period follows, so the
  encoder's held unit is flushed; further idle time writes nothing.\<close>

theorem feeder_flushes_once: "feeder_run ts (None, False) = feeder_spec ts"
  using feeder_idle by blast

lemma feeder_idle_quiet: "feeder_run (Frame f # replicate (Suc n) Timeout) (None, False) = [f, f]"
proof -
  have "feeder_run (replicate n Timeout) (Some f, False) = []" for n by (induction n) auto
  then show ?thesis by simp
qed

subsection \<open>Frames that are lost\<close>

text \<open>A changed frame whose encoder does not start is reported as an error, yet the check for unchanged
  frames has recorded it: submitting it again is a skip, not a retry.\<close>

lemma failed_spawn_loses_frame:
  assumes "\<not> spawn (session_config w h False s)" and "ps_hardware_failed s" and "ps_enc s = None"
    and "\<not> hub_keyframe_requested (ps_hub s)" and "dd_last (ps_dedup s) \<noteq> Some (frame_hash f)"
    and "\<not> ps_pending_flush s"
  shows "\<exists>s'. submit_bgra spawn now f w h s = (False, s') \<and>
    (\<exists>s''. submit_bgra (\<lambda>_. True) now' f w h s' = (True, s'') \<and> ps_enc s'' = None \<and> ps_sent s'' = ps_sent s)"
  using assms
  by (auto simp: submit_bgra_def take_keyframe_request_def submit_normal_def deduper_changed_def Let_def
      ensure_encoder_def teardown_def spawn_session_def session_config_def)

end
