(* ===== verification/Forwarded_Decode.thy ===== *)
theory Forwarded_Decode
  imports Abi_Wire
begin

unbundle bit_operations_syntax

text \<open>
  The decoders of forwarded draws in \<open>crates/infinigpu-device/src/lib.rs\<close>: \<open>decode_forwarded\<close> and
  \<open>decode_forwarded_cmdlist\<close>, which turn a guest payload into an owned draw or refuse it. The caps
  \<open>MAX_TEXTURES\<close> and \<open>MAX_SSBO_BYTES\<close> are those of \<open>crates/infinigpu-replay/src/lib.rs\<close>. Lengths are
  \<open>usize\<close> on a 64-bit host and words are little-endian, as on the supported hosts.
\<close>

subsection \<open>Decoded draws\<close>

record VertexAttr =
  vx_location :: u32
  vx_format :: u32
  vx_offset :: u32

record DrawCmd =
  dr_count :: u32
  dr_instance_count :: u32
  dr_first :: u32
  dr_vertex_offset :: u32
  dr_viewport :: "u32 \<times> u32 \<times> u32 \<times> u32"

record DepthState =
  dp_test :: bool
  dp_write :: bool
  dp_compare :: u32

record OwnedTexture =
  ot_width :: u32
  ot_height :: u32
  ot_rgba :: bytes
  ot_linear :: bool
  ot_repeat :: bool

record OwnedUniform =
  ou_binding :: u32
  ou_bytes :: bytes

record OwnedStorage =
  os_binding :: u32
  os_bytes :: bytes

record OwnedGeometry =
  og_vertex_data :: bytes
  og_vertex_stride :: u32
  og_attrs :: "VertexAttr list"
  og_index_data :: bytes
  og_index_u32 :: bool
  og_draws :: "DrawCmd list"
  og_depth :: "DepthState option"
  og_push_constants :: bytes
  og_textures :: "OwnedTexture list"
  og_tex_binding :: u32
  og_uniforms :: "OwnedUniform list"
  og_storage :: "OwnedStorage option"
  og_raster_flags :: u32

record OwnedForwardedDraw =
  fd_vertex_spirv :: "u32 list"
  fd_fragment_spirv :: "u32 list"
  fd_vertex_entry :: bytes
  fd_fragment_entry :: bytes
  fd_vertex_count :: u32
  fd_topology :: u32
  fd_geometry :: "OwnedGeometry option"

definition SPIRV_MAGIC :: u32 where [simp]: "SPIRV_MAGIC = 0x07230203"
definition MAX_TEXTURES :: nat where [simp]: "MAX_TEXTURES = 8"
definition MAX_SSBO_BYTES :: nat where [simp]: "MAX_SSBO_BYTES = 16777216"

subsection \<open>Shared pieces\<close>

fun checked_sum :: "nat list \<Rightarrow> nat option" where
  "checked_sum [] = Some 0"
| "checked_sum (n # ns) = do { s \<leftarrow> checked_sum ns; checked_u64 (n + s) }"

definition split_at :: "nat \<Rightarrow> bytes \<Rightarrow> bytes \<times> bytes" where
  "split_at n bs = (take n bs, drop n bs)"

fun to_words :: "bytes \<Rightarrow> u32 list" where
  "to_words (a # b # c # d # rest) = get_u32 [a, b, c, d] 0 # to_words rest"
| "to_words bs = []"

definition cstr :: "bytes \<Rightarrow> bytes option" where
  "cstr b = (if 0 \<in> set b then Some (takeWhile (\<lambda>c. c \<noteq> 0) b) else None)"

fun starts_with_magic :: "u32 list \<Rightarrow> bool" where
  "starts_with_magic (w # ws) = (w = SPIRV_MAGIC)"
| "starts_with_magic [] = False"

text \<open>The checks on shader and entry-name lengths that both decoders open with.\<close>

definition blobs_ok :: "nat \<Rightarrow> nat \<Rightarrow> nat \<Rightarrow> nat \<Rightarrow> nat \<Rightarrow> bool" where
  "blobs_ok max_bytes vlen flen velen felen = (\<not> (vlen = 0 \<or> flen = 0 \<or> \<not> 4 dvd vlen \<or> \<not> 4 dvd flen
     \<or> max_bytes < vlen \<or> max_bytes < flen \<or> velen = 0 \<or> felen = 0 \<or> 256 < velen \<or> 256 < felen))"

subsection \<open>Bufferless draws\<close>

definition decode_forwarded :: "bytes \<Rightarrow> nat \<Rightarrow> OwnedForwardedDraw option" where
  "decode_forwarded payload max_bytes =
    (if length payload < 40 then None else do {
       (tail, rest) \<leftarrow> dec_ForwardedDrawTail (drop 40 payload);
       let vlen = unat (fdt_vertex_spirv_len tail); flen = unat (fdt_fragment_spirv_len tail);
           velen = unat (fdt_vertex_entry_len tail); felen = unat (fdt_fragment_entry_len tail)
       in if \<not> blobs_ok max_bytes vlen flen velen felen then None else do {
         total \<leftarrow> checked_sum [felen, velen, flen, vlen];
         if length rest < total then None else
           (let (vspirv_b, r) = split_at vlen rest; (fspirv_b, r) = split_at flen r;
                (ventry_b, r) = split_at velen r; (fentry_b, _) = split_at felen r;
                vertex_spirv = to_words vspirv_b; fragment_spirv = to_words fspirv_b
            in if \<not> starts_with_magic vertex_spirv \<or> \<not> starts_with_magic fragment_spirv then None
              else do {
                ve \<leftarrow> cstr ventry_b;
                fe \<leftarrow> cstr fentry_b;
                Some \<lparr>fd_vertex_spirv = vertex_spirv, fd_fragment_spirv = fragment_spirv,
                  fd_vertex_entry = ve, fd_fragment_entry = fe, fd_vertex_count = fdt_vertex_count tail,
                  fd_topology = fdt_topology tail, fd_geometry = None\<rparr> }) } })"

subsection \<open>Command lists\<close>

fun read_array :: "(bytes \<Rightarrow> ('a \<times> bytes) option) \<Rightarrow> nat \<Rightarrow> bytes \<Rightarrow> 'a list option" where
  "read_array dec 0 bs = Some []"
| "read_array dec (Suc n) bs = do { (x, next) \<leftarrow> dec bs; xs \<leftarrow> read_array dec n next; Some (x # xs) }"

definition attr_of_wire :: "VertexAttrWire \<Rightarrow> VertexAttr" where
  "attr_of_wire a = \<lparr>vx_location = va_location a, vx_format = va_format a, vx_offset = va_offset a\<rparr>"

definition draw_of_wire :: "DrawCmdWire \<Rightarrow> DrawCmd" where
  "draw_of_wire d = \<lparr>dr_count = dc_count d, dr_instance_count = dc_instance_count d, dr_first = dc_first d,
     dr_vertex_offset = dc_vertex_offset d, dr_viewport = (dc_vp_x d, dc_vp_y d, dc_vp_w d, dc_vp_h d)\<rparr>"

definition cmdlist_scalars_ok :: "nat \<Rightarrow> ForwardedCmdListTail \<Rightarrow> bool" where
  "cmdlist_scalars_ok max_bytes t =
    (blobs_ok max_bytes (unat (fcl_vertex_spirv_len t)) (unat (fcl_fragment_spirv_len t))
       (unat (fcl_vertex_entry_len t)) (unat (fcl_fragment_entry_len t)) \<and>
     \<not> (fcl_draw_count t = 0 \<or> 4096 < fcl_draw_count t \<or> 32 < fcl_attr_count t
        \<or> max_bytes < unat (fcl_vertex_data_len t) \<or> max_bytes < unat (fcl_index_data_len t)
        \<or> 256 < fcl_push_const_len t \<or> MAX_TEXTURES < unat (fcl_tex_count t)
        \<or> 65535 < fcl_tex_binding t \<or> 16 < fcl_ubo_count t \<or> 65535 < fcl_ssbo_binding t
        \<or> MAX_SSBO_BYTES < unat (fcl_ssbo_len t)))"

text \<open>\<open>in_tex_range\<close>: the end of the range saturates at the top of a \<open>u32\<close>.\<close>

definition in_tex_range :: "ForwardedCmdListTail \<Rightarrow> u32 \<Rightarrow> bool" where
  "in_tex_range t b = (0 < fcl_tex_count t \<and> fcl_tex_binding t \<le> b \<and>
     unat b < min (unat (fcl_tex_binding t) + 2 * unat (fcl_tex_count t)) (2 ^ 32 - 1))"

text \<open>Stride and vertex data are both present or both absent, and the data is whole vertices.\<close>

definition vertex_layout_ok :: "ForwardedCmdListTail \<Rightarrow> bool" where
  "vertex_layout_ok t = ((fcl_vertex_stride t = 0) = (fcl_vertex_data_len t = 0) \<and>
     (fcl_vertex_stride t \<noteq> 0 \<longrightarrow> unat (fcl_vertex_stride t) dvd unat (fcl_vertex_data_len t)))"

definition decode_depth :: "u32 \<Rightarrow> DepthState option" where
  "decode_depth f = (let test = (f AND DEPTH_TEST \<noteq> 0); wr = (f AND DEPTH_WRITE \<noteq> 0) in
     if test \<or> wr then Some \<lparr>dp_test = test, dp_write = wr,
       dp_compare = drop_bit (unat DEPTH_COMPARE_SHIFT) (f AND DEPTH_COMPARE_MASK)\<rparr> else None)"

fun decode_textures :: "nat \<Rightarrow> nat \<Rightarrow> bytes \<Rightarrow> bytes \<Rightarrow> OwnedTexture list option" where
  "decode_textures max_bytes 0 tb pix = Some []"
| "decode_textures max_bytes (Suc n) tb pix = do {
     (td, next) \<leftarrow> dec_TextureDescWire tb;
     let w = unat (td_width td); h = unat (td_height td); data_len = unat (td_data_len td)
     in if w = 0 \<or> h = 0 then None else do {
       wh \<leftarrow> checked_u64 (w * h);
       expect \<leftarrow> checked_u64 (wh * 4);
       if data_len \<noteq> expect \<or> max_bytes < data_len \<or> length pix < data_len then None else
         (let (texpix_b, rest_pix) = split_at data_len pix in do {
            out \<leftarrow> decode_textures max_bytes n next rest_pix;
            Some (\<lparr>ot_width = td_width td, ot_height = td_height td, ot_rgba = texpix_b,
              ot_linear = (td_sampler_flags td AND SAMPLER_LINEAR \<noteq> 0),
              ot_repeat = (td_sampler_flags td AND SAMPLER_REPEAT \<noteq> 0)\<rparr> # out) }) } }"

text \<open>The block of uniform records, each a binding, a length and its bytes; \<open>seen\<close> are the bindings of
  the records before.\<close>

fun decode_uniforms :: "ForwardedCmdListTail \<Rightarrow> nat \<Rightarrow> bytes \<Rightarrow> u32 list \<Rightarrow> OwnedUniform list option" where
  "decode_uniforms t 0 ub seen = Some []"
| "decode_uniforms t (Suc n) ub seen =
    (if length ub < 8 then None else
     (let binding = get_u32 ub 0; len = unat (get_u32 ub 4); ub = drop 8 ub in
      if 65535 < binding \<or> 65536 < len \<or> length ub < len \<or> in_tex_range t binding
        \<or> (0 < fcl_ssbo_len t \<and> binding = fcl_ssbo_binding t) \<or> binding \<in> set seen then None
      else (let (bs, next) = split_at len ub in do {
        rest \<leftarrow> decode_uniforms t n next (seen @ [binding]);
        Some (\<lparr>ou_binding = binding, ou_bytes = bs\<rparr> # rest) })))"

definition cmdlist_total :: "ForwardedCmdListTail \<Rightarrow> nat option" where
  "cmdlist_total t = checked_sum [unat (fcl_ssbo_len t), unat (fcl_ubo_len t), unat (fcl_push_const_len t),
     unat (fcl_fragment_entry_len t), unat (fcl_vertex_entry_len t), unat (fcl_index_data_len t),
     unat (fcl_vertex_data_len t), unat (fcl_fragment_spirv_len t), unat (fcl_vertex_spirv_len t),
     unat (fcl_tex_count t) * 16, unat (fcl_draw_count t) * 32, unat (fcl_attr_count t) * 12]"

text \<open>The sections behind the tail, once their lengths are known to fit.\<close>

definition decode_sections :: "nat \<Rightarrow> ForwardedCmdListTail \<Rightarrow> bytes \<Rightarrow> OwnedForwardedDraw option" where
  "decode_sections max_bytes t rest =
    (let (attrs_b, r) = split_at (unat (fcl_attr_count t) * 12) rest;
         (draws_b, r) = split_at (unat (fcl_draw_count t) * 32) r;
         (texs_b, r) = split_at (unat (fcl_tex_count t) * 16) r;
         (vspirv_b, r) = split_at (unat (fcl_vertex_spirv_len t)) r;
         (fspirv_b, r) = split_at (unat (fcl_fragment_spirv_len t)) r;
         (vdata_b, r) = split_at (unat (fcl_vertex_data_len t)) r;
         (idata_b, r) = split_at (unat (fcl_index_data_len t)) r;
         (ventry_b, r) = split_at (unat (fcl_vertex_entry_len t)) r;
         (fentry_b, r) = split_at (unat (fcl_fragment_entry_len t)) r;
         (pc_b, r) = split_at (unat (fcl_push_const_len t)) r;
         (ubo_b, r) = split_at (unat (fcl_ubo_len t)) r;
         (ssbo_b, r) = split_at (unat (fcl_ssbo_len t)) r
     in do {
       attrs \<leftarrow> read_array dec_VertexAttrWire (unat (fcl_attr_count t)) attrs_b;
       draws \<leftarrow> read_array dec_DrawCmdWire (unat (fcl_draw_count t)) draws_b;
       let vertex_spirv = to_words vspirv_b; fragment_spirv = to_words fspirv_b;
           index_u32 = (fcl_index_type t = INDEX_U32); idx_stride = (if index_u32 then 4 else 2)
       in if \<not> starts_with_magic vertex_spirv \<or> \<not> starts_with_magic fragment_spirv then None
       else if \<not> idx_stride dvd unat (fcl_index_data_len t) then None
       else do {
         textures \<leftarrow> decode_textures max_bytes (unat (fcl_tex_count t)) texs_b r;
         uniforms \<leftarrow> decode_uniforms t (unat (fcl_ubo_count t)) ubo_b [];
         ve \<leftarrow> cstr ventry_b;
         fe \<leftarrow> cstr fentry_b;
         Some \<lparr>fd_vertex_spirv = vertex_spirv, fd_fragment_spirv = fragment_spirv,
           fd_vertex_entry = ve, fd_fragment_entry = fe, fd_vertex_count = 0,
           fd_topology = fcl_topology t,
           fd_geometry = Some \<lparr>og_vertex_data = vdata_b, og_vertex_stride = fcl_vertex_stride t,
             og_attrs = map attr_of_wire attrs, og_index_data = idata_b, og_index_u32 = index_u32,
             og_draws = map draw_of_wire draws, og_depth = decode_depth (fcl_depth_flags t),
             og_push_constants = pc_b, og_textures = textures, og_tex_binding = fcl_tex_binding t,
             og_uniforms = uniforms,
             og_storage = (if 0 < fcl_ssbo_len t
               then Some \<lparr>os_binding = fcl_ssbo_binding t, os_bytes = ssbo_b\<rparr> else None),
             og_raster_flags = fcl_raster_flags t\<rparr>\<rparr> } })"

definition decode_forwarded_cmdlist :: "bytes \<Rightarrow> nat \<Rightarrow> OwnedForwardedDraw option" where
  "decode_forwarded_cmdlist payload max_bytes =
    (if length payload < 40 then None else do {
       (t, rest) \<leftarrow> dec_ForwardedCmdListTail (drop 40 payload);
       if \<not> cmdlist_scalars_ok max_bytes t then None
       else if 0 < fcl_ssbo_len t \<and> in_tex_range t (fcl_ssbo_binding t) then None
       else if \<not> vertex_layout_ok t then None
       else do {
         total \<leftarrow> cmdlist_total t;
         if length rest < total then None else decode_sections max_bytes t rest } })"

subsection \<open>What a decoded draw promises\<close>

definition words_le :: "u32 list \<Rightarrow> bytes" where
  "words_le ws = concat (map u32_le ws)"

definition shaders_ok :: "nat \<Rightarrow> OwnedForwardedDraw \<Rightarrow> bool" where
  "shaders_ok max_bytes d = (starts_with_magic (fd_vertex_spirv d) \<and> starts_with_magic (fd_fragment_spirv d) \<and>
     4 * length (fd_vertex_spirv d) \<le> max_bytes \<and> 4 * length (fd_fragment_spirv d) \<le> max_bytes \<and>
     0 \<notin> set (fd_vertex_entry d) \<and> 0 \<notin> set (fd_fragment_entry d) \<and>
     length (fd_vertex_entry d) < 256 \<and> length (fd_fragment_entry d) < 256)"

definition forwarded_ok :: "nat \<Rightarrow> OwnedForwardedDraw \<Rightarrow> bool" where
  "forwarded_ok max_bytes d = (shaders_ok max_bytes d \<and> fd_geometry d = None)"

text \<open>The bindings the textures of a draw take.\<close>

definition tex_bindings :: "OwnedGeometry \<Rightarrow> u32 \<Rightarrow> bool" where
  "tex_bindings g b = (unat (og_tex_binding g) \<le> unat b \<and>
     unat b < unat (og_tex_binding g) + 2 * length (og_textures g))"

definition texture_ok :: "nat \<Rightarrow> OwnedTexture \<Rightarrow> bool" where
  "texture_ok max_bytes x = (ot_width x \<noteq> 0 \<and> ot_height x \<noteq> 0 \<and>
     length (ot_rgba x) = unat (ot_width x) * unat (ot_height x) * 4 \<and> length (ot_rgba x) \<le> max_bytes)"

definition uniform_ok :: "OwnedGeometry \<Rightarrow> OwnedUniform \<Rightarrow> bool" where
  "uniform_ok g u = (ou_binding u \<le> 65535 \<and> length (ou_bytes u) \<le> 65536 \<and> \<not> tex_bindings g (ou_binding u) \<and>
     (case og_storage g of Some st \<Rightarrow> ou_binding u \<noteq> os_binding st | None \<Rightarrow> True))"

definition storage_ok :: "OwnedGeometry \<Rightarrow> bool" where
  "storage_ok g = (case og_storage g of None \<Rightarrow> True
     | Some st \<Rightarrow> os_binding st \<le> 65535 \<and> os_bytes st \<noteq> [] \<and> length (os_bytes st) \<le> MAX_SSBO_BYTES \<and>
         \<not> tex_bindings g (os_binding st))"

definition depth_ok :: "DepthState option \<Rightarrow> bool" where
  "depth_ok dp = (case dp of None \<Rightarrow> True | Some x \<Rightarrow> (dp_test x \<or> dp_write x) \<and> dp_compare x \<le> 7)"

definition vertices_ok :: "nat \<Rightarrow> OwnedGeometry \<Rightarrow> bool" where
  "vertices_ok max_bytes g = (length (og_vertex_data g) \<le> max_bytes \<and>
     (og_vertex_stride g = 0) = (og_vertex_data g = []) \<and>
     unat (og_vertex_stride g) dvd length (og_vertex_data g) \<and>
     length (og_index_data g) \<le> max_bytes \<and>
     (if og_index_u32 g then 4 else 2) dvd length (og_index_data g) \<and>
     length (og_attrs g) \<le> 32 \<and> og_draws g \<noteq> [] \<and> length (og_draws g) \<le> 4096)"

definition geometry_ok :: "nat \<Rightarrow> OwnedGeometry \<Rightarrow> bool" where
  "geometry_ok max_bytes g = (vertices_ok max_bytes g \<and> depth_ok (og_depth g) \<and>
     length (og_push_constants g) \<le> 256 \<and> length (og_textures g) \<le> MAX_TEXTURES \<and>
     (\<forall>x \<in> set (og_textures g). texture_ok max_bytes x) \<and> og_tex_binding g \<le> 65535 \<and>
     length (og_uniforms g) \<le> 16 \<and> distinct (map ou_binding (og_uniforms g)) \<and>
     (\<forall>u \<in> set (og_uniforms g). uniform_ok g u) \<and> storage_ok g)"

definition cmdlist_ok :: "nat \<Rightarrow> OwnedForwardedDraw \<Rightarrow> bool" where
  "cmdlist_ok max_bytes d = (shaders_ok max_bytes d \<and> fd_vertex_count d = 0 \<and>
     (case fd_geometry d of Some g \<Rightarrow> geometry_ok max_bytes g | None \<Rightarrow> False))"

subsection \<open>Lemmas on the shared pieces\<close>

lemma checked_sum_iff: "checked_sum ns = Some s \<longleftrightarrow> s = sum_list ns \<and> sum_list ns < 2 ^ 64"
  by (induction ns arbitrary: s) (auto simp: bind_eq_Some_conv)

lemma carve:
  "sum_list ns \<le> length bs \<Longrightarrow> \<exists>xs r. bs = concat xs @ r \<and> map length xs = ns"
proof (induction ns arbitrary: bs)
  case (Cons n ns)
  have "sum_list ns \<le> length (drop n bs)" using Cons.prems by simp
  from Cons.IH [OF this] obtain xs r where xs: "drop n bs = concat xs @ r" "map length xs = ns" by blast
  have "bs = concat (take n bs # xs) @ r"
    using append_take_drop_id [of n bs] xs(1) by simp
  moreover have "map length (take n bs # xs) = n # ns" using Cons.prems xs(2) by simp
  ultimately show ?case by (intro exI [of _ "take n bs # xs"] exI [of _ r]) simp
qed simp

lemma to_words_words_le: "to_words (words_le ws) = ws"
proof (induction ws)
  case (Cons w ws)
  have "length (u32_le w) = Suc (Suc (Suc (Suc 0)))" by simp
  then obtain a b c d where "u32_le w = [a, b, c, d]"
    unfolding length_Suc_conv by blast
  moreover from this have "get_u32 [a, b, c, d] 0 = w"
    unfolding get_u32_def using word_of_le_le(2) [of w] by simp
  ultimately show ?case using Cons by (simp add: words_le_def)
qed (simp add: words_le_def)

lemma length_words_le: "length (words_le ws) = 4 * length ws"
  by (induction ws) (simp_all add: words_le_def)

lemma length_to_words: "4 dvd length bs \<Longrightarrow> 4 * length (to_words bs) = length bs"
proof (induction bs rule: to_words.induct)
  case (1 a b c d rest)
  have "length (a # b # c # d # rest) = length rest + 4" by simp
  with "1.prems" have "4 dvd length rest" by (metis dvd_add_triv_right_iff)
  then show ?case using "1.IH" by simp
qed (simp_all add: dvd_def, presburger+)

lemma magic_nonempty: "starts_with_magic ws \<Longrightarrow> ws \<noteq> []"
  by auto

lemma cstr_split: "0 \<notin> set n \<Longrightarrow> cstr (n @ 0 # rest) = Some n"
proof -
  assume n: "0 \<notin> set n"
  have "takeWhile (\<lambda>c. c \<noteq> 0) (n @ 0 # rest) = n @ takeWhile (\<lambda>c. c \<noteq> 0) (0 # rest)"
    using n by (intro takeWhile_append2) auto
  then show ?thesis by (simp add: cstr_def)
qed

lemma cstr_nul: "0 \<notin> set n \<Longrightarrow> cstr (n @ [0]) = Some n"
  by (rule cstr_split)

lemma cstr_ok:
  assumes "cstr b = Some n"
  shows "0 \<notin> set n" and "length n < length b"
proof -
  from assms have "0 \<in> set b" by (auto simp: cstr_def split: if_splits)
  then obtain ys zs where b: "b = ys @ 0 # zs" "0 \<notin> set ys" by (meson split_list_first)
  then have "n = ys" using assms cstr_split by simp
  with b show "0 \<notin> set n" "length n < length b" by simp_all
qed

subsection \<open>Bufferless draws: exactly the well-formed ones\<close>

definition enc_draw_tail :: "OwnedForwardedDraw \<Rightarrow> ForwardedDrawTail" where
  "enc_draw_tail d = \<lparr>fdt_vertex_count = fd_vertex_count d, fdt_topology = fd_topology d,
     fdt_vertex_spirv_len = word_of_nat (4 * length (fd_vertex_spirv d)),
     fdt_fragment_spirv_len = word_of_nat (4 * length (fd_fragment_spirv d)),
     fdt_vertex_entry_len = word_of_nat (length (fd_vertex_entry d) + 1),
     fdt_fragment_entry_len = word_of_nat (length (fd_fragment_entry d) + 1)\<rparr>"

text \<open>The wire form a guest gives to a draw.\<close>

definition encode_forwarded :: "VulkanWorkload \<Rightarrow> OwnedForwardedDraw \<Rightarrow> bytes" where
  "encode_forwarded wl d = enc_VulkanWorkload wl @ enc_ForwardedDrawTail (enc_draw_tail d) @
     words_le (fd_vertex_spirv d) @ words_le (fd_fragment_spirv d) @
     (fd_vertex_entry d @ [0]) @ (fd_fragment_entry d @ [0])"

lemma unat_word_small: "n < 2 ^ 32 \<Longrightarrow> unat (word_of_nat n :: u32) = n"
  by (simp add: unat_of_nat)

lemma blobs_shaders:
  assumes "blobs_ok max_bytes (length v) (length f) (length ve) (length fe)"
    and "starts_with_magic (to_words v)" and "starts_with_magic (to_words f)"
    and "cstr ve = Some a" and "cstr fe = Some b"
  shows "shaders_ok max_bytes \<lparr>fd_vertex_spirv = to_words v, fd_fragment_spirv = to_words f,
     fd_vertex_entry = a, fd_fragment_entry = b, fd_vertex_count = n, fd_topology = tp, fd_geometry = g\<rparr>"
proof -
  have "4 dvd length v" "4 dvd length f" using assms(1) by (simp_all add: blobs_ok_def)
  then have "4 * length (to_words v) = length v" "4 * length (to_words f) = length f"
    by (simp_all add: length_to_words)
  then show ?thesis
    using assms cstr_ok [OF assms(4)] cstr_ok [OF assms(5)] by (simp add: blobs_ok_def shaders_ok_def)
qed

lemma shaders_blobs:
  "shaders_ok max_bytes d \<Longrightarrow> blobs_ok max_bytes (4 * length (fd_vertex_spirv d)) (4 * length (fd_fragment_spirv d))
    (length (fd_vertex_entry d) + 1) (length (fd_fragment_entry d) + 1)"
  using magic_nonempty by (auto simp: shaders_ok_def blobs_ok_def)

lemma decode_forwarded_sound:
  assumes "decode_forwarded payload max_bytes = Some d"
  shows "forwarded_ok max_bytes d"
proof -
  from assms obtain t rest where t: "40 \<le> length payload"
      "dec_ForwardedDrawTail (drop 40 payload) = Some (t, rest)"
    by (auto simp: decode_forwarded_def bind_eq_Some_conv split: if_splits)
  let ?ns = "[unat (fdt_vertex_spirv_len t), unat (fdt_fragment_spirv_len t),
    unat (fdt_vertex_entry_len t), unat (fdt_fragment_entry_len t)]"
  have "sum_list ?ns \<le> length rest"
    using assms t by (auto simp: decode_forwarded_def checked_sum_iff bind_eq_Some_conv Let_def split: if_splits)
  from carve [OF this] obtain v f ve fe r where rest: "rest = v @ f @ ve @ fe @ r"
    "?ns = [length v, length f, length ve, length fe]"
    by (auto simp: map_eq_Cons_conv)
  with assms t show ?thesis
    by (auto simp: decode_forwarded_def split_at_def forwarded_ok_def bind_eq_Some_conv Let_def
        split: if_splits intro!: blobs_shaders)
qed

lemma decode_forwarded_complete:
  assumes ok: "forwarded_ok max_bytes d" and max: "max_bytes < 2 ^ 32"
  shows "decode_forwarded (encode_forwarded wl d @ extra) max_bytes = Some d"
proof -
  have small: "4 * length (fd_vertex_spirv d) < 2 ^ 32" "4 * length (fd_fragment_spirv d) < 2 ^ 32"
    "length (fd_vertex_entry d) + 1 < 2 ^ 32" "length (fd_fragment_entry d) + 1 < 2 ^ 32"
    using ok max by (auto simp: forwarded_ok_def shaders_ok_def)
  define t where "t = enc_draw_tail d"
  have t: "unat (fdt_vertex_spirv_len t) = 4 * length (fd_vertex_spirv d)"
    "unat (fdt_fragment_spirv_len t) = 4 * length (fd_fragment_spirv d)"
    "unat (fdt_vertex_entry_len t) = Suc (length (fd_vertex_entry d))"
    "unat (fdt_fragment_entry_len t) = Suc (length (fd_fragment_entry d))"
    "fdt_vertex_count t = fd_vertex_count d" "fdt_topology t = fd_topology d"
    using small [THEN unat_word_small] by (simp_all add: t_def enc_draw_tail_def)
  define p where "p = encode_forwarded wl d @ extra"
  have pre: "dec_ForwardedDrawTail (drop 40 p) = Some (t,
      words_le (fd_vertex_spirv d) @ words_le (fd_fragment_spirv d) @
      fd_vertex_entry d @ 0 # fd_fragment_entry d @ 0 # extra)"
    by (simp add: p_def encode_forwarded_def wl_codec.length_enc fdt_codec.dec_enc t_def)
  have len: "\<not> length p < 40"
    by (simp add: p_def encode_forwarded_def wl_codec.length_enc)
  have blobs: "blobs_ok max_bytes (4 * length (fd_vertex_spirv d)) (4 * length (fd_fragment_spirv d))
      (Suc (length (fd_vertex_entry d))) (Suc (length (fd_fragment_entry d)))"
    using shaders_blobs [of max_bytes d] ok by (simp add: forwarded_ok_def)
  have sum: "checked_sum [Suc (length (fd_fragment_entry d)), Suc (length (fd_vertex_entry d)),
      4 * length (fd_fragment_spirv d), 4 * length (fd_vertex_spirv d)] =
      Some (sum_list [Suc (length (fd_fragment_entry d)), Suc (length (fd_vertex_entry d)),
      4 * length (fd_fragment_spirv d), 4 * length (fd_vertex_spirv d)])"
    unfolding checked_sum_iff using small by simp
  have "decode_forwarded p max_bytes = Some d"
    using ok blobs len
    by (simp add: decode_forwarded_def pre t sum split_at_def length_words_le to_words_words_le cstr_split
        forwarded_ok_def shaders_ok_def Let_def del: checked_sum.simps)
  then show ?thesis by (simp add: p_def)
qed

subsection \<open>Arrays, textures, uniforms, depth\<close>

context wire_codec
begin

lemma read_array_enc: "read_array dec (length xs) (concat (map enc xs) @ rest) = Some xs"
  by (induction xs) (simp_all add: dec_enc)

lemma read_array_total:
  "length bs = n * size \<Longrightarrow> \<exists>xs. read_array dec n bs = Some xs \<and> length xs = n"
proof (induction n arbitrary: bs)
  case (Suc n)
  then have "dec bs \<noteq> None" using dec_enough by simp
  then obtain x nx where d: "dec bs = Some (x, nx)" by auto
  then have "length nx = n * size" using Suc.prems dec_rest [OF d] by simp
  with Suc.IH d show ?case by fastforce
qed simp

end

definition enc_texture :: "OwnedTexture \<Rightarrow> TextureDescWire" where
  "enc_texture x = \<lparr>td_width = ot_width x, td_height = ot_height x, td_data_len = word_of_nat (length (ot_rgba x)),
     td_sampler_flags = (if ot_linear x then SAMPLER_LINEAR else 0) OR (if ot_repeat x then SAMPLER_REPEAT else 0)\<rparr>"

lemma decode_textures_sound:
  "decode_textures max_bytes n tb pix = Some xs \<Longrightarrow>
     length xs = n \<and> (\<forall>x \<in> set xs. texture_ok max_bytes x)"
proof (induction n arbitrary: tb pix xs)
  case (Suc n)
  from Suc.prems show ?case
    by (auto simp: bind_eq_Some_conv Let_def split_at_def texture_ok_def unat_eq_zero not_less min_absorb2
        split: if_splits dest!: Suc.IH)
qed simp

lemma sampler_bits:
  "(((if a then SAMPLER_LINEAR else 0) OR (if b then SAMPLER_REPEAT else 0)) AND SAMPLER_LINEAR \<noteq> 0) = a"
  "(((if a then SAMPLER_LINEAR else 0) OR (if b then SAMPLER_REPEAT else 0)) AND SAMPLER_REPEAT \<noteq> 0) = b"
  by (cases a; cases b; simp)+

lemma pixel_area:
  assumes "texture_ok max_bytes x" and "max_bytes < 2 ^ 32"
  shows "unat (ot_width x) * unat (ot_height x) * 4 < 2 ^ 64" "unat (ot_width x) * unat (ot_height x) < 2 ^ 64"
proof -
  have "n * 4 < 2 ^ 64 \<and> n < 2 ^ 64" if "n * 4 < 2 ^ 32" for n :: nat using that by simp
  moreover have "unat (ot_width x) * unat (ot_height x) * 4 < 2 ^ 32"
    using assms unfolding texture_ok_def by linarith
  ultimately show "unat (ot_width x) * unat (ot_height x) * 4 < 2 ^ 64" "unat (ot_width x) * unat (ot_height x) < 2 ^ 64"
    by blast+
qed

lemma decode_textures_enc:
  assumes "max_bytes < 2 ^ 32" and "\<forall>x \<in> set xs. texture_ok max_bytes x"
  shows "decode_textures max_bytes (length xs)
    (concat (map (\<lambda>x. enc_TextureDescWire (enc_texture x)) xs)) (concat (map ot_rgba xs) @ extra) = Some xs"
  using assms(2)
proof (induction xs)
  case (Cons x xs)
  have x: "texture_ok max_bytes x" using Cons.prems by simp
  then have "length (ot_rgba x) < 2 ^ 32" using assms(1) unfolding texture_ok_def by linarith
  then have len: "unat (td_data_len (enc_texture x)) = length (ot_rgba x)"
    unfolding enc_texture_def by (simp only: unat_word_small TextureDescWire.simps)
  have ih: "decode_textures max_bytes (length xs) (concat (map (\<lambda>x. enc_TextureDescWire (enc_texture x)) xs))
      (concat (map ot_rgba xs) @ extra) = Some xs" using Cons by simp
  have wh: "unat (ot_width x) * unat (ot_height x) * 4 < 2 ^ 64" "unat (ot_width x) * unat (ot_height x) < 2 ^ 64"
    by (rule pixel_area [OF x assms(1)])+
  have nz: "unat (ot_width x) \<noteq> 0" "unat (ot_height x) \<noteq> 0" using x by (auto simp: texture_ok_def unat_eq_zero)
  have f: "td_width (enc_texture x) = ot_width x" "td_height (enc_texture x) = ot_height x"
    "(td_sampler_flags (enc_texture x) AND SAMPLER_LINEAR \<noteq> 0) = ot_linear x"
    "(td_sampler_flags (enc_texture x) AND SAMPLER_REPEAT \<noteq> 0) = ot_repeat x"
    unfolding enc_texture_def by (simp_all only: sampler_bits TextureDescWire.simps)
  have "decode_textures max_bytes (length (x # xs))
      (concat (map (\<lambda>x. enc_TextureDescWire (enc_texture x)) (x # xs))) (concat (map ot_rgba (x # xs)) @ extra) =
    Some (\<lparr>ot_width = ot_width x, ot_height = ot_height x, ot_rgba = ot_rgba x, ot_linear = ot_linear x,
      ot_repeat = ot_repeat x\<rparr> # xs)"
    using ih x nz wh len f
    by (simp add: td_codec.dec_enc split_at_def texture_ok_def Let_def del: SAMPLER_LINEAR_def SAMPLER_REPEAT_def)
  then show ?case by simp
qed simp

definition enc_uniform :: "OwnedUniform \<Rightarrow> bytes" where
  "enc_uniform u = u32_le (ou_binding u) @ u32_le (word_of_nat (length (ou_bytes u))) @ ou_bytes u"

lemma decode_uniforms_sound:
  "decode_uniforms t n ub seen = Some us \<Longrightarrow> length us = n \<and> distinct (map ou_binding us) \<and>
     set seen \<inter> ou_binding ` set us = {} \<and>
     (\<forall>u \<in> set us. ou_binding u \<le> 65535 \<and> length (ou_bytes u) \<le> 65536 \<and> \<not> in_tex_range t (ou_binding u) \<and>
       (0 < fcl_ssbo_len t \<longrightarrow> ou_binding u \<noteq> fcl_ssbo_binding t))"
proof (induction n arbitrary: ub seen us)
  case (Suc n)
  let ?b = "get_u32 ub 0" and ?len = "unat (get_u32 ub 4)"
  from Suc.prems obtain rest where r: "decode_uniforms t n (drop ?len (drop 8 ub)) (seen @ [?b]) = Some rest"
    and us: "us = \<lparr>ou_binding = ?b, ou_bytes = take ?len (drop 8 ub)\<rparr> # rest"
    and c: "?b \<le> 65535" "?len \<le> 65536" "?len \<le> length (drop 8 ub)" "\<not> in_tex_range t ?b"
      "0 < fcl_ssbo_len t \<longrightarrow> ?b \<noteq> fcl_ssbo_binding t" "?b \<notin> set seen"
    by (auto simp: bind_eq_Some_conv Let_def split_at_def not_less split: if_splits)
  from Suc.IH [OF r] c show ?case by (auto simp: us)
qed simp

lemma decode_uniforms_enc:
  assumes "distinct (map ou_binding us)" and "set seen \<inter> ou_binding ` set us = {}"
    and "\<forall>u \<in> set us. ou_binding u \<le> 65535 \<and> length (ou_bytes u) \<le> 65536 \<and> \<not> in_tex_range t (ou_binding u) \<and>
       (0 < fcl_ssbo_len t \<longrightarrow> ou_binding u \<noteq> fcl_ssbo_binding t)"
  shows "decode_uniforms t (length us) (concat (map enc_uniform us)) seen = Some us"
  using assms
proof (induction us arbitrary: seen)
  case (Cons u us)
  let ?n = "word_of_nat (length (ou_bytes u)) :: u32" and ?rest = "concat (map enc_uniform us)"
  have len: "unat ?n = length (ou_bytes u)" using Cons.prems(3) unat_word_small by simp
  have g: "get_u32 (enc_uniform u @ ?rest) 0 = ou_binding u" "get_u32 (enc_uniform u @ ?rest) 4 = ?n"
    "drop 8 (enc_uniform u @ ?rest) = ou_bytes u @ ?rest"
    by (simp_all add: enc_uniform_def get_u32_def)
  have ih: "decode_uniforms t (length us) ?rest (seen @ [ou_binding u]) = Some us"
    by (rule Cons.IH) (use Cons.prems in auto)
  have "decode_uniforms t (Suc (length us)) (enc_uniform u @ ?rest) seen =
      Some (\<lparr>ou_binding = ou_binding u, ou_bytes = ou_bytes u\<rparr> # us)"
    using Cons.prems ih by (simp only: decode_uniforms.simps g Let_def len split_at_def)
      (auto simp: enc_uniform_def not_less)
  then show ?case by simp
qed simp

definition depth_word :: "DepthState option \<Rightarrow> u32" where
  "depth_word dp = (case dp of None \<Rightarrow> 0 | Some x \<Rightarrow> depth_pack (dp_test x) (dp_write x) (dp_compare x))"

lemma decode_depth_ok: "depth_ok (decode_depth f)"
proof -
  have "drop_bit 4 (f AND 0x70) = drop_bit 4 f AND (7 :: u32)" by (simp add: drop_bit_and)
  then have "drop_bit 4 (f AND 0x70) \<le> (7 :: u32)" by (simp add: word_and_le1)
  then show ?thesis by (simp add: decode_depth_def depth_ok_def Let_def)
qed

lemma u32_le_7: "c \<le> (7 :: u32) \<Longrightarrow> c = 0 \<or> c = 1 \<or> c = 2 \<or> c = 3 \<or> c = 4 \<or> c = 5 \<or> c = 6 \<or> c = 7"
proof -
  assume "c \<le> 7"
  then have "unat c \<le> 7" by (simp add: word_le_nat_alt)
  then have u: "unat c = 0 \<or> unat c = 1 \<or> unat c = 2 \<or> unat c = 3 \<or> unat c = 4 \<or> unat c = 5 \<or> unat c = 6 \<or> unat c = 7"
    by linarith
  have conv: "c = word_of_nat n" if "unat c = n" for n using that by auto
  show ?thesis using u
    by (elim disjE) (use conv [of 0] conv [of 1] conv [of 2] conv [of 3] conv [of 4] conv [of 5] conv [of 6]
        conv [of 7] in simp_all)
qed

lemma depth_word_decode: "depth_ok dp \<Longrightarrow> decode_depth (depth_word dp) = dp"
proof (cases dp)
  case None
  then show ?thesis by (simp add: depth_word_def decode_depth_def)
next
  case (Some x)
  assume "depth_ok dp"
  then have ok: "dp_test x \<or> dp_write x" "dp_compare x \<le> 7" by (simp_all add: Some depth_ok_def)
  have "decode_depth (depth_pack a b c) = Some \<lparr>dp_test = a, dp_write = b, dp_compare = c\<rparr>"
    if "a \<or> b" "c \<le> 7" for a b c
    using u32_le_7 [OF that(2)] that(1)
    by (elim disjE; cases a; cases b; simp add: depth_pack_def decode_depth_def)
  from this [OF ok] show ?thesis by (simp add: Some depth_word_def)
qed

subsection \<open>Command lists: exactly the well-formed ones\<close>

definition wire_of_attr :: "VertexAttr \<Rightarrow> VertexAttrWire" where
  "wire_of_attr a = \<lparr>va_location = vx_location a, va_format = vx_format a, va_offset = vx_offset a\<rparr>"

definition wire_of_draw :: "DrawCmd \<Rightarrow> DrawCmdWire" where
  "wire_of_draw d = (case dr_viewport d of (x, y, w, h) \<Rightarrow> \<lparr>dc_count = dr_count d,
     dc_instance_count = dr_instance_count d, dc_first = dr_first d, dc_vertex_offset = dr_vertex_offset d,
     dc_vp_x = x, dc_vp_y = y, dc_vp_w = w, dc_vp_h = h\<rparr>)"

lemma attr_wire [simp]: "attr_of_wire (wire_of_attr a) = a"
  by (simp add: attr_of_wire_def wire_of_attr_def)

lemma draw_wire [simp]: "draw_of_wire (wire_of_draw d) = d"
  by (simp add: draw_of_wire_def wire_of_draw_def split: prod.split)

definition storage_bytes :: "OwnedGeometry \<Rightarrow> bytes" where
  "storage_bytes g = (case og_storage g of None \<Rightarrow> [] | Some st \<Rightarrow> os_bytes st)"

definition uniform_block :: "OwnedGeometry \<Rightarrow> bytes" where
  "uniform_block g = concat (map enc_uniform (og_uniforms g))"

definition enc_cmdlist_tail :: "OwnedForwardedDraw \<Rightarrow> OwnedGeometry \<Rightarrow> ForwardedCmdListTail" where
  "enc_cmdlist_tail d g = \<lparr>fcl_vertex_spirv_len = word_of_nat (4 * length (fd_vertex_spirv d)),
     fcl_fragment_spirv_len = word_of_nat (4 * length (fd_fragment_spirv d)),
     fcl_vertex_entry_len = word_of_nat (length (fd_vertex_entry d) + 1),
     fcl_fragment_entry_len = word_of_nat (length (fd_fragment_entry d) + 1),
     fcl_vertex_stride = og_vertex_stride g, fcl_attr_count = word_of_nat (length (og_attrs g)),
     fcl_vertex_data_len = word_of_nat (length (og_vertex_data g)),
     fcl_index_data_len = word_of_nat (length (og_index_data g)),
     fcl_index_type = (if og_index_u32 g then INDEX_U32 else INDEX_U16),
     fcl_draw_count = word_of_nat (length (og_draws g)), fcl_topology = fd_topology d,
     fcl_depth_flags = depth_word (og_depth g),
     fcl_push_const_len = word_of_nat (length (og_push_constants g)),
     fcl_tex_count = word_of_nat (length (og_textures g)),
     fcl_ubo_len = word_of_nat (length (uniform_block g)),
     fcl_ubo_count = word_of_nat (length (og_uniforms g)), fcl_tex_binding = og_tex_binding g,
     fcl_raster_flags = og_raster_flags g, fcl_ssbo_len = word_of_nat (length (storage_bytes g)),
     fcl_ssbo_binding = (case og_storage g of None \<Rightarrow> 0 | Some st \<Rightarrow> os_binding st)\<rparr>"

text \<open>The sections in wire order, and the whole payload a guest sends.\<close>

definition cmdlist_sections :: "OwnedForwardedDraw \<Rightarrow> OwnedGeometry \<Rightarrow> bytes list" where
  "cmdlist_sections d g = [concat (map (enc_VertexAttrWire \<circ> wire_of_attr) (og_attrs g)),
     concat (map (enc_DrawCmdWire \<circ> wire_of_draw) (og_draws g)),
     concat (map (\<lambda>x. enc_TextureDescWire (enc_texture x)) (og_textures g)),
     words_le (fd_vertex_spirv d), words_le (fd_fragment_spirv d), og_vertex_data g, og_index_data g,
     fd_vertex_entry d @ [0], fd_fragment_entry d @ [0], og_push_constants g, uniform_block g, storage_bytes g]"

definition encode_cmdlist :: "VulkanWorkload \<Rightarrow> OwnedForwardedDraw \<Rightarrow> OwnedGeometry \<Rightarrow> bytes" where
  "encode_cmdlist wl d g = enc_VulkanWorkload wl @ enc_ForwardedCmdListTail (enc_cmdlist_tail d g) @
     concat (cmdlist_sections d g) @ concat (map ot_rgba (og_textures g))"

text \<open>The lengths the tail announces, in wire order.\<close>

definition section_lengths :: "ForwardedCmdListTail \<Rightarrow> nat list" where
  "section_lengths t = [unat (fcl_attr_count t) * 12, unat (fcl_draw_count t) * 32, unat (fcl_tex_count t) * 16,
     unat (fcl_vertex_spirv_len t), unat (fcl_fragment_spirv_len t), unat (fcl_vertex_data_len t),
     unat (fcl_index_data_len t), unat (fcl_vertex_entry_len t), unat (fcl_fragment_entry_len t),
     unat (fcl_push_const_len t), unat (fcl_ubo_len t), unat (fcl_ssbo_len t)]"

lemma cmdlist_total_iff: "cmdlist_total t = Some s \<longleftrightarrow> s = sum_list (section_lengths t) \<and> s < 2 ^ 64"
  unfolding cmdlist_total_def section_lengths_def checked_sum_iff by auto

lemma section_total_lt: "sum_list (section_lengths t) < 2 ^ 64"
  using unat_u_lt(3) [of "fcl_attr_count t"]
    unat_u_lt(3) [of "fcl_draw_count t"]
    unat_u_lt(3) [of "fcl_tex_count t"]
    unat_u_lt(3) [of "fcl_vertex_spirv_len t"]
    unat_u_lt(3) [of "fcl_fragment_spirv_len t"]
    unat_u_lt(3) [of "fcl_vertex_data_len t"]
    unat_u_lt(3) [of "fcl_index_data_len t"]
    unat_u_lt(3) [of "fcl_vertex_entry_len t"]
    unat_u_lt(3) [of "fcl_fragment_entry_len t"]
    unat_u_lt(3) [of "fcl_push_const_len t"]
    unat_u_lt(3) [of "fcl_ubo_len t"]
    unat_u_lt(3) [of "fcl_ssbo_len t"]
  by (simp add: section_lengths_def del: unat_u_lt)

lemma decode_sections_carved:
  assumes "section_lengths t = map length [a, b, c, v, f, vd, ix, ve, fe, pc, ub, sb]"
  shows "decode_sections max_bytes t (concat [a, b, c, v, f, vd, ix, ve, fe, pc, ub, sb] @ r) = do {
       attrs \<leftarrow> read_array dec_VertexAttrWire (unat (fcl_attr_count t)) a;
       draws \<leftarrow> read_array dec_DrawCmdWire (unat (fcl_draw_count t)) b;
       if \<not> starts_with_magic (to_words v) \<or> \<not> starts_with_magic (to_words f) then None
       else if \<not> (if fcl_index_type t = INDEX_U32 then 4 else 2) dvd length ix then None
       else do {
         textures \<leftarrow> decode_textures max_bytes (unat (fcl_tex_count t)) c r;
         uniforms \<leftarrow> decode_uniforms t (unat (fcl_ubo_count t)) ub [];
         e1 \<leftarrow> cstr ve;
         e2 \<leftarrow> cstr fe;
         Some \<lparr>fd_vertex_spirv = to_words v, fd_fragment_spirv = to_words f,
           fd_vertex_entry = e1, fd_fragment_entry = e2, fd_vertex_count = 0, fd_topology = fcl_topology t,
           fd_geometry = Some \<lparr>og_vertex_data = vd, og_vertex_stride = fcl_vertex_stride t,
             og_attrs = map attr_of_wire attrs, og_index_data = ix, og_index_u32 = (fcl_index_type t = INDEX_U32),
             og_draws = map draw_of_wire draws, og_depth = decode_depth (fcl_depth_flags t),
             og_push_constants = pc, og_textures = textures, og_tex_binding = fcl_tex_binding t,
             og_uniforms = uniforms,
             og_storage = (if 0 < fcl_ssbo_len t
               then Some \<lparr>os_binding = fcl_ssbo_binding t, os_bytes = sb\<rparr> else None),
             og_raster_flags = fcl_raster_flags t\<rparr>\<rparr> } }"
  using assms by (simp add: decode_sections_def split_at_def section_lengths_def Let_def cong: if_cong)

lemma in_tex_range_iff:
  assumes "og_tex_binding g = fcl_tex_binding t" and "length (og_textures g) = unat (fcl_tex_count t)"
    and "fcl_tex_binding t \<le> 65535" and "unat (fcl_tex_count t) \<le> MAX_TEXTURES"
  shows "in_tex_range t b = tex_bindings g b"
proof -
  have "unat (fcl_tex_binding t) \<le> 65535" using assms(3) by (simp add: word_le_nat_alt)
  then show ?thesis
    using assms by (auto simp: in_tex_range_def tex_bindings_def word_le_nat_alt word_less_nat_alt)
qed

lemma cmdlist_scalarsD:
  assumes "cmdlist_scalars_ok max_bytes t"
  shows "unat (fcl_draw_count t) \<noteq> 0" "unat (fcl_draw_count t) \<le> 4096" "unat (fcl_attr_count t) \<le> 32"
    "unat (fcl_vertex_data_len t) \<le> max_bytes" "unat (fcl_index_data_len t) \<le> max_bytes"
    "unat (fcl_push_const_len t) \<le> 256" "unat (fcl_tex_count t) \<le> MAX_TEXTURES"
    "fcl_tex_binding t \<le> 65535" "unat (fcl_ubo_count t) \<le> 16" "fcl_ssbo_binding t \<le> 65535"
    "unat (fcl_ssbo_len t) \<le> MAX_SSBO_BYTES"
  using assms by (simp_all add: cmdlist_scalars_ok_def not_less word_le_nat_alt word_less_nat_alt unat_eq_zero)

lemma vertex_layoutD:
  "vertex_layout_ok t \<Longrightarrow> (fcl_vertex_stride t = 0) = (unat (fcl_vertex_data_len t) = 0) \<and>
     unat (fcl_vertex_stride t) dvd unat (fcl_vertex_data_len t)"
  by (auto simp: vertex_layout_ok_def unat_eq_zero)

lemma decode_cmdlist_iff:
  "decode_forwarded_cmdlist payload max_bytes = Some d \<longleftrightarrow> (40 \<le> length payload \<and>
     (\<exists>t rest. dec_ForwardedCmdListTail (drop 40 payload) = Some (t, rest) \<and> cmdlist_scalars_ok max_bytes t \<and>
       \<not> (0 < fcl_ssbo_len t \<and> in_tex_range t (fcl_ssbo_binding t)) \<and> vertex_layout_ok t \<and>
       sum_list (section_lengths t) < 2 ^ 64 \<and> sum_list (section_lengths t) \<le> length rest \<and>
       decode_sections max_bytes t rest = Some d))"
  by (cases "length payload < 40"; cases "dec_ForwardedCmdListTail (drop 40 payload)")
    (auto simp: decode_forwarded_cmdlist_def cmdlist_total_iff bind_eq_Some_conv not_less split: if_splits)

lemma read_array_length: "read_array dec n bs = Some xs \<Longrightarrow> length xs = n"
  by (induction n arbitrary: bs xs) (auto simp: bind_eq_Some_conv)

lemma decode_cmdlist_sound:
  assumes "decode_forwarded_cmdlist payload max_bytes = Some d"
  shows "cmdlist_ok max_bytes d"
proof -
  from assms obtain t rest where t: "cmdlist_scalars_ok max_bytes t" "vertex_layout_ok t"
      "\<not> (0 < fcl_ssbo_len t \<and> in_tex_range t (fcl_ssbo_binding t))"
      "sum_list (section_lengths t) \<le> length rest" "decode_sections max_bytes t rest = Some d"
    unfolding decode_cmdlist_iff by blast
  from carve [OF t(4)] obtain a b c v f vd ix ve fe pc ub sb r where
      r: "rest = concat [a, b, c, v, f, vd, ix, ve, fe, pc, ub, sb] @ r"
    and len: "section_lengths t = map length [a, b, c, v, f, vd, ix, ve, fe, pc, ub, sb]"
    by (auto simp: section_lengths_def map_eq_Cons_conv)
  note sc = cmdlist_scalarsD [OF t(1)] vertex_layoutD [OF t(2)]
  note lens = len [unfolded section_lengths_def, simplified]
  from t(5) obtain attrs draws textures uniforms e1 e2 where
      arr: "read_array dec_VertexAttrWire (unat (fcl_attr_count t)) a = Some attrs"
        "read_array dec_DrawCmdWire (unat (fcl_draw_count t)) b = Some draws"
    and magic: "starts_with_magic (to_words v)" "starts_with_magic (to_words f)"
    and idx: "(if fcl_index_type t = INDEX_U32 then 4 else 2) dvd length ix"
    and tex: "decode_textures max_bytes (unat (fcl_tex_count t)) c r = Some textures"
    and uni: "decode_uniforms t (unat (fcl_ubo_count t)) ub [] = Some uniforms"
    and names: "cstr ve = Some e1" "cstr fe = Some e2"
    and d: "d = \<lparr>fd_vertex_spirv = to_words v, fd_fragment_spirv = to_words f,
           fd_vertex_entry = e1, fd_fragment_entry = e2, fd_vertex_count = 0, fd_topology = fcl_topology t,
           fd_geometry = Some \<lparr>og_vertex_data = vd, og_vertex_stride = fcl_vertex_stride t,
             og_attrs = map attr_of_wire attrs, og_index_data = ix, og_index_u32 = (fcl_index_type t = INDEX_U32),
             og_draws = map draw_of_wire draws, og_depth = decode_depth (fcl_depth_flags t),
             og_push_constants = pc, og_textures = textures, og_tex_binding = fcl_tex_binding t,
             og_uniforms = uniforms,
             og_storage = (if 0 < fcl_ssbo_len t
               then Some \<lparr>os_binding = fcl_ssbo_binding t, os_bytes = sb\<rparr> else None),
             og_raster_flags = fcl_raster_flags t\<rparr>\<rparr>"
    unfolding r decode_sections_carved [OF len] bind_eq_Some_conv by (auto simp: bind_eq_Some_conv split: if_splits)
  have shaders: "shaders_ok max_bytes d"
    unfolding d using t(1) lens magic names
    by (intro blobs_shaders) (auto simp: cmdlist_scalars_ok_def)
  have tx: "length textures = unat (fcl_tex_count t)" "\<forall>x\<in>set textures. texture_ok max_bytes x"
    using decode_textures_sound [OF tex] by auto
  have un: "length uniforms = unat (fcl_ubo_count t)" "distinct (map ou_binding uniforms)"
    "\<forall>u\<in>set uniforms. ou_binding u \<le> 65535 \<and> length (ou_bytes u) \<le> 65536 \<and> \<not> in_tex_range t (ou_binding u) \<and>
       (0 < fcl_ssbo_len t \<longrightarrow> ou_binding u \<noteq> fcl_ssbo_binding t)"
    using decode_uniforms_sound [OF uni] by auto
  obtain g where g: "fd_geometry d = Some g" and gf: "og_vertex_data g = vd" "og_vertex_stride g = fcl_vertex_stride t"
      "og_attrs g = map attr_of_wire attrs" "og_index_data g = ix" "og_index_u32 g = (fcl_index_type t = INDEX_U32)"
      "og_draws g = map draw_of_wire draws" "og_depth g = decode_depth (fcl_depth_flags t)"
      "og_push_constants g = pc" "og_textures g = textures" "og_tex_binding g = fcl_tex_binding t"
      "og_uniforms g = uniforms" "og_storage g = (if 0 < fcl_ssbo_len t
               then Some \<lparr>os_binding = fcl_ssbo_binding t, os_bytes = sb\<rparr> else None)"
    by (simp add: d)
  have range: "in_tex_range t x = tex_bindings g x" for x
    using sc tx(1) by (intro in_tex_range_iff) (simp_all add: gf)
  have sb: "0 < fcl_ssbo_len t \<Longrightarrow> sb \<noteq> []"
    using lens by (auto simp: word_gt_0 unat_eq_zero)
  have "vertices_ok max_bytes g"
    using sc lens idx read_array_length [OF arr(1)] read_array_length [OF arr(2)]
    by (auto simp: vertices_ok_def gf)
  moreover have "storage_ok g" using sc lens sb t(3) by (simp add: storage_ok_def gf range)
  moreover have "\<forall>u \<in> set (og_uniforms g). uniform_ok g u"
    using un(3) by (auto simp: uniform_ok_def gf range)
  ultimately have "geometry_ok max_bytes g"
    using sc lens tx un by (simp add: geometry_ok_def gf decode_depth_ok)
  then show ?thesis using shaders g by (simp add: cmdlist_ok_def d)
qed

lemma geometry_tail:
  assumes "geometry_ok max_bytes g" and "shaders_ok max_bytes d" and "max_bytes < 2 ^ 32"
  defines "t \<equiv> enc_cmdlist_tail d g"
  shows "section_lengths t = map length (cmdlist_sections d g)"
    and "unat (fcl_attr_count t) = length (og_attrs g)" "unat (fcl_draw_count t) = length (og_draws g)"
    "unat (fcl_tex_count t) = length (og_textures g)" "unat (fcl_ubo_count t) = length (og_uniforms g)"
    "fcl_ssbo_len t = word_of_nat (length (storage_bytes g))"
    "unat (fcl_ssbo_len t) = length (storage_bytes g)"
proof -
  have "length (concat (map enc_uniform us)) \<le> length us * 65544"
    if "\<forall>u \<in> set us. length (ou_bytes u) \<le> 65536" for us
    using that by (induction us) (auto simp: enc_uniform_def)
  then have "length (uniform_block g) \<le> length (og_uniforms g) * 65544"
    using assms(1) unfolding uniform_block_def geometry_ok_def uniform_ok_def by blast
  then have ub: "length (uniform_block g) < 2 ^ 32" using assms(1) by (simp add: geometry_ok_def)
  have sb: "length (storage_bytes g) < 2 ^ 32"
    using assms(1) by (auto simp: geometry_ok_def storage_ok_def storage_bytes_def split: option.splits)
  have g: "length (og_attrs g) < 2 ^ 32" "length (og_draws g) < 2 ^ 32" "length (og_vertex_data g) < 2 ^ 32"
    "length (og_index_data g) < 2 ^ 32" "length (og_textures g) < 2 ^ 32" "length (og_uniforms g) < 2 ^ 32"
    "length (og_push_constants g) < 2 ^ 32"
    using assms(1,3) by (simp_all add: geometry_ok_def vertices_ok_def)
  have s: "4 * length (fd_vertex_spirv d) < 2 ^ 32" "4 * length (fd_fragment_spirv d) < 2 ^ 32"
    "length (fd_vertex_entry d) + 1 < 2 ^ 32" "length (fd_fragment_entry d) + 1 < 2 ^ 32"
    using assms(2,3) by (auto simp: shaders_ok_def)
  note u = ub [THEN unat_word_small] sb [THEN unat_word_small] g [THEN unat_word_small] s [THEN unat_word_small]
  have arr: "length (concat (map (enc_VertexAttrWire \<circ> wire_of_attr) xs)) = length xs * 12" for xs
    by (induction xs) (simp_all add: va_codec.length_enc)
  have arr': "length (concat (map (enc_DrawCmdWire \<circ> wire_of_draw) xs)) = length xs * 32" for xs
    by (induction xs) (simp_all add: dc_codec.length_enc)
  have arr'': "length (concat (map (\<lambda>x. enc_TextureDescWire (enc_texture x)) xs)) = length xs * 16" for xs
    by (induction xs) (simp_all add: td_codec.length_enc)
  show "section_lengths t = map length (cmdlist_sections d g)"
    by (simp only: section_lengths_def cmdlist_sections_def t_def enc_cmdlist_tail_def list.map
        ForwardedCmdListTail.simps u u [unfolded One_nat_def] arr arr' arr'' length_words_le length_append
        list.size One_nat_def add_0)
  show "unat (fcl_attr_count t) = length (og_attrs g)" "unat (fcl_draw_count t) = length (og_draws g)"
    "unat (fcl_tex_count t) = length (og_textures g)" "unat (fcl_ubo_count t) = length (og_uniforms g)"
    "fcl_ssbo_len t = word_of_nat (length (storage_bytes g))"
    "unat (fcl_ssbo_len t) = length (storage_bytes g)"
    by (simp_all only: t_def enc_cmdlist_tail_def ForwardedCmdListTail.simps u)
qed

lemma cmdlist_scalarsI:
  assumes "geometry_ok max_bytes g" and "shaders_ok max_bytes d" and "max_bytes < 2 ^ 32"
  shows "cmdlist_scalars_ok max_bytes (enc_cmdlist_tail d g)" (is "cmdlist_scalars_ok _ ?t")
    and "vertex_layout_ok (enc_cmdlist_tail d g)"
proof -
  note tail = geometry_tail [OF assms]
  note lens = tail(1) [unfolded section_lengths_def cmdlist_sections_def, simplified]
  have sel: "fcl_tex_binding ?t = og_tex_binding g" "fcl_vertex_stride ?t = og_vertex_stride g"
    "fcl_ssbo_binding ?t = (case og_storage g of None \<Rightarrow> 0 | Some st \<Rightarrow> os_binding st)"
    by (simp_all add: enc_cmdlist_tail_def)
  have ssbo: "fcl_ssbo_binding ?t \<le> 65535" "length (storage_bytes g) \<le> MAX_SSBO_BYTES"
    using assms(1) by (auto simp: sel geometry_ok_def storage_ok_def storage_bytes_def split: option.splits)
  show "cmdlist_scalars_ok max_bytes ?t"
    using assms tail lens ssbo shaders_blobs [OF assms(2)]
    by (simp add: cmdlist_scalars_ok_def geometry_ok_def vertices_ok_def sel length_words_le not_less
        word_le_nat_alt word_less_nat_alt unat_eq_zero [symmetric])
  show "vertex_layout_ok ?t"
    using assms(1) lens
    by (auto simp: vertex_layout_ok_def geometry_ok_def vertices_ok_def sel unat_eq_zero [symmetric])
qed

lemma decode_cmdlist_complete:
  assumes ok: "cmdlist_ok max_bytes d" and g: "fd_geometry d = Some g" and max: "max_bytes < 2 ^ 32"
  shows "decode_forwarded_cmdlist (encode_cmdlist wl d g @ extra) max_bytes = Some d"
proof -
  have gok: "geometry_ok max_bytes g" and sok: "shaders_ok max_bytes d" using ok g by (auto simp: cmdlist_ok_def)
  define t where "t = enc_cmdlist_tail d g"
  note tail = geometry_tail [OF gok sok max, folded t_def]
  note sc = cmdlist_scalarsI [OF gok sok max, folded t_def]
  have sel: "fcl_tex_binding t = og_tex_binding g" "fcl_vertex_stride t = og_vertex_stride g"
    "fcl_ssbo_binding t = (case og_storage g of None \<Rightarrow> 0 | Some st \<Rightarrow> os_binding st)"
    "fcl_topology t = fd_topology d" "fcl_depth_flags t = depth_word (og_depth g)"
    "fcl_raster_flags t = og_raster_flags g" "(fcl_index_type t = INDEX_U32) = og_index_u32 g"
    by (simp_all add: t_def enc_cmdlist_tail_def)
  have range: "in_tex_range t b = tex_bindings g b" for b
    using cmdlist_scalarsD [OF sc(1)] tail(4) by (intro in_tex_range_iff) (simp_all add: sel)
  have ssbo: "0 < fcl_ssbo_len t \<longleftrightarrow> og_storage g \<noteq> None"
    using gok tail(7) by (auto simp: word_gt_0 unat_eq_zero [symmetric] geometry_ok_def storage_ok_def
        storage_bytes_def split: option.splits)
  have un: "decode_uniforms t (unat (fcl_ubo_count t)) (uniform_block g) [] = Some (og_uniforms g)"
    unfolding tail(5) uniform_block_def
  proof (rule decode_uniforms_enc)
    show "\<forall>u \<in> set (og_uniforms g). ou_binding u \<le> 65535 \<and> length (ou_bytes u) \<le> 65536 \<and>
        \<not> in_tex_range t (ou_binding u) \<and> (0 < fcl_ssbo_len t \<longrightarrow> ou_binding u \<noteq> fcl_ssbo_binding t)"
      using gok by (auto simp: geometry_ok_def uniform_ok_def range ssbo sel)
  qed (use gok in \<open>auto simp: geometry_ok_def\<close>)
  have tx: "decode_textures max_bytes (unat (fcl_tex_count t))
      (concat (map (\<lambda>x. enc_TextureDescWire (enc_texture x)) (og_textures g)))
      (concat (map ot_rgba (og_textures g)) @ extra) = Some (og_textures g)"
    unfolding tail(4) using gok by (intro decode_textures_enc [OF max]) (simp add: geometry_ok_def)
  have arr: "read_array dec_VertexAttrWire (unat (fcl_attr_count t))
      (concat (map (enc_VertexAttrWire \<circ> wire_of_attr) (og_attrs g))) = Some (map wire_of_attr (og_attrs g))"
    "read_array dec_DrawCmdWire (unat (fcl_draw_count t))
      (concat (map (enc_DrawCmdWire \<circ> wire_of_draw) (og_draws g))) = Some (map wire_of_draw (og_draws g))"
    using va_codec.read_array_enc [of "map wire_of_attr (og_attrs g)" "[]"]
      dc_codec.read_array_enc [of "map wire_of_draw (og_draws g)" "[]"] by (simp_all add: tail)
  have st: "(if 0 < fcl_ssbo_len t then Some \<lparr>os_binding = fcl_ssbo_binding t, os_bytes = storage_bytes g\<rparr> else None)
      = og_storage g"
    by (auto simp: ssbo sel storage_bytes_def split: option.split)
  have idx: "(if og_index_u32 g then 4 else 2) dvd length (og_index_data g)"
    and depth: "decode_depth (depth_word (og_depth g)) = og_depth g"
    using gok by (simp_all add: geometry_ok_def vertices_ok_def depth_word_decode)
  have names: "cstr (fd_vertex_entry d @ [0]) = Some (fd_vertex_entry d)"
    "cstr (fd_fragment_entry d @ [0]) = Some (fd_fragment_entry d)"
    and magic: "starts_with_magic (fd_vertex_spirv d)" "starts_with_magic (fd_fragment_spirv d)"
    using sok by (simp_all add: shaders_ok_def cstr_split)
  have maps: "map (attr_of_wire \<circ> wire_of_attr) xs = xs" "map (draw_of_wire \<circ> wire_of_draw) ys = ys" for xs ys
    by (simp_all add: comp_def)
  have sections: "decode_sections max_bytes t (concat (cmdlist_sections d g) @
      concat (map ot_rgba (og_textures g)) @ extra) = Some d"
    unfolding cmdlist_sections_def
    by (subst decode_sections_carved [OF tail(1) [unfolded cmdlist_sections_def]])
      (use g ok in \<open>simp add: arr un tx st idx depth names magic to_words_words_le sel maps cmdlist_ok_def
        del: INDEX_U32_def\<close>)
  have pre: "dec_ForwardedCmdListTail (drop 40 (encode_cmdlist wl d g @ extra)) =
      Some (t, concat (cmdlist_sections d g) @ concat (map ot_rgba (og_textures g)) @ extra)"
    by (simp add: encode_cmdlist_def wl_codec.length_enc fcl_codec.dec_enc t_def)
  have total: "sum_list (section_lengths t) = length (concat (cmdlist_sections d g))"
    by (simp add: tail(1) length_concat)
  show ?thesis
    unfolding decode_cmdlist_iff using section_total_lt [of t] pre sc sections total gok
    by (auto simp: encode_cmdlist_def wl_codec.length_enc range ssbo sel geometry_ok_def storage_ok_def
        split: option.splits)
qed

subsection \<open>Properties\<close>

text \<open>C40: The bufferless decoder accepts exactly the well-formed draws. Whatever the guest sends, a decoded
  draw has shaders that are whole words, start with the SPIR-V magic and respect the size limit, and
  entry names without NUL; and every such draw is decoded back from its wire form, whatever follows it.\<close>

theorem forwarded_decoder_exact:
  assumes "max_bytes < 2 ^ 32"
  shows "(decode_forwarded payload max_bytes = Some d \<longrightarrow> forwarded_ok max_bytes d) \<and>
    (forwarded_ok max_bytes d \<longrightarrow> decode_forwarded (encode_forwarded wl d @ extra) max_bytes = Some d)"
  using decode_forwarded_sound decode_forwarded_complete [OF _ assms] by blast

definition demo_workload :: VulkanWorkload where
  "demo_workload = \<lparr>wl_op = 3, wl_width = 4, wl_height = 4, wl_pad = 0, wl_bg = (0, 0, 0, 0), wl_scanout_addr = 0\<rparr>"

definition demo_draw :: "OwnedGeometry option \<Rightarrow> OwnedForwardedDraw" where
  "demo_draw g = \<lparr>fd_vertex_spirv = [SPIRV_MAGIC, 1], fd_fragment_spirv = [SPIRV_MAGIC], fd_vertex_entry = [109],
     fd_fragment_entry = [109, 110], fd_vertex_count = 0, fd_topology = 0, fd_geometry = g\<rparr>"

theorem forwarded_decoder_exact_witness:
  "decode_forwarded (encode_forwarded demo_workload (demo_draw None) @ [7]) 1024 = Some (demo_draw None)"
  using forwarded_decoder_exact [of 1024 "[]" "demo_draw None" demo_workload "[7]"]
  by (simp add: forwarded_ok_def shaders_ok_def demo_draw_def)

text \<open>C39: The command-list decoder accepts exactly the well-formed meshes. Every decoded draw has whole
  vertices and indices, textures with as many pixel bytes as their size says, and uniform, storage and
  texture bindings that do not collide; and every such draw, with any mix of textures, uniforms, storage
  and depth state, is decoded back from its wire form.\<close>

theorem cmdlist_decoder_exact:
  assumes "max_bytes < 2 ^ 32"
  shows "(decode_forwarded_cmdlist payload max_bytes = Some d \<longrightarrow> cmdlist_ok max_bytes d) \<and>
    (cmdlist_ok max_bytes d \<and> fd_geometry d = Some g \<longrightarrow>
       decode_forwarded_cmdlist (encode_cmdlist wl d g @ extra) max_bytes = Some d)"
  using decode_cmdlist_sound decode_cmdlist_complete [OF _ _ assms] by blast

definition demo_geometry :: OwnedGeometry where
  "demo_geometry = \<lparr>og_vertex_data = [1, 2, 3, 4], og_vertex_stride = 2, og_attrs = [], og_index_data = [0, 0, 1, 0],
     og_index_u32 = False, og_draws = [\<lparr>dr_count = 2, dr_instance_count = 1, dr_first = 0, dr_vertex_offset = 0,
       dr_viewport = (0, 0, 0, 0)\<rparr>], og_depth = Some \<lparr>dp_test = True, dp_write = False, dp_compare = 1\<rparr>,
     og_push_constants = [9], og_textures = [\<lparr>ot_width = 1, ot_height = 1, ot_rgba = [1, 2, 3, 4],
       ot_linear = True, ot_repeat = False\<rparr>], og_tex_binding = 1,
     og_uniforms = [\<lparr>ou_binding = 0, ou_bytes = [5]\<rparr>, \<lparr>ou_binding = 4, ou_bytes = []\<rparr>],
     og_storage = Some \<lparr>os_binding = 3, os_bytes = [6]\<rparr>, og_raster_flags = 0\<rparr>"

theorem cmdlist_decoder_exact_witness:
  "decode_forwarded_cmdlist (encode_cmdlist demo_workload (demo_draw (Some demo_geometry)) demo_geometry @ [7]) 1024
     = Some (demo_draw (Some demo_geometry))"
  using cmdlist_decoder_exact [of 1024 "[]" "demo_draw (Some demo_geometry)" demo_geometry demo_workload "[7]"]
  by (simp add: cmdlist_ok_def shaders_ok_def demo_draw_def geometry_ok_def demo_geometry_def vertices_ok_def
      depth_ok_def texture_ok_def uniform_ok_def storage_ok_def tex_bindings_def)

end
