(* ===== verification/Abi_Regs.thy ===== *)
theory Abi_Regs
  imports Igpu_Prelude
begin

text \<open>
  The identity and register constants of \<open>crates/infinigpu-abi/src/ids.rs\<close> and \<open>regs.rs\<close>, and the test
  registers \<open>dbg\<close> of \<open>crates/infinigpu-device/src/lib.rs\<close>. Register offsets and sizes are naturals,
  register contents words.
\<close>

unbundle bit_operations_syntax

text \<open>\<open>ids\<close>\<close>

definition PCI_VENDOR_ID :: u16 where [simp]: "PCI_VENDOR_ID = 0x1B36"
definition PCI_DEVICE_ID :: u16 where [simp]: "PCI_DEVICE_ID = 0x0110"
definition PCI_REVISION_ID :: u8 where [simp]: "PCI_REVISION_ID = 0x01"
definition PCI_SUBSYSTEM_VENDOR_ID :: u16 where [simp]: "PCI_SUBSYSTEM_VENDOR_ID = 0x1B36"
definition PCI_SUBSYSTEM_DEVICE_ID :: u16 where [simp]: "PCI_SUBSYSTEM_DEVICE_ID = 0x0001"
definition PCI_CLASS_DISPLAY_OTHER :: u32 where [simp]: "PCI_CLASS_DISPLAY_OTHER = 0x00038000"
definition PCI_CLASS_DISPLAY_VGA :: u32 where [simp]: "PCI_CLASS_DISPLAY_VGA = 0x00030000"
definition DEV_MAGIC :: u32 where [simp]: "DEV_MAGIC = 0x49475055"
definition ABI_MAJOR :: u16 where [simp]: "ABI_MAJOR = 0"
definition ABI_MINOR :: u16 where [simp]: "ABI_MINOR = 13"

definition abi_version :: u32 where
  "abi_version = push_bit 16 (ucast ABI_MAJOR) OR ucast ABI_MINOR"

text \<open>\<open>regs::region\<close> and the BAR geometry\<close>

definition REGION_BAR0 :: nat where [simp]: "REGION_BAR0 = 0"
definition REGION_BAR1 :: nat where [simp]: "REGION_BAR1 = 1"
definition REGION_BAR2 :: nat where [simp]: "REGION_BAR2 = 2"
definition REGION_CONFIG :: nat where [simp]: "REGION_CONFIG = 6"
definition BAR0_SIZE :: nat where [simp]: "BAR0_SIZE = 65536"
definition BAR1_SIZE :: nat where [simp]: "BAR1_SIZE = 16384"
definition CMD_RING_STRIDE :: nat where [simp]: "CMD_RING_STRIDE = 0x40"
definition MAX_CONTEXTS :: nat where [simp]: "MAX_CONTEXTS = 63"

text \<open>\<open>regs::ctrl\<close>\<close>

definition R_DEV_MAGIC :: nat where [simp]: "R_DEV_MAGIC = 0x0000"
definition R_ABI_VERSION :: nat where [simp]: "R_ABI_VERSION = 0x0004"
definition R_DEV_CAPS :: nat where [simp]: "R_DEV_CAPS = 0x0008"
definition R_NUM_CONTEXTS :: nat where [simp]: "R_NUM_CONTEXTS = 0x000C"
definition R_MAX_RING_ENTRIES :: nat where [simp]: "R_MAX_RING_ENTRIES = 0x0010"
definition R_BAR2_APERTURE_MB :: nat where [simp]: "R_BAR2_APERTURE_MB = 0x0014"
definition R_GLOBAL_CTRL :: nat where [simp]: "R_GLOBAL_CTRL = 0x0020"
definition R_GLOBAL_STATUS :: nat where [simp]: "R_GLOBAL_STATUS = 0x0024"
definition R_DEVICE_RESET :: nat where [simp]: "R_DEVICE_RESET = 0x0028"
definition R_IRQ_STATUS :: nat where [simp]: "R_IRQ_STATUS = 0x0030"
definition R_IRQ_MASK :: nat where [simp]: "R_IRQ_MASK = 0x0034"
definition R_CTRL_RING_BASE_LO :: nat where [simp]: "R_CTRL_RING_BASE_LO = 0x0040"
definition R_CTRL_RING_BASE_HI :: nat where [simp]: "R_CTRL_RING_BASE_HI = 0x0044"
definition R_CTRL_RING_SIZE :: nat where [simp]: "R_CTRL_RING_SIZE = 0x0048"
definition R_CMD_RING0_RETIRED_LO :: nat where [simp]: "R_CMD_RING0_RETIRED_LO = 0x0050"
definition R_CMD_RING0_RETIRED_HI :: nat where [simp]: "R_CMD_RING0_RETIRED_HI = 0x0054"
definition R_CMD_RING_CFG :: nat where [simp]: "R_CMD_RING_CFG = 0x0100"
definition F_BASE_LO :: nat where [simp]: "F_BASE_LO = 0x00"
definition F_BASE_HI :: nat where [simp]: "F_BASE_HI = 0x04"
definition F_SIZE :: nat where [simp]: "F_SIZE = 0x08"
definition F_CTRL :: nat where [simp]: "F_CTRL = 0x0C"
definition F_CAPSET :: nat where [simp]: "F_CAPSET = 0x10"
definition F_RETIRED_LO :: nat where [simp]: "F_RETIRED_LO = 0x14"
definition F_RETIRED_HI :: nat where [simp]: "F_RETIRED_HI = 0x18"
definition F_INDEX_LO :: nat where [simp]: "F_INDEX_LO = 0x1C"
definition F_INDEX_HI :: nat where [simp]: "F_INDEX_HI = 0x20"

text \<open>The index page, \<open>regs::doorbell\<close>, and the test registers \<open>dbg\<close>\<close>

definition INDEX_PAGE :: nat where [simp]: "INDEX_PAGE = 0x2000"
definition DOORBELL_PAGE :: nat where [simp]: "DOORBELL_PAGE = 0x3000"
definition DOORBELL_CTRL :: nat where [simp]: "DOORBELL_CTRL = 0x3000"
definition DOORBELL_CMD_BASE :: nat where [simp]: "DOORBELL_CMD_BASE = 0x3004"
definition DBG_DMA_ADDR_LO :: nat where [simp]: "DBG_DMA_ADDR_LO = 0x0F00"
definition DBG_DMA_ADDR_HI :: nat where [simp]: "DBG_DMA_ADDR_HI = 0x0F04"
definition DBG_DMA_DATA :: nat where [simp]: "DBG_DMA_DATA = 0x0F08"

text \<open>\<open>regs::caps\<close>, \<open>global_ctrl\<close>, \<open>global_status\<close>, \<open>ring_ctrl\<close>\<close>

definition CAPS_IOEVENTFD_DOORBELL :: u32 where [simp]: "CAPS_IOEVENTFD_DOORBELL = 1"
definition CAPS_BLOB_APERTURE :: u32 where [simp]: "CAPS_BLOB_APERTURE = 2"
definition CAPS_MULTI_RING :: u32 where [simp]: "CAPS_MULTI_RING = 4"
definition CAPS_SEQNO64 :: u32 where [simp]: "CAPS_SEQNO64 = 8"
definition CAPS_POLL_SUBMIT :: u32 where [simp]: "CAPS_POLL_SUBMIT = 16"
definition CAPS_DISPLAY_ACCEL :: u32 where [simp]: "CAPS_DISPLAY_ACCEL = 32"
definition CAPS_CURSOR_PLANE :: u32 where [simp]: "CAPS_CURSOR_PLANE = 64"
definition DEVICE_ENABLE :: u32 where [simp]: "DEVICE_ENABLE = 1"
definition CTRL_RING_ENABLE :: u32 where [simp]: "CTRL_RING_ENABLE = 2"
definition STATUS_READY :: u32 where [simp]: "STATUS_READY = 1"
definition STATUS_FATAL :: u32 where [simp]: "STATUS_FATAL = 2"
definition STATUS_NEEDS_RESET :: u32 where [simp]: "STATUS_NEEDS_RESET = 4"
definition RING_ENABLE :: u32 where [simp]: "RING_ENABLE = 1"
definition RING_RESET :: u32 where [simp]: "RING_RESET = 2"

definition PHASE0_DEV_CAPS :: u32 where
  "PHASE0_DEV_CAPS = CAPS_POLL_SUBMIT OR CAPS_SEQNO64 OR CAPS_MULTI_RING"
definition PHASE1_DEV_CAPS :: u32 where
  "PHASE1_DEV_CAPS = PHASE0_DEV_CAPS OR CAPS_DISPLAY_ACCEL"
definition PHASE2_DEV_CAPS :: u32 where
  "PHASE2_DEV_CAPS = PHASE1_DEV_CAPS OR CAPS_CURSOR_PLANE"

lemma abi_version_value: "abi_version = 0x0000000D"
  by (simp add: abi_version_def)

lemma dev_caps_values: "PHASE1_DEV_CAPS = 0x3C" "PHASE2_DEV_CAPS = 0x7C"
  by (simp_all add: PHASE0_DEV_CAPS_def PHASE1_DEV_CAPS_def PHASE2_DEV_CAPS_def)

text \<open>At the ABI's ceiling of contexts the config block would run into the test registers; the shared
  index page holds that many contexts.\<close>

lemma contexts_reach_dbg:
  "R_CMD_RING_CFG + 56 * CMD_RING_STRIDE = DBG_DMA_ADDR_LO \<and> 56 < MAX_CONTEXTS \<and>
   INDEX_PAGE + MAX_CONTEXTS * CMD_RING_STRIDE \<le> DOORBELL_PAGE"
  by simp

end
