(* ===== verification/Pci_Config.thy ===== *)
theory Pci_Config
  imports Abi_Regs
begin

text \<open>
  \<open>crates/infinigpu-device/src/config.rs\<close>, and \<open>build_regions\<close> and \<open>build_irqs\<close> of the device: the PCI
  configuration space and the regions and interrupts offered to the vfio-user client. The index and
  flag numbers of the VFIO interface come from the kernel's headers and are an argument.
\<close>

definition CONFIG_SPACE_SIZE :: nat where [simp]: "CONFIG_SPACE_SIZE = 4096"
definition MSIX_CAP :: nat where [simp]: "MSIX_CAP = 0x40"
definition MSIX_VECTORS :: u16 where [simp]: "MSIX_VECTORS = 64"

definition put_bytes :: "bytes \<Rightarrow> nat \<Rightarrow> bytes \<Rightarrow> bytes" where
  "put_bytes buf off bs = take off buf @ bs @ drop (off + length bs) buf"

definition put_u16 :: "bytes \<Rightarrow> nat \<Rightarrow> u16 \<Rightarrow> bytes" where
  "put_u16 buf off v = put_bytes buf off (u16_le v)"

definition put_u32 :: "bytes \<Rightarrow> nat \<Rightarrow> u32 \<Rightarrow> bytes" where
  "put_u32 buf off v = put_bytes buf off (u32_le v)"

definition config_build :: bytes where
  "config_build =
    (let c = replicate CONFIG_SPACE_SIZE 0;
         c = put_u16 c 0x00 PCI_VENDOR_ID;
         c = put_u16 c 0x02 PCI_DEVICE_ID;
         c = put_u16 c 0x06 0x0010;
         c = c[0x08 := PCI_REVISION_ID];
         c = c[0x09 := ucast (and PCI_CLASS_DISPLAY_OTHER 0xff)];
         c = c[0x0a := ucast (and (drop_bit 8 PCI_CLASS_DISPLAY_OTHER) 0xff)];
         c = c[0x0b := ucast (and (drop_bit 16 PCI_CLASS_DISPLAY_OTHER) 0xff)];
         c = c[0x0e := 0x00];
         c = put_u16 c 0x2c PCI_SUBSYSTEM_VENDOR_ID;
         c = put_u16 c 0x2e PCI_SUBSYSTEM_DEVICE_ID;
         c = c[0x34 := word_of_nat MSIX_CAP];
         c = c[MSIX_CAP := 0x11];
         c = c[MSIX_CAP + 1 := 0x00];
         c = put_u16 c (MSIX_CAP + 2) (MSIX_VECTORS - 1);
         c = put_u32 c (MSIX_CAP + 4) 1;
         c = put_u32 c (MSIX_CAP + 8) (or 0x2000 1)
     in c)"

subsection \<open>Regions and interrupts\<close>

record Vfio =
  vf_bar0 :: nat
  vf_bar1 :: nat
  vf_config :: nat
  vf_num_regions :: nat
  vf_msix :: nat
  vf_num_irqs :: nat
  vf_region_rw :: u32
  vf_irq_eventfd :: u32
  vf_set_fd_trigger :: u32

record Region =
  rg_index :: nat
  rg_size :: nat
  rg_flags :: u32

definition build_regions :: "Vfio \<Rightarrow> Region list" where
  "build_regions v = map (\<lambda>i.
     if i = vf_bar0 v then \<lparr>rg_index = i, rg_size = BAR0_SIZE, rg_flags = vf_region_rw v\<rparr>
     else if i = vf_bar1 v then \<lparr>rg_index = i, rg_size = BAR1_SIZE, rg_flags = vf_region_rw v\<rparr>
     else if i = vf_config v then \<lparr>rg_index = i, rg_size = CONFIG_SPACE_SIZE, rg_flags = vf_region_rw v\<rparr>
     else \<lparr>rg_index = i, rg_size = 0, rg_flags = 0\<rparr>) [0..<vf_num_regions v]"

record Irq =
  iq_index :: nat
  iq_count :: nat
  iq_flags :: u32

definition build_irqs :: "Vfio \<Rightarrow> Irq list" where
  "build_irqs v = map (\<lambda>i. if i = vf_msix v
     then \<lparr>iq_index = i, iq_count = unat MSIX_VECTORS, iq_flags = vf_irq_eventfd v\<rparr>
     else \<lparr>iq_index = i, iq_count = 0, iq_flags = 0\<rparr>) [0..<vf_num_irqs v]"

subsection \<open>What the guest enumerates\<close>

lemma length_put [simp]:
  "off + length bs \<le> length buf \<Longrightarrow> length (put_bytes buf off bs) = length buf"
  by (simp add: put_bytes_def)

lemma put_bytes_nth: "off + length bs \<le> length buf \<Longrightarrow> i < length buf \<Longrightarrow> put_bytes buf off bs ! i =
    (if off \<le> i \<and> i < off + length bs then bs ! (i - off) else buf ! i)"
  by (auto simp: put_bytes_def nth_append min_absorb2)

lemma config_length [simp]: "length config_build = CONFIG_SPACE_SIZE"
  by (simp add: config_build_def Let_def put_u16_def put_u32_def)

lemma slice_nth: "off + n \<le> length bs \<Longrightarrow> take n (drop off bs) = map (\<lambda>i. bs ! (off + i)) [0..<n]"
  by (intro nth_equalityI) auto

lemma get_u16_nth: "off + 2 \<le> length bs \<Longrightarrow> get_u16 bs off = word_of_nat (unat (bs ! off) + 256 * unat (bs ! (off + 1)))"
  by (simp add: get_u16_def slice_nth upt_rec)

lemma get_u32_nth: "off + 4 \<le> length bs \<Longrightarrow> get_u32 bs off = word_of_nat (unat (bs ! off) +
    256 * (unat (bs ! (off + 1)) + 256 * (unat (bs ! (off + 2)) + 256 * unat (bs ! (off + 3)))))"
proof -
  assume "off + 4 \<le> length bs"
  moreover have "[0..<4] = [0, 1, 2, 3 :: nat]" by (simp add: upt_conv_Cons)
  ultimately show ?thesis by (simp add: get_u32_def slice_nth)
qed

lemma le_bytes: "u16_le v = [word_of_nat (unat v mod 256), word_of_nat (unat v div 256 mod 256)]"
  "u32_le w = [word_of_nat (unat w mod 256), word_of_nat (unat w div 256 mod 256),
     word_of_nat (unat w div 256 div 256 mod 256), word_of_nat (unat w div 256 div 256 div 256 mod 256)]"
proof -
  have n: "(2 :: nat) = Suc (Suc 0)" "(4 :: nat) = Suc (Suc (Suc (Suc 0)))" by simp_all
  show "u16_le v = [word_of_nat (unat v mod 256), word_of_nat (unat v div 256 mod 256)]"
    unfolding u16_le_def n le_of_nat.simps by (rule refl)
  show "u32_le w = [word_of_nat (unat w mod 256), word_of_nat (unat w div 256 mod 256),
     word_of_nat (unat w div 256 div 256 mod 256), word_of_nat (unat w div 256 div 256 div 256 mod 256)]"
    unfolding u32_le_def n le_of_nat.simps by (rule refl)
qed

lemma config_bytes:
  "config_build ! 0 = 0x36" "config_build ! Suc 0 = 0x1B" "config_build ! 2 = 0x10" "config_build ! 3 = 0x01"
  "config_build ! 6 = 0x10" "config_build ! 7 = 0"
  "config_build ! 9 = 0" "config_build ! 10 = 0x80" "config_build ! 11 = 3" "config_build ! 14 = 0"
  "config_build ! 0x34 = 0x40" "config_build ! 0x40 = 0x11" "config_build ! 0x41 = 0"
  "config_build ! 0x42 = 63" "config_build ! 0x43 = 0"
  "config_build ! 0x44 = 1" "config_build ! 0x45 = 0" "config_build ! 0x46 = 0" "config_build ! 0x47 = 0"
  "config_build ! 0x48 = 1" "config_build ! 0x49 = 0x20" "config_build ! 0x4A = 0" "config_build ! 0x4B = 0"
  by (simp_all add: config_build_def Let_def put_u16_def put_u32_def put_bytes_nth le_bytes)

lemma config_words:
  "get_u16 config_build 0 = 0x1B36" "get_u16 config_build 2 = 0x0110" "get_u16 config_build 6 = 0x0010"
  "get_u16 config_build 0x42 = 63" "get_u32 config_build 0x44 = 1" "get_u32 config_build 0x48 = 0x2001"
  using config_bytes by (simp_all add: get_u16_nth get_u32_nth)

text \<open>The guest finds the device it expects in configuration space: its identity, a display class that
  does not claim the boot framebuffer, and a capability list that holds one MSI-X capability whose table
  and pending bits lie in the second BAR without overlapping and have a vector for every context.\<close>

theorem pci_enumeration:
  "get_u16 config_build 0x00 = PCI_VENDOR_ID \<and> get_u16 config_build 0x02 = PCI_DEVICE_ID \<and>
   config_build ! 0x0b = 3 \<and> config_build ! 0x0a = 0x80 \<and> config_build ! 0x09 = 0 \<and> config_build ! 0x0e = 0 \<and>
   bit (get_u16 config_build 0x06) 4 \<and>
   (let cap = unat (config_build ! 0x34); vectors = unat (get_u16 config_build (cap + 2)) + 1;
        tab = get_u32 config_build (cap + 4); pba = get_u32 config_build (cap + 8)
    in config_build ! cap = 0x11 \<and> config_build ! (cap + 1) = 0 \<and> vectors = unat MSIX_VECTORS \<and>
       MAX_CONTEXTS < vectors \<and>
       unat (and tab 7) = REGION_BAR1 \<and> unat (and pba 7) = REGION_BAR1 \<and>
       unat tab - 1 + 16 * vectors \<le> unat pba - 1 \<and> unat pba - 1 + vectors div 8 \<le> BAR1_SIZE)"
proof -
  have cap: "unat (config_build ! 0x34) = 0x40" by (simp add: config_bytes)
  have "bit (0x0010 :: u16) 4" by simp
  then show ?thesis
    unfolding cap Let_def using config_words config_bytes by simp
qed

text \<open>The regions offered to the client are one per index: the registers, the MSI-X table and the
  configuration space with the sizes of the ABI, and no other region has any bytes.\<close>

lemma regions_offered:
  assumes "vf_bar0 v < vf_num_regions v" "vf_bar1 v < vf_num_regions v" "vf_config v < vf_num_regions v"
    and "distinct [vf_bar0 v, vf_bar1 v, vf_config v]" and "i < vf_num_regions v"
  shows "length (build_regions v) = vf_num_regions v \<and> rg_index (build_regions v ! i) = i \<and>
    rg_size (build_regions v ! i) = (if i = vf_bar0 v then BAR0_SIZE else if i = vf_bar1 v then BAR1_SIZE
      else if i = vf_config v then length config_build else 0)"
  using assms by (simp add: build_regions_def)

end
