(* ===== verification/Device_Pixels.thy ===== *)
theory Device_Pixels
  imports Pixel_Streamer Forwarded_Decode Pci_Config
begin

text \<open>
  The pure pixel helpers of \<open>crates/infinigpu-device/src/lib.rs\<close>: the guard on cursor shapes, the row
  conversion to BGRA, the clamping of damage rectangles, the hash of forwarded frames, and the two ways
  a present brings a guest framebuffer into the persistent surface: the full rebuild and the patch of
  the damaged rows. Both are functions of the bytes read from guest memory.
\<close>

definition CURSOR_MAX_DIM :: nat where [simp]: "CURSOR_MAX_DIM = 256"
definition CURSOR_MAX_BYTES :: nat where "CURSOR_MAX_BYTES = CURSOR_MAX_DIM * CURSOR_MAX_DIM * 4"
definition CURSOR_SHAPE_MIN_INTERVAL :: nat where [simp]: "CURSOR_SHAPE_MIN_INTERVAL = 33"
definition CURSOR_MOVE_MIN_INTERVAL :: nat where [simp]: "CURSOR_MOVE_MIN_INTERVAL = 16"

text \<open>A product that overflows \<open>usize\<close> is refused.\<close>

definition cursor_shape_ok :: "u16 \<Rightarrow> u16 \<Rightarrow> u32 \<Rightarrow> u32 \<Rightarrow> bool" where
  "cursor_shape_ok width height pitch fmt =
    (let w = unat width; h = unat height; p = unat pitch in
     w \<noteq> 0 \<and> h \<noteq> 0 \<and> w \<le> CURSOR_MAX_DIM \<and> h \<le> CURSOR_MAX_DIM \<and> fmt = FMT_B8G8R8A8 \<and> w * 4 \<le> p \<and>
     (case checked_u64 (p * h) of None \<Rightarrow> False | Some t \<Rightarrow> t \<le> CURSOR_MAX_BYTES))"

fun alpha_fill :: "bytes \<Rightarrow> bytes" where
  "alpha_fill (b # g # r # a # rest) = b # g # r # 255 # alpha_fill rest"
| "alpha_fill bs = bs"

fun swap_red_blue :: "bytes \<Rightarrow> bytes" where
  "swap_red_blue (r # g # b # a # rest) = b # g # r # 255 # swap_red_blue rest"
| "swap_red_blue bs = bs"

text \<open>The row as written to the destination; source and destination have the same length, a multiple
  of four.\<close>

definition swizzle_row_to_bgra :: "bytes \<Rightarrow> bool \<Rightarrow> bytes" where
  "swizzle_row_to_bgra src is_copy = (if is_copy then alpha_fill src else swap_red_blue src)"

definition clamp_damage :: "nat \<Rightarrow> nat \<Rightarrow> u32 \<Rightarrow> u32 \<Rightarrow> u32 \<Rightarrow> u32 \<Rightarrow> nat \<times> nat \<times> nat \<times> nat" where
  "clamp_damage w h dx dy dw dh =
    (let dx = min (unat dx) w; dy = min (unat dy) h; dw = min (unat dw) (w - dx); dh = min (unat dh) (h - dy)
     in (dx, dy, dw, dh))"

fun fnv1a_from :: "u64 \<Rightarrow> bytes \<Rightarrow> u64" where
  "fnv1a_from h [] = h"
| "fnv1a_from h (b # bs) = fnv1a_from (xor h (ucast b) * 0x100000001b3) bs"

definition fnv1a_64 :: "bytes \<Rightarrow> u64" where
  "fnv1a_64 bs = fnv1a_from 0xcbf29ce484222325 bs"

record ScanoutBuffer =
  so_w :: nat
  so_h :: nat
  so_bgra :: bytes

definition slice :: "bytes \<Rightarrow> nat \<Rightarrow> nat \<Rightarrow> bytes" where
  "slice bs off n = take n (drop off bs)"

text \<open>The full rebuild: row after row of the framebuffer into a surface.\<close>

fun full_rows :: "nat \<Rightarrow> nat \<Rightarrow> bool \<Rightarrow> bytes \<Rightarrow> nat \<Rightarrow> bytes \<Rightarrow> bytes" where
  "full_rows w pitch is_copy buf 0 bgra = bgra"
| "full_rows w pitch is_copy buf (Suc y) bgra =
     put_bytes (full_rows w pitch is_copy buf y bgra) (y * w * 4)
       (swizzle_row_to_bgra (slice buf (y * pitch) (w * 4)) is_copy)"

text \<open>The patch: \<open>rows\<close> are the damaged rows as read, without gaps.\<close>

fun patch_rows :: "nat \<Rightarrow> nat \<Rightarrow> nat \<Rightarrow> nat \<Rightarrow> bool \<Rightarrow> bytes \<Rightarrow> nat \<Rightarrow> bytes \<Rightarrow> bytes" where
  "patch_rows w dx dy dw is_copy rows 0 bgra = bgra"
| "patch_rows w dx dy dw is_copy rows (Suc r) bgra =
     put_bytes (patch_rows w dx dy dw is_copy rows r bgra) (((dy + r) * w + dx) * 4)
       (swizzle_row_to_bgra (slice rows (r * dw * 4) (dw * 4)) is_copy)"

text \<open>The framebuffer size guard shared by the presents: the bytes to read, when the geometry is good.\<close>

definition fb_bytes :: "nat \<Rightarrow> nat \<Rightarrow> nat \<Rightarrow> nat option" where
  "fb_bytes w h pitch = do {
     min_pitch \<leftarrow> checked_u64 (w * 4);
     t \<leftarrow> (if min_pitch \<le> pitch then checked_u64 (pitch * h) else None);
     if w \<noteq> 0 \<and> h \<noteq> 0 \<and> t \<le> 64 * 1024 * 1024 then Some t else None }"

subsection \<open>Rows\<close>

lemma length_alpha_fill [simp]: "length (alpha_fill bs) = length bs"
  by (induction bs rule: alpha_fill.induct) auto

lemma length_swap [simp]: "length (swap_red_blue bs) = length bs"
  by (induction bs rule: swap_red_blue.induct) auto

lemma length_swizzle [simp]: "length (swizzle_row_to_bgra bs c) = length bs"
  by (simp add: swizzle_row_to_bgra_def)

text \<open>The converted byte \<open>c\<close> of the pixel at offset \<open>p\<close>.\<close>

definition bgra_at :: "bool \<Rightarrow> bytes \<Rightarrow> nat \<Rightarrow> nat \<Rightarrow> u8" where
  "bgra_at is_copy buf p c = (if c = 3 then 255 else buf ! (p + (if is_copy then c else 2 - c)))"

lemma less_4: "(c :: nat) < 4 \<Longrightarrow> c = 0 \<or> c = 1 \<or> c = 2 \<or> c = 3"
  by linarith

lemma swizzle_nth:
  "length bs = 4 * n \<Longrightarrow> q < n \<Longrightarrow> c < 4 \<Longrightarrow>
     swizzle_row_to_bgra bs is_copy ! (4 * q + c) = bgra_at is_copy bs (4 * q) c"
proof (induction n arbitrary: bs q)
  case (Suc n)
  then obtain x0 x1 x2 x3 rest where bs: "bs = x0 # x1 # x2 # x3 # rest" "length rest = 4 * n"
    by (cases bs; cases "tl bs"; cases "tl (tl bs)"; cases "tl (tl (tl bs))") auto
  show ?case
  proof (cases q)
    case 0
    then show ?thesis using less_4 [OF Suc.prems(3)]
      by (auto simp: bs swizzle_row_to_bgra_def bgra_at_def eval_nat_numeral)
  next
    case (Suc q')
    have "swizzle_row_to_bgra bs is_copy ! (4 * q + c) = swizzle_row_to_bgra rest is_copy ! (4 * q' + c)"
      by (simp add: bs Suc swizzle_row_to_bgra_def eval_nat_numeral)
    also have "\<dots> = bgra_at is_copy rest (4 * q') c"
      using Suc.IH bs(2) Suc.prems(2,3) Suc by simp
    also have "\<dots> = bgra_at is_copy bs (4 * q) c"
      by (simp add: bs Suc bgra_at_def eval_nat_numeral)
    finally show ?thesis .
  qed
qed simp

lemma length_slice [simp]: "off + n \<le> length bs \<Longrightarrow> length (slice bs off n) = n"
  by (simp add: slice_def)

lemma slice_at: "off + n \<le> length bs \<Longrightarrow> i < n \<Longrightarrow> slice bs off n ! i = bs ! (off + i)"
  by (simp add: slice_def)

lemma bgra_at_slice: "off + n \<le> length bs \<Longrightarrow> p + 4 \<le> n \<Longrightarrow> c < 4 \<Longrightarrow>
    bgra_at is_copy (slice bs off n) p c = bgra_at is_copy bs (off + p) c"
  by (simp add: bgra_at_def slice_at add.assoc)

text \<open>Where a run inside row \<open>r\<close> meets an index of row \<open>y\<close>.\<close>

lemma row_index:
  fixes m :: nat
  assumes "k < m" and "a + n \<le> m"
  shows "r * m + a \<le> y * m + k \<and> y * m + k < r * m + a + n \<longleftrightarrow> y = r \<and> a \<le> k \<and> k < a + n"
proof -
  consider "y < r" | "y = r" | "r < y" by linarith
  then show ?thesis
  proof cases
    case 1
    then have "Suc y * m \<le> r * m" by (intro mult_le_mono) auto
    then show ?thesis using assms 1 by auto
  next
    case 3
    then have "Suc r * m \<le> y * m" by (intro mult_le_mono) auto
    then show ?thesis using assms 3 by auto
  qed auto
qed

lemma row_end: "y < h \<Longrightarrow> y * m + m \<le> h * (m :: nat)"
  using mult_le_mono1 [of "Suc y" h m] by simp

subsection \<open>The full rebuild\<close>

lemma length_full_rows:
  "length bgra = h * (w * 4) \<Longrightarrow> n \<le> h \<Longrightarrow> w * 4 \<le> pitch \<Longrightarrow> length buf = pitch * h \<Longrightarrow>
     length (full_rows w pitch is_copy buf n bgra) = h * (w * 4)"
proof (induction n)
  case (Suc y)
  have "y * pitch + w * 4 \<le> length buf" using row_end [of y h pitch] Suc.prems by (simp add: mult.commute)
  moreover have "y * (w * 4) + w * 4 \<le> h * (w * 4)" using row_end [of y h "w * 4"] Suc.prems by simp
  ultimately show ?case using Suc by (simp add: mult.assoc)
qed simp

lemma full_rows_nth:
  assumes "length bgra = h * (w * 4)" and "w * 4 \<le> pitch" and "length buf = pitch * h"
  shows "n \<le> h \<Longrightarrow> y < n \<Longrightarrow> q < w \<Longrightarrow> c < 4 \<Longrightarrow>
    full_rows w pitch is_copy buf n bgra ! (y * (w * 4) + (4 * q + c)) = bgra_at is_copy buf (y * pitch + 4 * q) c"
proof (induction n)
  case (Suc n)
  have src: "n * pitch + w * 4 \<le> length buf"
    using row_end [of n h pitch] Suc.prems(1) assms by (simp add: mult.commute)
  have dst: "n * (w * 4) + w * 4 \<le> h * (w * 4)" using row_end [of n h "w * 4"] Suc.prems(1) by simp
  have i: "y * (w * 4) + (4 * q + c) < h * (w * 4)"
    using row_end [of y h "w * 4"] Suc.prems by simp
  have k: "4 * q + c < w * 4" using Suc.prems by simp
  have len: "length (full_rows w pitch is_copy buf n bgra) = h * (w * 4)"
    using length_full_rows assms Suc.prems(1) by simp
  have hit: "n * (w * 4) \<le> y * (w * 4) + (4 * q + c) \<and> y * (w * 4) + (4 * q + c) < n * (w * 4) + w * 4 \<longleftrightarrow> y = n"
    using row_index [OF k, of 0 "w * 4" n y] k by simp
  have row: "swizzle_row_to_bgra (slice buf (n * pitch) (w * 4)) is_copy ! (4 * q + c)
      = bgra_at is_copy buf (n * pitch + 4 * q) c"
    using src Suc.prems by (subst swizzle_nth [of _ w]) (simp_all add: bgra_at_slice)
  show ?case
    using Suc src dst i len hit row
    by (cases "y = n") (simp add: put_bytes_nth mult.assoc, auto simp: put_bytes_nth mult.assoc)
qed simp

subsection \<open>The patch\<close>

text \<open>The damaged rows of a framebuffer, as the reads bring them in.\<close>

definition damaged_rows :: "nat \<Rightarrow> nat \<Rightarrow> nat \<Rightarrow> nat \<Rightarrow> nat \<Rightarrow> bytes \<Rightarrow> bytes" where
  "damaged_rows pitch dx dy dw n buf = concat (map (\<lambda>r. slice buf ((dy + r) * pitch + dx * 4) (dw * 4)) [0..<n])"

lemma row_fits:
  assumes "length buf = pitch * h" and "w * 4 \<le> pitch" and "dx + dw \<le> w" and "y < (h :: nat)"
  shows "y * pitch + dx * 4 + dw * 4 \<le> length buf"
  using assms row_end [of y h pitch] by (simp add: mult.commute)

lemma length_damaged_rows:
  "length buf = pitch * h \<Longrightarrow> w * 4 \<le> pitch \<Longrightarrow> dx + dw \<le> w \<Longrightarrow> dy + n \<le> h \<Longrightarrow>
     length (damaged_rows pitch dx dy dw n buf) = n * (dw * 4)"
proof (induction n)
  case (Suc n)
  then show ?case
    using row_fits [of buf pitch h w dx dw "dy + n"]
    by (simp add: damaged_rows_def algebra_simps)
qed (simp add: damaged_rows_def)

lemma damaged_rows_nth:
  "length buf = pitch * h \<Longrightarrow> w * 4 \<le> pitch \<Longrightarrow> dx + dw \<le> w \<Longrightarrow> dy + n \<le> h \<Longrightarrow> r < n \<Longrightarrow> k < dw * 4 \<Longrightarrow>
     damaged_rows pitch dx dy dw n buf ! (r * (dw * 4) + k) = buf ! ((dy + r) * pitch + dx * 4 + k)"
proof (induction n)
  case (Suc n)
  have len: "length (damaged_rows pitch dx dy dw n buf) = n * (dw * 4)"
    using Suc.prems length_damaged_rows by simp
  have snoc: "damaged_rows pitch dx dy dw (Suc n) buf = damaged_rows pitch dx dy dw n buf @
      slice buf ((dy + n) * pitch + dx * 4) (dw * 4)" by (simp add: damaged_rows_def)
  show ?case
  proof (cases "r = n")
    case True
    then show ?thesis
      using Suc.prems len row_fits [of buf pitch h w dx dw "dy + n"] by (simp add: snoc nth_append slice_at)
  next
    case False
    then have "r * (dw * 4) + k < n * (dw * 4)" using Suc.prems row_end [of r n "dw * 4"] by simp
    then show ?thesis using Suc False len by (simp add: snoc nth_append)
  qed
qed simp

lemma length_patch_rows:
  assumes "dx + dw \<le> w" and "length rows = m * (dw * 4)"
  shows "length bgra = h * (w * 4) \<Longrightarrow> dy + n \<le> h \<Longrightarrow> n \<le> m \<Longrightarrow>
     length (patch_rows w dx dy dw is_copy rows n bgra) = h * (w * 4)"
proof (induction n)
  case (Suc n)
  have "n * (dw * 4) + dw * 4 \<le> length rows" using row_end [of n m "dw * 4"] assms(2) Suc.prems by simp
  moreover have "(dy + n) * (w * 4) + dx * 4 + dw * 4 \<le> h * (w * 4)"
    using row_end [of "dy + n" h "w * 4"] Suc.prems assms(1) by simp
  ultimately show ?case using Suc by (simp add: algebra_simps)
qed simp

lemma patch_rows_nth:
  assumes "dx + dw \<le> w" and "length rows = m * (dw * 4)" and "length bgra = h * (w * 4)"
    and "q < w" and "c < 4" and "y < h"
  shows "dy + n \<le> h \<Longrightarrow> n \<le> m \<Longrightarrow>
     patch_rows w dx dy dw is_copy rows n bgra ! (y * (w * 4) + (4 * q + c)) =
       (if dy \<le> y \<and> y < dy + n \<and> dx \<le> q \<and> q < dx + dw
        then bgra_at is_copy rows ((y - dy) * (dw * 4) + 4 * (q - dx)) c
        else bgra ! (y * (w * 4) + (4 * q + c)))"
proof (induction n)
  case (Suc n)
  let ?i = "y * (w * 4) + (4 * q + c)" and ?old = "patch_rows w dx dy dw is_copy rows n bgra"
  let ?row = "swizzle_row_to_bgra (slice rows (n * (dw * 4)) (dw * 4)) is_copy"
  have src: "n * (dw * 4) + dw * 4 \<le> length rows" using row_end [of n m "dw * 4"] assms(2) Suc.prems by simp
  have dst: "(dy + n) * (w * 4) + dx * 4 + dw * 4 \<le> h * (w * 4)"
    using row_end [of "dy + n" h "w * 4"] Suc.prems assms(1) by simp
  have len: "length ?old = h * (w * 4)"
    by (rule length_patch_rows [OF assms(1,2,3)]) (use Suc.prems in simp_all)
  have i: "?i < h * (w * 4)" using row_end [of y h "w * 4"] assms by simp
  have k: "4 * q + c < w * 4" using assms by simp
  have "((dy + n) * (w * 4) + dx * 4 \<le> ?i \<and> ?i < (dy + n) * (w * 4) + dx * 4 + dw * 4) \<longleftrightarrow>
      y = dy + n \<and> dx * 4 \<le> 4 * q + c \<and> 4 * q + c < dx * 4 + dw * 4"
    using row_index [OF k, of "dx * 4" "dw * 4" "dy + n" y] assms(1) by simp
  then have hit: "((dy + n) * (w * 4) + dx * 4 \<le> ?i \<and> ?i < (dy + n) * (w * 4) + dx * 4 + dw * 4) \<longleftrightarrow>
      y = dy + n \<and> dx \<le> q \<and> q < dx + dw" using assms(5) by linarith
  have step: "patch_rows w dx dy dw is_copy rows (Suc n) bgra =
      put_bytes ?old ((dy + n) * (w * 4) + dx * 4) ?row"
    by (simp add: algebra_simps)
  have val: "?row ! (4 * (q - dx) + c) = bgra_at is_copy rows (n * (dw * 4) + 4 * (q - dx)) c"
    if "dx \<le> q" "q < dx + dw"
    using src that assms(5) by (subst swizzle_nth [of _ dw]) (simp_all add: bgra_at_slice)
  show ?case
  proof (cases "y = dy + n \<and> dx \<le> q \<and> q < dx + dw")
    case True
    then have "?i - ((dy + n) * (w * 4) + dx * 4) = 4 * (q - dx) + c" by (simp add: diff_mult_distrib2)
    then show ?thesis
      using True hit val src dst len i unfolding step by (subst put_bytes_nth) simp_all
  next
    case False
    then have "patch_rows w dx dy dw is_copy rows (Suc n) bgra ! ?i = ?old ! ?i"
      unfolding step using hit src dst len i False by (subst put_bytes_nth) (simp, simp, auto)
    then show ?thesis using Suc False by auto
  qed
qed auto

text \<open>Two surfaces of the same size agree when all their pixels do.\<close>

lemma surface_eqI:
  assumes "length a = h * (w * 4)" and "length b = h * (w * 4)"
    and "\<And>y q c. y < h \<Longrightarrow> q < w \<Longrightarrow> c < 4 \<Longrightarrow> a ! (y * (w * 4) + (4 * q + c)) = b ! (y * (w * 4) + (4 * q + c))"
  shows "a = b"
proof (rule nth_equalityI)
  fix i assume "i < length a"
  then have i: "i < h * (w * 4)" using assms(1) by simp
  then have pos: "0 < w * 4" by (cases w) auto
  let ?y = "i div (w * 4)" and ?k = "i mod (w * 4)"
  have k: "?k < w * 4" using pos by simp
  have "?y < h" using i by (simp add: less_mult_imp_div_less)
  moreover have "?k div 4 < w" using k by (simp add: less_mult_imp_div_less)
  moreover have "?k mod 4 < 4" by simp
  moreover have "i = ?y * (w * 4) + (4 * (?k div 4) + ?k mod 4)"
    by (simp only: mult_div_mod_eq div_mult_mod_eq)
  ultimately show "a ! i = b ! i" using assms(3) [of ?y "?k div 4" "?k mod 4"] by simp
qed (use assms in simp)

lemma clamp_damage_in:
  assumes "clamp_damage w h a b c d = (dx, dy, dw, dh)"
  shows "dx + dw \<le> w \<and> dy + dh \<le> h"
proof -
  have "min x m + min y (m - min x m) \<le> m" for x y m :: nat by (cases "x \<le> m") auto
  then show ?thesis using assms by (auto simp: clamp_damage_def Let_def)
qed

lemma bgra_at_cong:
  assumes "\<And>j. j < 4 \<Longrightarrow> buf ! (p + j) = buf' ! (p' + j)" and "c < 4"
  shows "bgra_at is_copy buf p c = bgra_at is_copy buf' p' c"
proof -
  have "(if is_copy then c else 2 - c) < 4" using assms(2) by (auto split: if_split)
  from assms(1) [OF this] show ?thesis unfolding bgra_at_def by (rule if_cong [OF refl refl])
qed

lemma damage_patch:
  assumes dims: "length old = pitch * h" "length new = pitch * h" "w * 4 \<le> pitch"
      "length s0 = h * (w * 4)" "length s1 = h * (w * 4)"
    and rect: "clamp_damage w h a b c d = (dx, dy, dw, dh)"
    and outside: "\<And>y k. y < h \<Longrightarrow> k < w * 4 \<Longrightarrow> \<not> (dy \<le> y \<and> y < dy + dh \<and> dx * 4 \<le> k \<and> k < (dx + dw) * 4) \<Longrightarrow>
       new ! (y * pitch + k) = old ! (y * pitch + k)"
  shows "patch_rows w dx dy dw is_copy (damaged_rows pitch dx dy dw dh new) dh
      (full_rows w pitch is_copy old h s0) = full_rows w pitch is_copy new h s1"
proof -
  have clamp: "dx + dw \<le> w" "dy + dh \<le> h" using clamp_damage_in [OF rect] by auto
  let ?rows = "damaged_rows pitch dx dy dw dh new" and ?S = "full_rows w pitch is_copy old h s0"
  have S: "length ?S = h * (w * 4)" by (rule length_full_rows) (use dims in simp_all)
  have rows: "length ?rows = dh * (dw * 4)" by (rule length_damaged_rows [OF dims(2,3) clamp])
  show ?thesis
  proof (rule surface_eqI [of _ h w])
    show "length (patch_rows w dx dy dw is_copy ?rows dh ?S) = h * (w * 4)"
      by (rule length_patch_rows [OF clamp(1) rows S]) (use clamp in simp_all)
    show "length (full_rows w pitch is_copy new h s1) = h * (w * 4)"
      by (rule length_full_rows) (use dims in simp_all)
  next
    fix y q e assume yqe: "y < h" "q < w" "e < (4 :: nat)"
    have new: "full_rows w pitch is_copy new h s1 ! (y * (w * 4) + (4 * q + e)) = bgra_at is_copy new (y * pitch + 4 * q) e"
      and was: "?S ! (y * (w * 4) + (4 * q + e)) = bgra_at is_copy old (y * pitch + 4 * q) e"
      using full_rows_nth dims yqe by simp_all
    have patch: "patch_rows w dx dy dw is_copy ?rows dh ?S ! (y * (w * 4) + (4 * q + e)) =
       (if dy \<le> y \<and> y < dy + dh \<and> dx \<le> q \<and> q < dx + dw
        then bgra_at is_copy ?rows ((y - dy) * (dw * 4) + 4 * (q - dx)) e
        else ?S ! (y * (w * 4) + (4 * q + e)))"
      by (rule patch_rows_nth [OF clamp(1) rows S]) (use yqe clamp in simp_all)
    show "patch_rows w dx dy dw is_copy ?rows dh ?S ! (y * (w * 4) + (4 * q + e))
        = full_rows w pitch is_copy new h s1 ! (y * (w * 4) + (4 * q + e))"
    proof (cases "dy \<le> y \<and> y < dy + dh \<and> dx \<le> q \<and> q < dx + dw")
      case True
      have "?rows ! ((y - dy) * (dw * 4) + (4 * (q - dx) + j)) = new ! (y * pitch + 4 * q + j)" if "j < 4" for j
      proof -
        obtain y' q' where "y = dy + y'" "q = dx + q'" using True le_Suc_ex by meson
        then show ?thesis
          using damaged_rows_nth [OF dims(2,3) clamp, of y' "4 * q' + j"] True that
          by (simp add: add.assoc add_mult_distrib2 mult.commute [of dx])
      qed
      then have "bgra_at is_copy ?rows ((y - dy) * (dw * 4) + 4 * (q - dx)) e = bgra_at is_copy new (y * pitch + 4 * q) e"
        by (intro bgra_at_cong) (simp_all add: add.assoc yqe(3))
      then show ?thesis unfolding patch new using True by simp
    next
      case False
      have "new ! (y * pitch + (4 * q + j)) = old ! (y * pitch + (4 * q + j))" if "j < 4" for j
        using outside [of y "4 * q + j"] False yqe that by auto
      then have "bgra_at is_copy new (y * pitch + 4 * q) e = bgra_at is_copy old (y * pitch + 4 * q) e"
        by (intro bgra_at_cong) (simp_all add: add.assoc yqe(3))
      then show ?thesis unfolding patch new using False was by auto
    qed
  qed
qed
text \<open>Patching the damaged rectangle gives exactly the surface a full rebuild of the new framebuffer
  gives, whatever rectangle the guest names, as long as the framebuffer changed only inside the clamped
  rectangle since the surface was built.\<close>

theorem damage_patch_exact:
  assumes dims: "length old = pitch * h" "length new = pitch * h" "w * 4 \<le> pitch"
      "length s0 = h * (w * 4)" "length s1 = h * (w * 4)"
    and rect: "clamp_damage w h a b c d = (dx, dy, dw, dh)"
    and outside: "\<And>y k. y < h \<Longrightarrow> k < w * 4 \<Longrightarrow> \<not> (dy \<le> y \<and> y < dy + dh \<and> dx * 4 \<le> k \<and> k < (dx + dw) * 4) \<Longrightarrow>
       new ! (y * pitch + k) = old ! (y * pitch + k)"
  shows "patch_rows w dx dy dw is_copy (damaged_rows pitch dx dy dw dh new) dh
      (full_rows w pitch is_copy old h s0) = full_rows w pitch is_copy new h s1"
  by (rule damage_patch [OF assms])

theorem damage_patch_exact_witness:
  "patch_rows 2 1 0 1 True (damaged_rows 8 1 0 1 1 [1, 2, 3, 4, 9, 8, 7, 6]) 1
     (full_rows 2 8 True [1, 2, 3, 4, 5, 6, 7, 8] 1 (replicate 8 0)) =
   full_rows 2 8 True [1, 2, 3, 4, 9, 8, 7, 6] 1 (replicate 8 0)"
proof (rule damage_patch_exact [where h = 1 and a = 1 and b = 0 and c = 7 and d = 7])
  fix y k :: nat
  assume "y < 1" "k < 2 * 4" "\<not> (0 \<le> y \<and> y < 0 + 1 \<and> 1 * 4 \<le> k \<and> k < (1 + 1) * 4)"
  then have "y = 0" "k = 0 \<or> k = 1 \<or> k = 2 \<or> k = 3" by auto
  then show "[1, 2, 3, 4, 9, 8, 7, 6 :: u8] ! (y * 8 + k) = [1, 2, 3, 4, 5, 6, 7, 8] ! (y * 8 + k)"
    by auto
qed (simp_all add: clamp_damage_def)

text \<open>The full rebuild writes every pixel: blue, green and red where the encoder expects them, and opaque.\<close>

lemma full_rows_opaque:
  assumes "length bgra = h * (w * 4)" and "w * 4 \<le> pitch" and "length buf = pitch * h" and "y < h" "q < w"
  shows "full_rows w pitch is_copy buf h bgra ! (y * (w * 4) + (4 * q + 3)) = 255"
  using full_rows_nth [OF assms(1-3), of h y q 3 is_copy] assms by (simp add: bgra_at_def)

text \<open>So nothing of the surface it writes into is left.\<close>

lemma full_rows_any:
  assumes "length buf = pitch * h" "w * 4 \<le> pitch" "length s0 = h * (w * 4)" "length s1 = h * (w * 4)"
  shows "full_rows w pitch c buf h s0 = full_rows w pitch c buf h s1"
  by (rule surface_eqI [of _ h w]) (use assms in \<open>simp_all add: length_full_rows full_rows_nth\<close>)

lemma patch_rows_empty: "dw = 0 \<or> n = 0 \<Longrightarrow> patch_rows w dx dy dw c rows n s = s"
  by (induction n) (auto simp: put_bytes_def swizzle_row_to_bgra_def slice_def)

lemma fb_bytes_Some:
  assumes "fb_bytes w h pitch = Some t"
  shows "t = pitch * h" "w * 4 \<le> pitch" "w \<noteq> 0" "h \<noteq> 0" "t \<le> 67108864" "h * (w * 4) \<le> t"
proof -
  show t: "t = pitch * h" "w * 4 \<le> pitch" "w \<noteq> 0" "h \<noteq> 0" "t \<le> 67108864"
    using assms by (auto simp: fb_bytes_def bind_eq_Some_conv split: if_splits)
  show "h * (w * 4) \<le> t" using t by (simp add: mult.commute mult_le_mono2)
qed

lemma cursor_shape_bounds:
  "cursor_shape_ok width height pitch fmt \<Longrightarrow> unat pitch * unat height \<le> 262144 \<and>
     unat width * 4 \<le> unat pitch \<and> unat width * unat height * 4 \<le> 262144 \<and> 0 < unat width \<and> 0 < unat height"
proof -
  assume ok: "cursor_shape_ok width height pitch fmt"
  then have p: "unat pitch * unat height \<le> 262144" "unat width * 4 \<le> unat pitch" "0 < unat width" "0 < unat height"
    by (auto simp: cursor_shape_ok_def Let_def CURSOR_MAX_BYTES_def split: option.splits)
  have "unat width * 4 * unat height \<le> unat pitch * unat height" by (rule mult_le_mono1 [OF p(2)])
  then have "unat width * unat height * 4 \<le> 262144" using p(1) by (simp only: mult_ac)
  then show ?thesis using p by blast
qed

end
