(* ===== verification/Dma_Table.thy ===== *)
theory Dma_Table
  imports Igpu_Prelude "HOL-Library.Multiset"
begin

text \<open>
  \<open>crates/infinigpu-device/src/dma.rs\<close>: the translation of guest addresses to host pointers. The
  \<open>BTreeMap\<close> is an association list keyed by the base address; a host pointer is a number; host
  memory is a function from host addresses to bytes. \<open>mmap\<close> and \<open>munmap\<close> are the operating system's:
  the pointer \<open>mmap\<close> returns is an argument, and \<open>dt_live\<close> records the ranges that are mapped in the
  process, so that a stale or leaked mapping is visible.
\<close>

record Mapping =
  mp_size :: nat
  mp_host :: nat

record DmaTable =
  dt_maps :: "(u64 \<times> Mapping) list"
  dt_live :: "(nat \<times> nat) list"

type_synonym host_mem = "nat \<Rightarrow> u8"

definition DmaTable_new :: DmaTable where
  "DmaTable_new = \<lparr>dt_maps = [], dt_live = []\<rparr>"

datatype io_result = IoOk | IoErr

text \<open>\<open>mmapped\<close> is the result of \<open>mmap\<close>: a pointer, or \<open>None\<close> for \<open>MAP_FAILED\<close>.\<close>

definition dma_map :: "u64 \<Rightarrow> u64 \<Rightarrow> nat option \<Rightarrow> DmaTable \<Rightarrow> io_result \<times> DmaTable" where
  "dma_map iova sz mmapped t = (if sz = 0 then (IoOk, t)
     else case mmapped of
       None \<Rightarrow> (IoErr, t)
     | Some host \<Rightarrow> (IoOk,
         t\<lparr>dt_maps := AList.update iova \<lparr>mp_size = unat sz, mp_host = host\<rparr> (dt_maps t),
           dt_live := (host, unat sz) # dt_live t\<rparr>))"

definition dma_unmap :: "u64 \<Rightarrow> DmaTable \<Rightarrow> DmaTable" where
  "dma_unmap iova t = (case map_of (dt_maps t) iova of
     None \<Rightarrow> t
   | Some m \<Rightarrow> t\<lparr>dt_maps := AList.delete iova (dt_maps t),
       dt_live := remove1 (mp_host m, mp_size m) (dt_live t)\<rparr>)"

definition dma_clear :: "DmaTable \<Rightarrow> DmaTable" where
  "dma_clear t = foldl (\<lambda>t k. dma_unmap k t) t (map fst (dt_maps t))"

text \<open>\<open>range(..=addr).next_back()\<close>: the mapping with the greatest base not above \<open>addr\<close>.\<close>

fun last_at_most :: "u64 \<Rightarrow> (u64 \<times> Mapping) list \<Rightarrow> (u64 \<times> Mapping) option" where
  "last_at_most addr [] = None"
| "last_at_most addr ((base, m) # rest) = (case last_at_most addr rest of
     None \<Rightarrow> if base \<le> addr then Some (base, m) else None
   | Some (base', m') \<Rightarrow> if base \<le> addr \<and> base' < base then Some (base, m) else Some (base', m'))"

definition resolve :: "DmaTable \<Rightarrow> u64 \<Rightarrow> nat \<Rightarrow> nat option" where
  "resolve t addr n = do {
     (base, m) \<leftarrow> last_at_most addr (dt_maps t);
     end \<leftarrow> checked_u64 (unat addr + n);
     limit \<leftarrow> checked_u64 (unat base + mp_size m);
     if end \<le> limit then Some (mp_host m + (unat addr - unat base)) else None }"

definition host_ptr :: "DmaTable \<Rightarrow> u64 \<Rightarrow> nat \<Rightarrow> nat option" where
  "host_ptr t addr n = resolve t addr n"

definition peek :: "host_mem \<Rightarrow> nat \<Rightarrow> nat \<Rightarrow> bytes" where
  "peek mem p n = map (\<lambda>i. mem (p + i)) [0..<n]"

definition poke :: "host_mem \<Rightarrow> nat \<Rightarrow> bytes \<Rightarrow> host_mem" where
  "poke mem p bs = (\<lambda>a. if p \<le> a \<and> a < p + length bs then bs ! (a - p) else mem a)"

definition dma_read :: "DmaTable \<Rightarrow> host_mem \<Rightarrow> u64 \<Rightarrow> nat \<Rightarrow> bytes option" where
  "dma_read t mem addr n = map_option (\<lambda>p. peek mem p n) (resolve t addr n)"

definition dma_write :: "DmaTable \<Rightarrow> host_mem \<Rightarrow> u64 \<Rightarrow> bytes \<Rightarrow> host_mem option" where
  "dma_write t mem addr bs = map_option (\<lambda>p. poke mem p bs) (resolve t addr (length bs))"

definition dma_read_u32 :: "DmaTable \<Rightarrow> host_mem \<Rightarrow> u64 \<Rightarrow> u32 option" where
  "dma_read_u32 t mem addr = map_option (\<lambda>bs. get_u32 bs 0) (dma_read t mem addr 4)"

definition dma_write_u32 :: "DmaTable \<Rightarrow> host_mem \<Rightarrow> u64 \<Rightarrow> u32 \<Rightarrow> host_mem option" where
  "dma_write_u32 t mem addr v = dma_write t mem addr (u32_le v)"

definition dma_len :: "DmaTable \<Rightarrow> nat" where
  "dma_len t = length (dt_maps t)"

definition dma_is_empty :: "DmaTable \<Rightarrow> bool" where
  "dma_is_empty t = (dt_maps t = [])"

subsection \<open>Lookup\<close>

lemma last_at_most_Some:
  "last_at_most addr ms = Some (base, m) \<Longrightarrow> (base, m) \<in> set ms \<and> base \<le> addr \<and>
    (\<forall>(b, m') \<in> set ms. b \<le> addr \<longrightarrow> b \<le> base)"
proof (induction ms arbitrary: base m)
  case (Cons p ms)
  obtain b0 m0 where p: "p = (b0, m0)" by (cases p)
  show ?case
  proof (cases "last_at_most addr ms")
    case None
    have none: "\<not> b \<le> addr" if "(b, m') \<in> set ms" for b m'
      using None that by (induction ms) (auto split: option.splits if_splits)
    from None Cons.prems p none show ?thesis by (auto split: if_splits)
  next
    case (Some q)
    obtain b1 m1 where q: "q = (b1, m1)" by (cases q)
    with Some Cons.IH have ih: "(b1, m1) \<in> set ms \<and> b1 \<le> addr \<and>
        (\<forall>(b, m') \<in> set ms. b \<le> addr \<longrightarrow> b \<le> b1)" by blast
    show ?thesis using Some q Cons.prems p ih by (auto split: if_splits)
  qed
qed simp

lemma last_at_most_None: "last_at_most addr ms = None \<Longrightarrow> (b, m) \<in> set ms \<Longrightarrow> addr < b"
  by (induction ms) (auto split: option.splits if_splits)

lemma resolve_Some:
  assumes "resolve t addr n = Some p"
  obtains base m where "(base, m) \<in> set (dt_maps t)" "unat base \<le> unat addr"
    "unat addr + n \<le> unat base + mp_size m" "p = mp_host m + (unat addr - unat base)"
    "unat base + mp_size m < 2 ^ 64" "last_at_most addr (dt_maps t) = Some (base, m)"
  using assms last_at_most_Some [of addr "dt_maps t"]
  by (fastforce simp: resolve_def bind_eq_Some_conv word_le_nat_alt split: if_splits)

text \<open>In a table whose intervals do not overlap, part of a resolved range resolves inside it.\<close>

definition intervals_apart :: "DmaTable \<Rightarrow> bool" where
  "intervals_apart t \<longleftrightarrow> (\<forall>(b, m) \<in> set (dt_maps t). \<forall>(b', m') \<in> set (dt_maps t).
     unat b \<le> unat b' \<and> unat b' < unat b + mp_size m \<longrightarrow> (b, m) = (b', m'))"

lemma resolve_part:
  assumes apart: "intervals_apart t" and r: "resolve t addr n = Some p" and k: "k + j \<le> n" "0 < j"
  shows "resolve t (addr + word_of_nat k) j = Some (p + k)"
proof -
  obtain b m where bm: "(b, m) \<in> set (dt_maps t)" "unat b \<le> unat addr" "unat addr + n \<le> unat b + mp_size m"
    "p = mp_host m + (unat addr - unat b)" "unat b + mp_size m < 2 ^ 64"
    using resolve_Some [OF r] by metis
  have a: "unat (addr + word_of_nat k) = unat addr + k"
    using bm(3,5) k by (simp add: unat_word_ariths unat_of_nat take_bit_eq_mod)
  obtain b' m' where l: "last_at_most (addr + word_of_nat k) (dt_maps t) = Some (b', m')"
    using last_at_most_None [of "addr + word_of_nat k" "dt_maps t" b m] bm(1,2) a
    by (cases "last_at_most (addr + word_of_nat k) (dt_maps t)") (auto simp: word_less_nat_alt)
  then have "(b', m') \<in> set (dt_maps t)" "unat b' \<le> unat addr + k" "unat b \<le> unat b'"
    using last_at_most_Some [OF l] bm(1,2) a by (auto simp: word_le_nat_alt)
  then have "(b, m) = (b', m')" using apart bm(1,3) k unfolding intervals_apart_def by fastforce
  then show ?thesis using l bm a k by (simp add: resolve_def)
qed

lemma length_peek [simp]: "length (peek mem p n) = n"
  by (simp add: peek_def)

lemma peek_poke [simp]: "peek (poke mem p bs) p (length bs) = bs"
  by (rule nth_equalityI) (simp_all add: peek_def poke_def)

lemma poke_outside: "a < p \<or> p + length bs \<le> a \<Longrightarrow> poke mem p bs a = mem a"
  by (auto simp: poke_def)

lemma peek_cong: "(\<And>a. p \<le> a \<Longrightarrow> a < p + n \<Longrightarrow> mem a = mem' a) \<Longrightarrow> peek mem p n = peek mem' p n"
  by (simp add: peek_def)

lemma peek_poke_apart: "q + n \<le> p \<or> p + length bs \<le> q \<Longrightarrow> peek (poke mem p bs) q n = peek mem q n"
  by (rule peek_cong) (auto simp: poke_def)

lemma peek_take_drop: "i + k \<le> n \<Longrightarrow> take k (drop i (peek mem p n)) = peek mem (p + i) k"
  by (rule nth_equalityI) (simp_all add: peek_def add.assoc)

subsection \<open>The guest memory contract\<close>

text \<open>What the device relies on when it reads and writes guest memory through the table.\<close>

locale guest_memory =
  fixes rd :: "'t \<Rightarrow> host_mem \<Rightarrow> u64 \<Rightarrow> nat \<Rightarrow> bytes option"
    and wr :: "'t \<Rightarrow> host_mem \<Rightarrow> u64 \<Rightarrow> bytes \<Rightarrow> host_mem option"
  assumes rd_length: "rd t mem addr n = Some bs \<Longrightarrow> length bs = n"
    and rd_after_wr: "wr t mem addr bs = Some mem' \<Longrightarrow> rd t mem' addr (length bs) = Some bs"
    and wr_when_rd: "wr t mem addr bs = None \<longleftrightarrow> rd t mem addr (length bs) = None"
    and mapped_fixed: "rd t mem addr n = None \<longleftrightarrow> rd t mem' addr n = None"
begin

lemma wr_total: "rd t mem addr (length bs) \<noteq> None \<Longrightarrow> \<exists>mem'. wr t mem addr bs = Some mem'"
  using wr_when_rd [of t mem addr bs] by auto

lemma wr_twice:
  "wr t mem addr bs = Some mem' \<Longrightarrow> length bs' = length bs \<Longrightarrow>
   \<exists>mem''. wr t mem' addr bs' = Some mem'' \<and> rd t mem'' addr (length bs) = Some bs'"
  using rd_after_wr [of t mem addr bs mem'] wr_total [of t mem' addr bs'] rd_after_wr
  by (metis option.distinct(1))

end

interpretation dma: guest_memory dma_read dma_write
proof
  show "dma_read t mem' addr (length bs) = Some bs" if "dma_write t mem addr bs = Some mem'"
    for t mem addr bs mem'
    using that by (auto simp: dma_write_def dma_read_def)
qed (auto simp: dma_read_def dma_write_def)

subsection \<open>Reachable tables\<close>

inductive dma_reach :: "DmaTable \<Rightarrow> bool" where
  start: "dma_reach DmaTable_new"
| map: "dma_reach t \<Longrightarrow> dma_reach (snd (dma_map iova sz mmapped t))"
| unmap: "dma_reach t \<Longrightarrow> dma_reach (dma_unmap iova t)"
| clear: "dma_reach t \<Longrightarrow> dma_reach (dma_clear t)"

text \<open>Every mapping of the table owns a live range of the process.\<close>

definition host_ranges :: "(u64 \<times> Mapping) list \<Rightarrow> (nat \<times> nat) multiset" where
  "host_ranges ms = image_mset (\<lambda>(b, m). (mp_host m, mp_size m)) (mset ms)"

definition dma_ok :: "DmaTable \<Rightarrow> bool" where
  "dma_ok t \<longleftrightarrow> amap_ok (dt_maps t) \<and> host_ranges (dt_maps t) \<subseteq># mset (dt_live t) \<and>
     (\<forall>(b, m) \<in> set (dt_maps t). 0 < mp_size m \<and> mp_size m < 2 ^ 64)"

lemma host_ranges_Cons [simp]:
  "host_ranges ((b, m) # ms) = add_mset (mp_host m, mp_size m) (host_ranges ms)"
  by (simp add: host_ranges_def)

lemma host_ranges_delete:
  "amap_ok ms \<Longrightarrow> map_of ms k = Some m \<Longrightarrow>
   host_ranges ms = add_mset (mp_host m, mp_size m) (host_ranges (AList.delete k ms))"
proof (induction ms)
  case (Cons p ms)
  obtain b m' where p: "p = (b, m')" by (cases p)
  show ?case
  proof (cases "b = k")
    case True
    have "map_of ms k = None" using Cons.prems(1) True p by (simp add: amap_ok_def map_of_eq_None_iff)
    then show ?thesis using Cons.prems(2) True p by (simp add: delete_absent)
  next
    case False
    with Cons.prems p have "amap_ok ms" "map_of ms k = Some m" by (simp_all add: amap_ok_def)
    from Cons.IH [OF this] show ?thesis
      using False p by (simp add: add_mset_commute [of "(mp_host m, mp_size m)"])
  qed
qed simp

lemma host_ranges_update_le:
  "host_ranges (AList.update k m ms) \<subseteq># add_mset (mp_host m, mp_size m) (host_ranges ms)"
proof (induction ms)
  case (Cons p ms)
  obtain b m' where p: "p = (b, m')" by (cases p)
  show ?case
  proof (cases "b = k")
    case False
    then show ?thesis
      using Cons.IH by (simp add: p add_mset_commute [of "(mp_host m, mp_size m)"])
  qed (simp add: p)
qed (simp add: host_ranges_def)

lemma dma_ok_map:
  assumes "dma_ok t"
  shows "dma_ok (snd (dma_map iova sz mm t))"
proof (cases "sz = 0 \<or> mm = None")
  case True
  with assms show ?thesis by (auto simp: dma_map_def)
next
  case False
  then obtain host where mm: "mm = Some host" by auto
  have sz: "0 < unat sz" using False by (simp add: unat_gt_0)
  let ?m = "\<lparr>mp_size = unat sz, mp_host = host\<rparr>"
  have "host_ranges (AList.update iova ?m (dt_maps t)) \<subseteq># mset ((host, unat sz) # dt_live t)"
    using host_ranges_update_le [of iova ?m "dt_maps t"] assms
    by (auto simp: dma_ok_def intro: subset_mset.order_trans)
  moreover have "set (AList.update iova ?m (dt_maps t)) \<subseteq> insert (iova, ?m) (set (dt_maps t))"
    by (rule set_update_le)
  ultimately show ?thesis
    using assms sz False mm by (auto simp: dma_map_def dma_ok_def)
qed


lemma dma_ok_unmap:
  assumes "dma_ok t"
  shows "dma_ok (dma_unmap iova t)"
proof (cases "map_of (dt_maps t) iova")
  case None
  with assms show ?thesis by (simp add: dma_unmap_def)
next
  case (Some m)
  have ok: "amap_ok (dt_maps t)" and sub: "host_ranges (dt_maps t) \<subseteq># mset (dt_live t)"
    using assms by (simp_all add: dma_ok_def)
  have "add_mset (mp_host m, mp_size m) (host_ranges (AList.delete iova (dt_maps t))) \<subseteq># mset (dt_live t)"
    using sub host_ranges_delete [OF ok Some] by simp
  then have "host_ranges (AList.delete iova (dt_maps t)) \<subseteq># mset (remove1 (mp_host m, mp_size m) (dt_live t))"
    by (simp add: insert_subset_eq_iff)
  then show ?thesis
    using assms ok set_delete_le [of iova "dt_maps t"]
    by (auto simp: dma_unmap_def Some dma_ok_def dest!: subsetD)
qed

lemma dma_ok_clear: "dma_ok t \<Longrightarrow> dma_ok (dma_clear t)"
proof -
  have "dma_ok t \<Longrightarrow> dma_ok (foldl (\<lambda>t k. dma_unmap k t) t ks)" for ks t
    by (induction ks arbitrary: t) (auto intro: dma_ok_unmap)
  then show "dma_ok t \<Longrightarrow> dma_ok (dma_clear t)" by (simp add: dma_clear_def)
qed

lemma dma_reach_ok: "dma_reach t \<Longrightarrow> dma_ok t"
proof (induction rule: dma_reach.induct)
  case start
  show ?case by (simp add: dma_ok_def DmaTable_new_def host_ranges_def)
qed (simp_all add: dma_ok_map dma_ok_unmap dma_ok_clear)

lemma unmap_maps: "dt_maps (dma_unmap k t) = filter (\<lambda>(k', m). k' \<noteq> k) (dt_maps t)"
proof -
  have "dt_maps (dma_unmap k t) = AList.delete k (dt_maps t)"
    by (auto simp: dma_unmap_def delete_absent split: option.split)
  also have "\<dots> = filter (\<lambda>(k', m). k' \<noteq> k) (dt_maps t)"
    unfolding AList.delete_eq by (rule filter_cong) auto
  finally show ?thesis .
qed

lemma clear_empties: "dt_maps (dma_clear t) = []"
proof -
  have "dt_maps (foldl (\<lambda>t k. dma_unmap k t) t ks) = filter (\<lambda>(k', m). k' \<notin> set ks) (dt_maps t)" for ks t
    by (induction ks arbitrary: t) (auto simp: unmap_maps intro: filter_cong)
  then show ?thesis by (auto simp: dma_clear_def filter_empty_conv image_iff)
qed

subsection \<open>Properties\<close>

text \<open>C27: no guest address leads outside a live mapping. Whatever maps, unmaps and clears ran before,
  when a guest address and length resolve to a host pointer, the whole range the caller will touch
  lies inside one range that is currently \<open>mmap\<close>ed in the process, at the same offset from its
  start as the guest address has from the base of its interval.\<close>

theorem dma_resolve_in_bounds:
  assumes "dma_reach t" and "resolve t addr n = Some p"
  shows "\<exists>base m. (base, m) \<in> set (dt_maps t) \<and> (mp_host m, mp_size m) \<in> set (dt_live t) \<and>
    base \<le> addr \<and> p = mp_host m + (unat addr - unat base) \<and> p + n \<le> mp_host m + mp_size m"
proof -
  obtain base m where bm: "(base, m) \<in> set (dt_maps t)" "unat base \<le> unat addr"
    "unat addr + n \<le> unat base + mp_size m" "p = mp_host m + (unat addr - unat base)"
    by (rule resolve_Some [OF assms(2)])
  have "(mp_host m, mp_size m) \<in># host_ranges (dt_maps t)"
    using bm(1) by (force simp: host_ranges_def)
  then have "(mp_host m, mp_size m) \<in> set (dt_live t)"
    using dma_reach_ok [OF assms(1)] by (auto simp: dma_ok_def dest: mset_subset_eqD)
  then show ?thesis using bm by (intro exI [of _ base] exI [of _ m]) (auto simp: word_le_nat_alt)
qed

theorem dma_resolve_in_bounds_witness:
  "let t = snd (dma_map 0x1000 0x100 (Some 7000) DmaTable_new) in
   resolve t 0x1010 16 = Some 7016 \<and> (7000, 256) \<in> set (dt_live t) \<and> 7016 + 16 \<le> 7000 + (256 :: nat) \<and>
   resolve t 0x10F8 16 = None"
proof -
  let ?t = "snd (dma_map 0x1000 0x100 (Some 7000) DmaTable_new)"
  have r: "resolve ?t 0x1010 16 = Some 7016"
    by (simp add: resolve_def dma_map_def DmaTable_new_def word_le_nat_alt)
  have "resolve ?t 0x10F8 16 = None"
    by (simp add: resolve_def dma_map_def DmaTable_new_def word_le_nat_alt)
  with r dma_resolve_in_bounds [OF dma_reach.map [OF dma_reach.start] r]
  show ?thesis by (simp add: Let_def dma_map_def DmaTable_new_def)
qed

text \<open>A mapped range does resolve. When the intervals of the table do not overlap, a non-empty
  range that lies inside an interval resolves to the corresponding host pointer, and a range that
  lies inside none is refused; the refusals cover ranges that run over the end of the interval and
  ranges whose end does not fit 64 bits.\<close>

theorem dma_resolve_complete:
  assumes disjoint: "\<And>b m b' m'. (b, m) \<in> set (dt_maps t) \<Longrightarrow> (b', m') \<in> set (dt_maps t) \<Longrightarrow>
      unat b \<le> unat b' \<Longrightarrow> unat b' < unat b + mp_size m \<Longrightarrow> (b, m) = (b', m')"
    and fits: "\<And>b m. (b, m) \<in> set (dt_maps t) \<Longrightarrow> unat b + mp_size m < 2 ^ 64" and n: "0 < n"
  shows "resolve t addr n = Some p \<longleftrightarrow> (\<exists>b m. (b, m) \<in> set (dt_maps t) \<and> unat b \<le> unat addr \<and>
    unat addr + n \<le> unat b + mp_size m \<and> p = mp_host m + (unat addr - unat b))" (is "_ \<longleftrightarrow> ?inside")
proof
  show ?inside if "resolve t addr n = Some p" using resolve_Some [OF that] by metis
  assume ?inside
  then obtain b m where bm: "(b, m) \<in> set (dt_maps t)" "unat b \<le> unat addr"
    "unat addr + n \<le> unat b + mp_size m" "p = mp_host m + (unat addr - unat b)" by blast
  obtain b' m' where l: "last_at_most addr (dt_maps t) = Some (b', m')"
    using last_at_most_None [of addr "dt_maps t" b m] bm(1,2)
    by (cases "last_at_most addr (dt_maps t)") (auto simp: word_le_nat_alt word_less_nat_alt)
  then have "(b', m') \<in> set (dt_maps t)" "unat b' \<le> unat addr" "unat b \<le> unat b'"
    using last_at_most_Some [OF l] bm(1,2) by (auto simp: word_le_nat_alt)
  then have "(b, m) = (b', m')" using bm n by (intro disjoint) auto
  then show "resolve t addr n = Some p"
    using l bm fits [OF bm(1)] by (simp add: resolve_def)
qed

theorem dma_resolve_complete_witness:
  "resolve \<lparr>dt_maps = [(0x1000, \<lparr>mp_size = 256, mp_host = 7000\<rparr>),
       (0x2000, \<lparr>mp_size = 16, mp_host = 9000\<rparr>)], dt_live = []\<rparr> 0x10F0 16 = Some 7240"
  by (rule dma_resolve_complete [THEN iffD2])
    (auto intro!: exI [of _ "0x1000 :: u64"] exI [of _ "\<lparr>mp_size = 256, mp_host = 7000\<rparr>"])

text \<open>C28: writes land where reads look, and nowhere else. A successful write is read back exactly
  by a read of the same guest range, changes no host byte outside the range the address resolved
  to, and changes nothing that a read of a guest range translated elsewhere returns.\<close>

theorem dma_write_read:
  assumes "dma_write t mem addr bs = Some mem'"
  shows "dma_read t mem' addr (length bs) = Some bs \<and>
    (\<exists>p. resolve t addr (length bs) = Some p \<and>
       (\<forall>a. a < p \<or> p + length bs \<le> a \<longrightarrow> mem' a = mem a) \<and>
       (\<forall>addr' n q. resolve t addr' n = Some q \<and> (q + n \<le> p \<or> p + length bs \<le> q) \<longrightarrow>
          dma_read t mem' addr' n = dma_read t mem addr' n))"
proof
  show "dma_read t mem' addr (length bs) = Some bs" using assms by (rule dma.rd_after_wr)
  obtain p where "resolve t addr (length bs) = Some p" "mem' = poke mem p bs"
    using assms by (auto simp: dma_write_def)
  then show "\<exists>p. resolve t addr (length bs) = Some p \<and>
       (\<forall>a. a < p \<or> p + length bs \<le> a \<longrightarrow> mem' a = mem a) \<and>
       (\<forall>addr' n q. resolve t addr' n = Some q \<and> (q + n \<le> p \<or> p + length bs \<le> q) \<longrightarrow>
          dma_read t mem' addr' n = dma_read t mem addr' n)"
    by (auto simp: poke_outside peek_poke_apart dma_read_def)
qed

theorem dma_write_read_witness:
  "let t = \<lparr>dt_maps = [(0x1000, \<lparr>mp_size = 256, mp_host = 7000\<rparr>)], dt_live = []\<rparr> in
   case dma_write t (\<lambda>_. 0) 0x1010 [1, 2] of None \<Rightarrow> False
   | Some mem \<Rightarrow> dma_read t mem 0x1010 2 = Some [1, 2] \<and> mem 7018 = 0"
proof -
  let ?t = "\<lparr>dt_maps = [(0x1000, \<lparr>mp_size = 256, mp_host = 7000\<rparr>)], dt_live = []\<rparr>"
  have r: "resolve ?t 0x1010 2 = Some 7016" by (simp add: resolve_def word_le_nat_alt)
  then obtain mem where w: "dma_write ?t (\<lambda>_. 0) 0x1010 [1, 2] = Some mem"
    by (simp add: dma_write_def numeral_2_eq_2)
  from dma_write_read [OF w] w r show ?thesis by (auto simp: numeral_2_eq_2)
qed

text \<open>Mapping a second time at a base address that is already mapped replaces the entry without
  unmapping the first range: it stays live in the process and no later operation releases it.\<close>

lemma dma_remap_leaks:
  "let t = snd (dma_map 0x1000 16 (Some 9000) (snd (dma_map 0x1000 16 (Some 7000) DmaTable_new))) in
   dt_live t = [(9000, 16), (7000, 16)] \<and> dt_live (dma_clear t) = [(7000, 16)] \<and> dt_maps (dma_clear t) = []"
  by (simp add: dma_map_def DmaTable_new_def dma_clear_def dma_unmap_def Let_def)

end
