(* ===== verification/Drain_Batch.thy ===== *)
theory Drain_Batch
  imports Spsc_Ring Dma_Table
begin

text \<open>
  \<open>crates/infinigpu-device/src/drain.rs\<close>: the bounded drain of a descriptor ring that lives in guest
  memory. \<open>mem_pop\<close> and \<open>mem_push\<close> are the ring operations over the bytes of the shared index page
  (\<open>tail\<close> at 0, \<open>head\<close> at 4, \<open>seqno_submit\<close> at 8, \<open>seqno_retired\<close> at 16, \<open>status\<close> at 24) and of the
  descriptor array; they refine the ring of \<open>Spsc_Ring\<close> as long as the two areas do not overlap.
\<close>

subsection \<open>The ring in memory\<close>

definition mem_u32 :: "host_mem \<Rightarrow> nat \<Rightarrow> u32" where
  "mem_u32 mem p = word_of_nat (nat_of_le (peek mem p 4))"

definition mem_u64 :: "host_mem \<Rightarrow> nat \<Rightarrow> u64" where
  "mem_u64 mem p = word_of_nat (nat_of_le (peek mem p 8))"

definition desc_at :: "host_mem \<Rightarrow> nat \<Rightarrow> Descriptor" where
  "desc_at mem p = \<lparr>d_msg_type = mem_u32 mem p, d_flags = mem_u32 mem (p + 4),
     d_len = mem_u32 mem (p + 8), d_data_offset = mem_u32 mem (p + 12),
     d_seqno = mem_u64 mem (p + 16), d_payload_addr = mem_u64 mem (p + 24)\<rparr>"

definition indices_at :: "host_mem \<Rightarrow> nat \<Rightarrow> Indices" where
  "indices_at mem p = \<lparr>ix_tail = mem_u32 mem p, ix_head = mem_u32 mem (p + 4),
     ix_seqno_submit = mem_u64 mem (p + 8), ix_seqno_retired = mem_u64 mem (p + 16),
     ix_status = mem_u32 mem (p + 24)\<rparr>"

definition slots_at :: "host_mem \<Rightarrow> nat \<Rightarrow> nat \<Rightarrow> Descriptor list" where
  "slots_at mem p cap = map (\<lambda>i. desc_at mem (p + 32 * i)) [0..<cap]"

definition ring_over_shared :: "host_mem \<Rightarrow> nat \<Rightarrow> nat \<Rightarrow> nat \<Rightarrow> RingError + Descriptor Ring" where
  "ring_over_shared mem index_ptr desc_ptr cap =
     from_parts (slots_at mem desc_ptr cap) (indices_at mem index_ptr)"

definition mem_pop :: "nat \<Rightarrow> nat \<Rightarrow> nat \<Rightarrow> host_mem \<Rightarrow> Descriptor option \<times> host_mem" where
  "mem_pop index_ptr desc_ptr cap mem =
    (let head = mem_u32 mem (index_ptr + 4); tail = mem_u32 mem index_ptr in
     if head = tail then (None, mem)
     else (Some (desc_at mem (desc_ptr + 32 * unat (and head (word_of_nat (cap - 1))))),
           poke mem (index_ptr + 4) (u32_le (head + 1))))"

definition mem_push :: "nat \<Rightarrow> nat \<Rightarrow> nat \<Rightarrow> Descriptor \<Rightarrow> host_mem \<Rightarrow> (RingError + u64) \<times> host_mem" where
  "mem_push index_ptr desc_ptr cap d mem =
    (let tail = mem_u32 mem index_ptr; head = mem_u32 mem (index_ptr + 4); mask = word_of_nat (cap - 1) in
     if mask + 1 \<le> tail - head then (Inl Full, mem)
     else let seqno = (ucast (tail + 1) :: u64) in
       (Inr seqno, poke (poke (poke mem (desc_ptr + 32 * unat (and tail mask)) (enc_Descriptor d))
          (index_ptr + 8) (u64_le seqno)) index_ptr (u32_le (tail + 1))))"

subsection \<open>Phase one and the retire\<close>

record Drained =
  dr_descriptors :: "Descriptor list"
  dr_highest_seqno :: u64

fun pop_loop :: "('r \<Rightarrow> 'a option \<times> 'r) \<Rightarrow> ('a \<Rightarrow> u64) \<Rightarrow> nat \<Rightarrow> 'a list \<Rightarrow> u64 \<Rightarrow> 'r \<Rightarrow> 'a list \<times> u64 \<times> 'r" where
  "pop_loop pop seq 0 ds hi r = (ds, hi, r)"
| "pop_loop pop seq (Suc n) ds hi r = (case pop r of
     (Some d, r') \<Rightarrow> pop_loop pop seq n (ds @ [d]) (if hi < seq d then seq d else hi) r'
   | (None, r') \<Rightarrow> (ds, hi, r'))"

definition pop_batch :: "nat \<Rightarrow> nat \<Rightarrow> nat \<Rightarrow> nat \<Rightarrow> host_mem \<Rightarrow> Drained \<times> host_mem" where
  "pop_batch index_ptr desc_ptr cap maxn mem =
    (case pop_loop (mem_pop index_ptr desc_ptr cap) d_seqno (min maxn cap) [] 0 mem of
       (ds, hi, mem') \<Rightarrow> (\<lparr>dr_descriptors = ds, dr_highest_seqno = hi\<rparr>, mem'))"

definition retire_over_shared :: "nat \<Rightarrow> nat \<Rightarrow> nat \<Rightarrow> u64 \<Rightarrow> host_mem \<Rightarrow> (RingError + unit) \<times> host_mem" where
  "retire_over_shared index_ptr desc_ptr cap highest_seqno mem =
    (if highest_seqno = 0 then (Inr (), mem)
     else case ring_over_shared mem index_ptr desc_ptr cap of
       Inl e \<Rightarrow> (Inl e, mem)
     | Inr r \<Rightarrow> (Inr (), poke mem (index_ptr + 16) (u64_le highest_seqno)))"

subsection \<open>Reading and writing fields\<close>

lemma mem_u32_poke [simp]: "mem_u32 (poke mem p (u32_le v)) p = v"
  using peek_poke [of mem p "u32_le v"] by (simp add: mem_u32_def)

lemma mem_u64_poke [simp]: "mem_u64 (poke mem p (u64_le v)) p = v"
  using peek_poke [of mem p "u64_le v"] by (simp add: mem_u64_def)

lemma mem_u32_apart [simp]:
  "q + 4 \<le> p \<or> p + length bs \<le> q \<Longrightarrow> mem_u32 (poke mem p bs) q = mem_u32 mem q"
  by (simp add: mem_u32_def peek_poke_apart)

lemma mem_u64_apart [simp]:
  "q + 8 \<le> p \<or> p + length bs \<le> q \<Longrightarrow> mem_u64 (poke mem p bs) q = mem_u64 mem q"
  by (simp add: mem_u64_def peek_poke_apart)

lemma desc_at_apart [simp]:
  "q + 32 \<le> p \<or> p + length bs \<le> q \<Longrightarrow> desc_at (poke mem p bs) q = desc_at mem q"
  by (auto simp: desc_at_def)

lemma desc_at_enc: "peek mem p 32 = enc_Descriptor d \<Longrightarrow> desc_at mem p = d"
proof -
  assume e: "peek mem p 32 = enc_Descriptor d"
  have t: "peek mem (p + i) k = take k (drop i (enc_Descriptor d))" if "i + k \<le> 32" for i k
    using peek_take_drop [OF that, of mem p] e by simp
  show ?thesis
    using t [of 0 4] t [of 4 4] t [of 8 4] t [of 12 4] t [of 16 8] t [of 24 8]
    by (simp add: desc_at_def mem_u32_def mem_u64_def enc_Descriptor_def)
qed

lemma length_enc_Descriptor [simp]: "length (enc_Descriptor d) = 32"
  by (rule d_codec.length_enc)

lemma desc_at_poke [simp]: "desc_at (poke mem p (enc_Descriptor d)) p = d"
  using peek_poke [of mem p "enc_Descriptor d"] by (intro desc_at_enc) simp

lemma length_slots_at [simp]: "length (slots_at mem p cap) = cap"
  by (simp add: slots_at_def)

lemma slots_at_nth: "i < cap \<Longrightarrow> slots_at mem p cap ! i = desc_at mem (p + 32 * i)"
  by (simp add: slots_at_def)

subsection \<open>The view and the refinement\<close>

definition apart :: "nat \<Rightarrow> nat \<Rightarrow> nat \<Rightarrow> bool" where
  "apart index_ptr desc_ptr cap \<longleftrightarrow> index_ptr + 64 \<le> desc_ptr \<or> desc_ptr + 32 * cap \<le> index_ptr"

definition ring_view :: "nat \<Rightarrow> nat \<Rightarrow> nat \<Rightarrow> host_mem \<Rightarrow> Descriptor Ring" where
  "ring_view index_ptr desc_ptr cap mem = \<lparr>ring_slots = slots_at mem desc_ptr cap,
     ring_idx = indices_at mem index_ptr, ring_mask = word_of_nat (cap - 1)\<rparr>"

lemma slots_poke_index:
  assumes "apart ip dp cap" "off + length bs \<le> 64"
  shows "slots_at (poke mem (ip + off) bs) dp cap = slots_at mem dp cap"
proof -
  have "desc_at (poke mem (ip + off) bs) (dp + 32 * i) = desc_at mem (dp + 32 * i)" if "i < cap" for i
    using assms that by (intro desc_at_apart) (auto simp: apart_def)
  then show ?thesis by (simp add: slots_at_def)
qed

lemma indices_poke_slot:
  assumes "apart ip dp cap" "i < cap"
  shows "indices_at (poke mem (dp + 32 * i) (enc_Descriptor d)) ip = indices_at mem ip"
  using assms by (auto simp: indices_at_def apart_def)

lemma slots_poke_slot:
  assumes "i < cap"
  shows "slots_at (poke mem (dp + 32 * i) (enc_Descriptor d)) dp cap = (slots_at mem dp cap)[i := d]"
proof (rule nth_equalityI)
  fix k assume "k < length (slots_at (poke mem (dp + 32 * i) (enc_Descriptor d)) dp cap)"
  then have "k < cap" by simp
  then show "slots_at (poke mem (dp + 32 * i) (enc_Descriptor d)) dp cap ! k = (slots_at mem dp cap)[i := d] ! k"
    by (cases "k = i"; cases "k < i") (auto simp: slots_at_def intro!: desc_at_apart)
qed simp

lemma mem_pop_refines:
  assumes "apart ip dp cap" "cap_ok cap" "mem_pop ip dp cap mem = (out, mem')"
  shows "ring_pop (ring_view ip dp cap mem) = (out, ring_view ip dp cap mem')"
proof -
  have "unat (and (mem_u32 mem (ip + 4)) (word_of_nat (cap - 1))) < cap"
    using slot_of_lt [OF assms(2), of "mem_u32 mem (ip + 4)"] unfolding slot_of_def .
  then have "slots_at mem dp cap ! unat (and (mem_u32 mem (ip + 4)) (word_of_nat (cap - 1))) =
      desc_at mem (dp + 32 * unat (and (mem_u32 mem (ip + 4)) (word_of_nat (cap - 1))))"
    by (rule slots_at_nth)
  moreover have "slots_at (poke mem (ip + 4) (u32_le h)) dp cap = slots_at mem dp cap" for h
    by (rule slots_poke_index [OF assms(1)]) simp
  moreover have "indices_at (poke mem (ip + 4) (u32_le h)) ip = (indices_at mem ip)\<lparr>ix_head := h\<rparr>" for h
    by (simp add: indices_at_def)
  ultimately show ?thesis
    using assms(3)
    by (auto simp: mem_pop_def ring_pop_def ring_view_def Let_def indices_at_def split: if_splits)
qed

lemma mem_push_refines:
  assumes "apart ip dp cap" "cap_ok cap" "mem_push ip dp cap d mem = (out, mem')"
  shows "ring_push d (ring_view ip dp cap mem) = (out, ring_view ip dp cap mem')"
proof -
  let ?tail = "mem_u32 mem ip" and ?mask = "word_of_nat (cap - 1) :: u32"
  let ?i = "unat (and ?tail ?mask)"
  let ?m1 = "poke mem (dp + 32 * ?i) (enc_Descriptor d)"
  have i: "?i < cap" using slot_of_lt [OF assms(2), of ?tail] unfolding slot_of_def .
  have "slots_at (poke (poke ?m1 (ip + 8) (u64_le s)) ip (u32_le t)) dp cap = (slots_at mem dp cap)[?i := d]" for s t
    using slots_poke_index [OF assms(1), of 0 "u32_le t"] slots_poke_index [OF assms(1), of 8 "u64_le s"]
      slots_poke_slot [OF i] by simp
  moreover have "indices_at (poke (poke ?m1 (ip + 8) (u64_le s)) ip (u32_le t)) ip =
      (indices_at mem ip)\<lparr>ix_seqno_submit := s, ix_tail := t\<rparr>" for s t
    using indices_poke_slot [OF assms(1) i, of mem d] by (simp add: indices_at_def)
  ultimately show ?thesis
    using assms(3)
    by (auto simp: mem_push_def ring_push_def ring_view_def Let_def ring_capacity_def indices_at_def
        split: if_splits)
qed

subsection \<open>The memory ring is a queue\<close>

text \<open>The client side of the queue contract: what a bounded drain returns.\<close>

context fifo_ring begin

lemma pop_loop_takes:
  "ok r \<Longrightarrow> pop_loop pop seq n ds hi r = (ds', hi', r') \<Longrightarrow>
   ds' = ds @ take n (items r) \<and> items r' = drop n (items r) \<and> ok r' \<and> cap r' = cap r"
proof (induction n arbitrary: ds hi r)
  case (Suc n)
  from \<open>ok r\<close> show ?case
  proof (cases rule: pop_cases [of r])
    case (some x xs r1)
    have "pop_loop pop seq n (ds @ [x]) (if hi < seq x then seq x else hi) r1 = (ds', hi', r')"
      using Suc.prems(2) some(1) by simp
    from Suc.IH [OF some(2) this] show ?thesis using some by simp
  next
    case none
    then show ?thesis using Suc.prems by simp
  qed
qed auto

lemma pop_loop_highest:
  "ok r \<Longrightarrow> pop_loop pop seq n ds hi r = (ds', hi', r') \<Longrightarrow>
   hi' = fold max (map seq (take n (items r))) hi"
proof (induction n arbitrary: ds hi r)
  case (Suc n)
  from \<open>ok r\<close> show ?case
  proof (cases rule: pop_cases [of r])
    case (some x xs r')
    have "hi' = fold max (map seq (take n xs)) (if hi < seq x then seq x else hi)"
      using Suc.IH [OF some(2)] Suc.prems(2) some by auto
    moreover have "(if hi < seq x then seq x else hi) = max (seq x) hi" by (auto simp: max_def)
    ultimately show ?thesis using some(3) by simp
  next
    case none
    then show ?thesis using Suc.prems by simp
  qed
qed simp

end

definition mem_ring_ok :: "nat \<Rightarrow> nat \<Rightarrow> nat \<Rightarrow> host_mem \<Rightarrow> bool" where
  "mem_ring_ok ip dp n mem \<longleftrightarrow> apart ip dp n \<and> ring_ok (ring_view ip dp n mem)"

lemma ring_cap_view [simp]: "ring_cap (ring_view ip dp n mem) = n"
  by (simp add: ring_cap_def ring_view_def)

lemma mem_ring_ok_cap: "mem_ring_ok ip dp n mem \<Longrightarrow> cap_ok n"
  by (simp add: mem_ring_ok_def ring_ok_def ring_view_def)

interpretation mring: fifo_ring "mem_push ip dp n" "mem_pop ip dp n"
    "\<lambda>mem. ring_items (ring_view ip dp n mem)" "mem_ring_ok ip dp n" "\<lambda>_. n" for ip dp n
proof
  fix mem assume ok: "mem_ring_ok ip dp n mem"
  note ap = ok [unfolded mem_ring_ok_def, THEN conjunct1] and view = ok [unfolded mem_ring_ok_def, THEN conjunct2]
  note cap = mem_ring_ok_cap [OF ok]
  show "length (ring_items (ring_view ip dp n mem)) \<le> n"
    using spsc.bounded [OF view] by simp
  show "\<exists>s mem'. mem_push ip dp n x mem = (Inr s, mem') \<and> mem_ring_ok ip dp n mem' \<and>
      ring_items (ring_view ip dp n mem') = ring_items (ring_view ip dp n mem) @ [x] \<and> n = n"
    if "length (ring_items (ring_view ip dp n mem)) < n" for x
    using spsc.push_accepts [OF view, of x] that mem_push_refines [OF ap cap, of x mem]
    by (cases "mem_push ip dp n x mem") (auto simp: mem_ring_ok_def ap)
  show "\<exists>e. mem_push ip dp n x mem = (Inl e, mem)"
    if full: "length (ring_items (ring_view ip dp n mem)) = n" for x
  proof -
    obtain out mem' where push: "mem_push ip dp n x mem = (out, mem')" by (cases "mem_push ip dp n x mem")
    obtain e where "ring_push x (ring_view ip dp n mem) = (Inl e, ring_view ip dp n mem)"
      using spsc.push_refuses [OF view, of x] full unfolding ring_cap_view by blast
    then have "out = Inl e" using mem_push_refines [OF ap cap push] by simp
    with push show ?thesis by (auto simp: mem_push_def Let_def split: if_splits)
  qed
  show "\<exists>mem'. mem_pop ip dp n mem = (Some x, mem') \<and> mem_ring_ok ip dp n mem' \<and>
      ring_items (ring_view ip dp n mem') = xs \<and> n = n"
    if "ring_items (ring_view ip dp n mem) = x # xs" for x xs
    using spsc.pop_takes [OF view that] mem_pop_refines [OF ap cap, of mem]
    by (cases "mem_pop ip dp n mem") (auto simp: mem_ring_ok_def ap)
next
  fix mem assume "ring_items (ring_view ip dp n mem) = []"
  from pop_empty [OF this] show "mem_pop ip dp n mem = (None, mem)"
    by (auto simp: ring_pop_def ring_view_def indices_at_def mem_pop_def Let_def split: if_splits)
qed


subsection \<open>Properties\<close>

text \<open>C32: the ring in guest memory is the ring of the protocol. A push or a pop on the bytes of the
  shared index page and descriptor array returns what the abstract ring returns, and leaves bytes
  that read back as the abstract ring's next state; the refusals agree too.\<close>

theorem memory_ring_refines_ring:
  assumes "mem_ring_ok ip dp cap mem"
  shows "ring_push d (ring_view ip dp cap mem) =
      (case mem_push ip dp cap d mem of (out, mem') \<Rightarrow> (out, ring_view ip dp cap mem')) \<and>
    ring_pop (ring_view ip dp cap mem) =
      (case mem_pop ip dp cap mem of (out, mem') \<Rightarrow> (out, ring_view ip dp cap mem'))"
  using mem_push_refines [of ip dp cap d mem] mem_pop_refines [of ip dp cap mem] assms
    mem_ring_ok_cap [OF assms]
  by (cases "mem_push ip dp cap d mem"; cases "mem_pop ip dp cap mem") (simp add: mem_ring_ok_def)

text \<open>A zeroed index page over any descriptor array of a valid size is a well-formed, empty ring.\<close>

lemma zero_page_ring_ok: "apart ip dp cap \<Longrightarrow> cap_ok cap \<Longrightarrow> mem_ring_ok ip dp cap (\<lambda>_. 0)"
  by (simp add: mem_ring_ok_def ring_ok_def ring_view_def ring_len_def indices_at_def mem_u32_def
      mem_u64_def peek_def)

definition demo_desc :: Descriptor where
  "demo_desc = \<lparr>d_msg_type = MSG_SUBMIT_CMD, d_flags = 0, d_len = 0, d_data_offset = 0, d_seqno = 1,
     d_payload_addr = 0\<rparr>"

theorem memory_ring_refines_ring_witness:
  "ring_pop (ring_view 0 64 4 (snd (mem_push 0 64 4 demo_desc (\<lambda>_. 0)))) =
     (Some demo_desc, ring_view 0 64 4 (snd (mem_pop 0 64 4 (snd (mem_push 0 64 4 demo_desc (\<lambda>_. 0))))))"
proof -
  let ?z = "\<lambda>_ :: nat. 0 :: u8" and ?m = "snd (mem_push 0 64 4 demo_desc (\<lambda>_. 0))"
  have cap: "cap_ok 4" using cap_ok_pow [of 2] by simp
  have ok: "mem_ring_ok 0 64 4 ?z" by (intro zero_page_ring_ok cap) (simp add: apart_def)
  have empty: "ring_items (ring_view 0 64 4 ?z) = []"
    by (simp add: ring_items_def ring_len_def ring_view_def indices_at_def mem_u32_def peek_def)
  then have m: "mem_ring_ok 0 64 4 ?m" "ring_items (ring_view 0 64 4 ?m) = [demo_desc]"
    using mring.push_accepts [OF ok, of demo_desc] by auto
  obtain mem' where "mem_pop 0 64 4 ?m = (Some demo_desc, mem')"
    using mring.pop_takes [OF m] by auto
  with memory_ring_refines_ring [OF m(1), of demo_desc] show ?thesis by simp
qed

text \<open>C33: one drain takes at most a capacity of descriptors, in submission order. On a well-formed
  shared ring the batch is exactly the oldest \<open>min max capacity\<close> queued descriptors, the rest stays
  queued, and the reported seqno is the largest one in the batch.\<close>

theorem pop_batch_bounded_fifo:
  assumes "mem_ring_ok ip dp cap mem" and "pop_batch ip dp cap maxn mem = (d, mem')"
  shows "dr_descriptors d = take (min maxn cap) (ring_items (ring_view ip dp cap mem)) \<and>
    ring_items (ring_view ip dp cap mem') = drop (min maxn cap) (ring_items (ring_view ip dp cap mem)) \<and>
    dr_highest_seqno d = Max (insert 0 (d_seqno ` set (dr_descriptors d))) \<and>
    mem_ring_ok ip dp cap mem'"
proof -
  obtain ds hi where run: "pop_loop (mem_pop ip dp cap) d_seqno (min maxn cap) [] 0 mem = (ds, hi, mem')"
    and d: "d = \<lparr>dr_descriptors = ds, dr_highest_seqno = hi\<rparr>"
    using assms(2) by (auto simp: pop_batch_def split: prod.splits)
  have ds: "ds = take (min maxn cap) (ring_items (ring_view ip dp cap mem))"
    using mring.pop_loop_takes [OF assms(1) run] by simp
  have "hi = fold max (map d_seqno ds) 0"
    using mring.pop_loop_highest [OF assms(1) run] ds by simp
  also have "\<dots> = Max (set (0 # map d_seqno ds))"
    by (metis Max.set_eq_fold)
  finally have "hi = Max (insert 0 (d_seqno ` set ds))" by simp
  then show ?thesis using mring.pop_loop_takes [OF assms(1) run] d by simp
qed

theorem pop_batch_bounded_fifo_witness:
  "let mem = snd (mem_push 0 64 4 demo_desc (\<lambda>_. 0)) in
   case pop_batch 0 64 4 16 mem of (b, mem') \<Rightarrow>
     dr_descriptors b = [demo_desc] \<and> dr_highest_seqno b = 1 \<and>
     ring_items (ring_view 0 64 4 mem') = []"
proof -
  let ?z = "\<lambda>_ :: nat. 0 :: u8" and ?d = "demo_desc"
  let ?m = "snd (mem_push 0 64 4 ?d ?z)"
  have cap: "cap_ok 4" using cap_ok_pow [of 2] by simp
  have ok: "mem_ring_ok 0 64 4 ?z" by (intro zero_page_ring_ok cap) (simp add: apart_def)
  have empty: "ring_items (ring_view 0 64 4 ?z) = []"
    by (simp add: ring_items_def ring_len_def ring_view_def indices_at_def mem_u32_def peek_def)
  then have m: "mem_ring_ok 0 64 4 ?m" "ring_items (ring_view 0 64 4 ?m) = [?d]"
    using mring.push_accepts [OF ok, of ?d] by auto
  obtain b mem' where b: "pop_batch 0 64 4 16 ?m = (b, mem')" by (cases "pop_batch 0 64 4 16 ?m")
  from pop_batch_bounded_fifo [OF m(1) b] b m(2) show ?thesis by (simp add: Let_def demo_desc_def)
qed

text \<open>Retiring publishes the seqno and nothing else. On a well-formed shared ring a non-zero seqno
  is stored as the retired word, so exactly the fences up to it read as signalled; the queue, the
  status and the submitted word are unchanged. Seqno zero stores nothing.\<close>

theorem retire_publishes:
  assumes "mem_ring_ok ip dp cap mem"
  shows "\<exists>mem'. retire_over_shared ip dp cap s mem = (Inr (), mem') \<and>
    ring_view ip dp cap mem' = (if s = 0 then ring_view ip dp cap mem
      else ring_retire s (ring_view ip dp cap mem)) \<and>
    ring_items (ring_view ip dp cap mem') = ring_items (ring_view ip dp cap mem)"
proof -
  have cap: "cap_ok cap" and ap: "apart ip dp cap"
    using assms mem_ring_ok_cap by (auto simp: mem_ring_ok_def)
  have slots: "slots_at (poke mem (ip + 16) (u64_le s)) dp cap = slots_at mem dp cap"
    by (rule slots_poke_index [OF ap]) simp
  have idx: "indices_at (poke mem (ip + 16) (u64_le s)) ip = (indices_at mem ip)\<lparr>ix_seqno_retired := s\<rparr>"
    by (simp add: indices_at_def)
  have "\<exists>r. ring_over_shared mem ip dp cap = Inr r"
    using cap from_parts_iff [of "slots_at mem dp cap" "indices_at mem ip"]
    by (simp add: ring_over_shared_def)
  then show ?thesis
    using slots idx
    by (auto simp: retire_over_shared_def ring_view_def ring_retire_def ring_items_def ring_len_def)
qed

theorem retire_publishes_witness:
  "\<exists>mem'. retire_over_shared 0 64 4 9 (\<lambda>_. 0) = (Inr (), mem') \<and>
     ring_retired (ring_view 0 64 4 mem') = 9"
proof -
  have ok: "mem_ring_ok 0 64 4 (\<lambda>_. 0)"
    using cap_ok_pow [of 2] by (intro zero_page_ring_ok) (simp_all add: apart_def)
  from retire_publishes [OF ok, of 9] show ?thesis by (auto simp: ring_retired_def ring_retire_def)
qed

text \<open>The store is unconditional: draining a descriptor with a smaller seqno moves the published word
  back, and a fence that had been signalled reads as pending again.\<close>

lemma retired_word_goes_back:
  assumes "mem_ring_ok ip dp cap mem"
  shows "let m1 = snd (retire_over_shared ip dp cap 9 mem); m2 = snd (retire_over_shared ip dp cap 5 m1) in
    is_fence_signaled 9 (ring_view ip dp cap m1) \<and> \<not> is_fence_signaled 9 (ring_view ip dp cap m2)"
proof -
  let ?m1 = "poke mem (ip + 16) (u64_le 9)"
  have geo: "\<exists>r. ring_over_shared m ip dp cap = Inr r" for m
    using mem_ring_ok_cap [OF assms] from_parts_iff [of "slots_at m dp cap" "indices_at m ip"]
    by (simp add: ring_over_shared_def)
  obtain r1 r2 where "ring_over_shared mem ip dp cap = Inr r1" "ring_over_shared ?m1 ip dp cap = Inr r2"
    using geo by blast
  then have m: "snd (retire_over_shared ip dp cap 9 mem) = ?m1"
    "snd (retire_over_shared ip dp cap 5 ?m1) = poke ?m1 (ip + 16) (u64_le 5)"
    by (simp_all add: retire_over_shared_def)
  show ?thesis
    by (simp add: Let_def m fence_plain_compare ring_retired_def ring_view_def indices_at_def)
qed

end
