(* ===== verification/Resource_Table.thy ===== *)
theory Resource_Table
  imports Abi_Wire
begin

text \<open>
  \<open>crates/infinigpu-device/src/resource.rs\<close>: the table of blob resources, their guest backing and
  the scanout heads bound to them. All requests come from the guest; each operation either succeeds
  or leaves the table as it was.
\<close>

definition MAX_RESOURCES :: nat where [simp]: "MAX_RESOURCES = 1024"
definition MAX_BLOB_BYTES :: u64 where [simp]: "MAX_BLOB_BYTES = 67108864"
definition MAX_DIM :: u32 where [simp]: "MAX_DIM = 16384"

record BackingSegment =
  bs_addr :: u64
  bs_len :: u64

record HostResource =
  hr_res_id :: u32
  hr_blob_mem :: u32
  hr_size :: u64
  hr_backing :: "BackingSegment list"

record ScanoutBinding =
  sb_res_id :: u32
  sb_width :: u32
  sb_height :: u32
  sb_format :: u32
  sb_stride :: u32

datatype ResourceError = TableFull | Duplicate u32 | BadSize u64 u64 | Unknown u32 | BadDims | BackingTooSmall

record ResourceTable =
  rt_resources :: "(u32 \<times> HostResource) list"
  rt_scanouts :: "(u32 \<times> ScanoutBinding) list"

type_synonym table_result = "(ResourceError + unit) \<times> ResourceTable"

definition ResourceTable_new :: ResourceTable where
  "ResourceTable_new = \<lparr>rt_resources = [], rt_scanouts = []\<rparr>"

definition create_blob :: "u32 \<Rightarrow> u32 \<Rightarrow> u64 \<Rightarrow> ResourceTable \<Rightarrow> table_result" where
  "create_blob res_id blob_mem sz t =
    (if MAX_RESOURCES \<le> length (rt_resources t) then (Inl TableFull, t)
     else if sz = 0 \<or> MAX_BLOB_BYTES < sz then (Inl (BadSize sz MAX_BLOB_BYTES), t)
     else if map_of (rt_resources t) res_id \<noteq> None then (Inl (Duplicate res_id), t)
     else (Inr (), t\<lparr>rt_resources := AList.update res_id
       \<lparr>hr_res_id = res_id, hr_blob_mem = blob_mem, hr_size = sz, hr_backing = []\<rparr> (rt_resources t)\<rparr>))"

fun checked_total :: "nat \<Rightarrow> BackingSegment list \<Rightarrow> nat option" where
  "checked_total tot [] = Some tot"
| "checked_total tot (s # segs) = checked_u64 (tot + unat (bs_len s)) \<bind> (\<lambda>t. checked_total t segs)"

definition attach_backing :: "u32 \<Rightarrow> BackingSegment list \<Rightarrow> ResourceTable \<Rightarrow> table_result" where
  "attach_backing res_id segments t = (case map_of (rt_resources t) res_id of
     None \<Rightarrow> (Inl (Unknown res_id), t)
   | Some res \<Rightarrow> (case checked_total 0 segments of
       None \<Rightarrow> (Inl BackingTooSmall, t)
     | Some tot \<Rightarrow> if tot < unat (hr_size res) then (Inl BackingTooSmall, t)
         else (Inr (), t\<lparr>rt_resources :=
           AList.update res_id (res\<lparr>hr_backing := segments\<rparr>) (rt_resources t)\<rparr>)))"

definition set_scanout :: "u32 \<Rightarrow> u32 \<Rightarrow> u32 \<Rightarrow> u32 \<Rightarrow> u32 \<Rightarrow> u32 \<Rightarrow> ResourceTable \<Rightarrow> table_result" where
  "set_scanout scanout_id res_id width height fmt stride t =
    (if map_of (rt_resources t) res_id = None then (Inl (Unknown res_id), t)
     else if width = 0 \<or> height = 0 \<or> MAX_DIM < width \<or> MAX_DIM < height then (Inl BadDims, t)
     else if unat stride < unat width * 4 then (Inl BadDims, t)
     else (Inr (), t\<lparr>rt_scanouts := AList.update scanout_id
       \<lparr>sb_res_id = res_id, sb_width = width, sb_height = height, sb_format = fmt, sb_stride = stride\<rparr>
       (rt_scanouts t)\<rparr>))"

definition destroy_resource :: "u32 \<Rightarrow> ResourceTable \<Rightarrow> table_result" where
  "destroy_resource res_id t = (if map_of (rt_resources t) res_id = None then (Inl (Unknown res_id), t)
     else (Inr (), t\<lparr>rt_resources := AList.delete res_id (rt_resources t),
       rt_scanouts := filter (\<lambda>(_, b). sb_res_id b \<noteq> res_id) (rt_scanouts t)\<rparr>))"

definition get_resource :: "u32 \<Rightarrow> ResourceTable \<Rightarrow> HostResource option" where
  "get_resource res_id t = map_of (rt_resources t) res_id"

definition get_scanout :: "u32 \<Rightarrow> ResourceTable \<Rightarrow> ScanoutBinding option" where
  "get_scanout scanout_id t = map_of (rt_scanouts t) scanout_id"

text \<open>\<open>min_by_key\<close> over the bindings of a resource.\<close>

fun min_key :: "(u32 \<times> 'a) list \<Rightarrow> (u32 \<times> 'a) option" where
  "min_key [] = None"
| "min_key (p # ps) = (case min_key ps of None \<Rightarrow> Some p
     | Some q \<Rightarrow> if fst p \<le> fst q then Some p else Some q)"

definition scanout_binding_for :: "u32 \<Rightarrow> ResourceTable \<Rightarrow> (u32 \<times> ScanoutBinding) option" where
  "scanout_binding_for res_id t = min_key (filter (\<lambda>(_, b). sb_res_id b = res_id) (rt_scanouts t))"

definition resource_count :: "ResourceTable \<Rightarrow> nat" where
  "resource_count t = length (rt_resources t)"

definition table_clear :: "ResourceTable \<Rightarrow> ResourceTable" where
  "table_clear t = t\<lparr>rt_resources := [], rt_scanouts := []\<rparr>"

subsection \<open>The invariant\<close>

definition resource_ok :: "u32 \<Rightarrow> HostResource \<Rightarrow> bool" where
  "resource_ok k r \<longleftrightarrow> hr_res_id r = k \<and> 0 < hr_size r \<and> hr_size r \<le> MAX_BLOB_BYTES \<and>
     (hr_backing r \<noteq> [] \<longrightarrow> unat (hr_size r) \<le> sum_list (map (unat \<circ> bs_len) (hr_backing r)))"

definition binding_ok :: "ResourceTable \<Rightarrow> ScanoutBinding \<Rightarrow> bool" where
  "binding_ok t b \<longleftrightarrow> map_of (rt_resources t) (sb_res_id b) \<noteq> None \<and>
     0 < sb_width b \<and> sb_width b \<le> MAX_DIM \<and> 0 < sb_height b \<and> sb_height b \<le> MAX_DIM \<and>
     unat (sb_width b) * 4 \<le> unat (sb_stride b)"

definition table_ok :: "ResourceTable \<Rightarrow> bool" where
  "table_ok t \<longleftrightarrow> amap_ok (rt_resources t) \<and> amap_ok (rt_scanouts t) \<and>
     length (rt_resources t) \<le> MAX_RESOURCES \<and>
     (\<forall>k r. map_of (rt_resources t) k = Some r \<longrightarrow> resource_ok k r) \<and>
     (\<forall>b \<in> snd ` set (rt_scanouts t). binding_ok t b)"

lemma checked_total_Some:
  "checked_total tot segs = Some s \<longleftrightarrow>
     s = tot + sum_list (map (unat \<circ> bs_len) segs) \<and> (segs = [] \<or> s < 2 ^ 64)"
proof (induction segs arbitrary: tot)
  case (Cons x segs)
  show ?case
    by (auto simp: bind_eq_Some_conv Cons.IH)
qed auto

lemma table_ok_new [simp]: "table_ok ResourceTable_new"
  by (simp add: table_ok_def ResourceTable_new_def)

lemma table_ok_create:
  assumes "table_ok t"
  shows "table_ok (snd (create_blob k m sz t))"
proof (cases "fst (create_blob k m sz t)")
  case (Inl e)
  then have "snd (create_blob k m sz t) = t" by (auto simp: create_blob_def split: if_splits)
  with assms show ?thesis by simp
next
  case (Inr u)
  then have new: "map_of (rt_resources t) k = None" "length (rt_resources t) < MAX_RESOURCES"
      "sz \<noteq> 0" "sz \<le> MAX_BLOB_BYTES"
    by (auto simp: create_blob_def split: if_splits)
  with assms show ?thesis
    by (auto simp: create_blob_def table_ok_def length_update_new resource_ok_def binding_ok_def
        word_neq_0_conv)
qed

lemma table_ok_attach:
  assumes "table_ok t"
  shows "table_ok (snd (attach_backing k segs t))"
proof (cases "fst (attach_backing k segs t)")
  case (Inl e)
  then have "snd (attach_backing k segs t) = t"
    by (auto simp: attach_backing_def split: if_splits option.splits)
  with assms show ?thesis by simp
next
  case (Inr u)
  then obtain r tot where r: "map_of (rt_resources t) k = Some r"
      "checked_total 0 segs = Some tot" "unat (hr_size r) \<le> tot"
    by (auto simp: attach_backing_def not_less split: if_splits option.splits)
  then have "resource_ok k (r\<lparr>hr_backing := segs\<rparr>)"
    using assms by (auto simp: table_ok_def resource_ok_def checked_total_Some)
  with assms r show ?thesis
    by (auto simp: attach_backing_def table_ok_def length_update_old binding_ok_def not_less)
qed

lemma table_ok_scanout:
  assumes "table_ok t"
  shows "table_ok (snd (set_scanout s k w h f st t))"
proof (cases "fst (set_scanout s k w h f st t)")
  case (Inl e)
  then have "snd (set_scanout s k w h f st t) = t" by (auto simp: set_scanout_def split: if_splits)
  with assms show ?thesis by simp
next
  case (Inr u)
  then have ok: "map_of (rt_resources t) k \<noteq> None" "w \<noteq> 0" "h \<noteq> 0" "w \<le> MAX_DIM" "h \<le> MAX_DIM"
      "unat w * 4 \<le> unat st"
    by (auto simp: set_scanout_def split: if_splits)
  let ?b = "\<lparr>sb_res_id = k, sb_width = w, sb_height = h, sb_format = f, sb_stride = st\<rparr>"
  let ?t = "t\<lparr>rt_scanouts := AList.update s ?b (rt_scanouts t)\<rparr>"
  have eq: "snd (set_scanout s k w h f st t) = ?t"
    using ok by (auto simp: set_scanout_def not_less)
  have "binding_ok ?t b" if "b \<in> snd ` set (rt_scanouts ?t)" for b
    using that set_update_le [of s ?b "rt_scanouts t"] ok assms
    by (auto simp: table_ok_def binding_ok_def word_neq_0_conv)
  then show ?thesis unfolding eq using assms by (simp add: table_ok_def)
qed

lemma table_ok_destroy:
  assumes "table_ok t"
  shows "table_ok (snd (destroy_resource k t))"
proof (cases "map_of (rt_resources t) k")
  case None
  with assms show ?thesis by (simp add: destroy_resource_def)
next
  case (Some r)
  have "amap_ok (filter (\<lambda>(_, b). sb_res_id b \<noteq> k) (rt_scanouts t))"
    using assms by (simp add: table_ok_def amap_ok_def distinct_map_filter)
  moreover have "length (AList.delete k (rt_resources t)) \<le> MAX_RESOURCES"
    using assms length_delete_old [OF _ Some] by (force simp: table_ok_def)
  ultimately show ?thesis
    using assms Some by (force simp: destroy_resource_def table_ok_def binding_ok_def)
qed

lemma table_ok_clear: "table_ok (table_clear t)"
  by (simp add: table_ok_def table_clear_def)

text \<open>An operation keeps the invariant, and a refused one changes nothing.\<close>

definition op_safe :: "ResourceTable \<Rightarrow> table_result \<Rightarrow> bool" where
  "op_safe t r \<longleftrightarrow> table_ok (snd r) \<and> (isl (fst r) \<longrightarrow> snd r = t)"

lemma op_safe_ops:
  assumes "table_ok t"
  shows "op_safe t (create_blob k m sz t)" "op_safe t (attach_backing k segs t)"
    "op_safe t (set_scanout s k w h f st t)" "op_safe t (destroy_resource k t)"
  unfolding op_safe_def
  using assms table_ok_create table_ok_attach table_ok_scanout table_ok_destroy
  by (auto simp: create_blob_def attach_backing_def set_scanout_def destroy_resource_def
      split: option.splits if_splits)

inductive table_reach :: "ResourceTable \<Rightarrow> bool" where
  new: "table_reach ResourceTable_new"
| create: "table_reach t \<Longrightarrow> table_reach (snd (create_blob k m sz t))"
| attach: "table_reach t \<Longrightarrow> table_reach (snd (attach_backing k segs t))"
| scanout: "table_reach t \<Longrightarrow> table_reach (snd (set_scanout s k w h f st t))"
| destroy: "table_reach t \<Longrightarrow> table_reach (snd (destroy_resource k t))"
| clear: "table_reach t \<Longrightarrow> table_reach (table_clear t)"

lemma table_reach_ok: "table_reach t \<Longrightarrow> table_ok t"
  by (induction rule: table_reach.induct)
    (simp_all add: table_ok_create table_ok_attach table_ok_scanout table_ok_destroy table_ok_clear)

lemma min_key_Some:
  "min_key ps = Some (k, b) \<Longrightarrow> (k, b) \<in> set ps \<and> (\<forall>p \<in> set ps. k \<le> fst p)"
proof (induction ps arbitrary: k b)
  case (Cons p ps)
  show ?case
  proof (cases "min_key ps")
    case None
    then have "ps = []" by (cases ps) (auto split: option.splits if_splits)
    with Cons.prems show ?thesis by simp
  next
    case (Some q)
    obtain k' b' where q: "q = (k', b')" by (cases q)
    with Some Cons.IH have ih: "(k', b') \<in> set ps" "\<forall>p \<in> set ps. k' \<le> fst p" by blast+
    show ?thesis
    proof (cases "fst p \<le> k'")
      case True
      then have "p = (k, b)" using Cons.prems Some q by simp
      then show ?thesis using True ih by force
    next
      case False
      then show ?thesis using Cons.prems Some q ih by auto
    qed
  qed
qed simp

lemma min_key_None: "min_key ps = None \<longleftrightarrow> ps = []"
  by (cases ps) (auto split: option.split)

subsection \<open>Properties\<close>

text \<open>C30: no sequence of guest requests breaks the table. At most 1024 resources exist, each between
  one byte and 64 MiB and either without backing or with segments whose lengths add up to at least
  its size; and every bound scanout head names a live resource, with non-zero dimensions of at most
  16384 and a stride that holds a row of pixels.\<close>

theorem resource_table_safe:
  assumes "table_reach t"
  shows "resource_count t \<le> 1024 \<and>
    (\<forall>k r. get_resource k t = Some r \<longrightarrow> 1 \<le> unat (hr_size r) \<and> unat (hr_size r) \<le> 64 * 1024 * 1024 \<and>
       (hr_backing r = [] \<or> unat (hr_size r) \<le> sum_list (map (unat \<circ> bs_len) (hr_backing r)))) \<and>
    (\<forall>s b. get_scanout s t = Some b \<longrightarrow> get_resource (sb_res_id b) t \<noteq> None \<and>
       1 \<le> unat (sb_width b) \<and> unat (sb_width b) \<le> 16384 \<and>
       1 \<le> unat (sb_height b) \<and> unat (sb_height b) \<le> 16384 \<and>
       unat (sb_width b) * 4 \<le> unat (sb_stride b))"
proof -
  have ok: "table_ok t" using assms by (rule table_reach_ok)
  have b: "binding_ok t b" if "map_of (rt_scanouts t) s = Some b" for s b
    using ok map_of_SomeD [OF that] by (force simp: table_ok_def)
  have r: "resource_ok k r" if "map_of (rt_resources t) k = Some r" for k r
    using ok that by (auto simp: table_ok_def)
  show ?thesis
    using ok b r
    by (auto simp: table_ok_def resource_count_def get_resource_def get_scanout_def resource_ok_def
        binding_ok_def word_le_nat_alt Suc_le_eq unat_gt_0 word_neq_0_conv [symmetric])
qed

theorem resource_table_safe_witness:
  "let t = snd (set_scanout 0 7 64 64 FMT_B8G8R8A8 256 (snd (create_blob 7 1 16384 ResourceTable_new))) in
   get_scanout 0 t = Some \<lparr>sb_res_id = 7, sb_width = 64, sb_height = 64, sb_format = 1, sb_stride = 256\<rparr> \<and>
   get_resource 7 t \<noteq> None \<and> resource_count t \<le> 1024"
proof -
  let ?t = "snd (set_scanout 0 7 64 64 FMT_B8G8R8A8 256 (snd (create_blob 7 1 16384 ResourceTable_new)))"
  have r: "table_reach ?t" by (intro table_reach.scanout table_reach.create table_reach.new)
  have s: "get_scanout 0 ?t = Some \<lparr>sb_res_id = 7, sb_width = 64, sb_height = 64, sb_format = 1, sb_stride = 256\<rparr>"
    by (simp add: get_scanout_def set_scanout_def create_blob_def ResourceTable_new_def)
  have "get_resource (sb_res_id \<lparr>sb_res_id = 7, sb_width = 64, sb_height = 64, sb_format = 1,
      sb_stride = 256\<rparr>) ?t \<noteq> None" and "resource_count ?t \<le> 1024"
    using resource_table_safe [OF r] s by blast+
  with s show ?thesis by (simp add: Let_def)
qed

text \<open>Destroying a resource leaves nothing behind. Afterwards the resource does not resolve, no
  scanout head is bound to it, and every other resource and every head bound to another resource is
  unchanged; on an unknown id nothing changes.\<close>

theorem destroy_resource_complete:
  "case destroy_resource k t of
      (Inl e, t') \<Rightarrow> e = Unknown k \<and> t' = t \<and> get_resource k t = None
    | (Inr _, t') \<Rightarrow> get_resource k t \<noteq> None \<and> get_resource k t' = None \<and> scanout_binding_for k t' = None \<and>
        (\<forall>k'. k' \<noteq> k \<longrightarrow> get_resource k' t' = get_resource k' t \<and>
          scanout_binding_for k' t' = scanout_binding_for k' t)"
proof -
  have same: "filter (\<lambda>(_, b). sb_res_id b = k') (filter (\<lambda>(_, b). sb_res_id b \<noteq> k) ms) =
      filter (\<lambda>(_, b). sb_res_id b = k') ms" if "k' \<noteq> k"
    for k' and ms :: "(u32 \<times> ScanoutBinding) list"
    unfolding filter_filter using that by (intro filter_cong) auto
  show ?thesis
    by (auto simp: destroy_resource_def get_resource_def scanout_binding_for_def min_key_None
        filter_empty_conv same simp del: filter_filter)
qed

theorem destroy_resource_complete_witness:
  "let t = snd (set_scanout 0 7 64 64 FMT_B8G8R8A8 256 (snd (create_blob 7 1 16384 ResourceTable_new)));
       t' = snd (destroy_resource 7 t)
   in scanout_binding_for 7 t \<noteq> None \<and> scanout_binding_for 7 t' = None \<and> get_resource 7 t' = None \<and>
     get_resource 8 t' = get_resource 8 t"
proof -
  let ?t = "snd (set_scanout 0 7 64 64 FMT_B8G8R8A8 256 (snd (create_blob 7 1 16384 ResourceTable_new)))"
  have t: "?t = \<lparr>rt_resources = [(7, \<lparr>hr_res_id = 7, hr_blob_mem = 1, hr_size = 16384, hr_backing = []\<rparr>)],
      rt_scanouts = [(0, \<lparr>sb_res_id = 7, sb_width = 64, sb_height = 64, sb_format = 1, sb_stride = 256\<rparr>)]\<rparr>"
    by (simp add: set_scanout_def create_blob_def ResourceTable_new_def)
  have "scanout_binding_for 7 ?t \<noteq> None" unfolding t by (simp add: scanout_binding_for_def)
  moreover have "fst (destroy_resource 7 ?t) = Inr ()" unfolding t by (simp add: destroy_resource_def)
  ultimately show ?thesis
    using destroy_resource_complete [of 7 ?t] by (cases "destroy_resource 7 ?t") (auto simp: Let_def)
qed

end
