(* ===== verification/Dispatch_Resource.thy ===== *)
theory Dispatch_Resource
  imports Resource_Table
begin

text \<open>
  \<open>crates/infinigpu-device/src/dispatch.rs\<close>: the decoding of one drained descriptor and its payload
  into an operation of the resource table. The outer \<open>None\<close> of the model is the panic of the
  \<open>unwrap\<close> on a memory entry.
\<close>

definition MAX_BACKING_ENTRIES :: u32 where [simp]: "MAX_BACKING_ENTRIES = 16384"

datatype Executed =
    CreatedBlob u32
  | AttachedBacking u32 nat
  | SetScanout u32
  | Destroyed u32
  | Flush u32 "u32 \<times> u32 \<times> u32 \<times> u32"
  | Rejected ResourceError
  | NotResource
  | ShortPayload

text \<open>\<open>MemEntry::read_from_bytes(..).unwrap()\<close> on each 16-byte slice: the slice must be exactly one
  entry.\<close>

fun read_segments :: "nat \<Rightarrow> bytes \<Rightarrow> BackingSegment list option" where
  "read_segments 0 bs = Some []"
| "read_segments (Suc n) bs = (case dec_MemEntry (take 16 bs) of
     Some (e, []) \<Rightarrow> map_option (\<lambda>segs. \<lparr>bs_addr = me_addr e, bs_len = me_length e\<rparr> # segs)
        (read_segments n (drop 16 bs))
   | _ \<Rightarrow> None)"

text \<open>The \<open>Ok\<close> / \<open>Err\<close> match every arm ends with.\<close>

definition table_outcome :: "Executed \<Rightarrow> table_result \<Rightarrow> Executed \<times> ResourceTable" where
  "table_outcome accepted r = (case r of (Inr _, t) \<Rightarrow> (accepted, t) | (Inl e, t) \<Rightarrow> (Rejected e, t))"

definition execute_create :: "bytes \<Rightarrow> ResourceTable \<Rightarrow> Executed \<times> ResourceTable" where
  "execute_create payload t = (case dec_ResourceCreateBlob payload of
     None \<Rightarrow> (ShortPayload, t)
   | Some (b, _) \<Rightarrow> table_outcome (CreatedBlob (rcb_res_id b))
       (create_blob (rcb_res_id b) (rcb_blob_mem b) (rcb_size b) t))"

definition execute_attach :: "bytes \<Rightarrow> ResourceTable \<Rightarrow> (Executed \<times> ResourceTable) option" where
  "execute_attach payload t = (case dec_AttachBacking payload of
     None \<Rightarrow> Some (ShortPayload, t)
   | Some (hdr, rest) \<Rightarrow>
       if MAX_BACKING_ENTRIES < ab_num_entries hdr then Some (Rejected BackingTooSmall, t)
       else if length rest < unat (ab_num_entries hdr) * 16 then Some (ShortPayload, t)
       else map_option (\<lambda>segs. table_outcome (AttachedBacking (ab_res_id hdr) (length segs))
           (attach_backing (ab_res_id hdr) segs t))
         (read_segments (unat (ab_num_entries hdr)) rest))"

definition execute_scanout :: "bytes \<Rightarrow> ResourceTable \<Rightarrow> Executed \<times> ResourceTable" where
  "execute_scanout payload t = (case dec_SetScanoutBlob payload of
     None \<Rightarrow> (ShortPayload, t)
   | Some (b, _) \<Rightarrow> table_outcome (SetScanout (ssb_scanout_id b))
       (set_scanout (ssb_scanout_id b) (ssb_res_id b) (ssb_width b) (ssb_height b)
         (ssb_format b) (ssb_stride b) t))"

definition execute_flush :: "bytes \<Rightarrow> ResourceTable \<Rightarrow> Executed" where
  "execute_flush payload t = (case dec_ResourceFlush payload of
     None \<Rightarrow> ShortPayload
   | Some (b, _) \<Rightarrow> (case get_resource (rf_res_id b) t of
       None \<Rightarrow> Rejected (Unknown (rf_res_id b))
     | Some r \<Rightarrow> if hr_backing r = [] then Rejected BackingTooSmall
         else Flush (rf_res_id b) (rf_x b, rf_y b, rf_w b, rf_h b)))"

definition execute_destroy :: "bytes \<Rightarrow> ResourceTable \<Rightarrow> Executed \<times> ResourceTable" where
  "execute_destroy payload t = (case rd_u32 payload of
     None \<Rightarrow> (ShortPayload, t)
   | Some (res_id, _) \<Rightarrow> table_outcome (Destroyed res_id) (destroy_resource res_id t))"

definition execute_resource :: "Descriptor \<Rightarrow> bytes \<Rightarrow> ResourceTable \<Rightarrow> (Executed \<times> ResourceTable) option" where
  "execute_resource desc payload t =
    (if d_msg_type desc = MSG_RESOURCE_CREATE_BLOB then Some (execute_create payload t)
     else if d_msg_type desc = MSG_RESOURCE_ATTACH_BACKING then execute_attach payload t
     else if d_msg_type desc = MSG_SET_SCANOUT_BLOB then Some (execute_scanout payload t)
     else if d_msg_type desc = MSG_RESOURCE_FLUSH then Some (execute_flush payload t, t)
     else if d_msg_type desc = MSG_RESOURCE_DESTROY then Some (execute_destroy payload t)
     else Some (NotResource, t))"

subsection \<open>Reading segments\<close>

lemma read_segments_total: "n * 16 \<le> length bs \<Longrightarrow> \<exists>segs. read_segments n bs = Some segs \<and> length segs = n"
proof (induction n arbitrary: bs)
  case (Suc n)
  have "length (take 16 bs) = 16" using Suc.prems by simp
  then obtain e rest where e: "dec_MemEntry (take 16 bs) = Some (e, rest)"
    using me_codec.dec_enough [of "take 16 bs"] by auto
  then have "take 16 bs = enc_MemEntry e @ rest" by (rule me_codec.dec_sound)
  then have "16 = length (enc_MemEntry e) + length rest"
    using \<open>length (take 16 bs) = 16\<close> by (metis length_append)
  then have "rest = []" by (simp add: me_codec.length_enc)
  moreover obtain segs where "read_segments n (drop 16 bs) = Some segs" "length segs = n"
    using Suc.IH [of "drop 16 bs"] Suc.prems by (auto simp: le_diff_conv2)
  ultimately show ?case using e by simp
qed simp

lemma read_segments_enc:
  "read_segments (length es) (concat (map enc_MemEntry es) @ rest) =
   Some (map (\<lambda>e. \<lparr>bs_addr = me_addr e, bs_len = me_length e\<rparr>) es)"
  by (induction es) (simp_all add: me_codec.length_enc me_codec.dec_exact)

text \<open>What a step may do to the table, by its outcome.\<close>

fun changes_table :: "Executed \<Rightarrow> bool" where
  "changes_table (CreatedBlob k) = True"
| "changes_table (AttachedBacking k n) = True"
| "changes_table (SetScanout k) = True"
| "changes_table (Destroyed k) = True"
| "changes_table _ = False"

definition outcome_safe :: "ResourceTable \<Rightarrow> Executed \<times> ResourceTable \<Rightarrow> bool" where
  "outcome_safe t r \<longleftrightarrow> table_ok (snd r) \<and> (\<not> changes_table (fst r) \<longrightarrow> snd r = t)"

lemma outcome_safe_table:
  "op_safe t r \<Longrightarrow> changes_table accepted \<Longrightarrow> outcome_safe t (table_outcome accepted r)"
  by (cases r; cases "fst r") (auto simp: op_safe_def table_outcome_def outcome_safe_def)

lemma outcome_safe_same: "table_ok t \<Longrightarrow> outcome_safe t (out, t)"
  by (simp add: outcome_safe_def)

lemma execute_attach_safe:
  assumes "table_ok t"
  shows "\<exists>r. execute_attach payload t = Some r \<and> outcome_safe t r"
proof (cases "dec_AttachBacking payload")
  case None
  with assms show ?thesis by (simp add: execute_attach_def outcome_safe_same)
next
  case (Some p)
  obtain hdr rest where p: "p = (hdr, rest)" by (cases p)
  show ?thesis
  proof (cases "MAX_BACKING_ENTRIES < ab_num_entries hdr \<or> length rest < unat (ab_num_entries hdr) * 16")
    case True
    with Some p assms show ?thesis by (auto simp: execute_attach_def outcome_safe_same)
  next
    case False
    then obtain segs where "read_segments (unat (ab_num_entries hdr)) rest = Some segs"
      using read_segments_total [of "unat (ab_num_entries hdr)" rest] by auto
    with Some p False assms show ?thesis
      by (simp add: execute_attach_def outcome_safe_table op_safe_ops)
  qed
qed

lemma execute_safe:
  assumes "table_ok t"
  shows "outcome_safe t (execute_create payload t)" "outcome_safe t (execute_scanout payload t)"
    "outcome_safe t (execute_destroy payload t)"
  using assms by (auto simp: execute_create_def execute_scanout_def execute_destroy_def
      intro: outcome_safe_same outcome_safe_table op_safe_ops split: option.split prod.split)

lemma execute_resource_safe:
  assumes "table_ok t"
  shows "\<exists>r. execute_resource desc payload t = Some r \<and> outcome_safe t r"
  using execute_attach_safe [OF assms, of payload] execute_safe [OF assms, of payload]
    outcome_safe_same [OF assms]
  unfolding execute_resource_def by (auto simp del: split_paired_Ex split: if_split)

subsection \<open>Properties\<close>

text \<open>C31: decoding a guest message never panics and never corrupts the table. For every descriptor
  and every payload, of any length and content, execution returns an outcome and a table that
  satisfies the table invariant; and unless the outcome is an accepted create, attach, bind or
  destroy, the table is exactly the one before.\<close>

theorem execute_resource_fail_closed:
  assumes "table_ok t"
  shows "\<exists>out t'. execute_resource desc payload t = Some (out, t') \<and> table_ok t' \<and>
    (\<not> changes_table out \<longrightarrow> t' = t)"
  using execute_resource_safe [OF assms, of desc payload] by (force simp: outcome_safe_def)

theorem execute_resource_fail_closed_witness:
  "execute_resource \<lparr>d_msg_type = 0x20, d_flags = 0, d_len = 3, d_data_offset = 0, d_seqno = 1,
       d_payload_addr = 0\<rparr> [1, 2, 3] ResourceTable_new = Some (ShortPayload, ResourceTable_new)"
proof -
  let ?d = "\<lparr>d_msg_type = 0x20, d_flags = 0, d_len = 3, d_data_offset = 0, d_seqno = 1, d_payload_addr = 0\<rparr>"
  obtain out t where e: "execute_resource ?d [1, 2, 3] ResourceTable_new = Some (out, t)"
      "\<not> changes_table out \<longrightarrow> t = ResourceTable_new"
    using execute_resource_fail_closed [of ResourceTable_new ?d "[1, 2, 3]"] by auto
  moreover have "dec_ResourceCreateBlob [1, 2, 3] = None" by (simp add: rcb_codec.dec_short)
  ultimately show ?thesis by (auto simp: execute_resource_def execute_create_def)
qed

text \<open>What the guest encodes is what the host records. The bytes of an attach message, a header
  and its entries, followed by anything, attach exactly those segments in order to exactly that
  resource, or are refused when they cover less than the blob; more entries than the bound are
  refused before they are read.\<close>

theorem attach_message_roundtrip:
  assumes "length es = unat n" and "d_msg_type desc = MSG_RESOURCE_ATTACH_BACKING"
  shows "execute_resource desc (enc_AttachBacking \<lparr>ab_res_id = k, ab_num_entries = n\<rparr> @
      concat (map enc_MemEntry es) @ extra) t =
    (if unat MAX_BACKING_ENTRIES < length es then Some (Rejected BackingTooSmall, t)
     else Some (table_outcome (AttachedBacking k (length es))
       (attach_backing k (map (\<lambda>e. \<lparr>bs_addr = me_addr e, bs_len = me_length e\<rparr>) es) t)))"
proof -
  have len: "length (concat (map enc_MemEntry es)) = length es * 16"
    by (induction es) (simp_all add: me_codec.length_enc)
  show ?thesis
    using assms len read_segments_enc [of es extra]
    by (simp add: execute_resource_def execute_attach_def ab_codec.dec_enc word_less_nat_alt)
qed

theorem attach_message_roundtrip_witness:
  "let t = snd (create_blob 7 1 4096 ResourceTable_new);
       desc = \<lparr>d_msg_type = 0x21, d_flags = 0, d_len = 24, d_data_offset = 0, d_seqno = 1, d_payload_addr = 0\<rparr>
   in case execute_resource desc (enc_AttachBacking \<lparr>ab_res_id = 7, ab_num_entries = 1\<rparr> @
        concat (map enc_MemEntry [\<lparr>me_addr = 0x1000, me_length = 8192\<rparr>]) @ [9]) t of
      None \<Rightarrow> False
    | Some (out, t') \<Rightarrow> out = AttachedBacking 7 1 \<and>
        map_option hr_backing (get_resource 7 t') = Some [\<lparr>bs_addr = 0x1000, bs_len = 8192\<rparr>]"
proof -
  let ?t = "snd (create_blob 7 1 4096 ResourceTable_new)"
  let ?d = "\<lparr>d_msg_type = 0x21, d_flags = 0, d_len = 24, d_data_offset = 0, d_seqno = 1, d_payload_addr = 0\<rparr>"
  have "execute_resource ?d (enc_AttachBacking \<lparr>ab_res_id = 7, ab_num_entries = 1\<rparr> @
        concat (map enc_MemEntry [\<lparr>me_addr = 0x1000, me_length = 8192\<rparr>]) @ [9]) ?t =
      Some (table_outcome (AttachedBacking 7 1)
        (attach_backing 7 [\<lparr>bs_addr = 0x1000, bs_len = 8192\<rparr>] ?t))"
    using attach_message_roundtrip [of "[\<lparr>me_addr = 0x1000, me_length = 8192\<rparr>]" 1 ?d 7 "[9]" ?t]
    by simp
  then show ?thesis
    by (simp add: Let_def table_outcome_def attach_backing_def create_blob_def ResourceTable_new_def
        get_resource_def)
qed

end
