(* ===== verification/Profile_Hist.thy ===== *)
theory Profile_Hist
  imports Igpu_Prelude
begin

text \<open>
  \<open>crates/infinigpu-device/src/profile.rs\<close>: the latency histograms of the submit profiler. Counters are
  naturals, which a \<open>u64\<close> does not overflow in a process lifetime. \<open>pct\<close> takes the rank that the code
  computes from the quantile in floating point, the rest of the function is as written. The text of the
  log lines is not modelled.
\<close>

definition BOUNDS_US :: "nat list" where
  "BOUNDS_US = [25, 50, 100, 200, 350, 500, 750, 1000, 1500, 2000, 3000, 4000, 6000, 8000, 11000,
     16667, 22000, 33333, 50000, 75000, 100000, 200000, 350000, 500000, 1000000, 2000000]"

record Histogram =
  hg_buckets :: "nat list"
  hg_count :: nat
  hg_sum_us :: nat
  hg_max_us :: nat

definition Histogram_new :: Histogram where
  "Histogram_new = \<lparr>hg_buckets = replicate (length BOUNDS_US + 1) 0, hg_count = 0, hg_sum_us = 0, hg_max_us = 0\<rparr>"

fun position_le :: "nat \<Rightarrow> nat list \<Rightarrow> nat" where
  "position_le us [] = 0"
| "position_le us (b # bs) = (if us \<le> b then 0 else Suc (position_le us bs))"

definition hist_record :: "nat \<Rightarrow> Histogram \<Rightarrow> Histogram" where
  "hist_record us h = (let idx = position_le us BOUNDS_US in
     h\<lparr>hg_buckets := (hg_buckets h)[idx := hg_buckets h ! idx + 1], hg_count := hg_count h + 1,
       hg_sum_us := hg_sum_us h + us, hg_max_us := (if hg_max_us h < us then us else hg_max_us h)\<rparr>)"

text \<open>The bound of a bucket; the last bucket reports the maximum.\<close>

definition bucket_bound :: "nat list \<Rightarrow> nat \<Rightarrow> nat \<Rightarrow> nat" where
  "bucket_bound bounds i maxi = (if i < length bounds then bounds ! i else maxi)"

fun pct_loop :: "nat \<Rightarrow> nat \<Rightarrow> nat \<Rightarrow> nat \<Rightarrow> nat list \<Rightarrow> nat" where
  "pct_loop maxi target acc i [] = maxi"
| "pct_loop maxi target acc i (b # bs) =
     (if target \<le> acc + b then bucket_bound BOUNDS_US i maxi else pct_loop maxi target (acc + b) (Suc i) bs)"

definition hist_pct :: "nat \<Rightarrow> Histogram \<Rightarrow> nat" where
  "hist_pct target h = (if hg_count h = 0 then 0 else pct_loop (hg_max_us h) target 0 0 (hg_buckets h))"

definition mean_us :: "Histogram \<Rightarrow> nat" where
  "mean_us h = (if hg_count h = 0 then 0 else hg_sum_us h div hg_count h)"

record HopSample =
  hs_decode_us :: nat
  hs_wait_us :: nat
  hs_render_us :: nat
  hs_dma_us :: nat
  hs_total_us :: nat

record SubmitProfiler =
  sp_vm_id :: string
  sp_frame_budget_us :: nat
  sp_flush_every :: nat
  sp_since_flush :: nat
  sp_decode :: Histogram
  sp_wait :: Histogram
  sp_render :: Histogram
  sp_dma :: Histogram
  sp_total :: Histogram

text \<open>\<open>from_env\<close>: whether profiling is on, and the two parsed settings.\<close>

definition profiler_from_env :: "bool \<Rightarrow> nat option \<Rightarrow> nat option \<Rightarrow> string \<Rightarrow> SubmitProfiler option" where
  "profiler_from_env on every budget vm_id = (if \<not> on then None
     else Some \<lparr>sp_vm_id = vm_id,
       sp_frame_budget_us = (case budget of Some n \<Rightarrow> if 0 < n then n else 16667 | None \<Rightarrow> 16667),
       sp_flush_every = (case every of Some n \<Rightarrow> if 0 < n then n else 300 | None \<Rightarrow> 300),
       sp_since_flush = 0, sp_decode = Histogram_new, sp_wait = Histogram_new, sp_render = Histogram_new,
       sp_dma = Histogram_new, sp_total = Histogram_new\<rparr>)"

definition profiler_flush :: "SubmitProfiler \<Rightarrow> SubmitProfiler" where
  "profiler_flush p = p\<lparr>sp_since_flush := 0\<rparr>"

definition profiler_record :: "HopSample \<Rightarrow> SubmitProfiler \<Rightarrow> SubmitProfiler" where
  "profiler_record s p =
    (let p = p\<lparr>sp_decode := hist_record (hs_decode_us s) (sp_decode p),
         sp_wait := hist_record (hs_wait_us s) (sp_wait p),
         sp_render := hist_record (hs_render_us s) (sp_render p),
         sp_dma := hist_record (hs_dma_us s) (sp_dma p),
         sp_total := hist_record (hs_total_us s) (sp_total p),
         sp_since_flush := sp_since_flush p + 1\<rparr>
     in if sp_flush_every p \<le> sp_since_flush p then profiler_flush p else p)"

subsection \<open>What a recorded histogram holds\<close>

definition hist_of :: "nat list \<Rightarrow> Histogram" where
  "hist_of xs = foldl (\<lambda>h x. hist_record x h) Histogram_new xs"

lemma bounds_sorted: "sorted BOUNDS_US"
  by (simp add: BOUNDS_US_def)

lemma position_le_length: "position_le x bs \<le> length bs"
  by (induction bs) auto

lemma position_le_iff: "sorted bs \<Longrightarrow> i < length bs \<Longrightarrow> position_le x bs \<le> i \<longleftrightarrow> x \<le> bs ! i"
proof (induction bs arbitrary: i)
  case (Cons b bs)
  then show ?case by (cases i) (auto dest: order_trans)
qed simp

lemma hist_of_snoc: "hist_of (xs @ [x]) = hist_record x (hist_of xs)"
  by (simp add: hist_of_def)

lemma hist_of_shape:
  "length (hg_buckets (hist_of xs)) = length BOUNDS_US + 1 \<and> hg_count (hist_of xs) = length xs \<and>
   hg_sum_us (hist_of xs) = sum_list xs \<and> hg_max_us (hist_of xs) = fold max xs 0"
  by (induction xs rule: rev_induct)
    (auto simp: hist_of_def Histogram_new_def hist_record_def Let_def max_def)

lemma hist_of_bucket:
  "i \<le> length BOUNDS_US \<Longrightarrow>
   hg_buckets (hist_of xs) ! i = length (filter (\<lambda>x. position_le x BOUNDS_US = i) xs)"
proof (induction xs rule: rev_induct)
  case Nil
  then show ?case by (simp add: hist_of_def Histogram_new_def del: replicate_Suc)
next
  case (snoc x xs)
  then show ?case
    using hist_of_shape [of xs] position_le_length [of x BOUNDS_US]
    by (simp add: hist_of_snoc hist_record_def Let_def nth_list_update)
qed

lemma filter_le_Suc: "length (filter (\<lambda>x. f x \<le> Suc i) xs) =
    length (filter (\<lambda>x. f x \<le> i) xs) + length (filter (\<lambda>x. f x = Suc i) (xs :: nat list))"
  by (induction xs) auto

lemma bucket_sum:
  "i \<le> length BOUNDS_US \<Longrightarrow> sum_list (take (Suc i) (hg_buckets (hist_of xs)))
     = length (filter (\<lambda>x. position_le x BOUNDS_US \<le> i) xs)"
proof (induction i)
  case 0
  then show ?case
    using hist_of_shape [of xs] hist_of_bucket [of 0 xs] by (cases "hg_buckets (hist_of xs)") auto
next
  case (Suc i)
  then show ?case
    using hist_of_shape [of xs] hist_of_bucket [of "Suc i" xs]
    by (simp add: take_Suc_conv_app_nth filter_le_Suc del: take_Suc)
qed

lemma pct_loop_first:
  assumes "acc < target" and "target \<le> acc + sum_list bs"
  shows "\<exists>j < length bs. pct_loop maxi target acc i bs = bucket_bound BOUNDS_US (i + j) maxi \<and>
    acc + sum_list (take j bs) < target \<and> target \<le> acc + sum_list (take (Suc j) bs)"
  using assms
proof (induction bs arbitrary: acc i)
  case (Cons b bs)
  show ?case
  proof (cases "target \<le> acc + b")
    case True
    then show ?thesis using Cons.prems by (intro exI [of _ 0]) simp
  next
    case False
    then obtain j where j: "j < length bs"
        "pct_loop maxi target (acc + b) (Suc i) bs = bucket_bound BOUNDS_US (Suc i + j) maxi"
        "acc + b + sum_list (take j bs) < target" "target \<le> acc + b + sum_list (take (Suc j) bs)"
      using Cons.IH [of "acc + b" "Suc i"] Cons.prems by auto
    then show ?thesis using False by (intro exI [of _ "Suc j"]) (simp add: add.assoc)
  qed
qed simp

text \<open>Ranks in the sorted samples.\<close>

lemma rank_iff:
  fixes xs :: "nat list"
  assumes "r < length xs"
  shows "sort xs ! r \<le> b \<longleftrightarrow> r < length (filter (\<lambda>x. x \<le> b) xs)"
proof -
  have "length (filter (\<lambda>x. x \<le> b) xs) = length (filter (\<lambda>x. x \<le> b) (sort xs))"
    by (metis filter_sort length_sort)
  moreover have "filter (\<lambda>x. x \<le> b) ys = takeWhile (\<lambda>x. x \<le> b) ys" if "sorted ys" for ys :: "nat list"
    using that
  proof (induction ys)
    case (Cons y ys)
    then show ?case by (cases ys) (auto simp: filter_empty_conv)
  qed simp
  moreover have "ys ! r \<le> b \<longleftrightarrow> r < length (takeWhile (\<lambda>x. x \<le> b) ys)" if "sorted ys" "r < length ys" for ys :: "nat list" and r
    using that
  proof (induction ys arbitrary: r)
    case (Cons y ys)
    then show ?case by (cases r) (auto dest: nth_mem intro: order_trans)
  qed simp
  ultimately show ?thesis using assms by simp
qed

lemma count_le_bound:
  assumes "i < length BOUNDS_US" and "r < length xs"
  shows "r < length (filter (\<lambda>x. position_le x BOUNDS_US \<le> i) xs) \<longleftrightarrow>
    position_le (sort xs ! r) BOUNDS_US \<le> i"
  using rank_iff [OF assms(2), of "BOUNDS_US ! i"] position_le_iff [OF bounds_sorted assms(1)] by simp

text \<open>A reported quantile is the exact one rounded up to its bucket bound. For every sequence of samples
  and every rank, the loop over the buckets finds the bucket of the sample with that rank in sorted
  order, and reports the largest sample when that bucket is the overflow bucket.\<close>

theorem quantile_rounds_up:
  assumes "1 \<le> target" and "target \<le> length xs"
  shows "hist_pct target (hist_of xs)
    = bucket_bound BOUNDS_US (position_le (sort xs ! (target - 1)) BOUNDS_US) (fold max xs 0)"
proof -
  let ?h = "hist_of xs" and ?n = "length BOUNDS_US"
  let ?B = "hg_buckets ?h" and ?p = "position_le (sort xs ! (target - 1)) BOUNDS_US"
  have shape: "length ?B = ?n + 1" "hg_count ?h = length xs" "hg_max_us ?h = fold max xs 0"
    using hist_of_shape [of xs] by auto
  have r: "target - 1 < length xs" using assms by simp
  have "sum_list ?B = length xs"
    using bucket_sum [of ?n xs] shape(1) position_le_length by (simp add: filter_True)
  then obtain j where j: "j < length ?B"
      "pct_loop (hg_max_us ?h) target 0 0 ?B = bucket_bound BOUNDS_US (0 + j) (hg_max_us ?h)"
      "sum_list (take j ?B) < target" "target \<le> sum_list (take (Suc j) ?B)"
    using pct_loop_first [of 0 target ?B "hg_max_us ?h" 0] assms by auto
  have "?p \<le> j"
  proof (cases "j < ?n")
    case True
    have "target - 1 < length (filter (\<lambda>x. position_le x BOUNDS_US \<le> j) xs)"
      using j(4) bucket_sum [of j xs] True assms(1) by simp
    then show ?thesis using count_le_bound [OF True r] by blast
  next
    case False
    then show ?thesis using j(1) shape(1) position_le_length [of "sort xs ! (target - 1)" BOUNDS_US] by simp
  qed
  moreover have "j \<le> ?p"
  proof (cases j)
    case (Suc i)
    then have i: "i < ?n" using j(1) shape(1) by simp
    have "\<not> target - 1 < length (filter (\<lambda>x. position_le x BOUNDS_US \<le> i) xs)"
      using j(3) bucket_sum [of i xs] i assms(1) Suc by simp
    then have "\<not> ?p \<le> i" using count_le_bound [OF i r] by blast
    then show ?thesis using Suc by simp
  qed simp
  moreover have "xs \<noteq> []" using assms by auto
  ultimately show ?thesis using j(2) shape by (simp add: hist_pct_def)
qed

theorem quantile_rounds_up_witness:
  "hist_pct 2 (hist_of [40, 3000000, 20]) = 50 \<and> hist_pct 3 (hist_of [40, 3000000, 20]) = 3000000"
proof -
  have s: "sort [40, 3000000, 20 :: nat] = [20, 40, 3000000]" by simp
  show ?thesis
    using quantile_rounds_up [of 2 "[40, 3000000, 20]"] quantile_rounds_up [of 3 "[40, 3000000, 20]"] s
    by (simp add: BOUNDS_US_def bucket_bound_def)
qed

text \<open>Recording many samples counts each of them, and the profiler flushes at least every \<open>flush_every\<close>
  records.\<close>

lemma profiler_counts:
  "hg_count (sp_total (profiler_record s p)) = hg_count (sp_total p) + 1"
  by (simp add: profiler_record_def profiler_flush_def hist_record_def Let_def)

lemma profiler_flush_cadence:
  "0 < sp_flush_every p \<Longrightarrow> sp_since_flush (profiler_record s p) < sp_flush_every (profiler_record s p)
    \<and> sp_flush_every (profiler_record s p) = sp_flush_every p"
  by (simp add: profiler_record_def profiler_flush_def Let_def)

end
