(* ===== verification/Sched_Broker.thy ===== *)
theory Sched_Broker
  imports Igpu_Prelude "HOL-Library.List_Lexorder"
begin

text \<open>
  \<open>crates/infinigpu-sched/src/lib.rs\<close>: the cooperative GPU broker. It admits VMs against the VRAM
  ledger, the concurrency cap and the encoder-session cap, meters GPU time with one token bucket
  per VM, and accounts every finished render. All operations lock one state; each is a function on
  that state, and a clock reading is an argument. The run loop takes the readings of its successive
  \<open>begin\<close> calls as a list; when the list runs out the caller is still waiting.
\<close>

subsection \<open>Configuration\<close>

datatype PriorityTier = Interactive | Normal | Batch

fun boost_num :: "PriorityTier \<Rightarrow> nat" where
  "boost_num Interactive = 384"
| "boost_num Normal = 256"
| "boost_num Batch = 256"

record VmConfig =
  vc_vm_id :: string
  vc_weight :: nat
  vc_vram_cap_mb :: nat
  vc_priority :: PriorityTier

definition VmConfig_new :: "string \<Rightarrow> nat \<Rightarrow> nat \<Rightarrow> VmConfig" where
  "VmConfig_new vm_id weight vram_cap_mb =
     \<lparr>vc_vm_id = vm_id, vc_weight = max weight 1, vc_vram_cap_mb = vram_cap_mb, vc_priority = Normal\<rparr>"

definition with_priority :: "PriorityTier \<Rightarrow> VmConfig \<Rightarrow> VmConfig" where
  "with_priority p c = c\<lparr>vc_priority := p\<rparr>"

definition effective_weight_num :: "VmConfig \<Rightarrow> nat" where
  "effective_weight_num c = vc_weight c * boost_num (vc_priority c)"

record BrokerConfig =
  bc_total_vram_mb :: nat
  bc_vram_reserve_mb :: nat
  bc_max_concurrent_gpu_vms :: nat
  bc_refill_us_per_s_per_weight :: nat
  bc_bucket_burst_us :: nat
  bc_min_refill_us_per_s :: nat
  bc_watchdog_us :: nat
  bc_max_enc_sessions :: "nat option"
  bc_throttle_enabled :: bool

definition BrokerConfig_default :: BrokerConfig where
  "BrokerConfig_default = \<lparr>bc_total_vram_mb = 24 * 1024, bc_vram_reserve_mb = 1024,
     bc_max_concurrent_gpu_vms = 16, bc_refill_us_per_s_per_weight = 200000,
     bc_bucket_burst_us = 50000, bc_min_refill_us_per_s = 20000, bc_watchdog_us = 2000000,
     bc_max_enc_sessions = None, bc_throttle_enabled = True\<rparr>"

definition scanout_vram_estimate_mb :: "u32 \<Rightarrow> u32 \<Rightarrow> u32 \<Rightarrow> nat" where
  "scanout_vram_estimate_mb width height factor =
     (let raw = saturating_u64 (saturating_u64 (saturating_u64 (unat width * unat height) * 4)
        * max (unat factor) 1)
      in div_ceil raw (1024 * 1024))"

record AdmitRequest =
  ar_vram_mb :: nat
  ar_needs_encoder :: bool

definition AdmitRequest_vram :: "nat \<Rightarrow> AdmitRequest" where
  "AdmitRequest_vram mb = \<lparr>ar_vram_mb = mb, ar_needs_encoder = False\<rparr>"

definition AdmitRequest_streaming :: "nat \<Rightarrow> AdmitRequest" where
  "AdmitRequest_streaming mb = \<lparr>ar_vram_mb = mb, ar_needs_encoder = True\<rparr>"

datatype AdmitError =
    AtConcurrencyCap nat
  | InsufficientVram nat nat
  | ExceedsVmCap nat nat
  | AlreadyAdmitted
  | NoEncoderSession nat

datatype RunError = NotAdmitted | Panicked

record RunStats =
  rs_wait_us :: nat
  rs_gpu_us :: nat

datatype Begin = Ready | Throttled nat

subsection \<open>State\<close>

record VmState =
  vs_cfg :: VmConfig
  vs_tokens_us :: int
  vs_last_refill_us :: nat
  vs_holds_encoder :: bool
  vs_vram_reserved_mb :: nat
  vs_gpu_time_used_us :: nat
  vs_vruntime_us :: nat
  vs_submissions :: nat
  vs_throttle_events :: nat
  vs_watchdog_trips :: nat

record State =
  st_vram_used_mb :: nat
  st_enc_sessions_used :: nat
  st_vms :: "(string \<times> VmState) list"

definition State_new :: State where
  "State_new = \<lparr>st_vram_used_mb = 0, st_enc_sessions_used = 0, st_vms = []\<rparr>"

text \<open>The refill rate, which \<open>refill\<close> and \<open>begin\<close> compute with the same expression.\<close>

definition refill_rate :: "BrokerConfig \<Rightarrow> VmConfig \<Rightarrow> nat" where
  "refill_rate cfg vc = max (wrap_u64 (effective_weight_num vc * bc_refill_us_per_s_per_weight cfg) div 256)
     (bc_min_refill_us_per_s cfg)"

definition refill :: "BrokerConfig \<Rightarrow> nat \<Rightarrow> VmState \<Rightarrow> VmState" where
  "refill cfg now vm = (let dt = now - vs_last_refill_us vm in
     if dt = 0 then vm
     else let rate = refill_rate cfg (vs_cfg vm);
              add = wrap_i64 (int (rate * dt div 1000000))
       in vm\<lparr>vs_last_refill_us := now,
            vs_tokens_us := min (wrap_i64 (vs_tokens_us vm + add)) (wrap_i64 (int (bc_bucket_burst_us cfg)))\<rparr>)"

subsection \<open>Operations\<close>

definition vram_budget :: "BrokerConfig \<Rightarrow> nat" where
  "vram_budget cfg = bc_total_vram_mb cfg - bc_vram_reserve_mb cfg"

definition encoder_denied :: "BrokerConfig \<Rightarrow> AdmitRequest \<Rightarrow> State \<Rightarrow> nat option" where
  "encoder_denied cfg req st = (if ar_needs_encoder req then
     (case bc_max_enc_sessions cfg of
        Some cap \<Rightarrow> if cap \<le> st_enc_sessions_used st then Some cap else None
      | None \<Rightarrow> None) else None)"

definition fresh_vm :: "BrokerConfig \<Rightarrow> nat \<Rightarrow> VmConfig \<Rightarrow> AdmitRequest \<Rightarrow> VmState" where
  "fresh_vm cfg now vc req = \<lparr>vs_cfg = vc, vs_tokens_us = wrap_i64 (int (bc_bucket_burst_us cfg)),
     vs_last_refill_us = now, vs_holds_encoder = ar_needs_encoder req,
     vs_vram_reserved_mb = ar_vram_mb req, vs_gpu_time_used_us = 0, vs_vruntime_us = 0,
     vs_submissions = 0, vs_throttle_events = 0, vs_watchdog_trips = 0\<rparr>"

text \<open>A ticket is the VM id it releases on drop.\<close>

definition admit :: "BrokerConfig \<Rightarrow> nat \<Rightarrow> VmConfig \<Rightarrow> AdmitRequest \<Rightarrow> State \<Rightarrow>
    (AdmitError + string) \<times> State" where
  "admit cfg now vc req st = (let vram_mb = ar_vram_mb req;
       available = vram_budget cfg - st_vram_used_mb st in
     if map_of (st_vms st) (vc_vm_id vc) \<noteq> None then (Inl AlreadyAdmitted, st)
     else if bc_max_concurrent_gpu_vms cfg \<le> wrap_u32 (length (st_vms st))
       then (Inl (AtConcurrencyCap (bc_max_concurrent_gpu_vms cfg)), st)
     else if vc_vram_cap_mb vc < vram_mb then (Inl (ExceedsVmCap vram_mb (vc_vram_cap_mb vc)), st)
     else case encoder_denied cfg req st of
       Some cap \<Rightarrow> (Inl (NoEncoderSession cap), st)
     | None \<Rightarrow>
       if available < vram_mb then (Inl (InsufficientVram vram_mb available), st)
       else (Inr (vc_vm_id vc),
         st\<lparr>st_vram_used_mb := st_vram_used_mb st + vram_mb,
            st_enc_sessions_used := st_enc_sessions_used st + of_bool (ar_needs_encoder req),
            st_vms := AList.update (vc_vm_id vc) (fresh_vm cfg now vc req) (st_vms st)\<rparr>))"

definition adjust_vram :: "BrokerConfig \<Rightarrow> string \<Rightarrow> nat \<Rightarrow> State \<Rightarrow> (AdmitError + nat) \<times> State" where
  "adjust_vram cfg vm_id new_mb st = (case map_of (st_vms st) vm_id of
     None \<Rightarrow> (Inl AlreadyAdmitted, st)
   | Some vm \<Rightarrow> (let old = vs_vram_reserved_mb vm;
         vms' = AList.update vm_id (vm\<lparr>vs_vram_reserved_mb := new_mb\<rparr>) (st_vms st) in
       if old < new_mb then
         (let available = vram_budget cfg - st_vram_used_mb st; delta = new_mb - old in
          if available < delta then (Inl (InsufficientVram delta available), st)
          else (Inr new_mb, st\<lparr>st_vram_used_mb := st_vram_used_mb st + delta, st_vms := vms'\<rparr>))
       else (Inr new_mb, st\<lparr>st_vram_used_mb := st_vram_used_mb st - (old - new_mb), st_vms := vms'\<rparr>)))"

definition throttle_wait :: "BrokerConfig \<Rightarrow> VmState \<Rightarrow> nat" where
  "throttle_wait cfg vm = (let deficit = nat (max (wrap_i64 (1000 - vs_tokens_us vm)) 1);
       rate = max (refill_rate cfg (vs_cfg vm)) 1
     in max (wrap_u64 (deficit * 1000000 div rate)) 1)"

definition begin_run :: "BrokerConfig \<Rightarrow> nat \<Rightarrow> string \<Rightarrow> State \<Rightarrow> Begin option \<times> State" where
  "begin_run cfg now vm_id st = (case map_of (st_vms st) vm_id of
     None \<Rightarrow> (None, st)
   | Some vm0 \<Rightarrow> (let vm = refill cfg now vm0 in
       if \<not> bc_throttle_enabled cfg \<or> 0 < vs_tokens_us vm
       then (Some Ready, st\<lparr>st_vms := AList.update vm_id vm (st_vms st)\<rparr>)
       else (Some (Throttled (throttle_wait cfg vm)),
         st\<lparr>st_vms := AList.update vm_id
              (vm\<lparr>vs_throttle_events := wrap_u64 (vs_throttle_events vm + 1)\<rparr>) (st_vms st)\<rparr>)))"

text \<open>The result \<open>None\<close> is the division panic on a zero weight, which \<open>VmConfig::new\<close> rules out.\<close>

definition record_run :: "BrokerConfig \<Rightarrow> string \<Rightarrow> nat \<Rightarrow> State \<Rightarrow> State option" where
  "record_run cfg vm_id gpu_us st = (case map_of (st_vms st) vm_id of
     None \<Rightarrow> Some st
   | Some vm \<Rightarrow> (let ew = effective_weight_num (vs_cfg vm) in
       if ew = 0 then None
       else Some (st\<lparr>st_vms := AList.update vm_id
         (vm\<lparr>vs_tokens_us := wrap_i64 (vs_tokens_us vm - wrap_i64 (int gpu_us)),
             vs_gpu_time_used_us := wrap_u64 (vs_gpu_time_used_us vm + gpu_us),
             vs_vruntime_us := wrap_u64 (vs_vruntime_us vm + wrap_u64 (gpu_us * 256 div ew)),
             vs_submissions := wrap_u64 (vs_submissions vm + 1),
             vs_watchdog_trips := (if bc_watchdog_us cfg < gpu_us
               then wrap_u64 (vs_watchdog_trips vm + 1) else vs_watchdog_trips vm)\<rparr>)
         (st_vms st)\<rparr>)))"

fun admission_loop :: "BrokerConfig \<Rightarrow> string \<Rightarrow> nat list \<Rightarrow> State \<Rightarrow> (bool \<times> State) option" where
  "admission_loop cfg vm_id [] st = None"
| "admission_loop cfg vm_id (now # later) st = (case begin_run cfg now vm_id st of
     (None, st') \<Rightarrow> Some (False, st')
   | (Some Ready, st') \<Rightarrow> Some (True, st')
   | (Some (Throttled w), st') \<Rightarrow> admission_loop cfg vm_id later st')"

text \<open>
  \<open>run_timed\<close>: the clock is read on entry, at each \<open>begin\<close>, when the run lock is held and after
  the render; \<open>f\<close> is the value of the render closure, \<open>None\<close> when it panics. The outer \<open>None\<close>
  is a call that has not returned.
\<close>

definition run_timed :: "BrokerConfig \<Rightarrow> string \<Rightarrow> nat \<Rightarrow> nat list \<Rightarrow> nat \<Rightarrow> nat \<Rightarrow> 'r option \<Rightarrow> State \<Rightarrow>
    ((RunError + 'r \<times> RunStats) \<times> State) option" where
  "run_timed cfg vm_id t_enter readings t0 t1 f st = do {
     (admitted, st) \<leftarrow> admission_loop cfg vm_id readings st;
     if \<not> admitted then Some (Inl NotAdmitted, st)
     else do {
       let gpu_us = t1 - t0;
       st \<leftarrow> record_run cfg vm_id gpu_us st;
       case f of
         Some r \<Rightarrow> Some (Inr (r, \<lparr>rs_wait_us = t0 - t_enter, rs_gpu_us = gpu_us\<rparr>), st)
       | None \<Rightarrow> Some (Inl Panicked, st) } }"

definition run_gpu :: "BrokerConfig \<Rightarrow> string \<Rightarrow> nat \<Rightarrow> nat list \<Rightarrow> nat \<Rightarrow> nat \<Rightarrow> 'r option \<Rightarrow> State \<Rightarrow>
    ((RunError + 'r) \<times> State) option" where
  "run_gpu cfg vm_id t_enter readings t0 t1 f st =
     map_option (\<lambda>(res, st). (map_sum id fst res, st)) (run_timed cfg vm_id t_enter readings t0 t1 f st)"

definition release :: "string \<Rightarrow> State \<Rightarrow> State" where
  "release vm_id st = (case map_of (st_vms st) vm_id of
     None \<Rightarrow> st
   | Some vm \<Rightarrow> st\<lparr>st_vms := AList.delete vm_id (st_vms st),
       st_vram_used_mb := st_vram_used_mb st - vs_vram_reserved_mb vm,
       st_enc_sessions_used := st_enc_sessions_used st - of_bool (vs_holds_encoder vm)\<rparr>)"

record VmTicket =
  tk_vm_id :: string
  tk_released :: bool

definition ticket_drop :: "VmTicket \<Rightarrow> State \<Rightarrow> VmTicket \<times> State" where
  "ticket_drop t st = (if tk_released t then (t, st)
     else (t\<lparr>tk_released := True\<rparr>, release (tk_vm_id t) st))"

record VmStat =
  vt_vm_id :: string
  vt_weight :: nat
  vt_priority :: PriorityTier
  vt_vram_reserved_mb :: nat
  vt_tokens_us :: int
  vt_gpu_time_used_us :: nat
  vt_vruntime_us :: nat
  vt_submissions :: nat
  vt_throttle_events :: nat
  vt_watchdog_trips :: nat

record FleetView =
  fv_total_vram_mb :: nat
  fv_vram_used_mb :: nat
  fv_vram_free_mb :: nat
  fv_admitted_vms :: nat
  fv_max_concurrent_gpu_vms :: nat
  fv_enc_sessions_used :: nat
  fv_max_enc_sessions :: "nat option"
  fv_vms :: "VmStat list"

definition vm_stat :: "VmState \<Rightarrow> VmStat" where
  "vm_stat v = \<lparr>vt_vm_id = vc_vm_id (vs_cfg v), vt_weight = vc_weight (vs_cfg v),
     vt_priority = vc_priority (vs_cfg v), vt_vram_reserved_mb = vs_vram_reserved_mb v,
     vt_tokens_us = vs_tokens_us v, vt_gpu_time_used_us = vs_gpu_time_used_us v,
     vt_vruntime_us = vs_vruntime_us v, vt_submissions = vs_submissions v,
     vt_throttle_events = vs_throttle_events v, vt_watchdog_trips = vs_watchdog_trips v\<rparr>"

text \<open>The view sorts by VM id, bytewise as \<open>String::cmp\<close> does.\<close>

definition id_key :: "VmStat \<Rightarrow> nat list" where
  "id_key s = map of_char (vt_vm_id s)"

definition fleet_view :: "BrokerConfig \<Rightarrow> State \<Rightarrow> FleetView" where
  "fleet_view cfg st = \<lparr>fv_total_vram_mb = bc_total_vram_mb cfg, fv_vram_used_mb = st_vram_used_mb st,
     fv_vram_free_mb = vram_budget cfg - st_vram_used_mb st,
     fv_admitted_vms = wrap_u32 (length (st_vms st)),
     fv_max_concurrent_gpu_vms = bc_max_concurrent_gpu_vms cfg,
     fv_enc_sessions_used = st_enc_sessions_used st, fv_max_enc_sessions = bc_max_enc_sessions cfg,
     fv_vms = sort_key id_key (map (vm_stat \<circ> snd) (st_vms st))\<rparr>"

subsection \<open>The ledger invariant\<close>

text \<open>
  The VRAM word is the sum of the reservations and stays within the budget, the encoder word counts
  the holders and stays within its cap, and no more VMs than the cap are registered, each under its
  own id.
\<close>

definition ledger_ok :: "BrokerConfig \<Rightarrow> State \<Rightarrow> bool" where
  "ledger_ok cfg st \<longleftrightarrow> amap_ok (st_vms st) \<and>
     st_vram_used_mb st = amap_sum vs_vram_reserved_mb (st_vms st) \<and>
     st_vram_used_mb st \<le> vram_budget cfg \<and>
     st_enc_sessions_used st = amap_sum (\<lambda>v. of_bool (vs_holds_encoder v)) (st_vms st) \<and>
     (\<forall>cap. bc_max_enc_sessions cfg = Some cap \<longrightarrow> st_enc_sessions_used st \<le> cap) \<and>
     length (st_vms st) \<le> bc_max_concurrent_gpu_vms cfg \<and>
     (\<forall>k v. map_of (st_vms st) k = Some v \<longrightarrow> vc_vm_id (vs_cfg v) = k)"

definition config_ok :: "BrokerConfig \<Rightarrow> bool" where
  "config_ok cfg \<longleftrightarrow> bc_max_concurrent_gpu_vms cfg < 2 ^ 32"

lemma config_ok_default: "config_ok BrokerConfig_default"
  by (simp add: config_ok_def BrokerConfig_default_def)

lemma ledger_ok_new: "ledger_ok cfg State_new"
  by (simp add: ledger_ok_def State_new_def)

text \<open>Replacing the bookkeeping of one registered VM keeps the ledger.\<close>

lemma ledger_ok_touch:
  assumes "ledger_ok cfg st" and "map_of (st_vms st) k = Some v"
    and "vs_vram_reserved_mb v' = vs_vram_reserved_mb v" "vs_holds_encoder v' = vs_holds_encoder v"
      "vs_cfg v' = vs_cfg v"
  shows "ledger_ok cfg (st\<lparr>st_vms := AList.update k v' (st_vms st)\<rparr>)"
  using assms sum_update_old [OF assms(2), of vs_vram_reserved_mb v']
    sum_update_old [OF assms(2), of "\<lambda>v. of_bool (vs_holds_encoder v)" v']
  by (auto simp: ledger_ok_def length_update_old)

lemma refill_keeps [simp]:
  "vs_vram_reserved_mb (refill cfg now vm) = vs_vram_reserved_mb vm"
  "vs_holds_encoder (refill cfg now vm) = vs_holds_encoder vm"
  "vs_cfg (refill cfg now vm) = vs_cfg vm"
  "vs_gpu_time_used_us (refill cfg now vm) = vs_gpu_time_used_us vm"
  by (simp_all add: refill_def Let_def)

lemma ledger_ok_begin: "ledger_ok cfg st \<Longrightarrow> ledger_ok cfg (snd (begin_run cfg now k st))"
  by (auto simp: begin_run_def Let_def split: option.splits intro: ledger_ok_touch)

lemma ledger_ok_record: "ledger_ok cfg st \<Longrightarrow> record_run cfg k g st = Some st' \<Longrightarrow> ledger_ok cfg st'"
  by (auto simp: record_run_def Let_def split: option.splits if_splits intro: ledger_ok_touch)

lemma ledger_ok_release:
  assumes "ledger_ok cfg st"
  shows "ledger_ok cfg (release k st)"
proof (cases "map_of (st_vms st) k")
  case None
  with assms show ?thesis by (simp add: release_def)
next
  case (Some v)
  have ok: "amap_ok (st_vms st)" using assms by (simp add: ledger_ok_def)
  note sums = sum_delete_old [OF ok Some, of vs_vram_reserved_mb]
    sum_delete_old [OF ok Some, of "\<lambda>v. of_bool (vs_holds_encoder v)"]
  have "length (AList.delete k (st_vms st)) \<le> length (st_vms st)"
    using length_delete_old [OF ok Some] by simp
  then show ?thesis
    using assms sums Some by (auto simp: ledger_ok_def release_def)
qed

lemma ledger_ok_revise:
  assumes ok: "ledger_ok cfg st" and v: "map_of (st_vms st) k = Some v"
    and used: "used + vs_vram_reserved_mb v = st_vram_used_mb st + mb" "used \<le> vram_budget cfg"
  shows "ledger_ok cfg (st\<lparr>st_vram_used_mb := used,
    st_vms := AList.update k (v\<lparr>vs_vram_reserved_mb := mb\<rparr>) (st_vms st)\<rparr>)"
proof -
  let ?v = "v\<lparr>vs_vram_reserved_mb := mb\<rparr>"
  have "amap_sum vs_vram_reserved_mb (AList.update k ?v (st_vms st)) = used"
    using sum_update_old [OF v, of vs_vram_reserved_mb ?v] used ok by (simp add: ledger_ok_def)
  moreover have "amap_sum (\<lambda>v. of_bool (vs_holds_encoder v)) (AList.update k ?v (st_vms st)) =
    (amap_sum (\<lambda>v. of_bool (vs_holds_encoder v)) (st_vms st) :: nat)"
    using sum_update_old [OF v, of "\<lambda>v. of_bool (vs_holds_encoder v)" ?v] by simp
  ultimately show ?thesis
    using ok v used(2) unfolding ledger_ok_def by (auto simp: length_update_old)
qed

lemma adjust_cases:
  assumes "ledger_ok cfg st" and v: "map_of (st_vms st) k = Some v"
  obtains (refused) "adjust_vram cfg k mb st = (Inl (InsufficientVram (mb - vs_vram_reserved_mb v)
        (vram_budget cfg - st_vram_used_mb st)), st)"
      "vs_vram_reserved_mb v < mb" "vram_budget cfg < st_vram_used_mb st + (mb - vs_vram_reserved_mb v)"
    | (revised) used where "adjust_vram cfg k mb st = (Inr mb, st\<lparr>st_vram_used_mb := used,
        st_vms := AList.update k (v\<lparr>vs_vram_reserved_mb := mb\<rparr>) (st_vms st)\<rparr>)"
      "used + vs_vram_reserved_mb v = st_vram_used_mb st + mb" "used \<le> vram_budget cfg"
proof -
  let ?old = "vs_vram_reserved_mb v" and ?used = "st_vram_used_mb st"
  have le: "?old \<le> ?used" "?used \<le> vram_budget cfg"
    using assms(1) sum_member_le [OF v, of vs_vram_reserved_mb] by (simp_all add: ledger_ok_def)
  consider (grow) "?old < mb" "mb - ?old \<le> vram_budget cfg - ?used"
    | (over) "?old < mb" "vram_budget cfg - ?used < mb - ?old" | (shrink) "mb \<le> ?old" by linarith
  then show thesis
  proof cases
    case grow
    then show thesis
      by (intro revised [of "?used + (mb - ?old)"]) (use v le in \<open>simp_all add: adjust_vram_def\<close>)
  next
    case over
    then show thesis
      by (intro refused) (use v le in \<open>simp_all add: adjust_vram_def\<close>)
  next
    case shrink
    then show thesis
      by (intro revised [of "?used - (?old - mb)"]) (use v le in \<open>simp_all add: adjust_vram_def\<close>)
  qed
qed

lemma ledger_ok_adjust:
  assumes "ledger_ok cfg st"
  shows "ledger_ok cfg (snd (adjust_vram cfg k mb st))"
proof (cases "map_of (st_vms st) k")
  case None
  with assms show ?thesis by (simp add: adjust_vram_def)
next
  case (Some v)
  show ?thesis
    by (rule adjust_cases [OF assms Some, of mb]) (use assms Some in \<open>simp_all add: ledger_ok_revise\<close>)
qed

lemma admit_success:
  assumes "admit cfg now vc req st = (Inr k, st')"
  shows "k = vc_vm_id vc" "map_of (st_vms st) k = None"
    "wrap_u32 (length (st_vms st)) < bc_max_concurrent_gpu_vms cfg"
    "ar_vram_mb req \<le> vc_vram_cap_mb vc" "encoder_denied cfg req st = None"
    "ar_vram_mb req \<le> vram_budget cfg - st_vram_used_mb st"
    "st' = st\<lparr>st_vram_used_mb := st_vram_used_mb st + ar_vram_mb req,
            st_enc_sessions_used := st_enc_sessions_used st + of_bool (ar_needs_encoder req),
            st_vms := AList.update k (fresh_vm cfg now vc req) (st_vms st)\<rparr>"
  using assms by (auto simp: admit_def Let_def split: if_splits option.splits)

lemma admit_failure: "admit cfg now vc req st = (Inl e, st') \<Longrightarrow> st' = st"
  by (auto simp: admit_def Let_def split: if_splits option.splits)

lemma ledger_ok_admit:
  assumes "ledger_ok cfg st" "config_ok cfg"
  shows "ledger_ok cfg (snd (admit cfg now vc req st))"
proof (cases "admit cfg now vc req st")
  case (Pair res st')
  show ?thesis
  proof (cases res)
    case (Inl e)
    with Pair assms admit_failure [of cfg now vc req st e st'] show ?thesis by simp
  next
    case (Inr k)
    note ok = admit_success [OF Pair [unfolded Inr]]
    have len: "length (st_vms st) < bc_max_concurrent_gpu_vms cfg"
      using assms ok(3) by (simp add: ledger_ok_def config_ok_def)
    have enc: "st_enc_sessions_used st + of_bool (ar_needs_encoder req) \<le> cap"
      if "bc_max_enc_sessions cfg = Some cap" for cap
      using assms(1) ok(5) that by (auto simp: ledger_ok_def encoder_denied_def split: if_splits)
    have fit: "st_vram_used_mb st + ar_vram_mb req \<le> vram_budget cfg"
      using assms(1) ok(6) by (auto simp: ledger_ok_def)
    show ?thesis
      using assms(1) ok(1,2) len enc fit Pair sum_update_new [OF ok(2)]
      by (auto simp: ok(7) ledger_ok_def fresh_vm_def length_update_new)
  qed
qed

text \<open>Every critical section of the broker, in any order and for any VM.\<close>

inductive broker_step :: "BrokerConfig \<Rightarrow> State \<Rightarrow> State \<Rightarrow> bool" for cfg where
  admit: "broker_step cfg st (snd (admit cfg now vc req st))"
| adjust: "broker_step cfg st (snd (adjust_vram cfg k mb st))"
| begins: "broker_step cfg st (snd (begin_run cfg now k st))"
| records: "record_run cfg k g st = Some st' \<Longrightarrow> broker_step cfg st st'"
| drops: "broker_step cfg st (snd (ticket_drop t st))"

inductive broker_reach :: "BrokerConfig \<Rightarrow> State \<Rightarrow> bool" for cfg where
  start: "broker_reach cfg State_new"
| step: "broker_reach cfg st \<Longrightarrow> broker_step cfg st st' \<Longrightarrow> broker_reach cfg st'"

lemma broker_step_ledger: "broker_step cfg st st' \<Longrightarrow> config_ok cfg \<Longrightarrow> ledger_ok cfg st \<Longrightarrow> ledger_ok cfg st'"
  by (induction rule: broker_step.induct)
    (auto simp: ticket_drop_def intro: ledger_ok_admit ledger_ok_adjust ledger_ok_begin
      ledger_ok_record ledger_ok_release)

lemma broker_reach_ledger: "broker_reach cfg st \<Longrightarrow> config_ok cfg \<Longrightarrow> ledger_ok cfg st"
  by (induction rule: broker_reach.induct) (auto intro: ledger_ok_new broker_step_ledger)

subsection \<open>The token bucket in the range where nothing wraps\<close>

definition bucket_sane :: "BrokerConfig \<Rightarrow> VmState \<Rightarrow> bool" where
  "bucket_sane cfg vm \<longleftrightarrow> bc_bucket_burst_us cfg < 2 ^ 62 \<and>
     - (2 ^ 62) \<le> vs_tokens_us vm \<and> vs_tokens_us vm \<le> int (bc_bucket_burst_us cfg)"

definition reading_sane :: "BrokerConfig \<Rightarrow> VmConfig \<Rightarrow> nat \<Rightarrow> bool" where
  "reading_sane cfg vc now \<longleftrightarrow> refill_rate cfg vc * now div 1000000 < 2 ^ 61"

lemma refill_exact:
  assumes "bucket_sane cfg vm" and "reading_sane cfg (vs_cfg vm) now"
  shows "vs_tokens_us (refill cfg now vm) = min (vs_tokens_us vm +
      int (refill_rate cfg (vs_cfg vm) * (now - vs_last_refill_us vm) div 1000000))
      (int (bc_bucket_burst_us cfg))"
    and "vs_last_refill_us (refill cfg now vm) = max (vs_last_refill_us vm) now"
proof -
  let ?rate = "refill_rate cfg (vs_cfg vm)" and ?dt = "now - vs_last_refill_us vm"
  let ?add = "?rate * ?dt div 1000000"
  have "?add \<le> ?rate * now div 1000000" by (intro div_le_mono mult_le_mono) simp_all
  then have add: "?add < 2 ^ 61" using assms(2) by (simp add: reading_sane_def)
  then have w1: "wrap_i64 (int ?add) = int ?add" by (intro wrap_i64_id) auto
  have w2: "wrap_i64 (vs_tokens_us vm + int ?add) = vs_tokens_us vm + int ?add"
    using add assms(1) by (intro wrap_i64_id) (auto simp: bucket_sane_def)
  have w3: "wrap_i64 (int (bc_bucket_burst_us cfg)) = int (bc_bucket_burst_us cfg)"
    using assms(1) by (intro wrap_i64_id) (auto simp: bucket_sane_def)
  show "vs_tokens_us (refill cfg now vm) = min (vs_tokens_us vm + int ?add)
      (int (bc_bucket_burst_us cfg))"
    using assms(1) by (simp add: refill_def Let_def w1 w2 w3 bucket_sane_def)
  show "vs_last_refill_us (refill cfg now vm) = max (vs_last_refill_us vm) now"
    by (simp add: refill_def Let_def max_def)
qed

lemma refill_sane: "bucket_sane cfg vm \<Longrightarrow> reading_sane cfg (vs_cfg vm) now \<Longrightarrow> bucket_sane cfg (refill cfg now vm)"
  using refill_exact(1) [of cfg vm now] by (auto simp: bucket_sane_def)

lemma div_add_le: "a div c + b div c \<le> (a + b) div (c :: nat)"
  by (metis div_add1_eq le_add1)

text \<open>What has been granted since admission at \<open>t0\<close>, and the metering invariant of a VM whose
  single renders take at most \<open>G\<close>.\<close>

definition granted :: "BrokerConfig \<Rightarrow> nat \<Rightarrow> VmState \<Rightarrow> nat" where
  "granted cfg t0 vm = bc_bucket_burst_us cfg +
     refill_rate cfg (vs_cfg vm) * (vs_last_refill_us vm - t0) div 1000000"

definition metered :: "BrokerConfig \<Rightarrow> nat \<Rightarrow> nat \<Rightarrow> VmState \<Rightarrow> bool" where
  "metered cfg t0 G vm \<longleftrightarrow> bucket_sane cfg vm \<and> t0 \<le> vs_last_refill_us vm \<and> G < 2 ^ 62 \<and>
     reading_sane cfg (vs_cfg vm) (vs_last_refill_us vm) \<and> - int G \<le> vs_tokens_us vm \<and>
     vs_tokens_us vm + int (vs_gpu_time_used_us vm) \<le> int (granted cfg t0 vm) \<and>
     vs_gpu_time_used_us vm \<le> granted cfg t0 vm + G"

lemma granted_refill:
  assumes "bucket_sane cfg vm" "reading_sane cfg (vs_cfg vm) now" "t0 \<le> vs_last_refill_us vm"
  shows "granted cfg t0 vm + refill_rate cfg (vs_cfg vm) * (now - vs_last_refill_us vm) div 1000000
    \<le> granted cfg t0 (refill cfg now vm)"
proof -
  let ?r = "refill_rate cfg (vs_cfg vm)" and ?l = "vs_last_refill_us vm"
  have "?r * (?l - t0) div 1000000 + ?r * (now - ?l) div 1000000
    \<le> (?r * (?l - t0) + ?r * (now - ?l)) div 1000000" by (rule div_add_le)
  also have "?r * (?l - t0) + ?r * (now - ?l) = ?r * (max ?l now - t0)"
    using assms(3) by (auto simp: max_def simp flip: distrib_left)
  finally show ?thesis using refill_exact(2) [OF assms(1,2)] by (simp add: granted_def)
qed

lemma metered_refill:
  assumes "metered cfg t0 G vm" "reading_sane cfg (vs_cfg vm) now"
  shows "metered cfg t0 G (refill cfg now vm)"
proof -
  have b: "bucket_sane cfg vm" and t: "t0 \<le> vs_last_refill_us vm"
    using assms(1) by (simp_all add: metered_def)
  note g = granted_refill [OF b assms(2) t] and r = refill_exact [OF b assms(2)]
  have rs: "reading_sane cfg (vs_cfg vm) (max (vs_last_refill_us vm) now)"
    using assms by (simp add: metered_def max_def)
  show ?thesis
    using assms(1) g r refill_sane [OF b assms(2)] rs t
    unfolding metered_def refill_keeps by (auto simp: min_def)
qed

lemma metered_debit:
  assumes m: "metered cfg t0 G vm" and tokens: "0 < vs_tokens_us vm" and g: "g \<le> G"
  shows "metered cfg t0 G (vm\<lparr>vs_tokens_us := wrap_i64 (vs_tokens_us vm - wrap_i64 (int g)),
     vs_gpu_time_used_us := wrap_u64 (vs_gpu_time_used_us vm + g),
     vs_vruntime_us := a, vs_submissions := b, vs_watchdog_trips := c\<rparr>)"
    (is "metered cfg t0 G ?vm'")
proof -
  have G: "G < 2 ^ 62" and used: "vs_gpu_time_used_us vm \<le> granted cfg t0 vm"
    and burst: "bc_bucket_burst_us cfg < 2 ^ 62"
    using m tokens by (auto simp: metered_def bucket_sane_def)
  have "refill_rate cfg (vs_cfg vm) * (vs_last_refill_us vm - t0) div 1000000
      \<le> refill_rate cfg (vs_cfg vm) * vs_last_refill_us vm div 1000000"
    by (intro div_le_mono mult_le_mono) simp_all
  then have "granted cfg t0 vm < 2 ^ 62 + 2 ^ 61"
    using m burst by (simp add: granted_def metered_def reading_sane_def)
  then have u: "wrap_u64 (vs_gpu_time_used_us vm + g) = vs_gpu_time_used_us vm + g"
    using used g G by (intro wrap_u64_id) simp
  have w1: "wrap_i64 (int g) = int g" using g G by (intro wrap_i64_id) auto
  have w2: "wrap_i64 (vs_tokens_us vm - int g) = vs_tokens_us vm - int g"
    using m tokens g G by (intro wrap_i64_id) (auto simp: metered_def bucket_sane_def)
  show ?thesis using m tokens g G used
    by (auto simp: metered_def w1 w2 u bucket_sane_def granted_def)
qed

subsection \<open>Turns of one VM\<close>

text \<open>
  A VM that tries to run at successive clock readings, rendering for \<open>g\<close> microseconds whenever it is
  let through: the sequence of critical sections \<open>run_timed\<close> goes through for it.
\<close>

fun gpu_turns :: "BrokerConfig \<Rightarrow> string \<Rightarrow> (nat \<times> nat) list \<Rightarrow> State \<Rightarrow> State option" where
  "gpu_turns cfg k [] st = Some st"
| "gpu_turns cfg k ((now, g) # turns) st = (case begin_run cfg now k st of
     (None, st') \<Rightarrow> None
   | (Some Ready, st') \<Rightarrow> record_run cfg k g st' \<bind> gpu_turns cfg k turns
   | (Some (Throttled w), st') \<Rightarrow> gpu_turns cfg k turns st')"

lemma begin_cases:
  assumes v: "map_of (st_vms st) k = Some v"
  obtains (ready) st' where "begin_run cfg now k st = (Some Ready, st')"
      "map_of (st_vms st') k = Some (refill cfg now v)"
      "\<not> bc_throttle_enabled cfg \<or> 0 < vs_tokens_us (refill cfg now v)"
    | (throttled) st' where
      "begin_run cfg now k st = (Some (Throttled (throttle_wait cfg (refill cfg now v))), st')"
      "map_of (st_vms st') k = Some ((refill cfg now v)\<lparr>vs_throttle_events :=
         wrap_u64 (vs_throttle_events (refill cfg now v) + 1)\<rparr>)"
      "bc_throttle_enabled cfg" "vs_tokens_us (refill cfg now v) \<le> 0"
proof (cases "\<not> bc_throttle_enabled cfg \<or> 0 < vs_tokens_us (refill cfg now v)")
  case True
  with v have "begin_run cfg now k st =
      (Some Ready, st\<lparr>st_vms := AList.update k (refill cfg now v) (st_vms st)\<rparr>)"
    by (simp add: begin_run_def Let_def)
  then show thesis by (rule ready) (use True in simp_all)
next
  case False
  with v have "begin_run cfg now k st = (Some (Throttled (throttle_wait cfg (refill cfg now v))),
      st\<lparr>st_vms := AList.update k ((refill cfg now v)\<lparr>vs_throttle_events :=
         wrap_u64 (vs_throttle_events (refill cfg now v) + 1)\<rparr>) (st_vms st)\<rparr>)"
    by (simp add: begin_run_def Let_def)
  then show thesis by (rule throttled) (use False in simp_all)
qed

lemma record_cases:
  assumes "map_of (st_vms st) k = Some v" "record_run cfg k g st = Some st'"
  obtains b c a where "map_of (st_vms st') k = Some (v\<lparr>
     vs_tokens_us := wrap_i64 (vs_tokens_us v - wrap_i64 (int g)),
     vs_gpu_time_used_us := wrap_u64 (vs_gpu_time_used_us v + g),
     vs_vruntime_us := a, vs_submissions := b, vs_watchdog_trips := c\<rparr>)"
proof (cases "effective_weight_num (vs_cfg v) = 0")
  case False
  with assms have "map_of (st_vms st') k = Some (v\<lparr>
     vs_tokens_us := wrap_i64 (vs_tokens_us v - wrap_i64 (int g)),
     vs_gpu_time_used_us := wrap_u64 (vs_gpu_time_used_us v + g),
     vs_vruntime_us := wrap_u64 (vs_vruntime_us v +
       wrap_u64 (g * 256 div effective_weight_num (vs_cfg v))),
     vs_submissions := wrap_u64 (vs_submissions v + 1),
     vs_watchdog_trips := (if bc_watchdog_us cfg < g
               then wrap_u64 (vs_watchdog_trips v + 1) else vs_watchdog_trips v)\<rparr>)"
    by (simp only: record_run_def Let_def if_False option.case option.inject) auto
  then show thesis by (rule that)
qed (use assms in \<open>simp add: record_run_def\<close>)

lemma metered_throttle_events [simp]:
  "metered cfg t0 G (vm\<lparr>vs_throttle_events := n\<rparr>) = metered cfg t0 G vm"
  by (simp add: metered_def bucket_sane_def granted_def)

lemma gpu_turns_metered:
  assumes "gpu_turns cfg k turns st = Some st'" "map_of (st_vms st) k = Some v"
    and "metered cfg t0 G v" "bc_throttle_enabled cfg"
    and "\<forall>(now, g) \<in> set turns. g \<le> G \<and> reading_sane cfg (vs_cfg v) now"
  shows "\<exists>v'. map_of (st_vms st') k = Some v' \<and> metered cfg t0 G v' \<and> vs_cfg v' = vs_cfg v"
  using assms
proof (induction turns arbitrary: st v)
  case (Cons turn turns)
  obtain now g where turn: "turn = (now, g)" by (cases turn)
  let ?v = "refill cfg now v"
  have m: "metered cfg t0 G ?v" using Cons.prems turn by (intro metered_refill) auto
  from \<open>map_of (st_vms st) k = Some v\<close> show ?case
  proof (cases rule: begin_cases [where cfg = cfg and now = now])
    case (ready st1)
    then obtain st2 where st2: "record_run cfg k g st1 = Some st2"
        "gpu_turns cfg k turns st2 = Some st'"
      using Cons.prems(1) turn by (auto simp: bind_eq_Some_conv)
    obtain a b c where "map_of (st_vms st2) k = Some (?v\<lparr>
       vs_tokens_us := wrap_i64 (vs_tokens_us ?v - wrap_i64 (int g)),
       vs_gpu_time_used_us := wrap_u64 (vs_gpu_time_used_us ?v + g),
       vs_vruntime_us := a, vs_submissions := b, vs_watchdog_trips := c\<rparr>)"
      using record_cases [OF ready(2) st2(1)] by blast
    moreover have "metered cfg t0 G (?v\<lparr>
       vs_tokens_us := wrap_i64 (vs_tokens_us ?v - wrap_i64 (int g)),
       vs_gpu_time_used_us := wrap_u64 (vs_gpu_time_used_us ?v + g),
       vs_vruntime_us := a, vs_submissions := b, vs_watchdog_trips := c\<rparr>)"
      using ready(3) Cons.prems(4,5) turn by (intro metered_debit m) auto
    ultimately show ?thesis
      using Cons.IH [OF st2(2)] Cons.prems(4,5) by auto
  next
    case (throttled st1)
    then have "gpu_turns cfg k turns st1 = Some st'" using Cons.prems(1) turn by simp
    from Cons.IH [OF this throttled(2)] show ?thesis using m Cons.prems(4,5) by auto
  qed
qed simp

subsection \<open>The wait ends\<close>

text \<open>The loop sleeps for the returned wait, at most 50 ms, before it tries again.\<close>

fun sleeps_ok :: "BrokerConfig \<Rightarrow> string \<Rightarrow> nat list \<Rightarrow> State \<Rightarrow> bool" where
  "sleeps_ok cfg k [] st = True"
| "sleeps_ok cfg k [now] st = True"
| "sleeps_ok cfg k (now # now' # later) st = (case begin_run cfg now k st of
     (Some (Throttled w), st') \<Rightarrow> now + min w 50000 \<le> now' \<and> sleeps_ok cfg k (now' # later) st'
   | _ \<Rightarrow> True)"

lemma wait_pays:
  assumes tokens: "vs_tokens_us vm \<le> 0" "- (2 ^ 40) \<le> vs_tokens_us vm"
    and rate: "20 \<le> refill_rate cfg (vs_cfg vm)"
    and g: "min (throttle_wait cfg vm) 50000 \<le> g"
  shows "1 \<le> refill_rate cfg (vs_cfg vm) * g div 1000000"
proof -
  let ?r = "refill_rate cfg (vs_cfg vm)"
  define D where "D = nat (1000 - vs_tokens_us vm) * 1000000"
  have w: "wrap_i64 (1000 - vs_tokens_us vm) = 1000 - vs_tokens_us vm"
    using tokens by (intro wrap_i64_id) auto
  have D: "1000000000 \<le> D" "D < 2 ^ 64" using tokens by (auto simp: D_def)
  have "throttle_wait cfg vm = max (wrap_u64 (D div ?r)) 1"
    using tokens rate by (simp add: throttle_wait_def Let_def w D_def max_def)
  also have "wrap_u64 (D div ?r) = D div ?r"
    using D by (intro wrap_u64_id) (meson div_le_dividend le_less_trans)
  finally have tw: "throttle_wait cfg vm = max (D div ?r) 1" .
  consider (cap) "50000 \<le> g" | (waited) "D div ?r \<le> g" "1 \<le> g" "1 \<le> D div ?r" | (fast) "D div ?r = 0" "1 \<le> g"
    using g unfolding tw by linarith
  then have "1000000 \<le> ?r * g"
  proof cases
    case cap
    then have "20 * 50000 \<le> ?r * g" using rate by (intro mult_le_mono)
    then show ?thesis by simp
  next
    case waited
    have "D = ?r * (D div ?r) + D mod ?r" by simp
    moreover have "D mod ?r < ?r" using rate by (intro mod_less_divisor) simp
    moreover have "?r * 1 \<le> ?r * (D div ?r)" using waited(3) by (intro mult_le_mono2)
    moreover have "?r * (D div ?r) \<le> ?r * g" using waited(1) by (intro mult_le_mono2)
    ultimately show ?thesis using D(1) by linarith
  next
    case fast
    then have "D < ?r" using rate by (simp add: div_eq_0_iff)
    moreover have "?r * 1 \<le> ?r * g" using fast(2) by (intro mult_le_mono2)
    ultimately show ?thesis using D(1) by linarith
  qed
  then show ?thesis by (simp add: div_greater_zero_iff Suc_le_eq)
qed

lemma admission_loop_progress:
  assumes "map_of (st_vms st) k = Some v" "bc_throttle_enabled cfg" "bucket_sane cfg v"
    and "- (2 ^ 40) \<le> vs_tokens_us v" "1 \<le> bc_bucket_burst_us cfg" "20 \<le> refill_rate cfg (vs_cfg v)"
    and "\<forall>now \<in> set (now # later). reading_sane cfg (vs_cfg v) now"
    and "vs_last_refill_us v \<le> now" "sleeps_ok cfg k (now # later) st"
    and "1 - vs_tokens_us (refill cfg now v) \<le> int (length later)"
  shows "\<exists>st'. admission_loop cfg k (now # later) st = Some (True, st')"
  using assms
proof (induction later arbitrary: now st v)
  case Nil
  from \<open>map_of (st_vms st) k = Some v\<close> show ?case
    by (cases rule: begin_cases [where cfg = cfg and now = now]) (use Nil in auto)
next
  case (Cons now' later)
  let ?v = "refill cfg now v"
  have sane: "bucket_sane cfg v" "reading_sane cfg (vs_cfg v) now" "reading_sane cfg (vs_cfg v) now'"
    using Cons.prems by auto
  note r = refill_exact [OF sane(1,2)]
  have low: "vs_tokens_us v \<le> vs_tokens_us ?v"
    using r(1) sane(1) by (auto simp: bucket_sane_def)
  from \<open>map_of (st_vms st) k = Some v\<close> show ?case
  proof (cases rule: begin_cases [where cfg = cfg and now = now])
    case (ready st1)
    then show ?thesis by simp
  next
    case (throttled st1)
    let ?w = "?v\<lparr>vs_throttle_events := wrap_u64 (vs_throttle_events ?v + 1)\<rparr>"
    have sleep: "now + min (throttle_wait cfg ?v) 50000 \<le> now'" "sleeps_ok cfg k (now' # later) st1"
      using Cons.prems(9) throttled(1) by simp_all
    have last: "vs_last_refill_us ?v = now" using r(2) Cons.prems(8) by simp
    have w: "bucket_sane cfg ?w" using refill_sane [OF sane(1,2)] by (simp add: bucket_sane_def)
    have "1 \<le> refill_rate cfg (vs_cfg ?v) * (now' - now) div 1000000"
      using throttled(4) low Cons.prems(4,6) sleep(1) by (intro wait_pays) auto
    then have "1 - vs_tokens_us (refill cfg now' ?w) \<le> int (length later)"
      using refill_exact(1) [OF w, of now'] sane(3) Cons.prems(5,10) last by (auto simp: min_def)
    then have "\<exists>st'. admission_loop cfg k (now' # later) st1 = Some (True, st')"
      using throttled(2) Cons.prems w last sleep low by (intro Cons.IH [of st1 ?w]) auto
    then show ?thesis using throttled(1) by simp
  qed
qed

subsection \<open>Properties\<close>

text \<open>C12: whatever sequence of admissions, revisions, run attempts, completions and ticket drops the
  broker goes through, for any VMs and in any order, the VRAM word is the sum of the live
  reservations and never exceeds the budget, no more VMs than \<open>max_concurrent_gpu_vms\<close> are
  registered, and the encoder word counts the holders and never exceeds its cap.\<close>

theorem broker_ledger_safe:
  assumes "broker_reach cfg st" and "config_ok cfg"
  shows "st_vram_used_mb st = amap_sum vs_vram_reserved_mb (st_vms st) \<and>
    st_vram_used_mb st \<le> vram_budget cfg \<and>
    length (st_vms st) \<le> bc_max_concurrent_gpu_vms cfg \<and>
    st_enc_sessions_used st = length (filter (\<lambda>(k, v). vs_holds_encoder v) (st_vms st)) \<and>
    (case bc_max_enc_sessions cfg of None \<Rightarrow> True | Some cap \<Rightarrow> st_enc_sessions_used st \<le> cap)"
proof -
  have count: "amap_sum (\<lambda>v. of_bool (vs_holds_encoder v)) m =
      length (filter (\<lambda>(k, v). vs_holds_encoder v) m)" for m :: "(string \<times> VmState) list"
    by (induction m) auto
  from broker_reach_ledger [OF assms] show ?thesis
    by (auto simp: ledger_ok_def count split: option.split)
qed

theorem broker_ledger_safe_witness:
  "\<exists>st. broker_reach BrokerConfig_default st \<and> length (st_vms st) = 1 \<and> st_vram_used_mb st = 256 \<and>
     st_vram_used_mb st \<le> 24 * 1024 - 1024"
proof -
  let ?cfg = "BrokerConfig_default"
  let ?st = "snd (admit ?cfg 0 (VmConfig_new ''vm0'' 1 4096) (AdmitRequest_vram 256) State_new)"
  have r: "broker_reach ?cfg ?st" by (rule broker_reach.step [OF broker_reach.start broker_step.admit])
  have c: "config_ok ?cfg" by (rule config_ok_default)
  have "length (st_vms ?st) = 1 \<and> st_vram_used_mb ?st = 256"
    by (simp add: admit_def State_new_def BrokerConfig_default_def VmConfig_new_def
        AdmitRequest_vram_def encoder_denied_def vram_budget_def)
  with broker_ledger_safe [OF r c] r show ?thesis
    by (intro exI [of _ ?st]) simp
qed



text \<open>The reap undoes the admission. Dropping the ticket of an admission that succeeded restores
  the whole broker state, ledger words and registered VMs, and a second drop does nothing.\<close>

theorem admit_then_drop:
  assumes "admit cfg now vc req st = (Inr k, st')"
  shows "ticket_drop \<lparr>tk_vm_id = k, tk_released = False\<rparr> st' =
      (\<lparr>tk_vm_id = k, tk_released = True\<rparr>, st) \<and>
    ticket_drop \<lparr>tk_vm_id = k, tk_released = True\<rparr> st = (\<lparr>tk_vm_id = k, tk_released = True\<rparr>, st)"
proof -
  have undo: "AList.delete k (AList.update k v m) = m" if "map_of m k = None"
    for v :: VmState and m
    using that by (induction m) (auto split: if_splits)
  note ok = admit_success [OF assms]
  show ?thesis
    using undo [OF ok(2)] by (simp add: ok(7) ticket_drop_def release_def fresh_vm_def)
qed

theorem admit_then_drop_witness:
  "let (res, st) = admit BrokerConfig_default 7 (VmConfig_new ''vm0'' 1 4096) (AdmitRequest_streaming 256) State_new
   in res = Inr ''vm0'' \<and> st_enc_sessions_used st = 1 \<and>
      snd (ticket_drop \<lparr>tk_vm_id = ''vm0'', tk_released = False\<rparr> st) = State_new"
proof -
  let ?a = "admit BrokerConfig_default 7 (VmConfig_new ''vm0'' 1 4096) (AdmitRequest_streaming 256) State_new"
  have a: "fst ?a = Inr ''vm0''" "st_enc_sessions_used (snd ?a) = 1"
    by (simp_all add: admit_def State_new_def BrokerConfig_default_def VmConfig_new_def
        AdmitRequest_streaming_def encoder_denied_def vram_budget_def)
  then have "?a = (Inr ''vm0'', snd ?a)" by (metis prod.collapse)
  from admit_then_drop [OF this] a show ?thesis by (simp add: case_prod_beta)
qed

text \<open>Revising a reservation on a consistent ledger. Shrinking always succeeds; a grow succeeds
  exactly when the new total fits the budget, and otherwise the old reservation stands. On success
  the ledger word moves by the difference and only that VM's reservation changes.\<close>

theorem adjust_vram_contract:
  assumes "ledger_ok cfg st" and "map_of (st_vms st) k = Some v"
  shows "adjust_vram cfg k mb st =
    (if mb \<le> vs_vram_reserved_mb v \<or>
        st_vram_used_mb st + mb \<le> vram_budget cfg + vs_vram_reserved_mb v
     then (Inr mb, st\<lparr>st_vram_used_mb := st_vram_used_mb st + mb - vs_vram_reserved_mb v,
        st_vms := AList.update k (v\<lparr>vs_vram_reserved_mb := mb\<rparr>) (st_vms st)\<rparr>)
     else (Inl (InsufficientVram (mb - vs_vram_reserved_mb v) (vram_budget cfg - st_vram_used_mb st)), st))"
proof (rule adjust_cases [OF assms, of mb])
  assume r: "adjust_vram cfg k mb st = (Inl (InsufficientVram (mb - vs_vram_reserved_mb v)
        (vram_budget cfg - st_vram_used_mb st)), st)"
    and over: "vs_vram_reserved_mb v < mb"
      "vram_budget cfg < st_vram_used_mb st + (mb - vs_vram_reserved_mb v)"
  then have "\<not> (mb \<le> vs_vram_reserved_mb v \<or>
      st_vram_used_mb st + mb \<le> vram_budget cfg + vs_vram_reserved_mb v)" by linarith
  then show ?thesis unfolding r by (simp only: if_False)
next
  fix used
  assume r: "adjust_vram cfg k mb st = (Inr mb, st\<lparr>st_vram_used_mb := used,
        st_vms := AList.update k (v\<lparr>vs_vram_reserved_mb := mb\<rparr>) (st_vms st)\<rparr>)"
    and used: "used + vs_vram_reserved_mb v = st_vram_used_mb st + mb" "used \<le> vram_budget cfg"
  have "used = st_vram_used_mb st + mb - vs_vram_reserved_mb v"
    "mb \<le> vs_vram_reserved_mb v \<or> st_vram_used_mb st + mb \<le> vram_budget cfg + vs_vram_reserved_mb v"
    using used by linarith+
  then show ?thesis unfolding r by (simp only: if_True)
qed

theorem adjust_vram_contract_witness:
  "\<exists>st. ledger_ok BrokerConfig_default st \<and>
     fst (adjust_vram BrokerConfig_default ''vm0'' 30000 st) = Inl (InsufficientVram 29744 23296)"
proof -
  let ?st = "snd (admit BrokerConfig_default 0 (VmConfig_new ''vm0'' 1 4096) (AdmitRequest_vram 256) State_new)"
  have ok: "ledger_ok BrokerConfig_default ?st"
    by (intro ledger_ok_admit ledger_ok_new config_ok_default)
  have st: "?st = \<lparr>st_vram_used_mb = 256, st_enc_sessions_used = 0, st_vms = [(''vm0'',
      fresh_vm BrokerConfig_default 0 (VmConfig_new ''vm0'' 1 4096) (AdmitRequest_vram 256))]\<rparr>"
    by (simp add: admit_def State_new_def BrokerConfig_default_def VmConfig_new_def
        AdmitRequest_vram_def encoder_denied_def vram_budget_def)
  have v: "map_of (st_vms ?st) ''vm0'' =
      Some (fresh_vm BrokerConfig_default 0 (VmConfig_new ''vm0'' 1 4096) (AdmitRequest_vram 256))"
    unfolding st by simp
  from adjust_vram_contract [OF ok v, of 30000]
  have "fst (adjust_vram BrokerConfig_default ''vm0'' 30000 ?st) = Inl (InsufficientVram 29744 23296)"
    unfolding st by (simp add: fresh_vm_def AdmitRequest_vram_def vram_budget_def BrokerConfig_default_def)
  with ok show ?thesis by blast
qed

text \<open>The per-VM cap is checked at admission only: a grow past \<open>vram_cap_mb\<close> is granted.\<close>

lemma adjust_ignores_vm_cap:
  "(let st = snd (admit BrokerConfig_default 0 (VmConfig_new ''vm0'' 1 512) (AdmitRequest_vram 256) State_new)
    in fst (adjust_vram BrokerConfig_default ''vm0'' 4096 st)) = Inr 4096"
  by (simp add: admit_def State_new_def BrokerConfig_default_def VmConfig_new_def fresh_vm_def
        AdmitRequest_vram_def encoder_denied_def vram_budget_def adjust_vram_def)

text \<open>C25: fair share. A throttled VM admitted at \<open>t0\<close> whose renders each take at most \<open>G\<close> can, over
  any sequence of run attempts, not use more GPU time than its burst, plus its refill rate times
  the elapsed time, plus one render: a bucket may be overrun once, never twice.\<close>

theorem gpu_time_rate_limited:
  assumes "admit cfg t0 vc req st0 = (Inr k, st)" and "gpu_turns cfg k turns st = Some st'"
    and "bc_throttle_enabled cfg" "bc_bucket_burst_us cfg < 2 ^ 62" "G < 2 ^ 62"
    and "reading_sane cfg vc t0"
    and "\<forall>(now, g) \<in> set turns. g \<le> G \<and> reading_sane cfg vc now"
  shows "\<exists>v. map_of (st_vms st') k = Some v \<and> vs_gpu_time_used_us v \<le> bc_bucket_burst_us cfg +
     refill_rate cfg vc * (vs_last_refill_us v - t0) div 1000000 + G"
proof -
  let ?v = "fresh_vm cfg t0 vc req"
  have v: "map_of (st_vms st) k = Some ?v" using admit_success(7) [OF assms(1)] by simp
  have w: "wrap_i64 (int (bc_bucket_burst_us cfg)) = int (bc_bucket_burst_us cfg)"
    using assms(4) by (intro wrap_i64_id) auto
  have m: "metered cfg t0 G ?v"
    using assms by (simp add: metered_def bucket_sane_def granted_def fresh_vm_def w)
  have "\<exists>v'. map_of (st_vms st') k = Some v' \<and> metered cfg t0 G v' \<and> vs_cfg v' = vs_cfg ?v"
    using assms(7) by (intro gpu_turns_metered [OF assms(2) v m assms(3)]) (simp add: fresh_vm_def)
  then obtain v' where v': "map_of (st_vms st') k = Some v'" "metered cfg t0 G v'" "vs_cfg v' = vc"
    by (auto simp: fresh_vm_def)
  then have "vs_gpu_time_used_us v' \<le> bc_bucket_burst_us cfg +
     refill_rate cfg vc * (vs_last_refill_us v' - t0) div 1000000 + G"
    unfolding metered_def granted_def by simp
  with v'(1) show ?thesis by blast
qed

text \<open>The state after admitting one VM, spelled out for the concrete runs below.\<close>

definition demo_config :: BrokerConfig where
  "demo_config = BrokerConfig_default\<lparr>bc_bucket_burst_us := 1000, bc_max_enc_sessions := Some 1\<rparr>"

definition demo_state :: State where
  "demo_state = \<lparr>st_vram_used_mb = 256, st_enc_sessions_used = 0, st_vms = [(''vm0'',
     fresh_vm demo_config 0 (VmConfig_new ''vm0'' 1 4096) (AdmitRequest_vram 256))]\<rparr>"

lemmas demo_defs = demo_config_def demo_state_def BrokerConfig_default_def VmConfig_new_def
  AdmitRequest_vram_def State_new_def fresh_vm_def

lemma demo_admit: "admit demo_config 0 (VmConfig_new ''vm0'' 1 4096) (AdmitRequest_vram 256) State_new
    = (Inr ''vm0'', demo_state)"
  by (simp add: admit_def demo_defs encoder_denied_def vram_budget_def)

lemma demo_rate: "refill_rate demo_config (VmConfig_new ''vm0'' 1 4096) = 200000"
  by (simp add: refill_rate_def demo_defs effective_weight_num_def)

lemma demo_wraps [simp]: "wrap_i64 1000 = 1000" "wrap_i64 (- 4000) = - 4000" "wrap_i64 5000 = 5000"
  by (simp_all add: wrap_i64_def)

theorem gpu_time_rate_limited_witness:
  "\<exists>st'. gpu_turns demo_config ''vm0'' [(0, 5000), (10, 5000)] demo_state = Some st' \<and>
    (\<exists>v. map_of (st_vms st') ''vm0'' = Some v \<and> vs_gpu_time_used_us v = 5000 \<and>
       vs_gpu_time_used_us v \<le> 1000 + 200000 * (vs_last_refill_us v - 0) div 1000000 + 5000)"
proof -
  obtain st' v where run: "gpu_turns demo_config ''vm0'' [(0, 5000), (10, 5000)] demo_state = Some st'"
    and v: "map_of (st_vms st') ''vm0'' = Some v" "vs_gpu_time_used_us v = 5000"
    by (simp add: demo_defs begin_run_def record_run_def refill_def refill_rate_def
        effective_weight_num_def Let_def wrap_i64_def)
  have "\<exists>v. map_of (st_vms st') ''vm0'' = Some v \<and> vs_gpu_time_used_us v \<le>
      bc_bucket_burst_us demo_config + refill_rate demo_config (VmConfig_new ''vm0'' 1 4096) *
      (vs_last_refill_us v - 0) div 1000000 + 5000"
    by (rule gpu_time_rate_limited [OF demo_admit run])
      (simp_all add: reading_sane_def demo_rate [unfolded One_nat_def], simp_all add: demo_config_def BrokerConfig_default_def)
  then show ?thesis using run v by (auto simp: demo_rate [unfolded One_nat_def] demo_config_def)
qed

text \<open>C26: back-pressure ends. A throttled VM whose rate is at least 20 us/s and whose burst is not
  zero is let through after finitely many rounds, at most its debt plus two, as long as every sleep
  lasts at least the requested wait capped at 50 ms.\<close>

theorem throttled_vm_gets_through:
  assumes "map_of (st_vms st) k = Some v" "bc_throttle_enabled cfg" "bucket_sane cfg v"
    and "- (2 ^ 40) \<le> vs_tokens_us v" "1 \<le> bc_bucket_burst_us cfg" "20 \<le> refill_rate cfg (vs_cfg v)"
    and "\<forall>now \<in> set (first # later). reading_sane cfg (vs_cfg v) now"
    and "vs_last_refill_us v \<le> first" "sleeps_ok cfg k (first # later) st"
    and "nat (1 - vs_tokens_us v) \<le> length later"
  shows "\<exists>st'. admission_loop cfg k (first # later) st = Some (True, st')"
proof (rule admission_loop_progress [OF assms(1-9)])
  have "min (vs_tokens_us v) (int (bc_bucket_burst_us cfg)) \<le> vs_tokens_us (refill cfg first v)"
    using refill_exact(1) [OF assms(3), of first] assms(7) by (simp add: min_def)
  then show "1 - vs_tokens_us (refill cfg first v) \<le> int (length later)"
    using assms(3,5,10) by (auto simp: bucket_sane_def min_def split: if_splits)
qed

theorem throttled_vm_gets_through_witness:
  "let st = demo_state\<lparr>st_vms := map (map_prod id (vs_tokens_us_update (\<lambda>_. 0))) (st_vms demo_state)\<rparr> in
   fst (begin_run demo_config 0 ''vm0'' st) = Some (Throttled 5000) \<and>
   (\<exists>st'. admission_loop demo_config ''vm0'' [0, 50000] st = Some (True, st'))"
proof -
  let ?v = "(fresh_vm demo_config 0 (VmConfig_new ''vm0'' 1 4096) (AdmitRequest_vram 256))\<lparr>vs_tokens_us := 0\<rparr>"
  let ?st = "demo_state\<lparr>st_vms := [(''vm0'', ?v)]\<rparr>"
  have st: "demo_state\<lparr>st_vms := map (map_prod id (vs_tokens_us_update (\<lambda>_. 0))) (st_vms demo_state)\<rparr> = ?st"
    by (simp add: demo_state_def)
  have cfg: "vs_cfg ?v = VmConfig_new ''vm0'' 1 4096" by (simp add: fresh_vm_def)
  have w: "wrap_i64 1000 = 1000" "wrap_u64 5000 = 5000" by (simp_all add: wrap_i64_def)
  have b: "begin_run demo_config 0 ''vm0'' ?st = (Some (Throttled 5000),
      demo_state\<lparr>st_vms := [(''vm0'', ?v\<lparr>vs_throttle_events := 1\<rparr>)]\<rparr>)"
    using demo_rate
    by (simp add: begin_run_def Let_def refill_def throttle_wait_def demo_state_def fresh_vm_def w)
      (simp add: demo_config_def BrokerConfig_default_def)
  have v: "map_of (st_vms ?st) ''vm0'' = Some ?v" by simp
  have "\<exists>st'. admission_loop demo_config ''vm0'' [0, 50000] ?st = Some (True, st')"
  proof (rule throttled_vm_gets_through [OF v])
    show "sleeps_ok demo_config ''vm0'' [0, 50000] ?st" using b by simp
    show "\<forall>now\<in>set [0, 50000]. reading_sane demo_config (vs_cfg ?v) now"
      unfolding cfg reading_sane_def demo_rate by simp
    show "20 \<le> refill_rate demo_config (vs_cfg ?v)" unfolding cfg demo_rate by simp
  qed (simp_all add: demo_config_def BrokerConfig_default_def bucket_sane_def fresh_vm_def)
  with b show ?thesis unfolding st Let_def by simp
qed

text \<open>The bounds are needed: with a refill of 19 us/s a VM that owes one microsecond is never let
  through by 50 ms sleeps, because each refill rounds to nothing and still moves the refill time.\<close>

definition starved_config :: BrokerConfig where
  "starved_config = demo_config\<lparr>bc_refill_us_per_s_per_weight := 19, bc_min_refill_us_per_s := 0\<rparr>"

lemma starved_refill:
  assumes "vs_cfg v = VmConfig_new ''vm0'' 1 4096" "vs_tokens_us v = 0"
  shows "vs_tokens_us (refill starved_config (vs_last_refill_us v + 50000) v) = 0"
    and "vs_last_refill_us (refill starved_config (vs_last_refill_us v + 50000) v) =
      vs_last_refill_us v + 50000"
    and "vs_cfg (refill starved_config (vs_last_refill_us v + 50000) v) = vs_cfg v"
  using assms by (simp_all add: refill_def Let_def refill_rate_def starved_config_def demo_defs
      effective_weight_num_def wrap_i64_def)

lemma low_rate_starves:
  "map_of (st_vms st) ''vm0'' = Some v \<Longrightarrow> vs_cfg v = VmConfig_new ''vm0'' 1 4096 \<Longrightarrow>
   vs_tokens_us v = 0 \<Longrightarrow>
   admission_loop starved_config ''vm0''
     (map (\<lambda>i. vs_last_refill_us v + Suc i * 50000) [0..<n]) st = None"
proof (induction n arbitrary: st v)
  case (Suc n)
  have on: "bc_throttle_enabled starved_config" by (simp add: starved_config_def demo_defs)
  have split: "map (\<lambda>i. t + Suc i * 50000) [0..<Suc n] =
      (t + 50000) # map (\<lambda>i. (t + 50000) + Suc i * 50000) [0..<n]" for t :: nat
    by (simp add: map_upt_Suc del: upt_Suc)
  note r = starved_refill [OF Suc.prems(2,3)]
  from Suc.prems(1) show ?case
  proof (cases rule: begin_cases [where cfg = starved_config and now = "vs_last_refill_us v + 50000"])
    case (ready st1)
    then show ?thesis using on r(1) by simp
  next
    case (throttled st1)
    from Suc.IH [OF throttled(2)] show ?thesis
      unfolding split using throttled(1) r Suc.prems(2,3) by simp
  qed
qed simp

text \<open>The shipped per-VM broker never waits and contains a panicking render. With the throttle
  off, a registered VM runs at its first clock reading; whether its render returns or panics, the
  VM is charged the same time, and a panic comes back as \<open>Panicked\<close>.\<close>

theorem run_timed_unthrottled:
  assumes "map_of (st_vms st) k = Some v" "1 \<le> vc_weight (vs_cfg v)"
    and "\<not> bc_throttle_enabled cfg"
  shows "\<exists>st'. run_timed cfg k t_enter (now # later) t0 t1 f st =
      Some (case f of None \<Rightarrow> Inl Panicked
        | Some r \<Rightarrow> Inr (r, \<lparr>rs_wait_us = t0 - t_enter, rs_gpu_us = t1 - t0\<rparr>), st') \<and>
    record_run cfg k (t1 - t0) (snd (begin_run cfg now k st)) = Some st'"
proof -
  obtain st1 where b: "begin_run cfg now k st = (Some Ready, st1)"
      "map_of (st_vms st1) k = Some (refill cfg now v)"
    using begin_cases [OF assms(1), of cfg now] assms(3) by metis
  have "0 < effective_weight_num (vs_cfg v)"
    using assms(2) by (cases "vc_priority (vs_cfg v)") (auto simp: effective_weight_num_def)
  then obtain st2 where r: "record_run cfg k (t1 - t0) st1 = Some st2"
    using b(2) by (auto simp: record_run_def Let_def)
  show ?thesis using b r by (auto simp: run_timed_def split: option.split)
qed

theorem run_timed_unthrottled_witness:
  "\<exists>st'. run_timed (demo_config\<lparr>bc_throttle_enabled := False\<rparr>) ''vm0'' 0 [3] 5 9 (None :: unit option) demo_state
     = Some (Inl Panicked, st')"
  using run_timed_unthrottled [of demo_state "''vm0''" _ "demo_config\<lparr>bc_throttle_enabled := False\<rparr>"
      0 3 "[]" 5 9 "None :: unit option"]
  by (auto simp: demo_state_def fresh_vm_def VmConfig_new_def)

end
