(* ===== verification/Device_State.thy ===== *)
theory Device_State
  imports Device_Pixels Drain_Batch Dispatch_Resource Profile_Hist Sched_Broker
begin

text \<open>The state of a VM's device backend and its registers: \<open>InfinigpuBackend\<close> in
  \<open>crates/infinigpu-device/src/lib.rs\<close>, with its construction, admission, VRAM accounting, reset and
  the BAR0 register reads. The shared broker, guest memory as the host maps it, and the interrupt
  counters are part of the state record; the PPM dumps of \<open>present_dir\<close> and the log are left out.

  What the backend asks of the outside (the clocks, the GPU, the encoder spawn) is answered by a world,
  a sequence of turns: every time an operation asks, it takes the turn at the counter \<open>be_turn\<close> and
  moves the counter. Nothing is assumed of the answers.\<close>

subsection \<open>The outside\<close>

text \<open>A turn: the monotonic clock in milliseconds (\<open>Instant\<close>) and the broker's clock in microseconds;
  the encoder's spawn; of a run under the broker, the reading at entry, the readings of the admission
  loop and those around the render; what the GPU answers. A render gives \<open>None\<close> when it panics,
  \<open>Some None\<close> when it fails, and pixels otherwise. The zero-copy render gives whether it succeeded and
  the bytes it left at the pointer.\<close>

record Turn =
  tn_now :: nat
  tn_clock :: nat
  tn_spawn :: "EncoderConfig \<Rightarrow> bool"
  tn_enter :: nat
  tn_readings :: "nat list"
  tn_t0 :: nat
  tn_t1 :: nat
  tn_clear :: "u32 \<Rightarrow> u32 \<Rightarrow> rgba_bits \<Rightarrow> bytes option option"
  tn_triangle :: "u32 \<Rightarrow> u32 \<Rightarrow> rgba_bits \<Rightarrow> bytes option option"
  tn_forwarded :: "u32 \<Rightarrow> u32 \<Rightarrow> rgba_bits \<Rightarrow> OwnedForwardedDraw \<Rightarrow> bytes option option"
  tn_zerocopy :: "u32 \<Rightarrow> u32 \<Rightarrow> rgba_bits \<Rightarrow> OwnedForwardedDraw \<Rightarrow> (bool \<times> bytes) option"
  tn_supports_zerocopy :: bool
  tn_present_us :: nat
  tn_decode_us :: nat
  tn_dma_us :: nat
  tn_total_us :: nat

type_synonym world = "nat \<Rightarrow> Turn"

subsection \<open>The backend\<close>

definition VRAM_ESTIMATE_MB :: nat where [simp]: "VRAM_ESTIMATE_MB = 256"
definition NUM_CONTEXTS :: nat where [simp]: "NUM_CONTEXTS = 8"

record CursorState =
  cs_last_shape :: "(u64 \<times> u16 \<times> u16 \<times> u32) option"
  cs_last_pos :: "(u32 \<times> u32) option"
  cs_last_visible :: bool
  cs_last_shape_read :: "nat option"
  cs_last_move_sent :: "nat option"

definition CursorState_default :: CursorState where
  "CursorState_default = \<lparr>cs_last_shape = None, cs_last_pos = None, cs_last_visible = False,
     cs_last_shape_read = None, cs_last_move_sent = None\<rparr>"

text \<open>\<open>be_msix\<close> holds the eventfds, \<open>be_signals\<close> the eventfds written so far; \<open>be_mem\<close> is host memory.\<close>

record Backend =
  be_config :: bytes
  be_dma :: DmaTable
  be_mem :: host_mem
  be_msix :: "nat option list"
  be_signals :: "nat list"
  be_global_ctrl :: u32
  be_global_status :: u32
  be_irq_mask :: u32
  be_dbg_dma_addr :: u64
  be_ring_base :: "u64 list"
  be_ring_retired :: "u64 list"
  be_ring_index :: "u64 list"
  be_ring_cap :: "u32 list"
  be_resources :: ResourceTable
  be_bcfg :: BrokerConfig
  be_broker :: State
  be_vm_config :: VmConfig
  be_ticket :: "VmTicket option"
  be_admission_denied :: bool
  be_present_count :: nat
  be_pixel :: "PixelStreamer option"
  be_last_scanout :: "ScanoutBuffer option"
  be_bytes_read_last :: nat
  be_cursor :: CursorState
  be_cursor_needs_resolicit :: bool
  be_cursor_plane_enabled :: bool
  be_vulkan_submits :: nat
  be_scanout_vram_dims :: "(u32 \<times> u32) option"
  be_profiler :: "SubmitProfiler option"
  be_zerocopy_scanout :: bool
  be_elide_unchanged :: bool
  be_last_forwarded_hash :: "(u64 \<times> u64) list"
  be_frames_elided :: nat
  be_cursor_updates :: nat
  be_turn :: nat

definition turn :: "world \<Rightarrow> Backend \<Rightarrow> Turn" where
  "turn W be = W (be_turn be)"

definition tick :: "Backend \<Rightarrow> Backend" where
  "tick be = be\<lparr>be_turn := Suc (be_turn be)\<rparr>"

text \<open>The environment of the process: the parsed variables, with \<open>None\<close> for one that is unset or does
  not parse, and whether the stream's port can be bound.\<close>

record Env =
  ev_pixel_port :: "u16 option"
  ev_bind_ok :: bool
  ev_stream_fps :: "u32 option"
  ev_stream_kbps :: "u32 option"
  ev_cursor_plane :: bool
  ev_zerocopy :: "string option"
  ev_elide :: "string option"
  ev_profile :: bool
  ev_profile_every :: "nat option"
  ev_frame_budget :: "nat option"
  ev_max_enc_sessions :: "nat option"

definition ascii_lower :: "char \<Rightarrow> char" where
  "ascii_lower c = (let n = of_char c :: nat in if 65 \<le> n \<and> n \<le> 90 then char_of (n + 32) else c)"

definition env_flag :: "string option \<Rightarrow> bool" where
  "env_flag v = (case v of None \<Rightarrow> False | Some s \<Rightarrow> s = ''1'' \<or> map ascii_lower s = ''true'')"

definition in_range_or :: "u32 \<Rightarrow> u32 \<Rightarrow> u32 \<Rightarrow> u32 option \<Rightarrow> u32" where
  "in_range_or lo hi dflt v = (case v of Some x \<Rightarrow> if lo \<le> x \<and> x \<le> hi then x else dflt | None \<Rightarrow> dflt)"

text \<open>\<open>nvml\<close> is the total memory in MB when the probe answers.\<close>

definition broker_config_from_nvml :: "Env \<Rightarrow> nat option \<Rightarrow> BrokerConfig" where
  "broker_config_from_nvml env nvml =
    (let cfg = BrokerConfig_default\<lparr>bc_throttle_enabled := False\<rparr>;
         cfg = (case ev_max_enc_sessions env of Some n \<Rightarrow> cfg\<lparr>bc_max_enc_sessions := Some n\<rparr> | None \<Rightarrow> cfg)
     in case nvml of Some mb \<Rightarrow> cfg\<lparr>bc_total_vram_mb := mb\<rparr> | None \<Rightarrow> cfg)"

definition with_broker :: "Env \<Rightarrow> BrokerConfig \<Rightarrow> State \<Rightarrow> host_mem \<Rightarrow> VmConfig \<Rightarrow> Backend" where
  "with_broker env cfg broker mem vm_config = \<lparr>be_config = config_build, be_dma = DmaTable_new, be_mem = mem,
     be_msix = replicate (unat MSIX_VECTORS) None, be_signals = [], be_global_ctrl = 0,
     be_global_status = STATUS_READY, be_irq_mask = 0, be_dbg_dma_addr = 0,
     be_ring_base = replicate NUM_CONTEXTS 0, be_ring_retired = replicate NUM_CONTEXTS 0,
     be_ring_index = replicate NUM_CONTEXTS 0, be_ring_cap = replicate NUM_CONTEXTS 0,
     be_resources = ResourceTable_new, be_bcfg = cfg, be_broker = broker, be_vm_config = vm_config,
     be_ticket = None, be_admission_denied = False, be_present_count = 0,
     be_pixel = (if ev_pixel_port env \<noteq> None \<and> ev_bind_ok env
       then Some (PixelStreamer_new (in_range_or 1 240 60 (ev_stream_fps env))
         (in_range_or 500 200000 12000 (ev_stream_kbps env))) else None),
     be_last_scanout = None, be_bytes_read_last = 0, be_cursor = CursorState_default,
     be_cursor_needs_resolicit = False, be_cursor_plane_enabled = ev_cursor_plane env,
     be_vulkan_submits = 0, be_scanout_vram_dims = None,
     be_profiler = profiler_from_env (ev_profile env) (ev_profile_every env) (ev_frame_budget env) (vc_vm_id vm_config),
     be_zerocopy_scanout = env_flag (ev_zerocopy env), be_elide_unchanged = env_flag (ev_elide env),
     be_last_forwarded_hash = [], be_frames_elided = 0, be_cursor_updates = 0, be_turn = 0\<rparr>"

definition Backend_new :: "Env \<Rightarrow> nat option \<Rightarrow> host_mem \<Rightarrow> Backend" where
  "Backend_new env nvml mem = with_broker env (broker_config_from_nvml env nvml) State_new mem (VmConfig_new ''vm'' 1 4096)"

subsection \<open>Admission, accounting, interrupts, reset\<close>

definition admission_request :: "Backend \<Rightarrow> AdmitRequest" where
  "admission_request be = (if be_pixel be \<noteq> None then AdmitRequest_streaming VRAM_ESTIMATE_MB
     else AdmitRequest_vram VRAM_ESTIMATE_MB)"

definition ensure_admitted :: "world \<Rightarrow> Backend \<Rightarrow> bool \<times> Backend" where
  "ensure_admitted W be =
    (if be_ticket be \<noteq> None then (True, be)
     else if be_admission_denied be then (False, be)
     else (case admit (be_bcfg be) (tn_clock (turn W be)) (be_vm_config be) (admission_request be) (be_broker be) of
         (Inr vm_id, st) \<Rightarrow> (True, tick (be\<lparr>be_broker := st,
           be_ticket := Some \<lparr>tk_vm_id = vm_id, tk_released = False\<rparr>\<rparr>))
       | (Inl e, st) \<Rightarrow> (False, tick (be\<lparr>be_broker := st,
           be_global_status := or (be_global_status be) STATUS_FATAL, be_admission_denied := True\<rparr>))))"

definition account_scanout_vram :: "u32 \<Rightarrow> u32 \<Rightarrow> Backend \<Rightarrow> Backend" where
  "account_scanout_vram w h be0 =
    (if be_scanout_vram_dims be0 = Some (w, h) then be0
     else (let be = be0\<lparr>be_scanout_vram_dims := Some (w, h)\<rparr>;
               want = VRAM_ESTIMATE_MB + scanout_vram_estimate_mb w h 3 in
       case be_ticket be of
         None \<Rightarrow> be
       | Some t \<Rightarrow> be\<lparr>be_broker := snd (adjust_vram (be_bcfg be) (tk_vm_id t) want (be_broker be))\<rparr>))"

definition raise_irq :: "nat \<Rightarrow> Backend \<Rightarrow> Backend" where
  "raise_irq v be = (if v < length (be_msix be) then (case be_msix be ! v of
       Some fd \<Rightarrow> be\<lparr>be_signals := be_signals be @ [fd]\<rparr> | None \<Rightarrow> be) else be)"

definition drop_ticket :: "Backend \<Rightarrow> Backend" where
  "drop_ticket be = (case be_ticket be of
     None \<Rightarrow> be
   | Some t \<Rightarrow> be\<lparr>be_ticket := None, be_broker := snd (ticket_drop t (be_broker be))\<rparr>)"

definition reset_state :: "Backend \<Rightarrow> Backend" where
  "reset_state be0 =
    (let be = drop_ticket (be0\<lparr>be_global_ctrl := 0, be_global_status := STATUS_NEEDS_RESET\<rparr>);
         be = be\<lparr>be_admission_denied := False,
           be_ring_base := map (\<lambda>_. 0) (be_ring_base be), be_ring_retired := map (\<lambda>_. 0) (be_ring_retired be),
           be_ring_index := map (\<lambda>_. 0) (be_ring_index be), be_ring_cap := map (\<lambda>_. 0) (be_ring_cap be),
           be_resources := table_clear (be_resources be), be_last_scanout := None,
           be_cursor := CursorState_default, be_cursor_needs_resolicit := True,
           be_vulkan_submits := 0, be_last_forwarded_hash := [], be_frames_elided := 0,
           be_cursor_updates := 0, be_scanout_vram_dims := None\<rparr>
     in be\<lparr>be_pixel := map_option streamer_reset_planes (be_pixel be)\<rparr>)"

definition retire :: "nat \<Rightarrow> u64 \<Rightarrow> Backend \<Rightarrow> Backend" where
  "retire ctx seqno be = be\<lparr>be_ring_retired := (be_ring_retired be)[ctx := seqno]\<rparr>"

definition invalidate_elision :: "Backend \<Rightarrow> Backend" where
  "invalidate_elision be = be\<lparr>be_last_forwarded_hash := []\<rparr>"

subsection \<open>The admission decision\<close>

lemma ensure_admitted_cases:
  obtains (held) "be_ticket be \<noteq> None" "ensure_admitted W be = (True, be)"
  | (denied) "be_ticket be = None" "be_admission_denied be" "ensure_admitted W be = (False, be)"
  | (refused) e where "be_ticket be = None" "\<not> be_admission_denied be"
      "fst (admit (be_bcfg be) (tn_clock (turn W be)) (be_vm_config be) (admission_request be) (be_broker be)) = Inl e"
      "ensure_admitted W be = (False, tick (be\<lparr>be_global_status := or (be_global_status be) STATUS_FATAL,
        be_admission_denied := True\<rparr>))"
  | (admitted) k st where "be_ticket be = None" "\<not> be_admission_denied be"
      "admit (be_bcfg be) (tn_clock (turn W be)) (be_vm_config be) (admission_request be) (be_broker be) = (Inr k, st)"
      "ensure_admitted W be = (True, tick (be\<lparr>be_broker := st,
        be_ticket := Some \<lparr>tk_vm_id = k, tk_released = False\<rparr>\<rparr>))"
proof -
  let ?a = "admit (be_bcfg be) (tn_clock (turn W be)) (be_vm_config be) (admission_request be) (be_broker be)"
  consider "be_ticket be \<noteq> None" | "be_ticket be = None" "be_admission_denied be"
    | "be_ticket be = None" "\<not> be_admission_denied be" by blast
  then show thesis
  proof cases
    case 1
    then show ?thesis by (intro held) (simp_all add: ensure_admitted_def)
  next
    case 2
    then show ?thesis by (intro denied) (simp_all add: ensure_admitted_def)
  next
    case 3
    obtain r st where a: "?a = (r, st)" by fastforce
    show ?thesis
    proof (cases r)
      case (Inl e)
      then have st: "st = be_broker be" using admit_failure a by blast
      show ?thesis by (rule refused [OF 3, of e]) (use 3 a Inl st in \<open>simp_all add: ensure_admitted_def\<close>)
    next
      case (Inr k)
      show ?thesis by (rule admitted [OF 3, of k st]) (use 3 a Inr in \<open>simp_all add: ensure_admitted_def\<close>)
    qed
  qed
qed

end
