(* ===== verification/Device_Present.thy ===== *)
theory Device_Present
  imports Device_State
begin

text \<open>Presenting: the full and the damaged scanout presents, the resource flush and the cleared frame
  of \<open>crates/infinigpu-device/src/lib.rs\<close>, and how a render runs under the broker.\<close>

subsection \<open>Scanout presents\<close>

definition stream_frame :: "world \<Rightarrow> bytes \<Rightarrow> u32 \<Rightarrow> u32 \<Rightarrow> Backend \<Rightarrow> Backend" where
  "stream_frame W bgra w h be = (case be_pixel be of
     None \<Rightarrow> be
   | Some p \<Rightarrow> (let u = turn W be in
       tick (be\<lparr>be_pixel := Some (snd (submit_bgra (tn_spawn u) (tn_now u) bgra w h p))\<rparr>)))"

definition present_scanout :: "world \<Rightarrow> ScanoutPresent \<Rightarrow> u64 \<Rightarrow> nat \<Rightarrow> Backend \<Rightarrow> Backend" where
  "present_scanout W sp seqno ctx be0 = (case ensure_admitted W be0 of
     (False, be) \<Rightarrow> be
   | (True, be) \<Rightarrow>
     (let w = unat (sp_width sp); h = unat (sp_height sp); pitch = unat (sp_pitch sp) in
      case fb_bytes w h pitch of
        None \<Rightarrow> be
      | Some n \<Rightarrow>
        (let be = account_scanout_vram (sp_width sp) (sp_height sp) be in
         case dma_read (be_dma be) (be_mem be) (sp_scanout_addr sp) n of
           None \<Rightarrow> be
         | Some buf \<Rightarrow>
           (let streaming = be_pixel be \<noteq> None;
                bgra = (if streaming then full_rows w pitch (sp_format sp \<noteq> FMT_R8G8B8A8) buf h
                          (replicate (w * h * 4) 0) else []);
                be = retire ctx seqno (be\<lparr>be_last_scanout := None, be_bytes_read_last := n,
                  be_present_count := wrap_u64 (be_present_count be + 1)\<rparr>)
            in if streaming then stream_frame W bgra (sp_width sp) (sp_height sp) be else be))))"

text \<open>The damaged rows, one DMA read each; nothing is kept when one of them is not mapped.\<close>

fun read_rows :: "DmaTable \<Rightarrow> host_mem \<Rightarrow> u64 \<Rightarrow> nat \<Rightarrow> nat \<Rightarrow> nat \<Rightarrow> nat \<Rightarrow> nat \<Rightarrow> bytes option" where
  "read_rows t mem addr pitch dx dy dw 0 = Some []"
| "read_rows t mem addr pitch dx dy dw (Suc r) = do {
     rows \<leftarrow> read_rows t mem addr pitch dx dy dw r;
     row \<leftarrow> dma_read t mem (addr + word_of_nat (dy + r) * word_of_nat pitch + word_of_nat dx * 4) (dw * 4);
     Some (rows @ row) }"

definition surface_matches :: "nat \<Rightarrow> nat \<Rightarrow> ScanoutBuffer option \<Rightarrow> bool" where
  "surface_matches w h s = (case s of Some b \<Rightarrow> so_w b = w \<and> so_h b = h | None \<Rightarrow> False)"

text \<open>The allocation a full rebuild writes into.\<close>

definition reuse_surface :: "nat \<Rightarrow> nat \<Rightarrow> ScanoutBuffer option \<Rightarrow> bytes" where
  "reuse_surface w h s = (case s of
     Some b \<Rightarrow> if so_w b = w \<and> so_h b = h then so_bgra b else replicate (w * h * 4) 0
   | None \<Rightarrow> replicate (w * h * 4) 0)"

text \<open>Bringing the persistent surface up to date; \<open>None\<close> when guest memory is not mapped.\<close>

definition update_surface :: "ScanoutPresentDamaged \<Rightarrow> nat \<Rightarrow> Backend \<Rightarrow> Backend option" where
  "update_surface sp n be =
    (let w = unat (spd_width sp); h = unat (spd_height sp); pitch = unat (spd_pitch sp);
         (dx, dy, dw, dh) = clamp_damage w h (spd_dx sp) (spd_dy sp) (spd_dw sp) (spd_dh sp);
         is_copy = spd_format sp \<noteq> FMT_R8G8B8A8;
         full_damage = (dx = 0 \<and> dy = 0 \<and> dw = w \<and> dh = h)
     in if full_damage \<or> \<not> surface_matches w h (be_last_scanout be) then do {
          buf \<leftarrow> dma_read (be_dma be) (be_mem be) (spd_scanout_addr sp) n;
          Some (be\<lparr>be_last_scanout := Some \<lparr>so_w = w, so_h = h,
              so_bgra = full_rows w pitch is_copy buf h (reuse_surface w h (be_last_scanout be))\<rparr>,
            be_bytes_read_last := n\<rparr>) }
        else if 0 < dw \<and> 0 < dh then do {
          rows \<leftarrow> read_rows (be_dma be) (be_mem be) (spd_scanout_addr sp) pitch dx dy dw dh;
          b \<leftarrow> be_last_scanout be;
          Some (be\<lparr>be_last_scanout := Some (b\<lparr>so_bgra := patch_rows w dx dy dw is_copy rows dh (so_bgra b)\<rparr>),
            be_bytes_read_last := dw * dh * 4\<rparr>) }
        else Some (be\<lparr>be_bytes_read_last := 0\<rparr>))"

definition stream_surface :: "world \<Rightarrow> Backend \<Rightarrow> Backend" where
  "stream_surface W be = (case be_last_scanout be of
     None \<Rightarrow> be
   | Some b \<Rightarrow> stream_frame W (so_bgra b) (word_of_nat (so_w b)) (word_of_nat (so_h b)) be)"

definition present_scanout_damaged :: "world \<Rightarrow> ScanoutPresentDamaged \<Rightarrow> u64 \<Rightarrow> nat \<Rightarrow> Backend \<Rightarrow> Backend" where
  "present_scanout_damaged W sp seqno ctx be0 = (case ensure_admitted W (invalidate_elision be0) of
     (False, be) \<Rightarrow> be
   | (True, be) \<Rightarrow> (case fb_bytes (unat (spd_width sp)) (unat (spd_height sp)) (unat (spd_pitch sp)) of
       None \<Rightarrow> be
     | Some n \<Rightarrow>
       (let be = account_scanout_vram (spd_width sp) (spd_height sp) be in
        case update_surface sp n be of
          None \<Rightarrow> be
        | Some be \<Rightarrow> stream_surface W (retire ctx seqno
            (be\<lparr>be_present_count := wrap_u64 (be_present_count be + 1)\<rparr>)))))"

definition present_resource_flush :: "world \<Rightarrow> u32 \<Rightarrow> u32 \<times> u32 \<times> u32 \<times> u32 \<Rightarrow> u64 \<Rightarrow> nat \<Rightarrow> Backend \<Rightarrow> Backend" where
  "present_resource_flush W res_id rect seqno ctx be0 =
    (let be = invalidate_elision be0 in
     case scanout_binding_for res_id (be_resources be) of
       None \<Rightarrow> be
     | Some (_, b) \<Rightarrow> (case get_resource res_id (be_resources be) of
         None \<Rightarrow> be
       | Some r \<Rightarrow> (case hr_backing r of
           [seg] \<Rightarrow> (case rect of (dx, dy, dw, dh) \<Rightarrow>
             present_scanout_damaged W \<lparr>spd_width = sb_width b, spd_height = sb_height b,
               spd_pitch = sb_stride b, spd_format = sb_format b, spd_scanout_addr = bs_addr seg,
               spd_dx = dx, spd_dy = dy, spd_dw = dw, spd_dh = dh\<rparr> seqno ctx be)
         | _ \<Rightarrow> be)))"

subsection \<open>Renders\<close>

text \<open>A render under the VM's ticket. The result is \<open>None\<close> when there is no ticket (the code's unwrap) or
  the broker has not let the VM run within the turn's clock readings.\<close>

definition gpu_run :: "world \<Rightarrow> 'r option \<Rightarrow> Backend \<Rightarrow> ((RunError + 'r \<times> RunStats) \<times> Backend) option" where
  "gpu_run W f be = (case be_ticket be of
     None \<Rightarrow> None
   | Some t \<Rightarrow> (let u = turn W be in
       map_option (\<lambda>(res, st). (res, tick (be\<lparr>be_broker := st\<rparr>)))
         (run_timed (be_bcfg be) (tk_vm_id t) (tn_enter u) (tn_readings u) (tn_t0 u) (tn_t1 u) f (be_broker be))))"

text \<open>The geometry check of the two submit paths.\<close>

definition geometry_fits :: "u32 \<Rightarrow> u32 \<Rightarrow> bool" where
  "geometry_fits w h = (w \<noteq> 0 \<and> h \<noteq> 0 \<and> w \<le> 16384 \<and> h \<le> 16384 \<and>
     (case checked_u64 (unat w * unat h) \<bind> (\<lambda>px. checked_u64 (px * 4)) of
        None \<Rightarrow> False | Some n \<Rightarrow> n \<le> 64 * 1024 * 1024))"

definition render_clear_present :: "world \<Rightarrow> ClearPresent \<Rightarrow> u64 \<Rightarrow> nat \<Rightarrow> Backend \<Rightarrow> Backend option" where
  "render_clear_present W cp seqno ctx be0 = (case ensure_admitted W (invalidate_elision be0) of
     (False, be) \<Rightarrow> Some be
   | (True, be) \<Rightarrow>
       if \<not> geometry_fits (cp_width cp) (cp_height cp) then Some be
       else (case gpu_run W (tn_clear (turn W be) (cp_width cp) (cp_height cp) (cp_rgba cp)) be of
           None \<Rightarrow> None
         | Some (Inr (Some px, _), be) \<Rightarrow> (case dma_write (be_dma be) (be_mem be) (cp_scanout_addr cp) px of
             None \<Rightarrow> Some be
           | Some mem \<Rightarrow> Some (retire ctx seqno (be\<lparr>be_mem := mem\<rparr>)))
         | Some (_, be) \<Rightarrow> Some be))"

end
