(* ===== verification/Device_Submit.thy ===== *)
theory Device_Submit
  imports Device_Present
begin

text \<open>The 3D submission of \<open>crates/infinigpu-device/src/lib.rs\<close>: \<open>submit_vulkan\<close> with its frame elision,
  the zero-copy and one-copy presents, and the profiler sample.\<close>

definition MAX_CMD_BYTES :: u32 where [simp]: "MAX_CMD_BYTES = 67108864"

record Hop =
  hp_decode :: nat
  hp_wait :: nat
  hp_render :: nat
  hp_dma :: nat
  hp_presented :: bool

text \<open>Handing the pixels to the guest scanout; address 0 is render-only.\<close>

definition put_pixels :: "u64 \<Rightarrow> bytes \<Rightarrow> Backend \<Rightarrow> bool \<times> Backend" where
  "put_pixels addr px be = (if addr = 0 then (True, be)
     else case dma_write (be_dma be) (be_mem be) addr px of
       None \<Rightarrow> (False, be) | Some mem \<Rightarrow> (True, be\<lparr>be_mem := mem\<rparr>))"

text \<open>The three ways to render. \<open>None\<close> has not returned, \<open>Some (None, be)\<close> dropped the frame.\<close>

definition one_copy :: "world \<Rightarrow> VulkanWorkload \<Rightarrow> OwnedForwardedDraw \<Rightarrow> nat \<Rightarrow> Backend \<Rightarrow> (Hop option \<times> Backend) option" where
  "one_copy W wl fwd decode_us be =
    (let u = turn W be in
     case gpu_run W (tn_forwarded u (wl_width wl) (wl_height wl) (wl_bg wl) fwd) be of
       None \<Rightarrow> None
     | Some (Inr (Some px, st), be) \<Rightarrow> (case put_pixels (wl_scanout_addr wl) px be of (ok, be) \<Rightarrow>
         Some (Some \<lparr>hp_decode = decode_us, hp_wait = rs_wait_us st, hp_render = rs_gpu_us st - tn_present_us u,
           hp_dma = tn_present_us u, hp_presented = ok\<rparr>, be))
     | Some (_, be) \<Rightarrow> Some (None, be))"

definition page_up :: "nat \<Rightarrow> nat" where
  "page_up n = (n + 4095) div 4096 * 4096"

definition zero_copy :: "world \<Rightarrow> VulkanWorkload \<Rightarrow> OwnedForwardedDraw \<Rightarrow> nat \<Rightarrow> nat \<Rightarrow> Backend \<Rightarrow> (Hop option \<times> Backend) option" where
  "zero_copy W wl fwd decode_us ptr be =
    (case gpu_run W (tn_zerocopy (turn W be) (wl_width wl) (wl_height wl) (wl_bg wl) fwd) be of
       None \<Rightarrow> None
     | Some (Inl e, be) \<Rightarrow> Some (None, be)
     | Some (Inr ((ok, px), st), be) \<Rightarrow>
       (let n = page_up (unat (wl_width wl) * unat (wl_height wl) * 4);
            be = be\<lparr>be_mem := poke (be_mem be) ptr (take n px)\<rparr>
        in if ok then Some (Some \<lparr>hp_decode = decode_us, hp_wait = rs_wait_us st, hp_render = rs_gpu_us st,
             hp_dma = 0, hp_presented = True\<rparr>, be)
           else one_copy W wl fwd decode_us (be\<lparr>be_zerocopy_scanout := False\<rparr>)))"

definition submit_forwarded :: "world \<Rightarrow> VulkanWorkload \<Rightarrow> bytes \<Rightarrow> Backend \<Rightarrow> (Hop option \<times> Backend) option" where
  "submit_forwarded W wl payload be =
    (let u = turn W be; addr = wl_scanout_addr wl in
     case (if wl_op wl = VK_OP_FORWARDED_CMDLIST then decode_forwarded_cmdlist payload (unat MAX_CMD_BYTES)
           else decode_forwarded payload (unat MAX_CMD_BYTES)) of
       None \<Rightarrow> Some (None, be)
     | Some fwd \<Rightarrow>
       (let use_zerocopy = (be_zerocopy_scanout be \<and> addr \<noteq> 0 \<and> tn_supports_zerocopy u \<and> fd_geometry fwd = None);
            aligned = page_up (unat (wl_width wl) * unat (wl_height wl) * 4)
        in case (if use_zerocopy then host_ptr (be_dma be) addr aligned else None) of
             Some ptr \<Rightarrow> zero_copy W wl fwd (tn_decode_us u) ptr be
           | None \<Rightarrow> one_copy W wl fwd (tn_decode_us u) be))"

definition submit_frame :: "world \<Rightarrow> VulkanWorkload \<Rightarrow> Backend \<Rightarrow> (Hop option \<times> Backend) option" where
  "submit_frame W wl be =
    (let u = turn W be in
     case gpu_run W ((if wl_op wl = VK_OP_TRIANGLE then tn_triangle u else tn_clear u)
        (wl_width wl) (wl_height wl) (wl_bg wl)) be of
       None \<Rightarrow> None
     | Some (Inr (Some px, st), be) \<Rightarrow> (case put_pixels (wl_scanout_addr wl) px be of (ok, be) \<Rightarrow>
         Some (Some \<lparr>hp_decode = 0, hp_wait = rs_wait_us st, hp_render = rs_gpu_us st, hp_dma = tn_dma_us u,
           hp_presented = ok\<rparr>, be))
     | Some (_, be) \<Rightarrow> Some (None, be))"

definition render_workload :: "world \<Rightarrow> VulkanWorkload \<Rightarrow> bytes \<Rightarrow> Backend \<Rightarrow> (Hop option \<times> Backend) option" where
  "render_workload W wl payload be =
    (if wl_op wl = VK_OP_FORWARDED \<or> wl_op wl = VK_OP_FORWARDED_CMDLIST then submit_forwarded W wl payload be
     else submit_frame W wl be)"

definition elision_hash :: "VulkanWorkload \<Rightarrow> bytes \<Rightarrow> Backend \<Rightarrow> u64 option" where
  "elision_hash wl payload be =
    (if be_elide_unchanged be \<and> wl_scanout_addr wl \<noteq> 0 then Some (fnv1a_64 payload) else None)"

definition remember_frame :: "u64 option \<Rightarrow> u64 \<Rightarrow> bool \<Rightarrow> Backend \<Rightarrow> Backend" where
  "remember_frame hash addr presented be = (case hash of
     None \<Rightarrow> be
   | Some h \<Rightarrow> if presented then
       be\<lparr>be_last_forwarded_hash := AList.update addr h
         (if 8 \<le> length (be_last_forwarded_hash be) then [] else be_last_forwarded_hash be)\<rparr>
     else be)"

definition profile_hop :: "nat \<Rightarrow> Hop \<Rightarrow> Backend \<Rightarrow> Backend" where
  "profile_hop total_us hp be = be\<lparr>be_profiler := map_option (profiler_record
     \<lparr>hs_decode_us = hp_decode hp, hs_wait_us = hp_wait hp, hs_render_us = hp_render hp,
      hs_dma_us = hp_dma hp, hs_total_us = total_us\<rparr>) (be_profiler be)\<rparr>"

text \<open>From a validated workload on: elide, or render, remember and profile.\<close>

definition run_workload :: "world \<Rightarrow> VulkanWorkload \<Rightarrow> bytes \<Rightarrow> Backend \<Rightarrow> Backend option" where
  "run_workload W wl payload be =
    (let hash = elision_hash wl payload be; total_us = tn_total_us (turn W be) in
     if hash \<noteq> None \<and> map_of (be_last_forwarded_hash be) (wl_scanout_addr wl) = hash
     then Some (be\<lparr>be_frames_elided := wrap_u64 (be_frames_elided be + 1)\<rparr>)
     else (case render_workload W wl payload be of
         None \<Rightarrow> None
       | Some (None, be) \<Rightarrow> Some be
       | Some (Some hp, be) \<Rightarrow>
           Some (profile_hop total_us hp (remember_frame hash (wl_scanout_addr wl) (hp_presented hp) be))))"

definition submit_vulkan :: "world \<Rightarrow> SubmitCmd \<Rightarrow> bytes \<Rightarrow> nat \<Rightarrow> Backend \<Rightarrow> Backend option" where
  "submit_vulkan W sc payload ctx be0 = map_option (retire ctx (sc_seqno sc))
    (case ensure_admitted W be0 of
       (False, be) \<Rightarrow> Some be
     | (True, be) \<Rightarrow>
         if MAX_CMD_BYTES < sc_payload_len sc then Some be
         else (case dec_VulkanWorkload payload of
             None \<Rightarrow> Some be
           | Some (wl, _) \<Rightarrow>
               if \<not> geometry_fits (wl_width wl) (wl_height wl) then Some be
               else run_workload W wl payload (be\<lparr>be_vulkan_submits := wrap_u64 (be_vulkan_submits be + 1)\<rparr>)))"

end
