(* ===== verification/Device_Cursor.thy ===== *)
theory Device_Cursor
  imports Device_State
begin

unbundle bit_operations_syntax

text \<open>The cursor plane of \<open>crates/infinigpu-device/src/lib.rs\<close>: \<open>handle_cursor_update\<close>, which turns a
  guest's \<open>CursorUpdate\<close> into messages of the plane sideband.\<close>

definition sideband_flags :: "u32 \<Rightarrow> u8" where
  "sideband_flags fl =
    ((if fl AND CURSOR_VISIBLE \<noteq> 0 then PLANE_VISIBLE else 0) OR
     (if fl AND CURSOR_PREMULTIPLIED \<noteq> 0 then PLANE_PREMULTIPLIED else 0) OR
     (if fl AND CURSOR_WARP \<noteq> 0 then PLANE_WARP else 0) OR
     (if fl AND CURSOR_RELATIVE \<noteq> 0 then PLANE_RELATIVE else 0))"

definition move_header :: "CursorUpdate \<Rightarrow> PlaneHeader" where
  "move_header cu = \<lparr>ph_op = PLANE_OP_MOVE, ph_plane_kind = PLANE_KIND_CURSOR,
     ph_flags = sideband_flags (cu_flags cu), ph_plane_id = 0, ph_codec_or_format = 0, ph_z_order = 0,
     ph_width = 0, ph_height = 0, ph_hot_x = cu_hot_x cu, ph_hot_y = cu_hot_y cu,
     ph_pos_x = cu_pos_x cu, ph_pos_y = cu_pos_y cu, ph_payload_len = 0\<rparr>"

definition define_header :: "CursorUpdate \<Rightarrow> PlaneHeader" where
  "define_header cu = \<lparr>ph_op = PLANE_OP_DEFINE, ph_plane_kind = PLANE_KIND_CURSOR,
     ph_flags = sideband_flags (cu_flags cu), ph_plane_id = 0, ph_codec_or_format = ucast FMT_B8G8R8A8,
     ph_z_order = 0, ph_width = cu_width cu, ph_height = cu_height cu, ph_hot_x = cu_hot_x cu,
     ph_hot_y = cu_hot_y cu, ph_pos_x = cu_pos_x cu, ph_pos_y = cu_pos_y cu,
     ph_payload_len = word_of_nat (unat (cu_width cu) * unat (cu_height cu) * 4)\<rparr>"

definition cursor_send :: "PlaneHeader \<Rightarrow> bytes \<Rightarrow> Backend \<Rightarrow> Backend" where
  "cursor_send hdr body be = be\<lparr>be_pixel := map_option (send_plane hdr body) (be_pixel be)\<rparr>"

definition cursor_pos :: "CursorUpdate \<Rightarrow> u32 \<times> u32" where
  "cursor_pos cu = (cu_pos_x cu, cu_pos_y cu)"

definition set_cursor :: "(CursorState \<Rightarrow> CursorState) \<Rightarrow> Backend \<Rightarrow> Backend" where
  "set_cursor f be = be\<lparr>be_cursor := f (be_cursor be)\<rparr>"

definition placed :: "CursorUpdate \<Rightarrow> bool \<Rightarrow> CursorState \<Rightarrow> CursorState" where
  "placed cu vis cs = cs\<lparr>cs_last_pos := Some (cursor_pos cu), cs_last_visible := vis\<rparr>"

text \<open>A pure move of a visible cursor.\<close>

definition cursor_move :: "world \<Rightarrow> CursorUpdate \<Rightarrow> Backend \<Rightarrow> Backend" where
  "cursor_move W cu be =
    (let warp = cu_flags cu AND CURSOR_WARP \<noteq> 0;
         extra_viewers = (case be_pixel be of Some p \<Rightarrow> 1 < client_count (ps_hub p) | None \<Rightarrow> False)
     in if \<not> warp \<and> \<not> extra_viewers then set_cursor (placed cu True) be
     else (let now = tn_now (turn W be); be = tick be; cs = be_cursor be;
               unchanged = (cs_last_pos cs = Some (cursor_pos cu));
               recent = (case cs_last_move_sent cs of Some t \<Rightarrow> now - t < CURSOR_MOVE_MIN_INTERVAL | None \<Rightarrow> False)
       in if \<not> warp \<and> (unchanged \<or> recent) then be
          else set_cursor (\<lambda>cs. placed cu True (cs\<lparr>cs_last_move_sent := Some now\<rparr>))
            (cursor_send (move_header cu) [] be)))"

text \<open>Stripping the pitch padding of the sprite.\<close>

fun sprite_rows :: "nat \<Rightarrow> nat \<Rightarrow> bytes \<Rightarrow> nat \<Rightarrow> bytes" where
  "sprite_rows w pitch src 0 = []"
| "sprite_rows w pitch src (Suc y) = sprite_rows w pitch src y @ slice src (y * pitch) (w * 4)"

definition shape_key :: "CursorUpdate \<Rightarrow> u64 \<times> u16 \<times> u16 \<times> u32" where
  "shape_key cu = (cu_shape_ref cu, cu_width cu, cu_height cu, cu_pitch cu)"

definition cursor_define :: "world \<Rightarrow> CursorUpdate \<Rightarrow> Backend \<Rightarrow> Backend" where
  "cursor_define W cu be =
    (if \<not> cursor_shape_ok (cu_width cu) (cu_height cu) (cu_pitch cu) (cu_format cu) then be
     else if cu_flags cu AND CURSOR_SHAPE_BY_RESID \<noteq> 0 then be
     else if cs_last_shape (be_cursor be) = Some (shape_key cu) then
       set_cursor (placed cu True) (cursor_send (move_header cu) [] be)
     else (let now = tn_now (turn W be); be = tick be in
       if (case cs_last_shape_read (be_cursor be) of Some t \<Rightarrow> now - t < CURSOR_SHAPE_MIN_INTERVAL | None \<Rightarrow> False)
       then be
       else (case dma_read (be_dma be) (be_mem be) (cu_shape_ref cu) (unat (cu_pitch cu) * unat (cu_height cu)) of
           None \<Rightarrow> be
         | Some src \<Rightarrow> set_cursor (\<lambda>cs. placed cu True (cs\<lparr>cs_last_shape := Some (shape_key cu),
               cs_last_shape_read := Some now\<rparr>))
             (cursor_send (define_header cu)
               (sprite_rows (unat (cu_width cu)) (unat (cu_pitch cu)) src (unat (cu_height cu))) be))))"

definition handle_cursor_update :: "world \<Rightarrow> CursorUpdate \<Rightarrow> Backend \<Rightarrow> Backend" where
  "handle_cursor_update W cu be0 =
    (case ensure_admitted W (be0\<lparr>be_cursor_updates := wrap_u64 (be_cursor_updates be0 + 1)\<rparr>) of
       (False, be) \<Rightarrow> be
     | (True, be) \<Rightarrow>
         if be_pixel be = None then be
         else if cu_flags cu AND CURSOR_VISIBLE = 0 then
           set_cursor (placed cu False) (cursor_send (move_header cu) [] be)
         else if cu_flags cu AND CURSOR_MOVE_ONLY \<noteq> 0 then cursor_move W cu be
         else cursor_define W cu be)"

end
