(* ===== verification/Device_Ring.thy ===== *)
theory Device_Ring
  imports Device_Submit Device_Cursor
begin

unbundle bit_operations_syntax

text \<open>The command rings and registers of \<open>crates/infinigpu-device/src/lib.rs\<close>: a drained descriptor is
  executed, a ring is drained or its single descriptor processed, and the BAR0 registers and the
  callbacks of the vfio-user server sit on top.\<close>

subsection \<open>Descriptors\<close>

definition zero_filled :: "nat \<Rightarrow> bytes \<Rightarrow> bytes" where
  "zero_filled n bs = take n bs @ replicate (n - length bs) 0"

text \<open>How many bytes to read of a body of \<open>full\<close> bytes when the message announces \<open>len\<close>.\<close>

definition body_len :: "nat \<Rightarrow> nat \<Rightarrow> nat" where
  "body_len len full = (if len = 0 then full else min len full)"

definition cursor_message :: "world \<Rightarrow> u64 \<Rightarrow> nat \<Rightarrow> Backend \<Rightarrow> Backend option" where
  "cursor_message W addr len be = (case dma_read (be_dma be) (be_mem be) addr (body_len len 48) of
     None \<Rightarrow> Some be
   | Some bs \<Rightarrow> map_option (\<lambda>(cu, _). handle_cursor_update W cu be) (dec_CursorUpdate (zero_filled 48 bs)))"

definition dispatch_submit :: "world \<Rightarrow> SubmitCmd \<Rightarrow> bytes \<Rightarrow> nat \<Rightarrow> Backend \<Rightarrow> Backend option" where
  "dispatch_submit W sc body ctx be =
    (if sc_encoding sc = ENC_DISPLAY_CLEAR then (case dec_ClearPresent body of
         Some (cp, _) \<Rightarrow> render_clear_present W cp (sc_seqno sc) ctx be | None \<Rightarrow> Some be)
     else if sc_encoding sc = ENC_DISPLAY_SCANOUT then Some (case dec_ScanoutPresent body of
         Some (sp, _) \<Rightarrow> present_scanout W sp (sc_seqno sc) ctx be | None \<Rightarrow> be)
     else if sc_encoding sc = ENC_DISPLAY_SCANOUT_DAMAGE then
       Some (case dec_ScanoutPresentDamaged (zero_filled 40 (take (body_len (unat (sc_payload_len sc)) 40) body)) of
         Some (sp, _) \<Rightarrow> present_scanout_damaged W sp (sc_seqno sc) ctx be | None \<Rightarrow> be)
     else if sc_encoding sc = ENC_VULKAN_VENUSLIKE then submit_vulkan W sc body ctx be
     else Some be)"

definition MAX_PAYLOAD :: nat where [simp]: "MAX_PAYLOAD = 67108864"

definition payload_addr_of :: "Descriptor \<Rightarrow> nat \<Rightarrow> Backend \<Rightarrow> u64" where
  "payload_addr_of desc ctx be = (if d_flags desc AND DESC_PAYLOAD_ABS \<noteq> 0 then d_payload_addr desc
     else be_ring_base be ! ctx + ucast (d_data_offset desc))"

definition execute_message :: "world \<Rightarrow> nat \<Rightarrow> Descriptor \<Rightarrow> bytes \<Rightarrow> Backend \<Rightarrow> Backend option" where
  "execute_message W ctx desc payload be =
    (if d_msg_type desc = MSG_SUBMIT_CMD then (case dec_SubmitCmd payload of
         Some (sc, body) \<Rightarrow> dispatch_submit W sc body ctx be | None \<Rightarrow> Some be)
     else (case execute_resource desc payload (be_resources be) of
         None \<Rightarrow> None
       | Some (Flush res_id rect, t) \<Rightarrow>
           Some (present_resource_flush W res_id rect (d_seqno desc) ctx (be\<lparr>be_resources := t\<rparr>))
       | Some (_, t) \<Rightarrow> Some (be\<lparr>be_resources := t\<rparr>)))"

definition execute_descriptor :: "world \<Rightarrow> nat \<Rightarrow> Descriptor \<Rightarrow> Backend \<Rightarrow> Backend option" where
  "execute_descriptor W ctx desc be =
    (let len = unat (d_len desc); addr = payload_addr_of desc ctx be in
     if MAX_PAYLOAD < len then Some be
     else if d_msg_type desc = MSG_CURSOR_UPDATE then cursor_message W addr len be
     else if len = 0 then execute_message W ctx desc [] be
     else (case dma_read (be_dma be) (be_mem be) addr len of
         None \<Rightarrow> Some be
       | Some payload \<Rightarrow> execute_message W ctx desc payload be))"

fun execute_all :: "world \<Rightarrow> nat \<Rightarrow> Descriptor list \<Rightarrow> Backend \<Rightarrow> Backend option" where
  "execute_all W ctx [] be = Some be"
| "execute_all W ctx (d # ds) be = execute_descriptor W ctx d be \<bind> execute_all W ctx ds"

subsection \<open>Rings\<close>

definition retire_batch :: "nat \<Rightarrow> nat \<Rightarrow> nat \<Rightarrow> nat \<Rightarrow> u64 \<Rightarrow> Backend \<Rightarrow> Backend" where
  "retire_batch ctx index_ptr desc_ptr cap hi be =
    (if 0 < hi then retire ctx hi
       (be\<lparr>be_mem := snd (retire_over_shared index_ptr desc_ptr cap hi (be_mem be))\<rparr>) else be)"

definition drain_ctx :: "world \<Rightarrow> nat \<Rightarrow> Backend \<Rightarrow> Backend option" where
  "drain_ctx W ctx be0 =
    (let index_iova = be_ring_index be0 ! ctx; desc_iova = be_ring_base be0 ! ctx;
         cap = unat (be_ring_cap be0 ! ctx) in
     if desc_iova = 0 \<or> cap = 0 \<or> \<not> is_power_of_two cap then Some be0
     else (case (host_ptr (be_dma be0) index_iova 64, host_ptr (be_dma be0) desc_iova (cap * 32)) of
         (Some index_ptr, Some desc_ptr) \<Rightarrow> (case ensure_admitted W be0 of
             (False, be) \<Rightarrow> Some be
           | (True, be) \<Rightarrow> (case ring_over_shared (be_mem be) index_ptr desc_ptr cap of
               Inl e \<Rightarrow> Some be
             | Inr r \<Rightarrow> (case pop_batch index_ptr desc_ptr cap cap (be_mem be) of (drained, mem) \<Rightarrow>
                 map_option (retire_batch ctx index_ptr desc_ptr cap (dr_highest_seqno drained))
                   (execute_all W ctx (dr_descriptors drained) (be\<lparr>be_mem := mem\<rparr>)))))
       | _ \<Rightarrow> Some be0))"

text \<open>The single-descriptor path of a ring without an index page. The payload of a damaged present and
  of a 3D workload is read as far as announced and filled with zeros.\<close>

definition process_submit :: "world \<Rightarrow> SubmitCmd \<Rightarrow> u64 \<Rightarrow> nat \<Rightarrow> Backend \<Rightarrow> Backend option" where
  "process_submit W sc addr ctx be =
    (let rd = dma_read (be_dma be) (be_mem be) addr; want = body_len (unat (sc_payload_len sc)) 40 in
     if sc_encoding sc = ENC_DISPLAY_CLEAR then (case rd 32 of
         Some pb \<Rightarrow> dec_ClearPresent pb \<bind> (\<lambda>(cp, _). render_clear_present W cp (sc_seqno sc) ctx be)
       | None \<Rightarrow> Some be)
     else if sc_encoding sc = ENC_DISPLAY_SCANOUT then (case rd 24 of
         Some pb \<Rightarrow> map_option (\<lambda>(sp, _). present_scanout W sp (sc_seqno sc) ctx be) (dec_ScanoutPresent pb)
       | None \<Rightarrow> Some be)
     else if sc_encoding sc = ENC_DISPLAY_SCANOUT_DAMAGE then (case rd want of
         Some pb \<Rightarrow> map_option (\<lambda>(sp, _). present_scanout_damaged W sp (sc_seqno sc) ctx be)
           (dec_ScanoutPresentDamaged (zero_filled 40 pb))
       | None \<Rightarrow> Some be)
     else if sc_encoding sc = ENC_VULKAN_VENUSLIKE then (case rd want of
         Some pb \<Rightarrow> submit_vulkan W sc (zero_filled 40 pb) ctx be
       | None \<Rightarrow> Some be)
     else Some be)"

definition process_single :: "world \<Rightarrow> nat \<Rightarrow> Backend \<Rightarrow> Backend option" where
  "process_single W ctx be =
    (let base = be_ring_base be ! ctx in
     if base = 0 then Some be
     else (case dma_read (be_dma be) (be_mem be) base 32 of
         None \<Rightarrow> Some be
       | Some db \<Rightarrow> dec_Descriptor db \<bind> (\<lambda>(desc, _).
           let addr = base + ucast (d_data_offset desc) in
           if d_msg_type desc = MSG_CURSOR_UPDATE then
             map_option (retire ctx (d_seqno desc)) (cursor_message W addr (unat (d_len desc)) be)
           else if d_msg_type desc \<noteq> MSG_SUBMIT_CMD then Some be
           else (case dma_read (be_dma be) (be_mem be) (base + 32) 40 of
               None \<Rightarrow> Some be
             | Some sb \<Rightarrow> dec_SubmitCmd sb \<bind> (\<lambda>(sc, _). process_submit W sc addr ctx be)))))"

definition process_ring :: "world \<Rightarrow> nat \<Rightarrow> Backend \<Rightarrow> Backend option" where
  "process_ring W ctx be =
    (if be_ring_index be ! ctx \<noteq> 0 then drain_ctx W ctx be else process_single W ctx be)"

subsection \<open>Registers\<close>

definition ctx_block :: "nat \<Rightarrow> (nat \<times> nat) option" where
  "ctx_block off = (if R_CMD_RING_CFG \<le> off \<and> off < R_CMD_RING_CFG + NUM_CONTEXTS * CMD_RING_STRIDE then
     (let rel = off - R_CMD_RING_CFG in Some (rel div CMD_RING_STRIDE, rel mod CMD_RING_STRIDE)) else None)"

definition lo32 :: "u64 \<Rightarrow> u32" where "lo32 x = ucast (x AND 0xFFFFFFFF)"
definition hi32 :: "u64 \<Rightarrow> u32" where "hi32 x = ucast (drop_bit 32 x)"
definition with_lo :: "u64 \<Rightarrow> u32 \<Rightarrow> u64" where "with_lo x v = (x AND NOT 0xFFFFFFFF) OR ucast v"
definition with_hi :: "u64 \<Rightarrow> u32 \<Rightarrow> u64" where "with_hi x v = (x AND 0xFFFFFFFF) OR push_bit 32 (ucast v)"

definition read_ctx_reg :: "nat \<Rightarrow> nat \<Rightarrow> Backend \<Rightarrow> u32" where
  "read_ctx_reg ctx field be =
    (if field = F_BASE_LO then lo32 (be_ring_base be ! ctx)
     else if field = F_BASE_HI then hi32 (be_ring_base be ! ctx)
     else if field = F_SIZE then be_ring_cap be ! ctx
     else if field = F_RETIRED_LO then lo32 (be_ring_retired be ! ctx)
     else if field = F_RETIRED_HI then hi32 (be_ring_retired be ! ctx)
     else if field = F_INDEX_LO then lo32 (be_ring_index be ! ctx)
     else if field = F_INDEX_HI then hi32 (be_ring_index be ! ctx)
     else 0)"

definition bar0_read_u32 :: "nat \<Rightarrow> Backend \<Rightarrow> u32" where
  "bar0_read_u32 off be = (case ctx_block off of
     Some (ctx, field) \<Rightarrow> read_ctx_reg ctx field be
   | None \<Rightarrow>
       if off = R_DEV_MAGIC then DEV_MAGIC
       else if off = R_ABI_VERSION then abi_version
       else if off = R_DEV_CAPS then (if be_cursor_plane_enabled be then PHASE2_DEV_CAPS else PHASE1_DEV_CAPS)
       else if off = R_NUM_CONTEXTS then word_of_nat NUM_CONTEXTS
       else if off = R_MAX_RING_ENTRIES then 256
       else if off = R_BAR2_APERTURE_MB then 0
       else if off = R_GLOBAL_CTRL then be_global_ctrl be
       else if off = R_GLOBAL_STATUS then be_global_status be
       else if off = R_IRQ_MASK then be_irq_mask be
       else if off = R_CMD_RING0_RETIRED_LO then lo32 (be_ring_retired be ! 0)
       else if off = R_CMD_RING0_RETIRED_HI then hi32 (be_ring_retired be ! 0)
       else if off = DBG_DMA_DATA then (case dma_read_u32 (be_dma be) (be_mem be) (be_dbg_dma_addr be) of
           Some v \<Rightarrow> v | None \<Rightarrow> 0xFFFFFFFF)
       else 0)"

definition write_ctx_reg :: "nat \<Rightarrow> nat \<Rightarrow> u32 \<Rightarrow> Backend \<Rightarrow> Backend" where
  "write_ctx_reg ctx field v be =
    (if field = F_BASE_LO then be\<lparr>be_ring_base := (be_ring_base be)[ctx := with_lo (be_ring_base be ! ctx) v]\<rparr>
     else if field = F_BASE_HI then be\<lparr>be_ring_base := (be_ring_base be)[ctx := with_hi (be_ring_base be ! ctx) v]\<rparr>
     else if field = F_SIZE then be\<lparr>be_ring_cap := (be_ring_cap be)[ctx := v]\<rparr>
     else if field = F_INDEX_LO then be\<lparr>be_ring_index := (be_ring_index be)[ctx := with_lo (be_ring_index be ! ctx) v]\<rparr>
     else if field = F_INDEX_HI then be\<lparr>be_ring_index := (be_ring_index be)[ctx := with_hi (be_ring_index be ! ctx) v]\<rparr>
     else be)"

definition write_reg :: "world \<Rightarrow> nat \<Rightarrow> u32 \<Rightarrow> Backend \<Rightarrow> Backend" where
  "write_reg W off v be =
    (if off = R_GLOBAL_CTRL then
       (let be = be\<lparr>be_global_ctrl := v\<rparr> in
        if v AND DEVICE_ENABLE \<noteq> 0 then snd (ensure_admitted W be) else be)
     else if off = R_DEVICE_RESET then (if v AND 1 \<noteq> 0 then reset_state be else be)
     else if off = R_IRQ_MASK then be\<lparr>be_irq_mask := v\<rparr>
     else if off = DBG_DMA_ADDR_LO then be\<lparr>be_dbg_dma_addr := with_lo (be_dbg_dma_addr be) v\<rparr>
     else if off = DBG_DMA_ADDR_HI then be\<lparr>be_dbg_dma_addr := with_hi (be_dbg_dma_addr be) v\<rparr>
     else if off = DBG_DMA_DATA then (case dma_write_u32 (be_dma be) (be_mem be) (be_dbg_dma_addr be) v of
         Some mem \<Rightarrow> be\<lparr>be_mem := mem\<rparr> | None \<Rightarrow> be)
     else be)"

definition doorbell :: "world \<Rightarrow> nat \<Rightarrow> Backend \<Rightarrow> Backend option" where
  "doorbell W off be =
    (if off = DOORBELL_CTRL then Some (raise_irq 0 be)
     else if DOORBELL_CMD_BASE \<le> off then
       (let ctx = (off - DOORBELL_CMD_BASE) div 4 in
        if ctx < NUM_CONTEXTS then map_option (raise_irq (ctx + 1)) (process_ring W ctx be) else Some be)
     else Some be)"

definition bar0_write_u32 :: "world \<Rightarrow> nat \<Rightarrow> u32 \<Rightarrow> Backend \<Rightarrow> Backend option" where
  "bar0_write_u32 W off v be =
    (if DOORBELL_PAGE \<le> off \<and> off < DOORBELL_PAGE + 0x1000 then doorbell W off be
     else (case ctx_block off of
         Some (ctx, field) \<Rightarrow> Some (write_ctx_reg ctx field v be)
       | None \<Rightarrow> Some (write_reg W off v be)))"

text \<open>Byte accesses of any length and alignment, a word at a time; the offsets wrap at 64 bits.\<close>

definition aligned_off :: "u64 \<Rightarrow> u64" where "aligned_off cur = cur AND NOT 3"
definition off_within :: "u64 \<Rightarrow> nat" where "off_within cur = unat (cur - aligned_off cur)"
definition chunk_len :: "u64 \<Rightarrow> nat \<Rightarrow> nat" where "chunk_len cur n = min (4 - off_within cur) n"

lemma and_split: "(a AND NOT b) + (a AND b) = (a :: 'a::len word)"
proof -
  have "(a AND NOT b) + (a AND b) = (a AND NOT b) OR (a AND b)"
    by (rule disjunctive_add_eq_or) (auto intro!: bit_eqI simp: bit_simps)
  also have "\<dots> = a" by (rule bit_eqI) (auto simp: bit_simps)
  finally show ?thesis .
qed

lemma off_within_mod: "off_within cur = unat cur mod 4"
proof -
  have "cur - aligned_off cur = cur AND mask 2"
    using and_split [of cur "mask 2"] by (simp add: aligned_off_def mask_eq_exp_minus_1 diff_eq_eq add.commute)
  then show ?thesis
    by (simp add: off_within_def flip: take_bit_eq_mask) (simp add: take_bit_eq_mod unat_mod_distrib)
qed

lemma chunk_pos [simp]: "chunk_len cur n = 0 \<longleftrightarrow> n = 0"
  using mod_less_divisor [of 4 "unat cur"] by (auto simp: chunk_len_def off_within_mod min_def)

lemma chunk_rest [simp]: "0 < n \<Longrightarrow> n - chunk_len cur n < n"
  using chunk_pos [of cur n] by (simp del: chunk_pos)

function read_bar0 :: "u64 \<Rightarrow> nat \<Rightarrow> Backend \<Rightarrow> bytes" where
  "read_bar0 cur n be = (if n = 0 then []
     else take (chunk_len cur n) (drop (off_within cur) (u32_le (bar0_read_u32 (unat (aligned_off cur)) be))) @
       read_bar0 (cur + word_of_nat (chunk_len cur n)) (n - chunk_len cur n) be)"
  by auto
termination by (relation "measure (\<lambda>(_, n, _). n)") auto

definition merged_word :: "u64 \<Rightarrow> bytes \<Rightarrow> Backend \<Rightarrow> u32" where
  "merged_word cur bs be = get_u32 (put_bytes (u32_le (bar0_read_u32 (unat (aligned_off cur)) be)) (off_within cur) bs) 0"

function write_bar0 :: "world \<Rightarrow> u64 \<Rightarrow> bytes \<Rightarrow> Backend \<Rightarrow> Backend option" where
  "write_bar0 W cur bs be = (if bs = [] then Some be
     else (let k = chunk_len cur (length bs) in
       bar0_write_u32 W (unat (aligned_off cur)) (merged_word cur (take k bs) be) be
       \<bind> write_bar0 W (cur + word_of_nat k) (drop k bs)))"
  by auto
termination by (relation "measure (\<lambda>(_, _, bs, _). length bs)") auto

declare read_bar0.simps [simp del] write_bar0.simps [simp del]

end
