(* ===== verification/Device_Server.thy ===== *)
theory Device_Server
  imports Device_Ring
begin

unbundle bit_operations_syntax

text \<open>The callbacks the vfio-user server calls on the backend (\<open>impl ServerBackend for
  InfinigpuBackend\<close> in \<open>crates/infinigpu-device/src/lib.rs\<close>), and the steps a device takes between them:
  the guest writes its memory, the other VMs use the broker, viewers come and go. The imports the GPU
  caches of guest memory are state of the replay crate and are not part of the model.\<close>

definition config_read :: "u64 \<Rightarrow> nat \<Rightarrow> Backend \<Rightarrow> bytes" where
  "config_read off n be = map (\<lambda>i. let j = unat (off + word_of_nat i) in
     if j < length (be_config be) then be_config be ! j else 0) [0..<n]"

fun config_write :: "u64 \<Rightarrow> bytes \<Rightarrow> bytes \<Rightarrow> bytes" where
  "config_write off [] cfg = cfg"
| "config_write off (b # bs) cfg = config_write (off + 1) bs
     (if unat off < length cfg then cfg[unat off := b] else cfg)"

definition region_read :: "Vfio \<Rightarrow> nat \<Rightarrow> u64 \<Rightarrow> nat \<Rightarrow> Backend \<Rightarrow> bytes" where
  "region_read v region off n be =
    (if region = vf_config v then config_read off n be
     else if region = vf_bar0 v then read_bar0 off n be
     else replicate n 0)"

definition region_write :: "world \<Rightarrow> Vfio \<Rightarrow> nat \<Rightarrow> u64 \<Rightarrow> bytes \<Rightarrow> Backend \<Rightarrow> Backend option" where
  "region_write W v region off bs be =
    (if region = vf_config v then Some (be\<lparr>be_config := config_write off bs (be_config be)\<rparr>)
     else if region = vf_bar0 v then write_bar0 W off bs be
     else Some be)"

text \<open>\<open>fd\<close> is \<open>None\<close> without a descriptor, and otherwise the address the mapping gets or its failure.\<close>

definition backend_dma_map :: "u64 \<Rightarrow> u64 \<Rightarrow> nat option option \<Rightarrow> Backend \<Rightarrow> io_result \<times> Backend" where
  "backend_dma_map iova sz fd be0 = (case fd of
     None \<Rightarrow> (IoOk, be0)
   | Some mmapped \<Rightarrow> (let be = invalidate_elision be0 in
       case dma_map iova sz mmapped (be_dma be) of (res, t) \<Rightarrow> (res, be\<lparr>be_dma := t\<rparr>)))"

definition backend_dma_unmap :: "bool \<Rightarrow> u64 \<Rightarrow> Backend \<Rightarrow> Backend" where
  "backend_dma_unmap unmap_all iova be0 = (let be = invalidate_elision be0 in
     if unmap_all then be\<lparr>be_dma := dma_clear (be_dma be)\<rparr> else be\<lparr>be_dma := dma_unmap iova (be_dma be)\<rparr>)"

fun install_fds :: "nat \<Rightarrow> nat list \<Rightarrow> nat option list \<Rightarrow> nat option list" where
  "install_fds v [] msix = msix"
| "install_fds v (f # fs) msix = install_fds (v + 1) fs (if v < length msix then msix[v := Some f] else msix)"

fun disable_range :: "nat list \<Rightarrow> nat option list \<Rightarrow> nat option list" where
  "disable_range [] msix = msix"
| "disable_range (v # vs) msix = disable_range vs (if v < length msix then msix[v := None] else msix)"

definition set_irqs :: "Vfio \<Rightarrow> nat \<Rightarrow> u32 \<Rightarrow> u32 \<Rightarrow> u32 \<Rightarrow> nat list \<Rightarrow> Backend \<Rightarrow> Backend" where
  "set_irqs v index fl start cnt fds be =
    (if index \<noteq> vf_msix v then be
     else if fl AND vf_set_fd_trigger v \<noteq> 0 \<and> fds \<noteq> [] then
       be\<lparr>be_msix := install_fds (unat start) fds (be_msix be)\<rparr>
     else be\<lparr>be_msix := disable_range [unat start ..< unat (start + cnt)] (be_msix be)\<rparr>)"

subsection \<open>Runs of a device\<close>

text \<open>What another VM's backend does to the shared broker: any operation on an identity that is not ours.\<close>

inductive other_vm :: "BrokerConfig \<Rightarrow> string \<Rightarrow> State \<Rightarrow> State \<Rightarrow> bool" for cfg me where
  admit: "vc_vm_id vc \<noteq> me \<Longrightarrow> 1 \<le> vc_weight vc \<Longrightarrow> other_vm cfg me st (snd (admit cfg now vc req st))"
| adjust: "k \<noteq> me \<Longrightarrow> other_vm cfg me st (snd (adjust_vram cfg k mb st))"
| begins: "k \<noteq> me \<Longrightarrow> other_vm cfg me st (snd (begin_run cfg now k st))"
| records: "k \<noteq> me \<Longrightarrow> record_run cfg k g st = Some st' \<Longrightarrow> other_vm cfg me st st'"
| drops: "tk_vm_id t \<noteq> me \<Longrightarrow> other_vm cfg me st (snd (ticket_drop t st))"

inductive dev_step :: "world \<Rightarrow> Vfio \<Rightarrow> Backend \<Rightarrow> Backend \<Rightarrow> bool" for W v where
  mmio: "region_write W v region off bs be = Some be' \<Longrightarrow> dev_step W v be be'"
| map: "dev_step W v be (snd (backend_dma_map iova sz fd be))"
| unmap: "dev_step W v be (backend_dma_unmap all iova be)"
| reset: "dev_step W v be (reset_state be)"
| irqs: "dev_step W v be (set_irqs v index fl start cnt fds be)"
| guest: "dev_step W v be (be\<lparr>be_mem := mem\<rparr>)"
| stream: "be_pixel be \<noteq> None \<Longrightarrow> dev_step W v be (be\<lparr>be_pixel := Some p\<rparr>)"
| others: "other_vm (be_bcfg be) (vc_vm_id (be_vm_config be)) (be_broker be) st \<Longrightarrow>
    dev_step W v be (be\<lparr>be_broker := st\<rparr>)"

inductive dev_reach :: "world \<Rightarrow> Vfio \<Rightarrow> Backend \<Rightarrow> Backend \<Rightarrow> bool" for W v be0 where
  start: "dev_reach W v be0 be0"
| step: "dev_reach W v be0 be \<Longrightarrow> dev_step W v be be' \<Longrightarrow> dev_reach W v be0 be'"

end
