(* ===== verification/Device_Invariant.thy ===== *)
theory Device_Invariant
  imports Device_Server
begin

text \<open>The invariant of the device backend, kept by every operation of Device_State to Device_Server:
  the DMA table, the resource table and the broker's ledger stay sound, the register files keep their
  size, a held ticket is registered with the broker, the persistent surface has the size of its
  geometry, and the elision cache stays within its bound. The same lemmas show that every operation
  returns when the broker does not throttle.\<close>

subsection \<open>Results\<close>

text \<open>An operation's result is good when it has returned a value of \<open>P\<close>, or has not returned and the
  run is not live. A run is live when the broker does not throttle and the broker's clock is read.\<close>

definition good :: "bool \<Rightarrow> ('a \<Rightarrow> bool) \<Rightarrow> 'a option \<Rightarrow> bool" where
  "good live P r \<longleftrightarrow> (case r of None \<Rightarrow> \<not> live | Some x \<Rightarrow> P x)"

lemma good_Some [simp]: "good live P (Some x) = P x"
  by (simp add: good_def)

lemma good_None [simp]: "good live P None = (\<not> live)"
  by (simp add: good_def)

lemma good_map [simp]: "good live P (map_option f r) = good live (\<lambda>x. P (f x)) r"
  by (simp add: good_def split: option.split)

lemma good_bind: "good live Q r \<Longrightarrow> (\<And>x. r = Some x \<Longrightarrow> Q x \<Longrightarrow> good live P (f x)) \<Longrightarrow> good live P (r \<bind> f)"
  by (cases r) auto

lemma good_mono: "good live Q r \<Longrightarrow> (\<And>x. Q x \<Longrightarrow> P x) \<Longrightarrow> good live P r"
  by (cases r) auto

lemma goodD: "good live P r \<Longrightarrow> r = Some x \<Longrightarrow> P x"
  by simp

lemma good_returns: "good True P r \<Longrightarrow> \<exists>x. r = Some x \<and> P x"
  by (cases r) auto

definition live_run :: "BrokerConfig \<Rightarrow> world \<Rightarrow> bool" where
  "live_run cfg W \<longleftrightarrow> \<not> bc_throttle_enabled cfg \<and> (\<forall>n. tn_readings (W n) \<noteq> [])"

subsection \<open>The invariant\<close>

definition registered :: "string \<Rightarrow> State \<Rightarrow> bool" where
  "registered k st \<longleftrightarrow> (\<exists>v. map_of (st_vms st) k = Some v \<and> 1 \<le> vc_weight (vs_cfg v))"

definition ticket_ok :: "VmConfig \<Rightarrow> VmTicket option \<Rightarrow> State \<Rightarrow> bool" where
  "ticket_ok vc tk st \<longleftrightarrow> (\<forall>t. tk = Some t \<longrightarrow> tk_vm_id t = vc_vm_id vc \<and> \<not> tk_released t \<and>
     registered (vc_vm_id vc) st)"

definition surface_ok :: "ScanoutBuffer option \<Rightarrow> bool" where
  "surface_ok s \<longleftrightarrow> (\<forall>b. s = Some b \<longrightarrow> 0 < so_w b \<and> 0 < so_h b \<and> so_w b < 2 ^ 32 \<and> so_h b < 2 ^ 32 \<and>
     so_h b * (so_w b * 4) \<le> 67108864 \<and> length (so_bgra b) = so_h b * (so_w b * 4))"

definition regs_ok :: "Backend \<Rightarrow> bool" where
  "regs_ok be \<longleftrightarrow> length (be_config be) = CONFIG_SPACE_SIZE \<and> length (be_msix be) = 64 \<and>
     length (be_ring_base be) = NUM_CONTEXTS \<and> length (be_ring_retired be) = NUM_CONTEXTS \<and>
     length (be_ring_index be) = NUM_CONTEXTS \<and> length (be_ring_cap be) = NUM_CONTEXTS"

definition cache_ok :: "(u64 \<times> u64) list \<Rightarrow> bool" where
  "cache_ok m \<longleftrightarrow> amap_ok m \<and> length m \<le> 8"

definition dev_ok :: "BrokerConfig \<Rightarrow> VmConfig \<Rightarrow> Backend \<Rightarrow> bool" where
  "dev_ok cfg vc be \<longleftrightarrow> be_bcfg be = cfg \<and> be_vm_config be = vc \<and> config_ok cfg \<and> 1 \<le> vc_weight vc \<and>
     regs_ok be \<and> dma_ok (be_dma be) \<and> table_ok (be_resources be) \<and> ledger_ok cfg (be_broker be) \<and>
     ticket_ok vc (be_ticket be) (be_broker be) \<and> surface_ok (be_last_scanout be) \<and>
     cache_ok (be_last_forwarded_hash be)"

text \<open>The fields the invariant does not constrain.\<close>

lemma dev_ok_frame [simp]:
  "dev_ok cfg vc (be\<lparr>be_mem := x1\<rparr>) = dev_ok cfg vc be"
  "dev_ok cfg vc (be\<lparr>be_signals := x2\<rparr>) = dev_ok cfg vc be"
  "dev_ok cfg vc (be\<lparr>be_global_ctrl := x3\<rparr>) = dev_ok cfg vc be"
  "dev_ok cfg vc (be\<lparr>be_global_status := x4\<rparr>) = dev_ok cfg vc be"
  "dev_ok cfg vc (be\<lparr>be_irq_mask := x5\<rparr>) = dev_ok cfg vc be"
  "dev_ok cfg vc (be\<lparr>be_dbg_dma_addr := x6\<rparr>) = dev_ok cfg vc be"
  "dev_ok cfg vc (be\<lparr>be_admission_denied := x7\<rparr>) = dev_ok cfg vc be"
  "dev_ok cfg vc (be\<lparr>be_present_count := x8\<rparr>) = dev_ok cfg vc be"
  "dev_ok cfg vc (be\<lparr>be_pixel := x9\<rparr>) = dev_ok cfg vc be"
  "dev_ok cfg vc (be\<lparr>be_bytes_read_last := x10\<rparr>) = dev_ok cfg vc be"
  "dev_ok cfg vc (be\<lparr>be_cursor := x11\<rparr>) = dev_ok cfg vc be"
  "dev_ok cfg vc (be\<lparr>be_cursor_needs_resolicit := x12\<rparr>) = dev_ok cfg vc be"
  "dev_ok cfg vc (be\<lparr>be_vulkan_submits := x13\<rparr>) = dev_ok cfg vc be"
  "dev_ok cfg vc (be\<lparr>be_scanout_vram_dims := x14\<rparr>) = dev_ok cfg vc be"
  "dev_ok cfg vc (be\<lparr>be_profiler := x15\<rparr>) = dev_ok cfg vc be"
  "dev_ok cfg vc (be\<lparr>be_zerocopy_scanout := x16\<rparr>) = dev_ok cfg vc be"
  "dev_ok cfg vc (be\<lparr>be_frames_elided := x17\<rparr>) = dev_ok cfg vc be"
  "dev_ok cfg vc (be\<lparr>be_cursor_updates := x18\<rparr>) = dev_ok cfg vc be"
  "dev_ok cfg vc (be\<lparr>be_turn := x19\<rparr>) = dev_ok cfg vc be"
  by (simp_all add: dev_ok_def regs_ok_def)

lemma dev_ok_tick [simp]: "dev_ok cfg vc (tick be) = dev_ok cfg vc be"
  by (simp add: tick_def)

lemma dev_ok_retire [simp]: "dev_ok cfg vc (retire ctx s be) = dev_ok cfg vc be"
  by (simp add: retire_def dev_ok_def regs_ok_def)

lemma cache_ok_empty [simp]: "cache_ok []"
  by (simp add: cache_ok_def)

lemma dev_ok_invalidate [intro]: "dev_ok cfg vc be \<Longrightarrow> dev_ok cfg vc (invalidate_elision be)"
  by (simp add: invalidate_elision_def dev_ok_def regs_ok_def)

lemma dev_ok_resources: "dev_ok cfg vc be \<Longrightarrow> table_ok t \<Longrightarrow> dev_ok cfg vc (be\<lparr>be_resources := t\<rparr>)"
  by (simp add: dev_ok_def regs_ok_def)

lemma dev_ok_surface: "dev_ok cfg vc be \<Longrightarrow> surface_ok s \<Longrightarrow> dev_ok cfg vc (be\<lparr>be_last_scanout := s\<rparr>)"
  by (simp add: dev_ok_def regs_ok_def)

lemma dev_ok_dma: "dev_ok cfg vc be \<Longrightarrow> dma_ok t \<Longrightarrow> dev_ok cfg vc (be\<lparr>be_dma := t\<rparr>)"
  by (simp add: dev_ok_def regs_ok_def)

lemma dev_ok_broker: "dev_ok cfg vc be \<Longrightarrow> ledger_ok cfg st \<Longrightarrow>
    (registered (vc_vm_id vc) (be_broker be) \<Longrightarrow> registered (vc_vm_id vc) st) \<Longrightarrow>
    dev_ok cfg vc (be\<lparr>be_broker := st\<rparr>)"
  by (auto simp: dev_ok_def regs_ok_def ticket_ok_def)

subsection \<open>The broker's operations\<close>

lemma registered_begin: "registered k st \<Longrightarrow> registered k (snd (begin_run cfg now k' st))"
  by (auto simp: registered_def begin_run_def Let_def split: option.splits)

lemma registered_record: "registered k st \<Longrightarrow> record_run cfg k' g st = Some st' \<Longrightarrow> registered k st'"
  by (auto simp: registered_def record_run_def Let_def split: option.splits if_splits)

lemma registered_adjust: "registered k st \<Longrightarrow> registered k (snd (adjust_vram cfg k' mb st))"
  by (auto simp: registered_def adjust_vram_def Let_def split: option.splits)

lemma loop_keeps:
  "admission_loop cfg k readings st = Some (b, st') \<Longrightarrow> ledger_ok cfg st \<Longrightarrow>
     ledger_ok cfg st' \<and> (registered k' st \<longrightarrow> registered k' st')"
proof (induction readings arbitrary: st)
  case (Cons now later)
  obtain r st1 where b: "begin_run cfg now k st = (r, st1)" by fastforce
  have "ledger_ok cfg st1" "registered k' st \<longrightarrow> registered k' st1"
    using ledger_ok_begin [OF Cons.prems(2), of now k] registered_begin [of k' st cfg now k] b by auto
  with Cons.IH [of st1] Cons.prems(1) b show ?case by (auto split: option.splits Begin.splits)
qed simp

lemma loop_ready:
  assumes "registered k st" and "\<not> bc_throttle_enabled cfg" and "readings \<noteq> []"
  shows "\<exists>st'. admission_loop cfg k readings st = Some (True, st') \<and> registered k st'"
proof -
  obtain now later where r: "readings = now # later" using assms(3) by (cases readings) auto
  obtain v where v: "map_of (st_vms st) k = Some v" using assms(1) by (auto simp: registered_def)
  have "fst (begin_run cfg now k st) = Some Ready"
    using v assms(2) by (simp add: begin_run_def Let_def)
  then show ?thesis
    using registered_begin [OF assms(1), of cfg now k] by (cases "begin_run cfg now k st") (auto simp: r)
qed

lemma boost_pos [simp]: "boost_num p \<noteq> 0"
  by (cases p) simp_all

lemma record_returns: "registered k st \<Longrightarrow> \<exists>st'. record_run cfg k g st = Some st'"
  by (auto simp: registered_def record_run_def Let_def effective_weight_num_def split: option.split)

lemma run_timed_good:
  assumes "ledger_ok cfg st" and "registered k st"
  shows "good (\<not> bc_throttle_enabled cfg \<and> readings \<noteq> [])
    (\<lambda>(res, st'). ledger_ok cfg st' \<and> registered k st') (run_timed cfg k t_enter readings t0 t1 f st)"
proof (cases "admission_loop cfg k readings st")
  case None
  with loop_ready [OF assms(2), of cfg readings] show ?thesis by (fastforce simp: run_timed_def)
next
  case (Some p)
  obtain b st1 where p: "p = (b, st1)" by fastforce
  have k: "ledger_ok cfg st1" "registered k st1"
    using loop_keeps [OF Some [unfolded p] assms(1), of k] assms(2) by auto
  obtain st2 where r: "record_run cfg k (t1 - t0) st1 = Some st2" using record_returns [OF k(2)] by blast
  show ?thesis
    using ledger_ok_record [OF k(1) r] registered_record [OF k(2) r] k
    by (auto simp: run_timed_def Some p r split: option.split)
qed


lemma dev_ok_ticket: "dev_ok cfg vc be \<Longrightarrow> be_ticket be = Some t \<Longrightarrow>
    tk_vm_id t = vc_vm_id vc \<and> \<not> tk_released t \<and> registered (vc_vm_id vc) (be_broker be)"
  by (simp add: dev_ok_def ticket_ok_def)

lemma dev_ok_parts:
  assumes "dev_ok cfg vc be"
  shows "be_bcfg be = cfg" "be_vm_config be = vc" "regs_ok be" "dma_ok (be_dma be)" "table_ok (be_resources be)"
    "ledger_ok cfg (be_broker be)" "surface_ok (be_last_scanout be)" "cache_ok (be_last_forwarded_hash be)"
    "config_ok cfg" "1 \<le> vc_weight vc"
  using assms by (simp_all add: dev_ok_def)

subsection \<open>Admission, accounting, reset\<close>

lemma ensure_admitted_ok:
  assumes "dev_ok cfg vc be" and "ensure_admitted W be = (b, be')"
  shows "dev_ok cfg vc be' \<and> (b \<longleftrightarrow> be_ticket be' \<noteq> None)"
proof (rule ensure_admitted_cases [of be W])
  fix k st
  assume admitted: "admit (be_bcfg be) (tn_clock (turn W be)) (be_vm_config be) (admission_request be) (be_broker be)
      = (Inr k, st)"
    "ensure_admitted W be = (True, tick (be\<lparr>be_broker := st, be_ticket := Some \<lparr>tk_vm_id = k, tk_released = False\<rparr>\<rparr>))"
  note p = dev_ok_parts [OF assms(1)]
  have a: "admit cfg (tn_clock (turn W be)) vc (admission_request be) (be_broker be) = (Inr k, st)"
    using admitted(1) p(1,2) by simp
  have "ledger_ok cfg st" using ledger_ok_admit [OF p(6,9)] a by (metis snd_conv)
  moreover have "registered (vc_vm_id vc) st" "k = vc_vm_id vc"
    using admit_success [OF a] p(10) by (simp_all add: registered_def fresh_vm_def)
  ultimately show ?thesis using assms admitted(2)
    by (auto simp: tick_def dev_ok_def regs_ok_def ticket_ok_def)
qed (use assms in \<open>auto simp: tick_def\<close>)

text \<open>How an operation that begins with the admission gate is taken apart.\<close>

lemma admit_rule:
  assumes "dev_ok cfg vc be"
    and "\<And>be'. dev_ok cfg vc be' \<Longrightarrow> P (f False be')"
    and "\<And>be'. dev_ok cfg vc be' \<Longrightarrow> be_ticket be' \<noteq> None \<Longrightarrow> P (f True be')"
  shows "P (case ensure_admitted W be of (b, be') \<Rightarrow> f b be')"
  proof -
  obtain b be' where e: "ensure_admitted W be = (b, be')" by fastforce
  show ?thesis using ensure_admitted_ok [OF assms(1) e] assms(2,3) [of be'] by (cases b) (auto simp: e)
qed

lemma account_ok: "dev_ok cfg vc be \<Longrightarrow> dev_ok cfg vc (account_scanout_vram w h be)"
  by (auto simp: account_scanout_vram_def Let_def dev_ok_parts split: option.split
      intro!: dev_ok_broker [of cfg vc "be\<lparr>be_scanout_vram_dims := Some (w, h)\<rparr>"] ledger_ok_adjust registered_adjust)

lemma raise_ok [simp]: "dev_ok cfg vc (raise_irq v be) = dev_ok cfg vc be"
  by (simp add: raise_irq_def split: option.split)

lemma drop_ticket_ok: "dev_ok cfg vc be \<Longrightarrow> dev_ok cfg vc (drop_ticket be) \<and> be_ticket (drop_ticket be) = None"
  by (auto simp: drop_ticket_def dev_ok_def regs_ok_def ticket_ok_def ticket_drop_def ledger_ok_release split: option.split)

lemma reset_ok: "dev_ok cfg vc be \<Longrightarrow> dev_ok cfg vc (reset_state be)"
  using drop_ticket_ok [of cfg vc "be\<lparr>be_global_ctrl := 0, be_global_status := STATUS_NEEDS_RESET\<rparr>"]
  by (simp add: reset_state_def Let_def) (simp add: dev_ok_def regs_ok_def ticket_ok_def table_ok_clear surface_ok_def)

subsection \<open>Presents\<close>

lemma stream_ok [simp]: "dev_ok cfg vc (stream_frame W f w h be) = dev_ok cfg vc be"
  by (simp add: stream_frame_def Let_def split: option.split)

lemma dev_ok_presented [simp]: "dev_ok cfg vc (retire ctx s (be\<lparr>be_last_scanout := x, be_bytes_read_last := n,
    be_present_count := m\<rparr>)) = dev_ok cfg vc (be\<lparr>be_last_scanout := x\<rparr>)"
  by (simp add: dev_ok_def regs_ok_def retire_def)

lemma surface_ok_None [simp]: "surface_ok None"
  by (simp add: surface_ok_def)

lemma present_scanout_ok:
  assumes "dev_ok cfg vc be"
  shows "dev_ok cfg vc (present_scanout W sp s ctx be)"
  unfolding present_scanout_def
  by (rule admit_rule [OF assms]) (auto simp: Let_def account_ok dev_ok_surface split: option.split)

lemma length_dma_read: "dma_read t mem addr n = Some bs \<Longrightarrow> length bs = n"
  by (auto simp: dma_read_def)

lemma length_read_rows: "read_rows t mem addr pitch dx dy dw n = Some rows \<Longrightarrow> length rows = n * (dw * 4)"
  by (induction n arbitrary: rows) (auto simp: bind_eq_Some_conv dma_read_def)

lemma update_surface_ok:
  assumes "dev_ok cfg vc be" and "fb_bytes (unat (spd_width sp)) (unat (spd_height sp)) (unat (spd_pitch sp)) = Some n"
    and "update_surface sp n be = Some be'"
  shows "dev_ok cfg vc be'"
proof -
  let ?w = "unat (spd_width sp)" and ?h = "unat (spd_height sp)"
  obtain dx dy dw dh where c: "clamp_damage ?w ?h (spd_dx sp) (spd_dy sp) (spd_dw sp) (spd_dh sp) = (dx, dy, dw, dh)"
    by (metis prod_cases4)
  note in_frame = clamp_damage_in [OF c] and fb = fb_bytes_Some [OF assms(2)]
  have s: "surface_ok (be_last_scanout be)" using assms(1) by (simp add: dev_ok_parts)
  have l: "length (reuse_surface ?w ?h (be_last_scanout be)) = ?h * (?w * 4)"
    using s by (auto simp: reuse_surface_def surface_ok_def split: option.split)
  have new: "surface_ok (Some \<lparr>so_w = ?w, so_h = ?h, so_bgra = bs\<rparr>)" if "length bs = ?h * (?w * 4)" for bs
    using that fb(3,4) order_trans [OF fb(6,5)] by (simp add: surface_ok_def)
  note u = assms(3) [unfolded update_surface_def Let_def c split]
  show ?thesis
  proof (cases "dx = 0 \<and> dy = 0 \<and> dw = ?w \<and> dh = ?h \<or> \<not> surface_matches ?w ?h (be_last_scanout be)")
    case True
    then obtain buf where buf: "dma_read (be_dma be) (be_mem be) (spd_scanout_addr sp) n = Some buf"
      "be' = be\<lparr>be_last_scanout := Some \<lparr>so_w = ?w, so_h = ?h, so_bgra = full_rows ?w (unat (spd_pitch sp))
         (spd_format sp \<noteq> FMT_R8G8B8A8) buf ?h (reuse_surface ?w ?h (be_last_scanout be))\<rparr>, be_bytes_read_last := n\<rparr>"
      using u by (auto simp: bind_eq_Some_conv)
    moreover have "length buf = unat (spd_pitch sp) * ?h" using length_dma_read [OF buf(1)] fb(1) by simp
    moreover from this fb l have "length (full_rows ?w (unat (spd_pitch sp)) (spd_format sp \<noteq> FMT_R8G8B8A8) buf ?h
        (reuse_surface ?w ?h (be_last_scanout be))) = ?h * (?w * 4)" by (simp add: length_full_rows)
    ultimately show ?thesis using dev_ok_surface [OF assms(1) new] by simp
  next
    case False
    then obtain b where b: "be_last_scanout be = Some b" "so_w b = ?w" "so_h b = ?h"
      by (auto simp: surface_matches_def split: option.splits)
    show ?thesis
    proof (cases "0 < dw \<and> 0 < dh")
      case True
      with u False b(1) obtain rows where r: "read_rows (be_dma be) (be_mem be) (spd_scanout_addr sp)
          (unat (spd_pitch sp)) dx dy dw dh = Some rows"
        "be' = be\<lparr>be_last_scanout := Some (b\<lparr>so_bgra := patch_rows ?w dx dy dw (spd_format sp \<noteq> FMT_R8G8B8A8) rows dh
           (so_bgra b)\<rparr>), be_bytes_read_last := dw * dh * 4\<rparr>"
        by (auto simp: bind_eq_Some_conv)
      have "length (so_bgra b) = ?h * (?w * 4)" using s b by (simp add: surface_ok_def)
      then have "length (patch_rows ?w dx dy dw (spd_format sp \<noteq> FMT_R8G8B8A8) rows dh (so_bgra b)) = ?h * (?w * 4)"
        using in_frame by (intro length_patch_rows [OF _ length_read_rows [OF r(1)]]) auto
      then have "surface_ok (Some (b\<lparr>so_bgra := patch_rows ?w dx dy dw (spd_format sp \<noteq> FMT_R8G8B8A8) rows dh (so_bgra b)\<rparr>))"
        using s b by (simp add: surface_ok_def)
      then show ?thesis using dev_ok_surface [OF assms(1)] r(2) by simp
    next
      case False2: False
      then show ?thesis using u False assms(1) by auto
    qed
  qed
qed

lemma stream_surface_ok [simp]: "dev_ok cfg vc (stream_surface W be) = dev_ok cfg vc be"
  by (simp add: stream_surface_def split: option.split)

lemma present_damaged_ok:
  assumes "dev_ok cfg vc be"
  shows "dev_ok cfg vc (present_scanout_damaged W sp s ctx be)"
  unfolding present_scanout_damaged_def
  by (rule admit_rule [OF dev_ok_invalidate [OF assms]])
    (auto simp: Let_def split: option.split intro: update_surface_ok account_ok)

lemma present_flush_ok:
  assumes "dev_ok cfg vc be"
  shows "dev_ok cfg vc (present_resource_flush W k rect s ctx be)"
  using dev_ok_invalidate [OF assms]
  by (auto simp: present_resource_flush_def Let_def present_damaged_ok split: option.split list.split prod.split)

subsection \<open>Renders\<close>

lemma gpu_run_good:
  assumes "dev_ok cfg vc be" and "be_ticket be \<noteq> None"
  shows "good (live_run cfg W) (\<lambda>(res, be'). dev_ok cfg vc be' \<and> be_ticket be' \<noteq> None) (gpu_run W f be)"
proof -
  obtain t where t: "be_ticket be = Some t" using assms(2) by auto
  note k = dev_ok_ticket [OF assms(1) t] and p = dev_ok_parts [OF assms(1)]
  let ?u = "turn W be"
  have g: "good (\<not> bc_throttle_enabled cfg \<and> tn_readings ?u \<noteq> []) (\<lambda>(res, st').
      ledger_ok cfg st' \<and> registered (vc_vm_id vc) st')
    (run_timed cfg (vc_vm_id vc) (tn_enter ?u) (tn_readings ?u) (tn_t0 ?u) (tn_t1 ?u) f (be_broker be))"
    using k p(6) by (intro run_timed_good) auto
  have l: "live_run cfg W \<Longrightarrow> \<not> bc_throttle_enabled cfg \<and> tn_readings ?u \<noteq> []"
    by (simp add: live_run_def turn_def)
  show ?thesis
    using g l k dev_ok_broker [OF assms(1)]
    by (auto simp: gpu_run_def t Let_def good_def p(1) tick_def split: option.splits)
qed

lemma gpu_run_Some: "gpu_run W f be = Some (res, be') \<Longrightarrow> dev_ok cfg vc be \<Longrightarrow> be_ticket be \<noteq> None \<Longrightarrow>
    dev_ok cfg vc be' \<and> be_ticket be' \<noteq> None"
  using goodD [OF gpu_run_good, of cfg vc be W f "(res, be')"] by auto

lemma gpu_run_None: "gpu_run W f be = None \<Longrightarrow> dev_ok cfg vc be \<Longrightarrow> be_ticket be \<noteq> None \<Longrightarrow> \<not> live_run cfg W"
  using gpu_run_good [of cfg vc be W f] by (auto simp: good_def)

lemma render_clear_good:
  assumes "dev_ok cfg vc be"
  shows "good (live_run cfg W) (dev_ok cfg vc) (render_clear_present W cp s ctx be)"
  unfolding render_clear_present_def
  by (rule admit_rule [OF dev_ok_invalidate [OF assms]])
    (auto dest: gpu_run_Some gpu_run_None split: option.split sum.split)

subsection \<open>3D submissions\<close>

lemma put_pixels_ok: "put_pixels addr px be = (ok, be') \<Longrightarrow> dev_ok cfg vc be \<Longrightarrow> dev_ok cfg vc be'"
  by (auto simp: put_pixels_def split: if_splits option.splits)

lemma one_copy_good:
  assumes "dev_ok cfg vc be" "be_ticket be \<noteq> None"
  shows "good (live_run cfg W) (\<lambda>(hp, be'). dev_ok cfg vc be') (one_copy W wl fwd d be)"
  using assms unfolding one_copy_def Let_def
  by (auto dest: gpu_run_Some gpu_run_None put_pixels_ok split: option.split sum.split prod.split)

lemma zero_copy_good:
  assumes "dev_ok cfg vc be" "be_ticket be \<noteq> None"
  shows "good (live_run cfg W) (\<lambda>(hp, be'). dev_ok cfg vc be') (zero_copy W wl fwd d ptr be)"
  using assms unfolding zero_copy_def Let_def
  by (auto dest: gpu_run_Some gpu_run_None intro!: one_copy_good split: option.split sum.split prod.split)

lemma render_workload_good:
  assumes "dev_ok cfg vc be" "be_ticket be \<noteq> None"
  shows "good (live_run cfg W) (\<lambda>(hp, be'). dev_ok cfg vc be') (render_workload W wl payload be)"
proof -
  have "good (live_run cfg W) (\<lambda>(hp, be'). dev_ok cfg vc be') (submit_frame W wl be)"
    using assms unfolding submit_frame_def Let_def
    by (auto dest: gpu_run_Some gpu_run_None put_pixels_ok split: option.split sum.split prod.split)
  moreover have "good (live_run cfg W) (\<lambda>(hp, be'). dev_ok cfg vc be') (submit_forwarded W wl payload be)"
    using assms zero_copy_good [OF assms] one_copy_good [OF assms]
    by (auto simp: submit_forwarded_def Let_def split: option.split)
  ultimately show ?thesis by (simp add: render_workload_def)
qed

lemma length_update_le: "length (AList.update k v m) \<le> Suc (length m)"
  by (induction m) auto

lemma remember_ok: "dev_ok cfg vc be \<Longrightarrow> dev_ok cfg vc (remember_frame hash addr ok be)"
  using length_update_le [of addr "the hash" "be_last_forwarded_hash be"]
  by (auto simp: remember_frame_def dev_ok_def regs_ok_def cache_ok_def amap_ok_def
    intro: distinct_update split: option.split)

lemma profile_ok [simp]: "dev_ok cfg vc (profile_hop n hp be) = dev_ok cfg vc be"
  by (simp add: profile_hop_def)

lemma run_workload_good:
  assumes "dev_ok cfg vc be" "be_ticket be \<noteq> None"
  shows "good (live_run cfg W) (dev_ok cfg vc) (run_workload W wl payload be)"
  using assms render_workload_good [OF assms, of W wl payload]
  by (auto simp: run_workload_def Let_def good_def remember_ok split: option.splits prod.splits)

lemma submit_vulkan_good:
  assumes "dev_ok cfg vc be"
  shows "good (live_run cfg W) (dev_ok cfg vc) (submit_vulkan W sc payload ctx be)"
  unfolding submit_vulkan_def good_map dev_ok_retire
  by (rule admit_rule [OF assms]) (auto intro!: run_workload_good split: option.split)

subsection \<open>The cursor\<close>

lemma set_cursor_ok [simp]: "dev_ok cfg vc (set_cursor f be) = dev_ok cfg vc be"
  by (simp add: set_cursor_def)

lemma cursor_send_ok [simp]: "dev_ok cfg vc (cursor_send hdr body be) = dev_ok cfg vc be"
  by (simp add: cursor_send_def)

lemma cursor_ok:
  assumes "dev_ok cfg vc be"
  shows "dev_ok cfg vc (handle_cursor_update W cu be)"
proof -
  have u: "dev_ok cfg vc (be\<lparr>be_cursor_updates := n\<rparr>)" for n using assms by simp
  show ?thesis unfolding handle_cursor_update_def
    by (rule admit_rule [OF u]) (auto simp: cursor_move_def cursor_define_def Let_def split: option.split)
qed

subsection \<open>Descriptors and rings\<close>

lemma length_zero_filled [simp]: "length (zero_filled n bs) = n"
  by (simp add: zero_filled_def)

context wire_codec
begin

lemma dec_bind_good:
  assumes "size \<le> length bs" and "\<And>m rest. good live P (f (m, rest))"
  shows "good live P (dec bs \<bind> f)"
  using dec_enough [OF assms(1)] assms(2) by auto

lemma dec_map_good:
  assumes "size \<le> length bs" and "\<And>m rest. P (f (m, rest))"
  shows "good live P (map_option f (dec bs))"
  using dec_enough [OF assms(1)] assms(2) by auto

end

text \<open>A body read from guest memory: the operation stays put when it is not mapped.\<close>

lemma dma_read_good:
  assumes "P be" and "\<And>bs. length bs = n \<Longrightarrow> good live P (f bs)"
  shows "good live P (case dma_read t mem addr n of None \<Rightarrow> Some be | Some bs \<Rightarrow> f bs)"
  using assms length_dma_read by (auto split: option.split)

lemma cursor_message_good:
  assumes "dev_ok cfg vc be"
  shows "good (live_run cfg W) (dev_ok cfg vc) (cursor_message W addr len be)"
  unfolding cursor_message_def
  by (rule dma_read_good [where P = "dev_ok cfg vc" and be = be, OF assms], rule cu_codec.dec_map_good) (simp_all add: cursor_ok [OF assms])

lemma dispatch_submit_good:
  assumes "dev_ok cfg vc be"
  shows "good (live_run cfg W) (dev_ok cfg vc) (dispatch_submit W sc body ctx be)"
  using assms by (auto simp: dispatch_submit_def render_clear_good present_scanout_ok present_damaged_ok
    submit_vulkan_good split: option.split)

lemma execute_message_good:
  assumes "dev_ok cfg vc be"
  shows "good (live_run cfg W) (dev_ok cfg vc) (execute_message W ctx desc payload be)"
proof -
  obtain out t where r: "execute_resource desc payload (be_resources be) = Some (out, t)" "table_ok t"
    using execute_resource_safe [OF dev_ok_parts(5) [OF assms], of desc payload] by (auto simp: outcome_safe_def)
  then show ?thesis
    using dispatch_submit_good [OF assms] assms
    by (auto simp: execute_message_def dev_ok_resources present_flush_ok split: option.split Executed.split)
qed

lemma execute_descriptor_good:
  assumes "dev_ok cfg vc be"
  shows "good (live_run cfg W) (dev_ok cfg vc) (execute_descriptor W ctx desc be)"
  using assms by (simp add: execute_descriptor_def Let_def cursor_message_good execute_message_good split: option.split)

lemma execute_all_good:
  "dev_ok cfg vc be \<Longrightarrow> good (live_run cfg W) (dev_ok cfg vc) (execute_all W ctx ds be)"
  by (induction ds arbitrary: be) (auto intro!: good_bind [OF execute_descriptor_good])

lemma retire_batch_ok [simp]: "dev_ok cfg vc (retire_batch ctx ip dp cap hi be) = dev_ok cfg vc be"
  by (simp add: retire_batch_def)

lemma drain_ctx_good:
  assumes "dev_ok cfg vc be"
  shows "good (live_run cfg W) (dev_ok cfg vc) (drain_ctx W ctx be)"
proof -
  have gate: "good (live_run cfg W) (dev_ok cfg vc) (case ensure_admitted W be of
             (False, be) \<Rightarrow> Some be
           | (True, be) \<Rightarrow> (case ring_over_shared (be_mem be) index_ptr desc_ptr cap of
               Inl e \<Rightarrow> Some be
             | Inr r \<Rightarrow> (case pop_batch index_ptr desc_ptr cap cap (be_mem be) of (drained, mem) \<Rightarrow>
                 map_option (retire_batch ctx index_ptr desc_ptr cap (dr_highest_seqno drained))
                   (execute_all W ctx (dr_descriptors drained) (be\<lparr>be_mem := mem\<rparr>)))))" for index_ptr desc_ptr cap
    by (rule admit_rule [OF assms]) (auto intro!: execute_all_good split: sum.split prod.split)
  show ?thesis using assms gate by (simp add: drain_ctx_def Let_def split: option.split)
qed

lemma process_submit_good:
  assumes "dev_ok cfg vc be"
  shows "good (live_run cfg W) (dev_ok cfg vc) (process_submit W sc addr ctx be)"
proof -
  note rd = dma_read_good [where P = "dev_ok cfg vc" and be = be, OF assms]
  have "good (live_run cfg W) (dev_ok cfg vc) (case dma_read (be_dma be) (be_mem be) addr 32 of
      None \<Rightarrow> Some be
    | Some pb \<Rightarrow> dec_ClearPresent pb \<bind> (\<lambda>(cp, _). render_clear_present W cp (sc_seqno sc) ctx be))"
    by (rule rd, rule cp_codec.dec_bind_good) (simp_all add: render_clear_good [OF assms])
  moreover have "good (live_run cfg W) (dev_ok cfg vc) (case dma_read (be_dma be) (be_mem be) addr 24 of
      None \<Rightarrow> Some be
    | Some pb \<Rightarrow> map_option (\<lambda>(sp, _). present_scanout W sp (sc_seqno sc) ctx be) (dec_ScanoutPresent pb))"
    by (rule rd, rule sp_codec.dec_map_good) (simp_all add: present_scanout_ok [OF assms])
  moreover have "good (live_run cfg W) (dev_ok cfg vc) (case dma_read (be_dma be) (be_mem be) addr want of
      None \<Rightarrow> Some be
    | Some pb \<Rightarrow> map_option (\<lambda>(sp, _). present_scanout_damaged W sp (sc_seqno sc) ctx be)
        (dec_ScanoutPresentDamaged (zero_filled 40 pb)))" for want
    by (rule rd, rule spd_codec.dec_map_good) (simp_all add: present_damaged_ok [OF assms])
  moreover have "good (live_run cfg W) (dev_ok cfg vc) (case dma_read (be_dma be) (be_mem be) addr want of
      None \<Rightarrow> Some be | Some pb \<Rightarrow> submit_vulkan W sc (zero_filled 40 pb) ctx be)" for want
    by (rule rd) (rule submit_vulkan_good [OF assms])
  ultimately show ?thesis using assms by (simp add: process_submit_def Let_def option.case_eq_if)
qed

lemma process_single_good:
  assumes "dev_ok cfg vc be"
  shows "good (live_run cfg W) (dev_ok cfg vc) (process_single W ctx be)"
proof -
  note rd = dma_read_good [where P = "dev_ok cfg vc" and be = be, OF assms]
  have submit: "good (live_run cfg W) (dev_ok cfg vc) (case dma_read (be_dma be) (be_mem be) a 40 of
      None \<Rightarrow> Some be | Some sb \<Rightarrow> dec_SubmitCmd sb \<bind> (\<lambda>(sc, _). process_submit W sc addr ctx be))" for a addr
    by (rule rd, rule sc_codec.dec_bind_good) (simp_all add: process_submit_good [OF assms])
  have "good (live_run cfg W) (dev_ok cfg vc) (case dma_read (be_dma be) (be_mem be) base 32 of
      None \<Rightarrow> Some be
    | Some db \<Rightarrow> dec_Descriptor db \<bind> (\<lambda>(desc, _).
           let addr = base + ucast (d_data_offset desc) in
           if d_msg_type desc = MSG_CURSOR_UPDATE then
             map_option (retire ctx (d_seqno desc)) (cursor_message W addr (unat (d_len desc)) be)
           else if d_msg_type desc \<noteq> MSG_SUBMIT_CMD then Some be
           else (case dma_read (be_dma be) (be_mem be) (base + 32) 40 of
               None \<Rightarrow> Some be
             | Some sb \<Rightarrow> dec_SubmitCmd sb \<bind> (\<lambda>(sc, _). process_submit W sc addr ctx be))))" for base
    by (rule rd, rule d_codec.dec_bind_good) (simp_all add: Let_def cursor_message_good [OF assms] submit assms)
  then show ?thesis using assms by (simp add: process_single_def Let_def)
qed

lemma process_ring_good:
  "dev_ok cfg vc be \<Longrightarrow> good (live_run cfg W) (dev_ok cfg vc) (process_ring W ctx be)"
  by (simp add: process_ring_def drain_ctx_good process_single_good)

subsection \<open>Registers and callbacks\<close>

lemma write_ctx_reg_ok: "dev_ok cfg vc be \<Longrightarrow> dev_ok cfg vc (write_ctx_reg ctx field v be)"
  by (simp add: write_ctx_reg_def dev_ok_def regs_ok_def)

lemma write_reg_ok:
  assumes "dev_ok cfg vc be"
  shows "dev_ok cfg vc (write_reg W off v be)"
proof -
  have "dev_ok cfg vc (snd (ensure_admitted W (be\<lparr>be_global_ctrl := v\<rparr>)))"
    using ensure_admitted_ok [of cfg vc "be\<lparr>be_global_ctrl := v\<rparr>" W] assms by (metis dev_ok_frame(3) prod.collapse)
  then show ?thesis using assms by (auto simp: write_reg_def Let_def reset_ok split: option.split)
qed

lemma bar0_write_good:
  assumes "dev_ok cfg vc be"
  shows "good (live_run cfg W) (dev_ok cfg vc) (bar0_write_u32 W off v be)"
  using assms by (auto simp: bar0_write_u32_def doorbell_def Let_def write_ctx_reg_ok write_reg_ok process_ring_good
    split: option.split)

lemma write_bar0_good:
  "dev_ok cfg vc be \<Longrightarrow> good (live_run cfg W) (dev_ok cfg vc) (write_bar0 W cur bs be)"
proof (induction W cur bs be rule: write_bar0.induct)
  case (1 W cur bs be)
  show ?case
    by (subst write_bar0.simps) (use 1 in \<open>auto simp: Let_def intro!: good_bind [OF bar0_write_good]\<close>)
qed

lemma length_config_write [simp]: "length (config_write off bs cfg) = length cfg"
  by (induction bs arbitrary: off cfg) simp_all

lemma length_install [simp]: "length (install_fds v fs m) = length m"
  by (induction fs arbitrary: v m) simp_all

lemma length_disable [simp]: "length (disable_range vs m) = length m"
  by (induction vs arbitrary: m) simp_all

lemma region_write_good:
  assumes "dev_ok cfg vc be"
  shows "good (live_run cfg W) (dev_ok cfg vc) (region_write W v region off bs be)"
  using assms write_bar0_good [OF assms, of W off bs]
  by (auto simp: region_write_def dev_ok_def regs_ok_def)

lemma registered_admit: "registered k st \<Longrightarrow> registered k (snd (admit cfg now vc req st))"
  by (auto simp: registered_def admit_def Let_def split: option.split)

lemma ledger_ok_drop: "ledger_ok cfg st \<Longrightarrow> ledger_ok cfg (snd (ticket_drop t st))"
  by (simp add: ticket_drop_def ledger_ok_release)

lemma registered_drop: "registered k st \<Longrightarrow> tk_vm_id t \<noteq> k \<Longrightarrow> registered k (snd (ticket_drop t st))"
  by (auto simp: registered_def ticket_drop_def release_def split: option.split)

lemma other_vm_ok:
  "other_vm cfg me st st' \<Longrightarrow> ledger_ok cfg st \<Longrightarrow> config_ok cfg \<Longrightarrow>
     ledger_ok cfg st' \<and> (registered me st \<longrightarrow> registered me st')"
  by (induction rule: other_vm.induct)
    (auto intro: ledger_ok_admit ledger_ok_adjust ledger_ok_begin ledger_ok_record ledger_ok_drop
      registered_admit registered_adjust registered_begin registered_record registered_drop)

lemma dev_step_ok: "dev_step W v be be' \<Longrightarrow> dev_ok cfg vc be \<Longrightarrow> dev_ok cfg vc be'"
proof (induction rule: dev_step.induct)
  case (mmio region off bs be be')
  then show ?case using goodD [OF region_write_good] by blast
next
  case (map be iova sz fd)
  then show ?case
    using dev_ok_dma [OF dev_ok_invalidate [OF map]] dma_ok_map [OF dev_ok_parts(4) [OF map]]
    by (auto simp: backend_dma_map_def invalidate_elision_def Let_def case_prod_beta split: option.split)
next
  case (unmap be all iova)
  then show ?case
    using dev_ok_dma [OF dev_ok_invalidate [OF unmap]] dma_ok_unmap [OF dev_ok_parts(4) [OF unmap]]
      dma_ok_clear [OF dev_ok_parts(4) [OF unmap]]
    by (auto simp: backend_dma_unmap_def invalidate_elision_def Let_def)
next
  case (irqs be index fl start cnt fds)
  then show ?case by (simp add: set_irqs_def dev_ok_def regs_ok_def)
next
  case (others be st)
  then show ?case using other_vm_ok dev_ok_broker [of cfg vc be st] dev_ok_parts [of cfg vc be] by blast
qed (simp_all add: reset_ok)

lemma dev_reach_ok: "dev_reach W v be0 be \<Longrightarrow> dev_ok cfg vc be0 \<Longrightarrow> dev_ok cfg vc be"
  by (induction rule: dev_reach.induct) (auto intro: dev_step_ok)

end
