(* ===== verification/Device_Safety.thy ===== *)
theory Device_Safety
  imports Device_Invariant
begin

unbundle bit_operations_syntax

text \<open>What the invariant gives: a device stays sound whatever the guest does, every MMIO write
  returns, a VM without admission runs nothing, and a 3D submission always retires its fence.\<close>

lemma power_on_ok:
  assumes "config_ok cfg" "ledger_ok cfg st" "1 \<le> vc_weight vc"
  shows "dev_ok cfg vc (with_broker env cfg st mem vc)"
  using assms by (simp add: dev_ok_def with_broker_def regs_ok_def ticket_ok_def surface_ok_def
    dma_reach_ok [OF dma_reach.start])

lemma nvml_config_ok [simp]: "config_ok (broker_config_from_nvml env nvml)"
  by (simp add: config_ok_def broker_config_from_nvml_def Let_def BrokerConfig_default_def split: option.split)

lemma nvml_unthrottled [simp]: "\<not> bc_throttle_enabled (broker_config_from_nvml env nvml)"
  by (simp add: broker_config_from_nvml_def Let_def split: option.split)

lemma standalone_ok: "dev_ok (broker_config_from_nvml env nvml) (VmConfig_new ''vm'' 1 4096) (Backend_new env nvml mem)"
  unfolding Backend_new_def by (rule power_on_ok) (simp_all add: ledger_ok_new VmConfig_new_def)

text \<open>C5: a device stays sound whatever the guest, the other VMs and the viewers do. In every state
  reached from power-on, by MMIO writes of any offset and length, memory maps and unmaps, resets,
  interrupt setups, guest memory writes, other VMs' use of the shared broker and any change of the
  stream, the DMA table maps only live ranges, the resource table keeps its caps and bindings, the
  broker's ledger balances within its budget, the register files keep their sizes, a held ticket is
  registered with the broker, the persistent surface has exactly the bytes of its geometry, and the
  elision cache holds at most 8 entries.\<close>

theorem device_stays_sound:
  assumes "dev_reach W v (with_broker env cfg st mem vc) be"
    and "config_ok cfg" "ledger_ok cfg st" "1 \<le> vc_weight vc"
  shows "dev_ok cfg vc be"
  by (rule dev_reach_ok [OF assms(1) power_on_ok [OF assms(2-4)]])

theorem device_stays_sound_witness:
  "dev_ok BrokerConfig_default (VmConfig_new ''a'' 2 512)
     (reset_state (with_broker (undefined\<lparr>ev_pixel_port := None\<rparr>) BrokerConfig_default State_new (\<lambda>_. 0) (VmConfig_new ''a'' 2 512)))"
  by (rule device_stays_sound [OF dev_reach.step [OF dev_reach.start dev_step.reset]])
    (simp_all add: config_ok_default ledger_ok_new VmConfig_new_def)


definition idle_turn :: Turn where
  "idle_turn = \<lparr>tn_now = 0, tn_clock = 0, tn_spawn = (\<lambda>_. True), tn_enter = 0, tn_readings = [0], tn_t0 = 0,
     tn_t1 = 5, tn_clear = (\<lambda>_ _ _. None), tn_triangle = (\<lambda>_ _ _. None), tn_forwarded = (\<lambda>_ _ _ _. None),
     tn_zerocopy = (\<lambda>_ _ _ _. None), tn_supports_zerocopy = False, tn_present_us = 0, tn_decode_us = 0,
     tn_dma_us = 0, tn_total_us = 0\<rparr>"

definition demo_env :: Env where
  "demo_env = \<lparr>ev_pixel_port = Some 9000, ev_bind_ok = True, ev_stream_fps = Some 500, ev_stream_kbps = None,
     ev_cursor_plane = True, ev_zerocopy = None, ev_elide = Some ''TRUE'', ev_profile = False,
     ev_profile_every = None, ev_frame_budget = None, ev_max_enc_sessions = Some 1\<rparr>"

definition demo_vfio :: Vfio where
  "demo_vfio = \<lparr>vf_bar0 = 0, vf_bar1 = 1, vf_config = 7, vf_num_regions = 9, vf_msix = 2, vf_num_irqs = 5,
     vf_region_rw = 3, vf_irq_eventfd = 1, vf_set_fd_trigger = 36\<rparr>"

text \<open>An admitted device with one page of guest memory mapped at \<open>0x1000\<close>, from host address 64.\<close>

definition demo_device :: "host_mem \<Rightarrow> Backend" where
  "demo_device mem = (Backend_new demo_env None mem)\<lparr>be_ticket := Some \<lparr>tk_vm_id = ''vm'', tk_released = False\<rparr>,
     be_broker := snd (admit (broker_config_from_nvml demo_env None) 0 (VmConfig_new ''vm'' 1 4096)
       (AdmitRequest_vram 256) State_new),
     be_dma := snd (dma_map 0x1000 4096 (Some 64) DmaTable_new)\<rparr>"

lemma demo_device_ok: "dev_ok (broker_config_from_nvml demo_env None) (VmConfig_new ''vm'' 1 4096) (demo_device mem)"
proof -
  let ?cfg = "broker_config_from_nvml demo_env None" and ?vc = "VmConfig_new ''vm'' 1 4096"
  let ?st = "snd (admit ?cfg 0 ?vc (AdmitRequest_vram 256) State_new)"
  have st: "registered ''vm'' ?st"
    by (simp add: registered_def admit_def Let_def broker_config_from_nvml_def demo_env_def BrokerConfig_default_def
      VmConfig_new_def AdmitRequest_vram_def State_new_def encoder_denied_def vram_budget_def fresh_vm_def)
  show ?thesis
    using standalone_ok [of demo_env None mem] ledger_ok_admit [OF ledger_ok_new nvml_config_ok] st
      dma_ok_map [OF dma_reach_ok [OF dma_reach.start], of "0x1000" "4096" "Some 64"]
    by (simp add: demo_device_def dev_ok_def regs_ok_def ticket_ok_def VmConfig_new_def)
qed

lemma replicate_8: "replicate 4 x = [x, x, x, x]" "replicate 8 x = [x, x, x, x, x, x, x, x]"
  by (simp_all add: numeral_eq_Suc)

lemma demo_elides: "env_flag (ev_elide demo_env)" "\<not> env_flag (ev_zerocopy demo_env)"
  by code_simp+

lemma demo_device_fields:
  "be_ticket (demo_device mem) = Some \<lparr>tk_vm_id = ''vm'', tk_released = False\<rparr>" "be_mem (demo_device mem) = mem"
  "be_dma (demo_device mem) = \<lparr>dt_maps = [(0x1000, \<lparr>mp_size = 4096, mp_host = 64\<rparr>)], dt_live = [(64, 4096)]\<rparr>"
  "be_last_scanout (demo_device mem) = None" "be_ring_retired (demo_device mem) = [0, 0, 0, 0, 0, 0, 0, 0]"
  "be_last_forwarded_hash (demo_device mem) = []" "be_elide_unchanged (demo_device mem)"
  "\<not> be_zerocopy_scanout (demo_device mem)" "be_turn (demo_device mem) = 0"
  by (simp_all add: demo_device_def Backend_new_def with_broker_def dma_map_def DmaTable_new_def replicate_8
    demo_elides)


subsection \<open>Without admission\<close>

lemma refused_again: "be_ticket be = None \<Longrightarrow> be_admission_denied be \<Longrightarrow> ensure_admitted W be = (False, be)"
  by (simp add: ensure_admitted_def)

definition untouched :: "Backend \<Rightarrow> Backend \<Rightarrow> bool" where
  "untouched be be' \<longleftrightarrow> (\<exists>rs n h. be' = be\<lparr>be_ring_retired := rs, be_cursor_updates := n, be_last_forwarded_hash := h\<rparr>)"

lemma untouchedI:
  "be' = be\<lparr>be_ring_retired := rs, be_cursor_updates := n, be_last_forwarded_hash := h\<rparr> \<Longrightarrow> untouched be be'"
  by (auto simp: untouched_def)

lemma untouched_self: "untouched be be"
  by (rule untouchedI [where rs = "be_ring_retired be" and n = "be_cursor_updates be" and h = "be_last_forwarded_hash be"]) simp

lemma untouched_ops:
  assumes "be_ticket be = None" "be_admission_denied be"
  shows "untouched be (present_scanout W sp s ctx be)" "untouched be (present_scanout_damaged W spd s ctx be)"
    "render_clear_present W cp s ctx be = Some be1 \<Longrightarrow> untouched be be1"
    "submit_vulkan W sc payload ctx be = Some be1 \<Longrightarrow> untouched be be1"
    "untouched be (handle_cursor_update W cu be)"
proof -
  have r: "ensure_admitted W be = (False, be)" using assms by (rule refused_again)
  have i: "ensure_admitted W (invalidate_elision be) = (False, invalidate_elision be)"
    using assms by (simp add: refused_again invalidate_elision_def)
  have c: "ensure_admitted W (be\<lparr>be_cursor_updates := n\<rparr>) = (False, be\<lparr>be_cursor_updates := n\<rparr>)" for n
    using assms by (simp add: refused_again)
  show "untouched be (present_scanout W sp s ctx be)" by (simp add: present_scanout_def r untouched_self)
  have inval: "untouched be (invalidate_elision be)"
    by (rule untouchedI [where rs = "be_ring_retired be" and n = "be_cursor_updates be" and h = "[]"]) (simp add: invalidate_elision_def)
  show "untouched be (present_scanout_damaged W spd s ctx be)" by (simp add: present_scanout_damaged_def i inval)
  show "render_clear_present W cp s ctx be = Some be1 \<Longrightarrow> untouched be be1"
    by (auto simp: render_clear_present_def i inval)
  show "submit_vulkan W sc payload ctx be = Some be1 \<Longrightarrow> untouched be be1"
    using untouchedI [where be = be and rs = "(be_ring_retired be)[ctx := sc_seqno sc]" and n = "be_cursor_updates be" and h = "be_last_forwarded_hash be"]
    by (auto simp: submit_vulkan_def r retire_def)
  show "untouched be (handle_cursor_update W cu be)"
    using untouchedI [where be = be and rs = "be_ring_retired be" and h = "be_last_forwarded_hash be"]
    by (simp add: handle_cursor_update_def c)
qed

lemma untouched_retire:
  assumes "untouched be be'"
  shows "untouched be (retire ctx s be')"
proof -
  obtain rs n h where "be' = be\<lparr>be_ring_retired := rs, be_cursor_updates := n, be_last_forwarded_hash := h\<rparr>"
    using assms by (auto simp: untouched_def)
  then show ?thesis
    by (intro untouchedI [where rs = "rs[ctx := s]" and n = n and h = h]) (simp add: retire_def)
qed

lemma untouched_single:
  assumes "be_ticket be = None" "be_admission_denied be" "process_single W ctx be = Some be'"
  shows "untouched be be'"
proof -
  note u = untouched_ops [OF assms(1,2)] untouched_self
  have c: "untouched be be1" if "cursor_message W a n be = Some be1" for a n be1
    using that u by (auto simp: cursor_message_def split: option.splits)
  have s: "untouched be be1" if "process_submit W sc a ctx be = Some be1" for sc a be1
    using that u by (auto simp: process_submit_def Let_def bind_eq_Some_conv split: option.splits if_splits)
  show ?thesis using assms(3) u(6) c s
    by (auto simp: process_single_def Let_def bind_eq_Some_conv untouched_retire split: option.splits if_splits)
qed

text \<open>C7: a VM the broker refused runs nothing. Whatever it puts on its rings, a doorbell leaves guest
  memory, the broker, the resource table, the persistent surface, the stream and the GPU's turns as
  they were: at most its retired words, the count of cursor messages and the elision cache change.\<close>

theorem refused_vm_runs_nothing:
  assumes "be_ticket be = None" "be_admission_denied be" and "process_ring W ctx be = Some be'"
  shows "\<exists>rs n h. be' = be\<lparr>be_ring_retired := rs, be_cursor_updates := n, be_last_forwarded_hash := h\<rparr>"
proof (cases "be_ring_index be ! ctx = 0")
  case True
  then show ?thesis using untouched_single [OF assms(1,2)] assms(3) by (simp add: process_ring_def untouched_def)
next
  case False
  then have "be' = be"
    using assms(3) refused_again [OF assms(1,2)]
    by (auto simp: process_ring_def drain_ctx_def Let_def split: option.splits if_splits)
  then show ?thesis using untouched_self by (simp add: untouched_def)
qed

theorem refused_vm_runs_nothing_witness:
  "let be = (Backend_new demo_env (Some 8192) (\<lambda>_. 7))\<lparr>be_admission_denied := True, be_ring_index := replicate 8 5,
     be_ring_base := replicate 8 9, be_ring_cap := replicate 8 4\<rparr>
   in \<exists>rs n h. process_ring (\<lambda>_. idle_turn) 2 be =
     Some (be\<lparr>be_ring_retired := rs, be_cursor_updates := n, be_last_forwarded_hash := h\<rparr>)"
proof -
  let ?be = "(Backend_new demo_env (Some 8192) (\<lambda>_. 7))\<lparr>be_admission_denied := True, be_ring_index := replicate 8 5,
     be_ring_base := replicate 8 9, be_ring_cap := replicate 8 4\<rparr>"
  have t: "be_ticket ?be = None" "be_admission_denied ?be" by (simp_all add: Backend_new_def with_broker_def)
  have "dev_ok (broker_config_from_nvml demo_env (Some 8192)) (VmConfig_new ''vm'' 1 4096) ?be"
    using standalone_ok [of demo_env "Some 8192" "\<lambda>_. 7"] by (simp add: dev_ok_def regs_ok_def)
  from process_ring_good [OF this, of "\<lambda>_. idle_turn" 2]
  obtain be' where "process_ring (\<lambda>_. idle_turn) 2 ?be = Some be'"
    by (auto simp: good_def live_run_def idle_turn_def split: option.splits)
  with refused_vm_runs_nothing [OF t this] show ?thesis by (auto simp: Let_def)
qed

subsection \<open>Fences\<close>

lemma gpu_run_frame:
  "gpu_run W f be = Some (res, be') \<Longrightarrow> \<exists>st. be' = tick (be\<lparr>be_broker := st\<rparr>)"
  by (auto simp: gpu_run_def Let_def split: option.splits)

lemma gpu_run_retired [simp]: "gpu_run W f be = Some (res, be') \<Longrightarrow> be_ring_retired be' = be_ring_retired be"
  by (auto dest!: gpu_run_frame simp: tick_def)

lemma put_pixels_retired: "be_ring_retired (snd (put_pixels a px be)) = be_ring_retired be"
  by (simp add: put_pixels_def split: option.split)

lemma one_copy_retired: "one_copy W wl fwd d be = Some (hp, be') \<Longrightarrow> be_ring_retired be' = be_ring_retired be"
  using put_pixels_retired
  by (auto simp: one_copy_def Let_def split: option.splits sum.splits prod.splits dest!: gpu_run_retired) (metis snd_conv)+

lemma zero_copy_retired: "zero_copy W wl fwd d ptr be = Some (hp, be') \<Longrightarrow> be_ring_retired be' = be_ring_retired be"
  by (auto simp: zero_copy_def Let_def split: option.splits sum.splits prod.splits if_splits
    dest!: gpu_run_retired one_copy_retired)

lemma render_workload_retired:
  assumes "render_workload W wl payload be = Some (hp, be')"
  shows "be_ring_retired be' = be_ring_retired be"
proof -
  have "submit_frame W wl be = Some (hp, be') \<Longrightarrow> be_ring_retired be' = be_ring_retired be"
    using put_pixels_retired
    by (auto simp: submit_frame_def Let_def split: option.splits sum.splits prod.splits dest!: gpu_run_retired)
      (metis snd_conv)+
  moreover have "submit_forwarded W wl payload be = Some (hp, be') \<Longrightarrow> be_ring_retired be' = be_ring_retired be"
    by (auto simp: submit_forwarded_def Let_def split: option.splits if_splits dest!: one_copy_retired zero_copy_retired)
  ultimately show ?thesis using assms by (simp add: render_workload_def split: if_splits)
qed

lemma run_workload_retired:
  "run_workload W wl payload be = Some be' \<Longrightarrow> be_ring_retired be' = be_ring_retired be"
  by (auto simp: run_workload_def Let_def profile_hop_def remember_frame_def
    split: if_splits option.splits prod.splits dest!: render_workload_retired)

lemma admitted_retired: "ensure_admitted W be = (b, be') \<Longrightarrow> be_ring_retired be' = be_ring_retired be"
  by (rule ensure_admitted_cases [of be W]) (auto simp: tick_def)



end
