(* ===== verification/Device_Scanout.thy ===== *)
theory Device_Scanout
  imports Device_Safety
begin

text \<open>What a damaged present shows: the persistent surface is the guest's framebuffer as it is now.\<close>

lemma dma_read_part:
  assumes "intervals_apart t" "dma_read t mem addr n = Some new" "k + j \<le> n" "0 < j"
  shows "dma_read t mem (addr + word_of_nat k) j = Some (slice new k j)"
proof -
  obtain p where p: "resolve t addr n = Some p" "new = peek mem p n" using assms(2) by (auto simp: dma_read_def)
  show ?thesis
    using resolve_part [OF assms(1) p(1) assms(3,4)] peek_take_drop [of k j n mem p] assms(3)
    by (simp add: dma_read_def p(2) slice_def)
qed

lemma read_rows_damaged:
  assumes "intervals_apart t" "dma_read t mem addr (pitch * h) = Some new"
    and "w * 4 \<le> pitch" "dx + dw \<le> w" "0 < dw"
  shows "dy + m \<le> h \<Longrightarrow> read_rows t mem addr pitch dx dy dw m = Some (damaged_rows pitch dx dy dw m new)"
proof (induction m)
  case (Suc m)
  have len: "length new = pitch * h" using length_dma_read [OF assms(2)] .
  have fits: "(dy + m) * pitch + dx * 4 + dw * 4 \<le> pitch * h"
    using row_fits [OF len assms(3,4), of "dy + m"] Suc.prems len by simp
  have "addr + word_of_nat (dy + m) * word_of_nat pitch + word_of_nat dx * 4 = addr + word_of_nat ((dy + m) * pitch + dx * 4)"
    by simp
  then have "dma_read t mem (addr + word_of_nat (dy + m) * word_of_nat pitch + word_of_nat dx * 4) (dw * 4)
      = Some (slice new ((dy + m) * pitch + dx * 4) (dw * 4))"
    using dma_read_part [OF assms(1,2) fits] assms(5) by (simp add: add.assoc)
  then show ?case using Suc by (simp add: damaged_rows_def)
qed (simp add: damaged_rows_def)

text \<open>The surface a framebuffer is shown as.\<close>

definition shown :: "ScanoutPresentDamaged \<Rightarrow> bytes \<Rightarrow> bytes" where
  "shown sp fb = full_rows (unat (spd_width sp)) (unat (spd_pitch sp)) (spd_format sp \<noteq> FMT_R8G8B8A8) fb
     (unat (spd_height sp)) (replicate (unat (spd_width sp) * unat (spd_height sp) * 4) 0)"

text \<open>Two framebuffers agree on every pixel outside the clamped damage rectangle of a present.\<close>

definition same_outside :: "ScanoutPresentDamaged \<Rightarrow> bytes \<Rightarrow> bytes \<Rightarrow> bool" where
  "same_outside sp old new \<longleftrightarrow> (case clamp_damage (unat (spd_width sp)) (unat (spd_height sp))
       (spd_dx sp) (spd_dy sp) (spd_dw sp) (spd_dh sp) of (dx, dy, dw, dh) \<Rightarrow>
     \<forall>y k. y < unat (spd_height sp) \<longrightarrow> k < unat (spd_width sp) * 4 \<longrightarrow>
       \<not> (dy \<le> y \<and> y < dy + dh \<and> dx * 4 \<le> k \<and> k < (dx + dw) * 4) \<longrightarrow>
       new ! (y * unat (spd_pitch sp) + k) = old ! (y * unat (spd_pitch sp) + k))"

lemma update_surface_shows:
  assumes ok: "surface_ok (be_last_scanout be)" and fb: "fb_bytes (unat (spd_width sp)) (unat (spd_height sp)) (unat (spd_pitch sp)) = Some n"
    and apart: "intervals_apart (be_dma be)"
    and new: "dma_read (be_dma be) (be_mem be) (spd_scanout_addr sp) n = Some new"
    and stale: "\<And>b. be_last_scanout be = Some b \<Longrightarrow> so_w b = unat (spd_width sp) \<Longrightarrow> so_h b = unat (spd_height sp) \<Longrightarrow>
      \<exists>old. length old = n \<and> so_bgra b = shown sp old \<and> same_outside sp old new"
  shows "\<exists>k. update_surface sp n be = Some (be\<lparr>be_last_scanout := Some \<lparr>so_w = unat (spd_width sp),
     so_h = unat (spd_height sp), so_bgra = shown sp new\<rparr>, be_bytes_read_last := k\<rparr>)"
proof -
  let ?w = "unat (spd_width sp)" and ?h = "unat (spd_height sp)" and ?p = "unat (spd_pitch sp)"
    and ?c = "spd_format sp \<noteq> FMT_R8G8B8A8" and ?z = "replicate (unat (spd_width sp) * unat (spd_height sp) * 4) (0 :: u8)"
  obtain dx dy dw dh where c: "clamp_damage ?w ?h (spd_dx sp) (spd_dy sp) (spd_dw sp) (spd_dh sp) = (dx, dy, dw, dh)"
    by (metis prod_cases4)
  note clamp = clamp_damage_in [OF c] and g = fb_bytes_Some [OF fb]
  have len: "length new = ?p * ?h" using length_dma_read [OF new] g(1) by simp
  have z: "length ?z = ?h * (?w * 4)" by simp
  show ?thesis
  proof (cases "dx = 0 \<and> dy = 0 \<and> dw = ?w \<and> dh = ?h \<or> \<not> surface_matches ?w ?h (be_last_scanout be)")
    case True
    have "length (reuse_surface ?w ?h (be_last_scanout be)) = ?h * (?w * 4)"
      using ok by (auto simp: reuse_surface_def surface_ok_def split: option.split)
    then have "full_rows ?w ?p ?c new ?h (reuse_surface ?w ?h (be_last_scanout be)) = shown sp new"
      unfolding shown_def by (intro full_rows_any [OF len g(2) _ z])
    then show ?thesis using True new
      by (intro exI [of _ n]) (simp add: update_surface_def Let_def c)
  next
    case False
    then obtain b where b: "be_last_scanout be = Some b" "so_w b = ?w" "so_h b = ?h"
      by (auto simp: surface_matches_def split: option.splits)
    obtain old where old: "length old = n" "so_bgra b = shown sp old" "same_outside sp old new" using stale [OF b] by blast
    have patched: "patch_rows ?w dx dy dw ?c (damaged_rows ?p dx dy dw dh new) dh (so_bgra b) = shown sp new"
      unfolding old(2) shown_def
      by (rule damage_patch [OF _ len g(2) z z c]) (use old g(1) in \<open>auto simp: same_outside_def c\<close>)
    have b_eq: "b\<lparr>so_bgra := x\<rparr> = \<lparr>so_w = ?w, so_h = ?h, so_bgra = x\<rparr>" for x using b by (cases b) simp
    show ?thesis
    proof (cases "0 < dw \<and> 0 < dh")
      case True
      have "read_rows (be_dma be) (be_mem be) (spd_scanout_addr sp) ?p dx dy dw dh = Some (damaged_rows ?p dx dy dw dh new)"
        by (rule read_rows_damaged [OF apart _ g(2)]) (use new g(1) clamp True in auto)
      then show ?thesis
        using False True b(1) patched
        by (intro exI [of _ "dw * dh * 4"]) (auto simp: update_surface_def Let_def c b_eq)
    next
      case empty: False
      then have "so_bgra b = shown sp new" using patched patch_rows_empty [of dw dh] by (metis neq0_conv)
      then have "be_last_scanout be = Some \<lparr>so_w = ?w, so_h = ?h, so_bgra = shown sp new\<rparr>"
        using b b_eq [of "so_bgra b"] by (cases b) simp
      then have same: "be\<lparr>be_last_scanout := Some \<lparr>so_w = ?w, so_h = ?h, so_bgra = shown sp new\<rparr>\<rparr> = be" by simp
      have "update_surface sp n be = Some (be\<lparr>be_bytes_read_last := 0\<rparr>)"
        using False empty by (auto simp: update_surface_def Let_def c)
      then show ?thesis using same by (intro exI [of _ 0]) simp
    qed
  qed
qed

subsection \<open>The present\<close>

lemma invalidate_fields [simp]:
  "be_last_scanout (invalidate_elision be) = be_last_scanout be" "be_dma (invalidate_elision be) = be_dma be"
  "be_mem (invalidate_elision be) = be_mem be" "be_pixel (invalidate_elision be) = be_pixel be"
  "be_ring_retired (invalidate_elision be) = be_ring_retired be" "be_turn (invalidate_elision be) = be_turn be"
  "be_ticket (invalidate_elision be) = be_ticket be"
  by (simp_all add: invalidate_elision_def)

lemma account_fields [simp]:
  "be_last_scanout (account_scanout_vram w h be) = be_last_scanout be" "be_dma (account_scanout_vram w h be) = be_dma be"
  "be_mem (account_scanout_vram w h be) = be_mem be" "be_pixel (account_scanout_vram w h be) = be_pixel be"
  "be_ring_retired (account_scanout_vram w h be) = be_ring_retired be" "be_turn (account_scanout_vram w h be) = be_turn be"
  by (simp_all add: account_scanout_vram_def Let_def split: option.split)

text \<open>C9: after a damaged present the stream shows the guest's framebuffer as it is now. On a sound,
  admitted device whose mapped intervals do not overlap, with the framebuffer mapped and its geometry
  accepted: when the persistent surface, if it has the present's size, shows an older content of the
  framebuffer that differs from the present content only inside the clamped damage rectangle, the
  present retires its sequence number, leaves guest memory alone, keeps as the surface exactly the
  picture of the whole current framebuffer, though it has read only the damaged rows, and hands that
  picture to the stream.\<close>

theorem damaged_present_shows_framebuffer:
  assumes ok: "dev_ok cfg vc be" and ticket: "be_ticket be \<noteq> None" and apart: "intervals_apart (be_dma be)"
    and fb: "fb_bytes (unat (spd_width sp)) (unat (spd_height sp)) (unat (spd_pitch sp)) = Some n"
    and new: "dma_read (be_dma be) (be_mem be) (spd_scanout_addr sp) n = Some new"
    and stale: "\<And>b. be_last_scanout be = Some b \<Longrightarrow> so_w b = unat (spd_width sp) \<Longrightarrow> so_h b = unat (spd_height sp) \<Longrightarrow>
      \<exists>old. length old = n \<and> so_bgra b = shown sp old \<and> same_outside sp old new"
  shows "let be' = present_scanout_damaged W sp seqno ctx be; u = turn W be in
    be_last_scanout be' = Some \<lparr>so_w = unat (spd_width sp), so_h = unat (spd_height sp), so_bgra = shown sp new\<rparr> \<and>
    be_pixel be' = map_option (\<lambda>p. snd (submit_bgra (tn_spawn u) (tn_now u) (shown sp new)
      (spd_width sp) (spd_height sp) p)) (be_pixel be) \<and>
    be_ring_retired be' = (be_ring_retired be)[ctx := seqno] \<and> be_mem be' = be_mem be"
proof -
  have gate: "ensure_admitted W (invalidate_elision be) = (True, invalidate_elision be)"
    using ticket by (simp add: ensure_admitted_def)
  let ?be1 = "account_scanout_vram (spd_width sp) (spd_height sp) (invalidate_elision be)"
  have same: "be_last_scanout ?be1 = be_last_scanout be" "be_dma ?be1 = be_dma be" "be_mem ?be1 = be_mem be"
    "be_pixel ?be1 = be_pixel be" "be_ring_retired ?be1 = be_ring_retired be" "be_turn ?be1 = be_turn be"
    by simp_all
  have surf: "surface_ok (be_last_scanout ?be1)" using dev_ok_parts(7) [OF ok] same by simp
  obtain k where u: "update_surface sp n ?be1 = Some (?be1\<lparr>be_last_scanout := Some \<lparr>so_w = unat (spd_width sp),
     so_h = unat (spd_height sp), so_bgra = shown sp new\<rparr>, be_bytes_read_last := k\<rparr>)"
    using update_surface_shows [OF surf fb, of new] apart new stale same by metis
  show ?thesis
    by (simp add: present_scanout_damaged_def gate fb u Let_def stream_surface_def stream_frame_def retire_def same
      turn_def tick_def split: option.split)
qed

theorem damaged_present_shows_framebuffer_witness:
  "let be' = present_scanout_damaged (\<lambda>_. idle_turn) \<lparr>spd_width = 1, spd_height = 2, spd_pitch = 4, spd_format = 2,
       spd_scanout_addr = 0x1000, spd_dx = 0, spd_dy = 0, spd_dw = 1, spd_dh = 1\<rparr> 9 0 (demo_device word_of_nat)
   in be_last_scanout be' = Some \<lparr>so_w = 1, so_h = 2, so_bgra = [66, 65, 64, 255, 70, 69, 68, 255]\<rparr> \<and>
      be_ring_retired be' = [9, 0, 0, 0, 0, 0, 0, 0]"
proof -
  let ?sp = "\<lparr>spd_width = 1, spd_height = 2, spd_pitch = 4, spd_format = 2,
       spd_scanout_addr = 0x1000, spd_dx = 0, spd_dy = 0, spd_dw = 1, spd_dh = 1\<rparr>" and ?be = "demo_device word_of_nat"
  note be = demo_device_fields [of word_of_nat]
  have fb: "fb_bytes (unat (spd_width ?sp)) (unat (spd_height ?sp)) (unat (spd_pitch ?sp)) = Some 8"
    by (simp add: fb_bytes_def)
  have new: "dma_read (be_dma ?be) (be_mem ?be) (spd_scanout_addr ?sp) 8 = Some [64, 65, 66, 67, 68, 69, 70, 71]"
    by (simp add: be dma_read_def resolve_def peek_def upt_rec)
  have pic: "shown ?sp [64, 65, 66, 67, 68, 69, 70, 71] = [66, 65, 64, 255, 70, 69, 68, 255]"
  proof -
    have "replicate 8 (0 :: u8) = [0, 0, 0, 0, 0, 0, 0, 0]" by (simp add: numeral_eq_Suc)
    moreover have "full_rows 1 4 False [64, 65, 66, 67, 68, 69, 70, 71] (Suc (Suc 0)) [0, 0, 0, 0, 0, 0, 0, 0]
        = [66, 65, 64, 255, 70, 69, 68, 255]"
      by (simp add: swizzle_row_to_bgra_def slice_def put_bytes_def)
    ultimately show ?thesis by (simp add: shown_def flip: numeral_2_eq_2)
  qed
  have apart: "intervals_apart (be_dma ?be)" by (simp add: intervals_apart_def be)
  show ?thesis
    using damaged_present_shows_framebuffer [OF demo_device_ok _ apart fb new, of "\<lambda>_. idle_turn" 9 0] pic
    by (simp add: be Let_def)
qed

end
