(* ===== verification/Device_Elision.thy ===== *)
theory Device_Elision
  imports Device_Scanout
begin

text \<open>Frame elision: skipping a repeated frame leaves guest memory as rendering it would, and when that
  fails.\<close>

subsection \<open>What a workload writes\<close>

text \<open>The pixels a workload renders to in a turn: \<open>None\<close> for a panicking render, \<open>Some None\<close> for a refused
  draw or a failed render.\<close>

definition pixels_of :: "Turn \<Rightarrow> VulkanWorkload \<Rightarrow> bytes \<Rightarrow> bytes option option" where
  "pixels_of u wl payload =
    (if wl_op wl = VK_OP_FORWARDED \<or> wl_op wl = VK_OP_FORWARDED_CMDLIST then
       (case (if wl_op wl = VK_OP_FORWARDED_CMDLIST then decode_forwarded_cmdlist payload (unat MAX_CMD_BYTES)
              else decode_forwarded payload (unat MAX_CMD_BYTES)) of
          None \<Rightarrow> Some None
        | Some fwd \<Rightarrow> tn_forwarded u (wl_width wl) (wl_height wl) (wl_bg wl) fwd)
     else (if wl_op wl = VK_OP_TRIANGLE then tn_triangle u else tn_clear u) (wl_width wl) (wl_height wl) (wl_bg wl))"

definition wrote :: "VulkanWorkload \<Rightarrow> bytes option option \<Rightarrow> Backend \<Rightarrow> Backend \<Rightarrow> bool" where
  "wrote wl px be be' \<longleftrightarrow> (\<exists>bs. px = Some (Some bs) \<and>
     dma_write (be_dma be) (be_mem be) (wl_scanout_addr wl) bs = Some (be_mem be'))"

lemma gpu_run_same: "gpu_run W f be = Some (res, be') \<Longrightarrow> be_dma be' = be_dma be \<and> be_mem be' = be_mem be \<and>
    be_last_forwarded_hash be' = be_last_forwarded_hash be \<and> be_zerocopy_scanout be' = be_zerocopy_scanout be \<and>
    be_ticket be' = be_ticket be \<and> be_elide_unchanged be' = be_elide_unchanged be"
  by (auto dest!: gpu_run_frame simp: tick_def)

lemma gpu_run_result: "gpu_run W f be = Some (Inr (r, st), be') \<Longrightarrow> f = Some r"
  by (auto simp: gpu_run_def run_timed_def Let_def bind_eq_Some_conv split: option.splits if_splits prod.splits)

text \<open>What a render leaves: the tables as they were, and memory as it was or with the pixels at the
  scanout; with the pixels there when it presented them.\<close>

definition stored :: "VulkanWorkload \<Rightarrow> bytes option option \<Rightarrow> bool \<Rightarrow> Backend \<Rightarrow> Backend \<Rightarrow> bool" where
  "stored wl px ok be be' \<longleftrightarrow> be_dma be' = be_dma be \<and> be_last_forwarded_hash be' = be_last_forwarded_hash be \<and>
     be_ticket be' = be_ticket be \<and> be_elide_unchanged be' = be_elide_unchanged be \<and>
     be_zerocopy_scanout be' = be_zerocopy_scanout be \<and>
     (be_mem be' = be_mem be \<or> wrote wl px be be') \<and> (ok \<longrightarrow> wl_scanout_addr wl \<noteq> 0 \<longrightarrow> wrote wl px be be')"

definition presented :: "Hop option \<Rightarrow> bool" where
  "presented hp = (case hp of Some h \<Rightarrow> hp_presented h | None \<Rightarrow> False)"

lemma stored_drop: "gpu_run W f be = Some (res, be1) \<Longrightarrow> stored wl p False be be1"
  by (drule gpu_run_same) (simp add: stored_def)

lemma stored_put:
  assumes "gpu_run W f be = Some (Inr (Some px, st), be1)" and "put_pixels (wl_scanout_addr wl) px be1 = (ok, be2)"
  shows "stored wl f ok be be2"
  using gpu_run_same [OF assms(1)] gpu_run_result [OF assms(1)] assms(2)
  by (auto simp: stored_def put_pixels_def wrote_def split: if_splits option.splits)

lemma stored_one_copy:
  assumes "one_copy W wl fwd d be = Some (hp, be')"
  shows "stored wl (tn_forwarded (turn W be) (wl_width wl) (wl_height wl) (wl_bg wl) fwd) (presented hp) be be'"
  using assms
  by (auto simp: one_copy_def Let_def presented_def split: option.splits sum.splits prod.splits
    intro: stored_put stored_drop)

lemma stored_frame:
  assumes "submit_frame W wl be = Some (hp, be')"
  shows "stored wl ((if wl_op wl = VK_OP_TRIANGLE then tn_triangle (turn W be) else tn_clear (turn W be))
    (wl_width wl) (wl_height wl) (wl_bg wl)) (presented hp) be be'"
proof -
  define f where "f = (if wl_op wl = VK_OP_TRIANGLE then tn_triangle (turn W be) else tn_clear (turn W be))
    (wl_width wl) (wl_height wl) (wl_bg wl)"
  have "stored wl f (presented hp) be be'"
    using assms unfolding submit_frame_def Let_def f_def [symmetric]
    by (auto simp: presented_def split: option.splits sum.splits prod.splits intro: stored_put stored_drop)
  then show ?thesis unfolding f_def .
qed

lemma render_writes:
  assumes "render_workload W wl payload be = Some (hp, be')" and "\<not> be_zerocopy_scanout be"
  shows "stored wl (pixels_of (turn W be) wl payload) (presented hp) be be'"
proof (cases "wl_op wl = VK_OP_FORWARDED \<or> wl_op wl = VK_OP_FORWARDED_CMDLIST")
  case True
  let ?d = "if wl_op wl = VK_OP_FORWARDED_CMDLIST then decode_forwarded_cmdlist payload (unat MAX_CMD_BYTES)
              else decode_forwarded payload (unat MAX_CMD_BYTES)"
  from True assms have s: "submit_forwarded W wl payload be = Some (hp, be')" by (simp add: render_workload_def)
  show ?thesis
  proof (cases ?d)
    case None
    with s have "hp = None" "be' = be" by (auto simp: submit_forwarded_def Let_def)
    then show ?thesis by (simp add: stored_def presented_def)
  next
    case (Some fwd)
    with s assms(2) have "one_copy W wl fwd (tn_decode_us (turn W be)) be = Some (hp, be')"
      by (auto simp: submit_forwarded_def Let_def)
    from stored_one_copy [OF this] show ?thesis using True Some by (auto simp: pixels_of_def)
  qed
next
  case False
  then show ?thesis using assms stored_frame by (simp add: render_workload_def pixels_of_def)
qed

subsection \<open>A repeated frame\<close>

text \<open>The GPU answers the same input the same way in every turn.\<close>

definition deterministic_gpu :: "world \<Rightarrow> bool" where
  "deterministic_gpu W \<longleftrightarrow> (\<forall>m n. tn_clear (W m) = tn_clear (W n) \<and> tn_triangle (W m) = tn_triangle (W n) \<and>
     tn_forwarded (W m) = tn_forwarded (W n))"

lemma pixels_steady: "deterministic_gpu W \<Longrightarrow> pixels_of (turn W be) wl payload = pixels_of (turn W be') wl payload"
proof -
  assume d: "deterministic_gpu W"
  have "tn_clear (turn W be) = tn_clear (turn W be')" "tn_triangle (turn W be) = tn_triangle (turn W be')"
    "tn_forwarded (turn W be) = tn_forwarded (turn W be')"
    using d unfolding deterministic_gpu_def turn_def by blast+
  then show ?thesis by (simp only: pixels_of_def)
qed

lemma submit_held:
  assumes "be_ticket be \<noteq> None" "sc_payload_len sc \<le> MAX_CMD_BYTES"
    "dec_VulkanWorkload payload = Some (wl, rest)" "geometry_fits (wl_width wl) (wl_height wl)"
  shows "submit_vulkan W sc payload ctx be = map_option (retire ctx (sc_seqno sc))
    (run_workload W wl payload (be\<lparr>be_vulkan_submits := wrap_u64 (be_vulkan_submits be + 1)\<rparr>))"
  using assms by (auto simp: submit_vulkan_def ensure_admitted_def)

lemma rewrite_same:
  assumes "wrote wl px be be1" "wrote wl px be1 be2" "be_dma be1 = be_dma be"
  shows "be_mem be2 = be_mem be1"
proof -
  obtain bs where bs: "px = Some (Some bs)" using assms(1) by (auto simp: wrote_def)
  then obtain p where p: "resolve (be_dma be) (wl_scanout_addr wl) (length bs) = Some p" "be_mem be1 = poke (be_mem be) p bs"
    using assms(1) by (auto simp: wrote_def dma_write_def)
  then have "be_mem be2 = poke (be_mem be1) p bs" using assms(2,3) bs by (auto simp: wrote_def dma_write_def)
  then show ?thesis using p(2) by (auto simp: poke_def fun_eq_iff)
qed

text \<open>C10: eliding a repeated frame is invisible to the guest. On an admitted device with elision on and
  zero-copy off, whose GPU is deterministic: after a submission that rendered and presented its frame,
  submitting the same payload again at once returns without touching guest memory or using the GPU,
  and a device without elision would have left the same guest memory.\<close>

theorem repeated_frame_elided:
  assumes held: "be_ticket be \<noteq> None" and on: "be_elide_unchanged be" "\<not> be_zerocopy_scanout be"
    and gpu: "deterministic_gpu W"
    and wl: "dec_VulkanWorkload payload = Some (wl, rest)" "geometry_fits (wl_width wl) (wl_height wl)" "wl_scanout_addr wl \<noteq> 0"
    and len: "sc_payload_len sc \<le> MAX_CMD_BYTES" "sc_payload_len sc' \<le> MAX_CMD_BYTES"
    and first: "submit_vulkan W sc payload ctx be = Some be1"
    and fresh: "map_of (be_last_forwarded_hash be) (wl_scanout_addr wl) \<noteq> Some (fnv1a_64 payload)"
    and shown: "map_of (be_last_forwarded_hash be1) (wl_scanout_addr wl) = Some (fnv1a_64 payload)"
  shows "(\<exists>be2. submit_vulkan W sc' payload ctx' be1 = Some be2 \<and> be_mem be2 = be_mem be1 \<and> be_turn be2 = be_turn be1 \<and>
      be_broker be2 = be_broker be1 \<and> be_ring_retired be2 = (be_ring_retired be1)[ctx' := sc_seqno sc']) \<and>
    (\<forall>be3. submit_vulkan W sc' payload ctx' (be1\<lparr>be_elide_unchanged := False\<rparr>) = Some be3 \<longrightarrow> be_mem be3 = be_mem be1)"
proof -
  let ?be0 = "be\<lparr>be_vulkan_submits := wrap_u64 (be_vulkan_submits be + 1)\<rparr>" and ?h = "Some (fnv1a_64 payload)"
  have hash: "elision_hash wl payload ?be0 = ?h" using on wl by (simp add: elision_hash_def)
  obtain hp be' where r: "render_workload W wl payload ?be0 = Some (hp, be')"
    and be1: "be1 = retire ctx (sc_seqno sc) (case hp of None \<Rightarrow> be' | Some h \<Rightarrow>
      profile_hop (tn_total_us (turn W ?be0)) h (remember_frame ?h (wl_scanout_addr wl) (hp_presented h) be'))"
    using first fresh unfolding submit_held [OF held len(1) wl(1,2)] run_workload_def Let_def hash
    by (auto split: option.splits prod.splits if_splits)
  have st: "stored wl (pixels_of (turn W ?be0) wl payload) (presented hp) ?be0 be'"
    by (rule render_writes [OF r]) (use on in simp)
  have same: "be_last_forwarded_hash be' = be_last_forwarded_hash be" "be_dma be' = be_dma be"
      "be_ticket be' = be_ticket be" "be_elide_unchanged be'" "\<not> be_zerocopy_scanout be'"
    using st on by (simp_all add: stored_def)
  have "presented hp"
    using shown fresh same(1) by (auto simp: be1 retire_def profile_hop_def remember_frame_def presented_def
      split: option.splits if_splits)
  then have w: "wrote wl (pixels_of (turn W ?be0) wl payload) ?be0 be'" using st wl(3) by (simp add: stored_def)
  have be1': "be_mem be1 = be_mem be'" "be_dma be1 = be_dma be" "be_ticket be1 \<noteq> None" "be_elide_unchanged be1"
      "\<not> be_zerocopy_scanout be1"
    using same held by (auto simp: be1 retire_def profile_hop_def remember_frame_def split: option.splits)
  have elided: "run_workload W wl payload (be1\<lparr>be_vulkan_submits := n\<rparr>) = Some (be1\<lparr>be_vulkan_submits := n,
      be_frames_elided := wrap_u64 (be_frames_elided be1 + 1)\<rparr>)" for n
    using be1'(4) wl(3) shown by (simp add: run_workload_def elision_hash_def)
  have again: "be_mem b3 = be_mem be1" if run: "run_workload W wl payload b = Some b3" and b: "be_mem b = be_mem be1"
    "be_dma b = be_dma be1" "\<not> be_elide_unchanged b" "\<not> be_zerocopy_scanout b" for b b3
  proof -
    have "elision_hash wl payload b = None" using b by (simp add: elision_hash_def)
    then obtain hp2 b2 where r2: "render_workload W wl payload b = Some (hp2, b2)" "be_mem b3 = be_mem b2"
      using run by (auto simp: run_workload_def Let_def profile_hop_def remember_frame_def split: option.splits prod.splits)
    have "stored wl (pixels_of (turn W b) wl payload) (presented hp2) b b2" by (rule render_writes [OF r2(1) b(4)])
    then have "be_mem b2 = be_mem b \<or> wrote wl (pixels_of (turn W ?be0) wl payload) b b2"
      using pixels_steady [OF gpu, of b wl payload ?be0] by (simp add: stored_def)
    moreover have "wrote wl (pixels_of (turn W ?be0) wl payload) ?be0 b"
      using w be1'(1) b(1) by (simp add: wrote_def)
    ultimately show ?thesis using rewrite_same [of wl _ ?be0 b b2] be1'(2) b r2(2) by auto
  qed
  show ?thesis
    using again [where b = "be1\<lparr>be_elide_unchanged := False, be_vulkan_submits := wrap_u64 (be_vulkan_submits be1 + 1)\<rparr>"] be1'
    by (auto simp: submit_held [OF _ len(2) wl(1,2)] elided) (simp_all add: retire_def)
qed

text \<open>A GPU that clears every byte to the red component.\<close>

definition paint :: "u32 \<Rightarrow> u32 \<Rightarrow> rgba_bits \<Rightarrow> bytes" where
  "paint w h c = replicate (unat w * unat h * 4) (ucast (fst c))"

definition paint_world :: world where
  "paint_world = (\<lambda>_. idle_turn\<lparr>tn_clear := (\<lambda>w h c. Some (Some (paint w h c)))\<rparr>)"

definition clear_workload :: "u32 \<Rightarrow> u64 \<Rightarrow> u32 \<Rightarrow> VulkanWorkload" where
  "clear_workload w addr red = \<lparr>wl_op = VK_OP_CLEAR, wl_width = w, wl_height = 1, wl_pad = 0,
     wl_bg = (red, 0, 0, 0), wl_scanout_addr = addr\<rparr>"

definition demo_submit :: "u64 \<Rightarrow> SubmitCmd" where
  "demo_submit n = \<lparr>sc_ctx_id = 0, sc_encoding = 1, sc_payload_len = 40, sc_flags = 0, sc_seqno = n,
     sc_in_fence = 0, sc_out_fence = 0\<rparr>"

lemma gpu_run_demo:
  assumes "dev_ok (broker_config_from_nvml env nvml) vc be" "be_ticket be \<noteq> None"
    and "tn_readings (turn W be) \<noteq> []"
  shows "\<exists>st st'. gpu_run W (Some r) be = Some (Inr (r, st), tick (be\<lparr>be_broker := st'\<rparr>))"
proof -
  obtain t where t: "be_ticket be = Some t" using assms(2) by auto
  note k = dev_ok_ticket [OF assms(1) t] and p = dev_ok_parts [OF assms(1)]
  obtain st1 where "admission_loop (be_bcfg be) (tk_vm_id t) (tn_readings (turn W be)) (be_broker be) = Some (True, st1)"
    and st1: "registered (tk_vm_id t) st1"
    using loop_ready [of "tk_vm_id t" "be_broker be" "be_bcfg be" "tn_readings (turn W be)"] k p(1) assms(3) by auto
  moreover obtain st2 where "record_run (be_bcfg be) (tk_vm_id t) (tn_t1 (turn W be) - tn_t0 (turn W be)) st1 = Some st2"
    using record_returns [OF st1] by blast
  ultimately show ?thesis by (simp add: gpu_run_def t Let_def run_timed_def) (rule exI, rule refl)
qed

lemma clear_submitted:
  assumes ok: "dev_ok (broker_config_from_nvml env nvml) vc be" and held: "be_ticket be \<noteq> None"
    and on: "be_elide_unchanged be" and wl: "wl = clear_workload w addr red" "addr \<noteq> 0" "geometry_fits w 1"
    and miss: "map_of (be_last_forwarded_hash be) addr = None" "length (be_last_forwarded_hash be) < 8"
    and put: "dma_write (be_dma be) (be_mem be) addr (paint w 1 (red, 0, 0, 0)) = Some mem"
  shows "\<exists>be'. submit_vulkan paint_world (demo_submit n) (enc_VulkanWorkload wl) ctx be = Some be' \<and>
    dev_ok (broker_config_from_nvml env nvml) vc be' \<and> be_mem be' = mem \<and> be_dma be' = be_dma be \<and>
    be_ticket be' = be_ticket be \<and> be_elide_unchanged be' \<and>
    be_last_forwarded_hash be' = AList.update addr (fnv1a_64 (enc_VulkanWorkload wl)) (be_last_forwarded_hash be)"
proof -
  let ?be = "be\<lparr>be_vulkan_submits := wrap_u64 (be_vulkan_submits be + 1)\<rparr>"
  have "dev_ok (broker_config_from_nvml env nvml) vc ?be" "be_ticket ?be \<noteq> None"
      "tn_readings (turn paint_world ?be) \<noteq> []"
    using ok held by (simp_all add: paint_world_def turn_def idle_turn_def)
  from gpu_run_demo [OF this, of "Some (paint w 1 (red, 0, 0, 0))"] obtain st st' where
    g: "gpu_run paint_world (Some (Some (paint w 1 (red, 0, 0, 0)))) ?be =
      Some (Inr (Some (paint w 1 (red, 0, 0, 0)), st), tick (?be\<lparr>be_broker := st'\<rparr>))"
    by blast
  have d: "dec_VulkanWorkload (enc_VulkanWorkload wl) = Some (wl, [])" by (rule wl_codec.dec_exact)
  have wl': "wl_op wl = VK_OP_CLEAR" "wl_width wl = w" "wl_height wl = 1" "wl_bg wl = (red, 0, 0, 0)" "wl_scanout_addr wl = addr"
    by (simp_all add: wl(1) clear_workload_def)
  have s: "submit_vulkan paint_world (demo_submit n) (enc_VulkanWorkload wl) ctx be = map_option (retire ctx n)
      (run_workload paint_world wl (enc_VulkanWorkload wl) ?be)"
    using submit_held [OF held _ d, of "demo_submit n" paint_world ctx] wl(3) wl' by (simp add: demo_submit_def)
  have "tn_clear (turn paint_world ?be) w 1 (red, 0, 0, 0) = Some (Some (paint w 1 (red, 0, 0, 0)))"
    by (simp add: paint_world_def turn_def)
  then obtain be' where be': "submit_vulkan paint_world (demo_submit n) (enc_VulkanWorkload wl) ctx be = Some be'"
    "be_mem be' = mem" "be_dma be' = be_dma be" "be_ticket be' = be_ticket be" "be_elide_unchanged be' = be_elide_unchanged be"
    "be_last_forwarded_hash be' = AList.update addr (fnv1a_64 (enc_VulkanWorkload wl)) (be_last_forwarded_hash be)"
    using g put wl(2,3) wl' miss on
    by (simp add: s run_workload_def elision_hash_def render_workload_def submit_frame_def Let_def
      put_pixels_def tick_def profile_hop_def remember_frame_def retire_def)
  moreover have "dev_ok (broker_config_from_nvml env nvml) vc be'"
    using goodD [OF submit_vulkan_good [OF ok] be'(1)] .
  ultimately show ?thesis using on by auto
qed

lemma paint_steady: "deterministic_gpu paint_world"
  by (simp add: deterministic_gpu_def paint_world_def)

lemma demo_write: "dma_write (be_dma (demo_device mem)) m (0x1000 + word_of_nat k) bs =
    (if k + length bs \<le> 4096 then Some (poke m (64 + k) bs) else None)" if "k < 4096"
proof -
  have "unat (0x1000 + word_of_nat k :: u64) = 4096 + k"
    using that by (simp add: unat_word_ariths unat_of_nat take_bit_eq_mod)
  then show ?thesis using that
    by (cases "k + length bs \<le> 4096")
      (auto simp: demo_device_fields dma_write_def resolve_def word_le_nat_alt checked_u64_def)
qed

theorem repeated_frame_elided_witness:
  "\<exists>b1 b2. submit_vulkan paint_world (demo_submit 1) (enc_VulkanWorkload (clear_workload 1 0x1000 7)) 0 (demo_device (\<lambda>_. 0)) = Some b1 \<and>
     submit_vulkan paint_world (demo_submit 2) (enc_VulkanWorkload (clear_workload 1 0x1000 7)) 3 b1 = Some b2 \<and>
     be_turn b2 = be_turn b1 \<and> be_mem b2 = be_mem b1 \<and> peek (be_mem b2) 64 4 = [7, 7, 7, 7]"
proof -
  let ?wl = "clear_workload 1 0x1000 7" and ?be = "demo_device (\<lambda>_. 0)"
  have p: "paint 1 1 (7, 0, 0, 0) = [7, 7, 7, 7]" by (simp add: paint_def replicate_8)
  have put: "dma_write (be_dma ?be) (be_mem ?be) 0x1000 (paint 1 1 (7, 0, 0, 0)) = Some (poke (\<lambda>_. 0) 64 [7, 7, 7, 7])"
    using demo_write [of 0 "\<lambda>_. 0" "\<lambda>_. 0" "[7, 7, 7, 7]"] by (simp add: p demo_device_fields)
  have g: "geometry_fits 1 1" by (simp add: geometry_fits_def)
  obtain b1 where b1: "submit_vulkan paint_world (demo_submit 1) (enc_VulkanWorkload ?wl) 0 ?be = Some b1"
    "be_mem b1 = poke (\<lambda>_. 0) 64 [7, 7, 7, 7]"
    "be_last_forwarded_hash b1 = [(0x1000, fnv1a_64 (enc_VulkanWorkload ?wl))]"
    using clear_submitted [OF demo_device_ok _ _ refl _ g _ _ put, of 1 0] by (auto simp: demo_device_fields)
  have "\<exists>b2. submit_vulkan paint_world (demo_submit 2) (enc_VulkanWorkload ?wl) 3 b1 = Some b2 \<and> be_mem b2 = be_mem b1 \<and>
      be_turn b2 = be_turn b1 \<and> be_broker b2 = be_broker b1 \<and>
      be_ring_retired b2 = (be_ring_retired b1)[3 := sc_seqno (demo_submit 2)]"
    by (rule repeated_frame_elided [OF _ _ _ paint_steady wl_codec.dec_exact _ _ _ _ b1(1), THEN conjunct1])
      (simp_all add: demo_device_fields clear_workload_def demo_submit_def g b1(3) [unfolded clear_workload_def])
  moreover have "peek (be_mem b1) 64 4 = [7, 7, 7, 7]"
    by (simp add: b1(2) peek_def upt_rec poke_def)
  ultimately show ?thesis using b1(1) by auto
qed

text \<open>The cache knows a scanout only by its address. When two scanouts overlap, rendering into one leaves
  the other's entry in place, and the elided repeat of the other leaves the overlap stale: here a 2x1
  frame at \<open>0x1000\<close>, a 1x1 frame at \<open>0x1004\<close> and the first frame again.\<close>

lemma overlapping_scanouts_go_stale:
  "\<exists>b1 b2 b3. submit_vulkan paint_world (demo_submit 1) (enc_VulkanWorkload (clear_workload 2 0x1000 7)) 0 (demo_device (\<lambda>_. 0)) = Some b1 \<and>
     submit_vulkan paint_world (demo_submit 2) (enc_VulkanWorkload (clear_workload 1 0x1004 9)) 0 b1 = Some b2 \<and>
     submit_vulkan paint_world (demo_submit 3) (enc_VulkanWorkload (clear_workload 2 0x1000 7)) 0 b2 = Some b3 \<and>
     peek (be_mem b3) 64 8 = [7, 7, 7, 7, 9, 9, 9, 9]"
proof -
  let ?A = "clear_workload 2 0x1000 7" and ?B = "clear_workload 1 0x1004 9" and ?be = "demo_device (\<lambda>_. 0)"
  let ?m1 = "poke (\<lambda>_. 0) 64 [7, 7, 7, 7, 7, 7, 7, 7]" and ?m2 = "poke (poke (\<lambda>_. 0) 64 [7, 7, 7, 7, 7, 7, 7, 7]) 68 [9, 9, 9, 9]"
  have p: "paint 2 1 (7, 0, 0, 0) = [7, 7, 7, 7, 7, 7, 7, 7]" "paint 1 1 (9, 0, 0, 0) = [9, 9, 9, 9]"
    by (simp_all add: paint_def replicate_8)
  have put1: "dma_write (be_dma ?be) (be_mem ?be) 0x1000 (paint 2 1 (7, 0, 0, 0)) = Some ?m1"
    using demo_write [of 0 "\<lambda>_. 0" "\<lambda>_. 0" "paint 2 1 (7, 0, 0, 0)"] by (simp add: p demo_device_fields)
  have put2: "dma_write (be_dma ?be) ?m1 0x1004 (paint 1 1 (9, 0, 0, 0)) = Some ?m2"
    using demo_write [of 4 "\<lambda>_. 0" ?m1 "paint 1 1 (9, 0, 0, 0)"] by (simp add: p)
  have g: "geometry_fits 1 1" "geometry_fits 2 1" by (simp_all add: geometry_fits_def)
  obtain b1 where b1: "submit_vulkan paint_world (demo_submit 1) (enc_VulkanWorkload ?A) 0 ?be = Some b1"
    "dev_ok (broker_config_from_nvml demo_env None) (VmConfig_new ''vm'' 1 4096) b1" "be_mem b1 = ?m1" "be_dma b1 = be_dma ?be"
    "be_ticket b1 \<noteq> None" "be_elide_unchanged b1"
    "be_last_forwarded_hash b1 = [(0x1000, fnv1a_64 (enc_VulkanWorkload ?A))]"
    using clear_submitted [OF demo_device_ok _ _ refl _ g(2) _ _ put1, of 1 0] by (auto simp: demo_device_fields)
  obtain b2 where b2: "submit_vulkan paint_world (demo_submit 2) (enc_VulkanWorkload ?B) 0 b1 = Some b2"
    "be_mem b2 = ?m2" "be_ticket b2 \<noteq> None" "be_elide_unchanged b2"
    "be_last_forwarded_hash b2 = [(0x1000, fnv1a_64 (enc_VulkanWorkload ?A)), (0x1004, fnv1a_64 (enc_VulkanWorkload ?B))]"
    using clear_submitted [OF b1(2,5,6) refl _ g(1) _ _ put2 [folded b1(3,4)], of 2 0] b1(5) by (auto simp: b1(3,7))
  have d: "dec_VulkanWorkload (enc_VulkanWorkload ?A) = Some (?A, [])" by (rule wl_codec.dec_exact)
  have "\<exists>b3. submit_vulkan paint_world (demo_submit 3) (enc_VulkanWorkload ?A) 0 b2 = Some b3 \<and> be_mem b3 = be_mem b2"
    using g(2) b2(4,5)
    by (subst submit_held [OF b2(3) _ d]) (simp_all add: demo_submit_def clear_workload_def run_workload_def elision_hash_def retire_def)
  moreover have "peek ?m2 64 8 = [7, 7, 7, 7, 9, 9, 9, 9]" by (simp add: peek_def upt_rec poke_def)
  ultimately show ?thesis using b1(1) b2(1,2) by auto
qed

end
