(* ===== verification/Device_Regs.thy ===== *)
theory Device_Regs
  imports Device_Safety
begin

unbundle bit_operations_syntax

text \<open>The 64-bit registers of BAR0, which the guest reaches as two 32-bit words and through byte accesses
  of any alignment: they behave as eight bytes of memory.\<close>

subsection \<open>Bytes and words\<close>

lemma length_put_bytes: "off + length bs \<le> length buf \<Longrightarrow> length (put_bytes buf off bs) = length buf"
  by (simp add: put_bytes_def)

lemma put_bytes_append:
  assumes "off + length a + length b \<le> length buf"
  shows "put_bytes (put_bytes buf off a) (off + length a) b = put_bytes buf off (a @ b)"
  using assms by (simp add: put_bytes_def add.assoc add.commute add.left_commute)

lemma put_bytes_split: "k \<le> length bs \<Longrightarrow> off + length bs \<le> length buf \<Longrightarrow>
    put_bytes (put_bytes buf off (take k bs)) (off + k) (drop k bs) = put_bytes buf off bs"
  using put_bytes_append [of off "take k bs" "drop k bs" buf] by (simp add: min_absorb2)

lemma put_bytes_low: "length a = 4 \<Longrightarrow> j + length bs \<le> 4 \<Longrightarrow> put_bytes (a @ b) j bs = put_bytes a j bs @ b"
  by (simp add: put_bytes_def)

lemma put_bytes_high: "length a = 4 \<Longrightarrow> 4 \<le> j \<Longrightarrow> put_bytes (a @ b) j bs = a @ put_bytes b (j - 4) bs"
  by (simp add: put_bytes_def)

lemma low_mask: "(0xFFFFFFFF :: u64) = mask 32"
  by (simp add: mask_eq_exp_minus_1)

lemma u32_no_high_bit: "32 \<le> n \<Longrightarrow> \<not> bit (v :: u32) n"
  using bit_imp_le_length [of v n] by auto

lemma lo32_ucast: "lo32 x = ucast x"
  unfolding lo32_def low_mask by (rule bit_word_eqI) (auto simp: bit_simps)

lemma with_lo_words [simp]: "lo32 (with_lo x v) = v" "hi32 (with_lo x v) = hi32 x"
  unfolding lo32_def hi32_def with_lo_def low_mask
  by (rule bit_word_eqI, auto simp: bit_simps u32_no_high_bit)+

lemma with_hi_words [simp]: "lo32 (with_hi x v) = lo32 x" "hi32 (with_hi x v) = v"
  unfolding lo32_def hi32_def with_hi_def low_mask
  by (rule bit_word_eqI, auto simp: bit_simps)+

lemma unat_lo32: "unat (lo32 x) = unat x mod 2 ^ 32"
  unfolding lo32_ucast by (simp add: unsigned_ucast_eq take_bit_eq_mod unat_mod_distrib)

lemma unat_hi32: "unat (hi32 x) = unat x div 2 ^ 32"
proof -
  have "unat x div 2 ^ 32 < 2 ^ 32" using unat_u_lt(4) [of x] by (simp add: less_mult_imp_div_less)
  then show ?thesis unfolding hi32_def
    by (simp add: unsigned_ucast_eq unsigned_drop_bit_eq take_bit_eq_mod drop_bit_eq_div unat_div_distrib unat_mod_distrib)
qed

lemma le_of_nat_add: "le_of_nat (m + k) n = le_of_nat m n @ le_of_nat k (n div 256 ^ m)"
  by (induction m arbitrary: n) (simp_all add: div_mult2_eq)

lemma le_of_nat_mod: "le_of_nat m (n mod 256 ^ m) = le_of_nat m n"
  by (induction m arbitrary: n) (simp_all add: mod_mult2_eq)

lemma words_of_u64: "u64_le x = u32_le (lo32 x) @ u32_le (hi32 x)"
  using le_of_nat_add [of 4 4 "unat x"] le_of_nat_mod [of 4 "unat x"]
  by (simp add: u64_le_def u32_le_def unat_lo32 unat_hi32)

lemma get_u32_bytes: "length bs = 4 \<Longrightarrow> u32_le (get_u32 bs 0) = bs"
  by (simp add: get_u32_def)

lemma get_u64_bytes: "length bs = 8 \<Longrightarrow> u64_le (get_u64 bs 0) = bs"
  by (simp add: get_u64_def)

lemma u64_le_inject: "u64_le a = u64_le b \<Longrightarrow> a = b"
  by (metis word_of_le_le(3))

subsection \<open>Aligned words of an access\<close>

lemma unat_aligned_off: "unat (aligned_off cur) = unat cur - unat cur mod 4"
proof -
  have "aligned_off cur + (cur AND 3) = cur" unfolding aligned_off_def by (rule and_split)
  moreover have "aligned_off cur \<le> cur" unfolding aligned_off_def by (rule word_and_le2)
  ultimately have "unat (cur - aligned_off cur) = unat cur - unat (aligned_off cur)"
    by (simp add: unat_sub)
  moreover have "unat (aligned_off cur) \<le> unat cur" using \<open>aligned_off cur \<le> cur\<close> by (simp add: word_le_nat_alt)
  ultimately show ?thesis using off_within_mod [of cur] by (simp add: off_within_def)
qed

lemma unat_small: "n < 2 ^ 64 \<Longrightarrow> unat (word_of_nat n :: u64) = n"
  by (simp add: unat_of_nat)

lemma unat_step: "unat (cur :: u64) + k < 2 ^ 64 \<Longrightarrow> unat (cur + word_of_nat k) = unat cur + k"
  by (simp add: unat_word_ariths unat_of_nat take_bit_eq_mod)


subsection \<open>A register pair as memory\<close>

locale reg64 =
  fixes ok :: "Backend \<Rightarrow> bool"
    and off :: nat
    and reg :: "Backend \<Rightarrow> u64"
    and set_reg :: "u64 \<Rightarrow> Backend \<Rightarrow> Backend"
  assumes off_aligned: "off mod 4 = 0" and off_small: "off < 4096"
    and read_lo: "ok be \<Longrightarrow> bar0_read_u32 off be = lo32 (reg be)"
    and read_hi: "ok be \<Longrightarrow> bar0_read_u32 (off + 4) be = hi32 (reg be)"
    and write_lo: "ok be \<Longrightarrow> bar0_write_u32 W off v be = Some (set_reg (with_lo (reg be) v) be)"
    and write_hi: "ok be \<Longrightarrow> bar0_write_u32 W (off + 4) v be = Some (set_reg (with_hi (reg be) v) be)"
    and ok_set: "ok be \<Longrightarrow> ok (set_reg x be)"
    and reg_set: "ok be \<Longrightarrow> reg (set_reg x be) = x"
    and set_set: "set_reg x (set_reg y be) = set_reg x be"
    and set_same: "set_reg (reg be) be = be"
begin

lemma cursor_position:
  assumes "unat cur = off + j"
  shows "off_within cur = j mod 4" "unat (aligned_off cur) = off + (j - j mod 4)"
  using assms off_aligned mod_add_left_eq [of off 4 j] by (auto simp: off_within_mod unat_aligned_off)

lemma word_of_register:
  assumes ok: "ok be" and cur: "unat cur = off + j" and j: "j < 8"
  shows "u32_le (bar0_read_u32 (unat (aligned_off cur)) be) = take 4 (drop (j - j mod 4) (u64_le (reg be)))"
proof (cases "j < 4")
  case True
  then show ?thesis using ok by (simp add: cursor_position [OF cur] read_lo words_of_u64)
next
  case False
  then have "j - j mod 4 = 4" using j by presburger
  then show ?thesis using ok by (simp add: cursor_position [OF cur] read_hi words_of_u64)
qed

lemma read_bytes: "ok be \<Longrightarrow> unat cur = off + j \<Longrightarrow> j + n \<le> 8 \<Longrightarrow>
    read_bar0 cur n be = take n (drop j (u64_le (reg be)))"
proof (induction n arbitrary: cur j rule: less_induct)
  case (less n)
  show ?case
  proof (cases "n = 0")
    case True
    then show ?thesis by (simp add: read_bar0.simps)
  next
    case False
    define k where "k = min (4 - j mod 4) n"
    have pos: "0 < k" "k \<le> n" "k \<le> 4 - j mod 4" using False by (auto simp: k_def)
    have step: "read_bar0 cur n be = take k (drop (j mod 4) (u32_le (bar0_read_u32 (unat (aligned_off cur)) be)))
        @ read_bar0 (cur + word_of_nat k) (n - k) be"
      using False cursor_position(1) [OF less.prems(2)] read_bar0.simps [of cur n be]
      by (simp add: chunk_len_def k_def)
    have "unat (cur + word_of_nat k) = off + (j + k)"
      using unat_step [of cur k] less.prems off_small pos by simp
    then have rest: "read_bar0 (cur + word_of_nat k) (n - k) be = take (n - k) (drop (j + k) (u64_le (reg be)))"
      using less.prems pos by (intro less.IH) auto
    have "take k (drop (j mod 4) (take 4 (drop (j - j mod 4) (u64_le (reg be))))) = take k (drop j (u64_le (reg be)))"
      using pos by (simp add: drop_take min_absorb1)
    moreover have "j < 8" using less.prems False by simp
    ultimately show ?thesis
      using step rest word_of_register [OF less.prems(1,2)] pos take_add [of k "n - k" "drop j (u64_le (reg be))"]
      by (simp add: add.commute)
  qed
qed

definition poke :: "nat \<Rightarrow> bytes \<Rightarrow> Backend \<Rightarrow> Backend" where
  "poke j bs be = set_reg (get_u64 (put_bytes (u64_le (reg be)) j bs) 0) be"

lemma ok_poke: "ok be \<Longrightarrow> ok (poke j bs be)"
  by (simp add: poke_def ok_set)

lemma poke_bytes: "ok be \<Longrightarrow> j + length bs \<le> 8 \<Longrightarrow> u64_le (reg (poke j bs be)) = put_bytes (u64_le (reg be)) j bs"
  by (simp add: poke_def reg_set get_u64_bytes length_put_bytes)

lemma poke_nothing: "j \<le> 8 \<Longrightarrow> poke j [] be = be"
  by (simp add: poke_def put_bytes_def get_u64_def set_same)

lemma poke_append: "ok be \<Longrightarrow> j + length a + length b \<le> 8 \<Longrightarrow>
    poke (j + length a) b (poke j a be) = poke j (a @ b) be"
  using poke_bytes [of be j a] put_bytes_append [of j a b "u64_le (reg be)"] by (simp add: poke_def set_set)

lemma write_word:
  assumes ok: "ok be" and cur: "unat cur = off + j" and j: "j < 8" and len: "j mod 4 + length bs \<le> 4"
  shows "bar0_write_u32 W (unat (aligned_off cur)) (merged_word cur bs be) be = Some (poke j bs be)"
proof -
  let ?w = "merged_word cur bs be"
  let ?old = "take 4 (drop (j - j mod 4) (u64_le (reg be)))"
  have "length ?old = 4" using j by simp presburger
  then have "length (put_bytes ?old (j mod 4) bs) = 4" using len by (simp add: length_put_bytes)
  then have w: "u32_le ?w = put_bytes ?old (j mod 4) bs"
    using word_of_register [OF ok cur j] by (simp add: merged_word_def cursor_position(1) [OF cur] get_u32_bytes)
  show ?thesis
  proof (cases "j < 4")
    case True
    then have "u64_le (with_lo (reg be) ?w) = put_bytes (u64_le (reg be)) j bs"
      using w len by (simp add: words_of_u64 put_bytes_low)
    then have "with_lo (reg be) ?w = get_u64 (put_bytes (u64_le (reg be)) j bs) 0"
      using True len by (intro u64_le_inject) (simp add: get_u64_bytes length_put_bytes)
    then show ?thesis using True ok by (simp add: cursor_position [OF cur] write_lo poke_def)
  next
    case False
    then have jj: "j - j mod 4 = 4" "j mod 4 = j - 4" using j by presburger+
    then have "u64_le (with_hi (reg be) ?w) = put_bytes (u64_le (reg be)) j bs"
      using w len False by (simp add: words_of_u64 put_bytes_high)
    then have "with_hi (reg be) ?w = get_u64 (put_bytes (u64_le (reg be)) j bs) 0"
      using jj False len by (intro u64_le_inject) (simp add: get_u64_bytes length_put_bytes)
    then show ?thesis using jj ok by (simp add: cursor_position [OF cur] write_hi poke_def)
  qed
qed

lemma write_bytes: "ok be \<Longrightarrow> unat cur = off + j \<Longrightarrow> j + length bs \<le> 8 \<Longrightarrow>
    write_bar0 W cur bs be = Some (poke j bs be)"
proof (induction "length bs" arbitrary: cur j bs be rule: less_induct)
  case less
  show ?case
  proof (cases "bs = []")
    case True
    then show ?thesis using less.prems by (simp add: write_bar0.simps poke_nothing)
  next
    case False
    define k where "k = min (4 - j mod 4) (length bs)"
    have pos: "0 < k" "k \<le> length bs" "j mod 4 + k \<le> 4" using False by (auto simp: k_def)
    have step: "write_bar0 W cur bs be = bar0_write_u32 W (unat (aligned_off cur)) (merged_word cur (take k bs) be) be
        \<bind> write_bar0 W (cur + word_of_nat k) (drop k bs)"
      using False cursor_position(1) [OF less.prems(2)] write_bar0.simps [of W cur bs be]
      by (simp add: chunk_len_def k_def Let_def)
    have j: "j < 8" using less.prems False by (cases bs) auto
    have now: "bar0_write_u32 W (unat (aligned_off cur)) (merged_word cur (take k bs) be) be = Some (poke j (take k bs) be)"
      using less.prems(1,2) j pos by (intro write_word) auto
    have "unat (cur + word_of_nat k) = off + (j + k)"
      using unat_step [of cur k] less.prems off_small pos by simp
    then have "write_bar0 W (cur + word_of_nat k) (drop k bs) (poke j (take k bs) be)
        = Some (poke (j + k) (drop k bs) (poke j (take k bs) be))"
      using less.prems pos by (intro less.hyps) (auto simp: ok_poke)
    moreover have "poke (j + k) (drop k bs) (poke j (take k bs) be) = poke j bs be"
      using poke_append [of be j "take k bs" "drop k bs"] less.prems pos by (simp add: min_absorb2)
    ultimately show ?thesis using step now by simp
  qed
qed

end

text \<open>The base and index registers of a context, at offsets 0 and 0x1C of its block.\<close>

definition base_off :: "nat \<Rightarrow> nat" where
  "base_off ctx = R_CMD_RING_CFG + CMD_RING_STRIDE * ctx + F_BASE_LO"

definition index_off :: "nat \<Rightarrow> nat" where
  "index_off ctx = R_CMD_RING_CFG + CMD_RING_STRIDE * ctx + F_INDEX_LO"

lemma ctx_block_at: "c < NUM_CONTEXTS \<Longrightarrow> f < CMD_RING_STRIDE \<Longrightarrow>
    ctx_block (R_CMD_RING_CFG + CMD_RING_STRIDE * c + f) = Some (c, f)"
  by (simp add: ctx_block_def)

lemma ctx_register_access:
  assumes "c < NUM_CONTEXTS" "f < CMD_RING_STRIDE" "off = R_CMD_RING_CFG + CMD_RING_STRIDE * c + f"
  shows "bar0_read_u32 off be = read_ctx_reg c f be"
    and "bar0_write_u32 W off v be = Some (write_ctx_reg c f v be)"
proof -
  have "ctx_block off = Some (c, f)" using ctx_block_at assms by simp
  moreover have "off < DOORBELL_PAGE" using assms by simp
  ultimately show "bar0_read_u32 off be = read_ctx_reg c f be"
    and "bar0_write_u32 W off v be = Some (write_ctx_reg c f v be)"
    by (simp_all add: bar0_read_u32_def bar0_write_u32_def)
qed

lemma ctx_words:
  assumes "c < NUM_CONTEXTS"
  shows "bar0_read_u32 (base_off c) be = lo32 (be_ring_base be ! c)"
    "bar0_read_u32 (base_off c + 4) be = hi32 (be_ring_base be ! c)"
    "bar0_write_u32 W (base_off c) v be = Some (be\<lparr>be_ring_base := (be_ring_base be)[c := with_lo (be_ring_base be ! c) v]\<rparr>)"
    "bar0_write_u32 W (base_off c + 4) v be = Some (be\<lparr>be_ring_base := (be_ring_base be)[c := with_hi (be_ring_base be ! c) v]\<rparr>)"
    "bar0_read_u32 (index_off c) be = lo32 (be_ring_index be ! c)"
    "bar0_read_u32 (index_off c + 4) be = hi32 (be_ring_index be ! c)"
    "bar0_write_u32 W (index_off c) v be = Some (be\<lparr>be_ring_index := (be_ring_index be)[c := with_lo (be_ring_index be ! c) v]\<rparr>)"
    "bar0_write_u32 W (index_off c + 4) v be = Some (be\<lparr>be_ring_index := (be_ring_index be)[c := with_hi (be_ring_index be ! c) v]\<rparr>)"
  using ctx_register_access [OF assms, of F_BASE_LO "base_off c"] ctx_register_access [OF assms, of F_BASE_HI "base_off c + 4"]
    ctx_register_access [OF assms, of F_INDEX_LO "index_off c"] ctx_register_access [OF assms, of F_INDEX_HI "index_off c + 4"]
  by (simp_all add: base_off_def index_off_def read_ctx_reg_def write_ctx_reg_def)

interpretation base_reg: reg64 "\<lambda>be. regs_ok be \<and> c < NUM_CONTEXTS" "base_off (c mod NUM_CONTEXTS)" "\<lambda>be. be_ring_base be ! c"
    "\<lambda>x be. be\<lparr>be_ring_base := (be_ring_base be)[c := x]\<rparr>" for c
  by unfold_locales (auto simp: ctx_words regs_ok_def simp del: NUM_CONTEXTS_def, simp_all add: base_off_def)

interpretation index_reg: reg64 "\<lambda>be. regs_ok be \<and> c < NUM_CONTEXTS" "index_off (c mod NUM_CONTEXTS)" "\<lambda>be. be_ring_index be ! c"
    "\<lambda>x be. be\<lparr>be_ring_index := (be_ring_index be)[c := x]\<rparr>" for c
  by unfold_locales (auto simp: ctx_words regs_ok_def simp del: NUM_CONTEXTS_def, simp_all add: index_off_def)

subsection \<open>The registers a guest programs\<close>

text \<open>C11: the 64-bit base and index registers of every ring context behave as eight bytes of memory. A write
  of any bytes at any offset within the register, aligned or not, across its two words or not, changes that
  register of that context alone, exactly as storing the bytes over its little-endian image would; and a
  read of any part of it then gives those bytes.\<close>

theorem ring_registers_are_memory:
  assumes "regs_ok be" "c < NUM_CONTEXTS" "j + length bs \<le> 8" "i + n \<le> 8"
  shows "(\<exists>x be'. be' = be\<lparr>be_ring_base := (be_ring_base be)[c := x]\<rparr> \<and>
       write_bar0 W (word_of_nat (R_CMD_RING_CFG + CMD_RING_STRIDE * c + F_BASE_LO + j)) bs be = Some be' \<and>
       u64_le x = put_bytes (u64_le (be_ring_base be ! c)) j bs \<and>
       read_bar0 (word_of_nat (R_CMD_RING_CFG + CMD_RING_STRIDE * c + F_BASE_LO + i)) n be' = take n (drop i (u64_le x)))
   \<and> (\<exists>x be'. be' = be\<lparr>be_ring_index := (be_ring_index be)[c := x]\<rparr> \<and>
       write_bar0 W (word_of_nat (R_CMD_RING_CFG + CMD_RING_STRIDE * c + F_INDEX_LO + j)) bs be = Some be' \<and>
       u64_le x = put_bytes (u64_le (be_ring_index be ! c)) j bs \<and>
       read_bar0 (word_of_nat (R_CMD_RING_CFG + CMD_RING_STRIDE * c + F_INDEX_LO + i)) n be' = take n (drop i (u64_le x)))"
proof -
  have ok: "regs_ok be \<and> c < NUM_CONTEXTS" using assms by blast
  have c: "c mod NUM_CONTEXTS = c" using assms by simp
  have pos: "unat (word_of_nat (base_off c + k) :: u64) = base_off (c mod NUM_CONTEXTS) + k"
    "unat (word_of_nat (index_off c + k) :: u64) = index_off (c mod NUM_CONTEXTS) + k" if "k \<le> 8" for k
    using that assms(2) by (subst unat_small; simp add: base_off_def index_off_def)+
  have j: "j \<le> 8" and i: "i \<le> 8" using assms by simp_all
  have base: "R_CMD_RING_CFG + CMD_RING_STRIDE * c + F_BASE_LO = base_off c"
    and index: "R_CMD_RING_CFG + CMD_RING_STRIDE * c + F_INDEX_LO = index_off c"
    unfolding base_off_def index_off_def by (rule refl)+
  show ?thesis
    unfolding base index
    using base_reg.write_bytes [OF ok pos(1) [OF j] assms(3), of W] base_reg.poke_bytes [OF ok assms(3)]
      base_reg.read_bytes [OF base_reg.ok_poke [OF ok] pos(1) [OF i] assms(4), of j bs]
      index_reg.write_bytes [OF ok pos(2) [OF j] assms(3), of W] index_reg.poke_bytes [OF ok assms(3)]
      index_reg.read_bytes [OF index_reg.ok_poke [OF ok] pos(2) [OF i] assms(4), of j bs]
    unfolding base_reg.poke_def index_reg.poke_def
    by (metis base_reg.reg_set index_reg.reg_set ok)
qed

theorem ring_registers_are_memory_witness:
  "(\<exists>x be'. be' = (demo_device (\<lambda>_. 0))\<lparr>be_ring_base := (be_ring_base (demo_device (\<lambda>_. 0)))[2 := x]\<rparr> \<and>
       write_bar0 (\<lambda>_. idle_turn) 0x183 [0xAA, 0xBB] (demo_device (\<lambda>_. 0)) = Some be' \<and>
       u64_le x = [0, 0, 0, 0xAA, 0xBB, 0, 0, 0] \<and> read_bar0 0x182 4 be' = [0, 0xAA, 0xBB, 0])
   \<and> (\<exists>x be'. be' = (demo_device (\<lambda>_. 0))\<lparr>be_ring_index := (be_ring_index (demo_device (\<lambda>_. 0)))[2 := x]\<rparr> \<and>
       write_bar0 (\<lambda>_. idle_turn) 0x19F [0xAA, 0xBB] (demo_device (\<lambda>_. 0)) = Some be' \<and>
       u64_le x = [0, 0, 0, 0xAA, 0xBB, 0, 0, 0] \<and> read_bar0 0x19E 4 be' = [0, 0xAA, 0xBB, 0])"
proof -
  have ok: "regs_ok (demo_device (\<lambda>_. 0))" using demo_device_ok [of "\<lambda>_. 0"] by (simp add: dev_ok_def)
  have z: "be_ring_base (demo_device (\<lambda>_. 0)) ! 2 = 0" "be_ring_index (demo_device (\<lambda>_. 0)) ! 2 = 0"
    by (simp_all add: demo_device_def Backend_new_def with_broker_def)
  have img: "put_bytes (u64_le 0) 3 [0xAA, 0xBB] = [0, 0, 0, 0xAA, 0xBB, 0, 0, 0 :: u8]" by code_simp
  have cut: "take 4 (drop 2 [0, 0, 0, 0xAA, 0xBB, 0, 0, 0 :: u8]) = [0, 0xAA, 0xBB, 0]" by simp
  have at: "word_of_nat (R_CMD_RING_CFG + CMD_RING_STRIDE * 2 + F_BASE_LO + 3) = (0x183 :: u64)"
    "word_of_nat (R_CMD_RING_CFG + CMD_RING_STRIDE * 2 + F_BASE_LO + 2) = (0x182 :: u64)"
    "word_of_nat (R_CMD_RING_CFG + CMD_RING_STRIDE * 2 + F_INDEX_LO + 3) = (0x19F :: u64)"
    "word_of_nat (R_CMD_RING_CFG + CMD_RING_STRIDE * 2 + F_INDEX_LO + 2) = (0x19E :: u64)"
    by simp_all
  have fits: "2 < NUM_CONTEXTS" "3 + length [0xAA, 0xBB :: u8] \<le> 8" "2 + 4 \<le> (8 :: nat)" by simp_all
  show ?thesis
    using ring_registers_are_memory [OF ok fits, of "\<lambda>_. idle_turn"] unfolding z img at by (metis cut)
qed

end
