(* ===== verification/Replay_Draw.thy ===== *)
theory Replay_Draw
  imports Forwarded_Decode "HOL-Library.Option_ord"
begin

unbundle bit_operations_syntax

text \<open>
  The pure part of \<open>crates/infinigpu-replay/src/lib.rs\<close>: how a forwarded draw maps to pipeline state, and the
  keys under which the replay caches pipelines, descriptor layouts, meshes and textures. A \<open>ForwardedDraw\<close>
  borrows the fields of the device's owned draw (\<open>as_draw\<close> and \<open>textures_view\<close> copy references only), so the
  owned draw of \<open>Forwarded_Decode\<close> stands for it. Floats are their bit patterns. Vulkan enumerations are
  datatypes with the constants the code names; where the code keys by their raw value, the value itself is
  the key.
\<close>

subsection \<open>Frames\<close>

record Frame =
  fr_width :: u32
  fr_height :: u32
  fr_rgba :: bytes

text \<open>\<open>format!\<close> of a number, and the bytes of an ASCII string.\<close>

function decimal :: "nat \<Rightarrow> bytes" where
  "decimal n = (if n < 10 then [word_of_nat (48 + n)] else decimal (n div 10) @ [word_of_nat (48 + n mod 10)])"
  by auto
termination by (relation "measure id") auto

declare decimal.simps [simp del]

definition ppm_header :: "u32 \<Rightarrow> u32 \<Rightarrow> bytes" where
  "ppm_header w h = [80, 54, 10] @ decimal (unat w) @ [32] @ decimal (unat h) @ [10, 50, 53, 53, 10]"

fun drop_alpha :: "bytes \<Rightarrow> bytes" where
  "drop_alpha (r # g # b # a # rest) = r # g # b # drop_alpha rest"
| "drop_alpha _ = []"

definition to_ppm :: "Frame \<Rightarrow> bytes" where
  "to_ppm f = ppm_header (fr_width f) (fr_height f) @ drop_alpha (fr_rgba f)"

text \<open>\<open>Frame::pixel\<close> wraps its index at 32 bits and panics out of range.\<close>

definition frame_pixel :: "u32 \<Rightarrow> u32 \<Rightarrow> Frame \<Rightarrow> bytes option" where
  "frame_pixel x y f = (let i = unat ((y * fr_width f + x) * 4) in
     if i + 4 \<le> length (fr_rgba f) then Some (take 4 (drop i (fr_rgba f))) else None)"

subsection \<open>Pipeline state\<close>

datatype vk_topology = TRIANGLE_LIST | TRIANGLE_STRIP
datatype vk_format = FORMAT_R32_SFLOAT | FORMAT_R32G32_SFLOAT | FORMAT_R32G32B32_SFLOAT
  | FORMAT_R32G32B32A32_SFLOAT | FORMAT_R8G8B8A8_UNORM | FORMAT_R32_UINT | FORMAT_D32_SFLOAT
  | FORMAT_B8G8R8A8_UNORM | FORMAT_OTHER nat
datatype vk_compare = COMPARE_NEVER | COMPARE_LESS | COMPARE_EQUAL | COMPARE_LESS_OR_EQUAL
  | COMPARE_GREATER | COMPARE_NOT_EQUAL | COMPARE_GREATER_OR_EQUAL | COMPARE_ALWAYS
datatype vk_cull = VK_CULL_NONE | VK_CULL_FRONT | VK_CULL_BACK | VK_CULL_FRONT_AND_BACK

definition map_topology :: "u32 \<Rightarrow> vk_topology" where
  "map_topology t = (if t = 1 then TRIANGLE_STRIP else TRIANGLE_LIST)"

definition map_vformat :: "u32 \<Rightarrow> vk_format" where
  "map_vformat f = (if f = VF_R32_SFLOAT then FORMAT_R32_SFLOAT
     else if f = VF_R32G32_SFLOAT then FORMAT_R32G32_SFLOAT
     else if f = VF_R32G32B32_SFLOAT then FORMAT_R32G32B32_SFLOAT
     else if f = VF_R8G8B8A8_UNORM then FORMAT_R8G8B8A8_UNORM
     else if f = VF_R32_UINT then FORMAT_R32_UINT
     else FORMAT_R32G32B32A32_SFLOAT)"

definition DEPTH_FORMAT :: vk_format where [simp]: "DEPTH_FORMAT = FORMAT_D32_SFLOAT"

definition map_compare :: "u32 \<Rightarrow> vk_compare" where
  "map_compare c = (if c = CMP_NEVER then COMPARE_NEVER
     else if c = CMP_LESS then COMPARE_LESS
     else if c = CMP_EQUAL then COMPARE_EQUAL
     else if c = CMP_LESS_OR_EQUAL then COMPARE_LESS_OR_EQUAL
     else if c = CMP_GREATER then COMPARE_GREATER
     else if c = CMP_NOT_EQUAL then COMPARE_NOT_EQUAL
     else if c = CMP_GREATER_OR_EQUAL then COMPARE_GREATER_OR_EQUAL
     else if c = CMP_ALWAYS then COMPARE_ALWAYS
     else COMPARE_LESS_OR_EQUAL)"

definition map_cull_mode :: "u32 \<Rightarrow> vk_cull" where
  "map_cull_mode rf = (let c = raster_cull rf in
     if c = CULL_FRONT then VK_CULL_FRONT
     else if c = CULL_BACK then VK_CULL_BACK
     else if c = CULL_FRONT_AND_BACK then VK_CULL_FRONT_AND_BACK
     else VK_CULL_NONE)"

definition attachment_needed :: "DepthState \<Rightarrow> bool" where
  "attachment_needed d = (dp_test d \<or> dp_write d)"

subsection \<open>Cache keys\<close>

definition FNV_PRIME :: u64 where "FNV_PRIME = 0x100000001b3"
definition FNV_SEED :: u64 where "FNV_SEED = 0xcbf29ce484222325"

definition hash_step :: "u64 \<Rightarrow> u64 \<Rightarrow> u64" where
  "hash_step h w = xor h w * FNV_PRIME"

definition hash_spirv :: "u32 list \<Rightarrow> u64" where
  "hash_spirv data = foldl (\<lambda>h w. hash_step h (ucast w)) (xor FNV_SEED (word_of_nat (length data))) data"

definition MAX_UBOS :: nat where [simp]: "MAX_UBOS = 8"

record DescriptorSig =
  ds_ubo_bindings :: "u32 list"
  ds_ubo_count :: u32
  ds_tex_binding :: "u32 option"
  ds_tex_count :: u32
  ds_ssbo_binding :: "u32 option"

definition desc_sig_of :: "OwnedForwardedDraw \<Rightarrow> DescriptorSig option" where
  "desc_sig_of d = (case fd_geometry d of
     None \<Rightarrow> None
   | Some g \<Rightarrow>
      (let n = min (length (og_uniforms g)) MAX_UBOS;
           bs = sort (map ou_binding (take MAX_UBOS (og_uniforms g))) @ replicate (MAX_UBOS - n) 0;
           ssbo = map_option os_binding (og_storage g);
           tex_count = word_of_nat (length (og_textures g));
           tex = (if 0 < tex_count then Some (og_tex_binding g) else None)
       in if n = 0 \<and> tex = None \<and> ssbo = None then None
          else Some \<lparr>ds_ubo_bindings = bs, ds_ubo_count = word_of_nat n, ds_tex_binding = tex,
            ds_tex_count = tex_count, ds_ssbo_binding = ssbo\<rparr>))"

definition depth_key_of :: "OwnedForwardedDraw \<Rightarrow> bool \<times> u32" where
  "depth_key_of d = (case Option.bind (fd_geometry d) og_depth of
     Some s \<Rightarrow> if dp_test s \<or> dp_write s
       then (True, or (or (or 1 (push_bit 1 (of_bool (dp_test s)))) (push_bit 2 (of_bool (dp_write s))))
         (push_bit 4 (and (dp_compare s) 7)))
       else (False, 0)
   | None \<Rightarrow> (False, 0))"

definition raster_flags_of :: "OwnedForwardedDraw \<Rightarrow> u32" where
  "raster_flags_of d = (case fd_geometry d of Some g \<Rightarrow> og_raster_flags g | None \<Rightarrow> 0)"

definition push_const_size_of :: "OwnedForwardedDraw \<Rightarrow> u32" where
  "push_const_size_of d = (case fd_geometry d of Some g \<Rightarrow> word_of_nat (length (og_push_constants g)) | None \<Rightarrow> 0)"

fun hash_attrs :: "u64 \<Rightarrow> VertexAttr list \<Rightarrow> u64" where
  "hash_attrs h [] = h"
| "hash_attrs h (a # as) = hash_attrs
     (foldl (\<lambda>h v. hash_step h (ucast v)) h [vx_location a, vx_format a, vx_offset a]) as"

definition hash_vinput :: "OwnedForwardedDraw \<Rightarrow> u64" where
  "hash_vinput d = (case fd_geometry d of
     None \<Rightarrow> 0
   | Some g \<Rightarrow> if og_vertex_stride g = 0 then 0
       else hash_attrs (xor FNV_SEED (word_rotl 1 (ucast (og_vertex_stride g)))) (og_attrs g))"

record PipelineKey =
  pk_vs_hash :: u64
  pk_fs_hash :: u64
  pk_topology :: vk_topology
  pk_format :: vk_format
  pk_vinput_hash :: u64
  pk_depth_key :: u32
  pk_pc_size :: u32
  pk_desc_sig :: "DescriptorSig option"
  pk_raster_flags :: u32

definition pipeline_key :: "OwnedForwardedDraw \<Rightarrow> vk_format \<Rightarrow> PipelineKey" where
  "pipeline_key d format = \<lparr>pk_vs_hash = hash_spirv (fd_vertex_spirv d), pk_fs_hash = hash_spirv (fd_fragment_spirv d),
     pk_topology = map_topology (fd_topology d), pk_format = format, pk_vinput_hash = hash_vinput d,
     pk_depth_key = snd (depth_key_of d), pk_pc_size = push_const_size_of d, pk_desc_sig = desc_sig_of d,
     pk_raster_flags = raster_flags_of d\<rparr>"

text \<open>The content hash: four lanes of 8-byte words over whole 32-byte blocks, then the rest.\<close>

type_synonym lanes = "u64 \<times> u64 \<times> u64 \<times> u64"

definition lane_seeds :: lanes where
  "lane_seeds = (0xcbf29ce484222325, 0x84222325cbf29ce4, 0x100000001b3beef, 0xdeadbeefcafef00d)"

definition lane_step :: "lanes \<Rightarrow> bytes \<Rightarrow> lanes" where
  "lane_step h c = (case h of (a, b, e, f) \<Rightarrow>
     (hash_step a (get_u64 c 0), hash_step b (get_u64 c 8), hash_step e (get_u64 c 16), hash_step f (get_u64 c 24)))"

function hash_blocks :: "lanes \<Rightarrow> bytes \<Rightarrow> lanes \<times> bytes" where
  "hash_blocks h bs = (if length bs < 32 then (h, bs) else hash_blocks (lane_step h bs) (drop 32 bs))"
  by auto
termination by (relation "measure (\<lambda>(_, bs). length bs)") auto

function hash_words :: "u64 \<Rightarrow> bytes \<Rightarrow> u64 \<times> bytes" where
  "hash_words acc bs = (if length bs < 8 then (acc, bs) else hash_words (hash_step acc (get_u64 bs 0)) (drop 8 bs))"
  by auto
termination by (relation "measure (\<lambda>(_, bs). length bs)") auto

declare hash_blocks.simps [simp del] hash_words.simps [simp del]

definition content_hash :: "bytes \<Rightarrow> u64" where
  "content_hash data = (case hash_blocks lane_seeds data of ((a, b, c, d), rem) \<Rightarrow>
     (case hash_words (xor (xor (xor a (word_rotl 16 b)) (word_rotl 32 c)) (word_rotl 48 d)) rem of
       (acc, tail) \<Rightarrow> xor (foldl (\<lambda>acc x. hash_step acc (ucast x)) acc tail) (word_of_nat (length data) * FNV_PRIME)))"

definition geom_key :: "OwnedGeometry \<Rightarrow> u64" where
  "geom_key g = (let h = xor (content_hash (og_vertex_data g)) (word_rotl 32 (content_hash (og_index_data g)));
     h = xor h (word_of_nat (length (og_vertex_data g)) * FNV_PRIME);
     h = xor h (word_rotl 17 (word_of_nat (length (og_index_data g))))
     in xor h (push_bit 1 (of_bool (og_index_u32 g))))"

definition tex_key :: "OwnedTexture \<Rightarrow> u64" where
  "tex_key t = (let h = content_hash (ot_rgba t);
     h = xor h (xor (push_bit 40 (ucast (ot_width t))) (push_bit 8 (ucast (ot_height t))));
     h = xor h (push_bit 2 (of_bool (ot_linear t)))
     in xor h (push_bit 3 (of_bool (ot_repeat t))))"

subsection \<open>What a pipeline is built from\<close>

record PipelineInfo =
  pi_stages :: "(u64 \<times> bytes) list"
  pi_stride :: "u32 option"
  pi_attrs :: "(u32 \<times> vk_format \<times> u32) list"
  pi_topology :: vk_topology
  pi_cull :: vk_cull
  pi_front_cw :: bool
  pi_blend :: bool
  pi_depth :: "(bool \<times> bool \<times> vk_compare) option"
  pi_layout :: u64
  pi_render_pass :: u64

definition vertex_input :: "OwnedForwardedDraw \<Rightarrow> u32 option \<times> VertexAttr list" where
  "vertex_input d = (case fd_geometry d of
     Some g \<Rightarrow> if og_vertex_stride g \<noteq> 0 then (Some (og_vertex_stride g), og_attrs g) else (None, [])
   | None \<Rightarrow> (None, []))"

definition depth_state :: "OwnedForwardedDraw \<Rightarrow> (bool \<times> bool \<times> vk_compare) option" where
  "depth_state d = (case Option.bind (fd_geometry d) og_depth of
     Some s \<Rightarrow> if attachment_needed s then Some (dp_test s, dp_write s, map_compare (dp_compare s)) else None
   | None \<Rightarrow> None)"

definition pipeline_info :: "u64 \<Rightarrow> OwnedForwardedDraw \<Rightarrow> vk_topology \<Rightarrow> u64 \<Rightarrow> u64 \<Rightarrow> u64 \<Rightarrow> PipelineInfo" where
  "pipeline_info rp d topology vs fs layout = \<lparr>
     pi_stages = [(vs, fd_vertex_entry d), (fs, fd_fragment_entry d)],
     pi_stride = fst (vertex_input d),
     pi_attrs = map (\<lambda>a. (vx_location a, map_vformat (vx_format a), vx_offset a)) (snd (vertex_input d)),
     pi_topology = topology,
     pi_cull = map_cull_mode (raster_flags_of d),
     pi_front_cw = (and (raster_flags_of d) RASTER_FRONT_FACE_CW \<noteq> 0),
     pi_blend = (and (raster_flags_of d) RASTER_BLEND \<noteq> 0),
     pi_depth = depth_state d,
     pi_layout = layout,
     pi_render_pass = rp\<rparr>"

text \<open>The depth key determines the depth state: the compare operation is a three-bit field on the wire.\<close>

definition compare_ok :: "OwnedForwardedDraw \<Rightarrow> bool" where
  "compare_ok d = (case Option.bind (fd_geometry d) og_depth of Some s \<Rightarrow> dp_compare s < 8 | None \<Rightarrow> True)"

definition depth_bits :: "bool \<Rightarrow> bool \<Rightarrow> u32 \<Rightarrow> u32" where
  "depth_bits t w c = or (or (or 1 (push_bit 1 (of_bool t))) (push_bit 2 (of_bool w))) (push_bit 4 (and c 7))"

lemma small_compare:
  assumes "c < 8"
  shows "c \<in> {0, 1, 2, 3, 4, 5, 6, 7 :: u32}"
proof -
  have "c = word_of_nat (unat c)" by simp
  moreover have "unat c < 8" using assms by (simp add: word_less_nat_alt)
  then have "unat c = 0 \<or> unat c = 1 \<or> unat c = 2 \<or> unat c = 3 \<or> unat c = 4 \<or> unat c = 5 \<or> unat c = 6 \<or> unat c = 7"
    by linarith
  ultimately show ?thesis by (elim disjE) simp_all
qed

lemma depth_bits_compare:
  assumes "c < 8"
  shows "and (drop_bit 4 (depth_bits t w c)) 7 = c"
  using small_compare [OF assms] by (cases t; cases w) (auto simp: depth_bits_def)

lemma depth_bits_nonzero: "depth_bits t w c \<noteq> 0"
proof
  assume "depth_bits t w c = 0"
  moreover have "bit (depth_bits t w c) 0" by (simp add: depth_bits_def bit_simps)
  ultimately show False by simp
qed

lemma depth_bits_flags: "bit (depth_bits t w c) 1 = t" "bit (depth_bits t w c) 2 = w"
  by (cases t; cases w; simp add: depth_bits_def bit_simps bit_numeral_rec)+

lemma depth_bits_inject:
  assumes eq: "depth_bits t w c = depth_bits t' w' c'" and c: "c < 8" "c' < 8"
  shows "t = t' \<and> w = w' \<and> c = c'"
proof -
  have "t = t'" using depth_bits_flags(1) [of t w c] depth_bits_flags(1) [of t' w' c'] eq by simp
  moreover have "w = w'" using depth_bits_flags(2) [of t w c] depth_bits_flags(2) [of t' w' c'] eq by simp
  moreover have "c = c'" using depth_bits_compare [OF c(1), of t w] depth_bits_compare [OF c(2), of t' w'] eq by simp
  ultimately show ?thesis by blast
qed

lemma depth_key_of_eq: "depth_key_of d = (case Option.bind (fd_geometry d) og_depth of
    Some s \<Rightarrow> if attachment_needed s then (True, depth_bits (dp_test s) (dp_write s) (dp_compare s)) else (False, 0)
  | None \<Rightarrow> (False, 0))"
  unfolding depth_key_of_def depth_bits_def attachment_needed_def ..

lemma depth_key_state:
  assumes key: "snd (depth_key_of d) = snd (depth_key_of d')" and ok: "compare_ok d" "compare_ok d'"
  shows "depth_state d = depth_state d' \<and> fst (depth_key_of d) = fst (depth_key_of d')"
proof -
  have one: "depth_state d = None \<and> depth_key_of d = (False, 0) \<or>
      (\<exists>t w c. depth_state d = Some (t, w, map_compare c) \<and> depth_key_of d = (True, depth_bits t w c) \<and> c < 8)"
    if "compare_ok d" for d
    using that by (auto simp: depth_key_of_eq depth_state_def compare_ok_def split: option.splits)
  have key0: "fst (depth_key_of d) = (snd (depth_key_of d) \<noteq> 0)" if "compare_ok d" for d
    using one [OF that] depth_bits_nonzero by auto
  show ?thesis
  proof (cases "snd (depth_key_of d) = 0")
    case True
    then show ?thesis using key0 [OF ok(1)] key0 [OF ok(2)] one [OF ok(1)] one [OF ok(2)] key by auto
  next
    case False
    obtain t w c where d: "depth_state d = Some (t, w, map_compare c)" "depth_key_of d = (True, depth_bits t w c)" "c < 8"
      using one [OF ok(1)] False by auto
    obtain t' w' c' where d': "depth_state d' = Some (t', w', map_compare c')" "depth_key_of d' = (True, depth_bits t' w' c')" "c' < 8"
      using one [OF ok(2)] False key by auto
    have "depth_bits t w c = depth_bits t' w' c'" using key d(2) d'(2) by simp
    from depth_bits_inject [OF this d(3) d'(3)] show ?thesis using d d' by simp
  qed
qed



text \<open>The entry points are not part of the key, though the pipeline depends on them.\<close>

lemma entry_points_not_in_key:
  "pipeline_key (d\<lparr>fd_vertex_entry := e\<rparr>) f = pipeline_key d f"
  "pi_stages (pipeline_info rp (d\<lparr>fd_vertex_entry := e\<rparr>) top vs fs l) = [(vs, e), (fs, fd_fragment_entry d)]" for top :: vk_topology
  by (simp_all add: pipeline_key_def hash_vinput_def depth_key_of_def push_const_size_of_def desc_sig_of_def raster_flags_of_def pipeline_info_def)

end
