(* ===== verification/Replay_Vulkan.thy ===== *)
theory Replay_Vulkan
  imports Replay_Draw "HOL-Library.Multiset"
begin

text \<open>
  Calls into the Vulkan driver. The driver is not part of the repository: what it answers comes from a
  parameter \<open>driver\<close>, one answer per call, any of which may be an error. The model keeps the calls in order
  with their answers, the objects created and not yet destroyed, and whether every destroyed object was
  live. A call that returns \<open>VkResult\<close> is a program of type \<open>prog\<close>, and \<open>try_let\<close> is Rust's \<open>?\<close>.
\<close>

subsection \<open>Calls\<close>

datatype vk_kind = BufferObj | MemoryObj | ImageObj | ViewObj | SamplerObj | DescriptorPoolObj | SetLayoutObj
  | PipelineLayoutObj | PipelineObj | ModuleObj | RenderPassObj | FramebufferObj | CommandPoolObj | FenceObj

type_synonym vk_obj = "vk_kind \<times> u64"

datatype vk_usage = UsageTransferSrc | UsageTransferDst | UsageVertex | UsageIndex | UsageUniform | UsageStorage
datatype vk_image_usage = ImageSampled | ImageColorTarget | ImageDepthTarget | ImageTransfer
datatype vk_descriptor = UniformBuffer | StorageBuffer | SampledImage | SamplerDescriptor
datatype vk_stages = StagesVertexFragment | StagesFragment
datatype vk_mem_flag = DeviceLocal | HostVisible | HostCoherent | HostCached
datatype vk_layout = LayoutUndefined | LayoutTransferDst | LayoutTransferSrc | LayoutShaderRead

text \<open>What is recorded into a command buffer.\<close>

datatype vk_command =
    CmdImageBarrier u64 vk_layout vk_layout
  | CmdCopyBufferToImage u64 u64 u32 u32
  | CmdCopyRowsToImage u64 u64 u32 u32 u32
  | CmdBlitImage u64 u64 u32 u32
  | CmdBeginRenderPass u64 u64 u32 u32 "u32 list" bool
  | CmdBindPipeline u64
  | CmdBindDescriptorSet u64 u64
  | CmdPushConstants u64 bytes
  | CmdSetScissor u32 u32
  | CmdSetViewport "u32 \<times> u32 \<times> u32 \<times> u32"
  | CmdSetFullViewport u32 u32
  | CmdBindVertexBuffer u64
  | CmdBindIndexBuffer u64 bool
  | CmdDraw u32 u32 u32
  | CmdDrawIndexed u32 u32 u32 u32
  | CmdEndRenderPass
  | CmdCopyImageToBuffer u64 u64 u32 u32

datatype vk_call =
    CreateBuffer nat vk_usage
  | CreateImportBuffer nat
  | CreateExportBuffer nat bool
  | CreateImage u32 u32 vk_format vk_image_usage
  | CreateView u64 vk_format
  | CreateSampler bool bool
  | CreateDescriptorPool "(vk_descriptor \<times> nat) list"
  | CreateSetLayout "(u32 \<times> vk_descriptor \<times> vk_stages) list"
  | CreatePipelineLayout u32 "u64 list"
  | CreatePipeline PipelineInfo
  | CreateModule "u32 list"
  | CreateRenderPass vk_format bool
  | CreateFramebuffer u64 "u64 list" u32 u32
  | CreateCommandPool
  | CreateFence
  | AllocateMemory nat nat
  | ImportMemory u64 nat nat
  | AllocateExport nat nat bool
  | GetMemoryFd u64 bool
  | AllocateSet u64 u64
  | AllocateCommandBuffer u64
  | BufferRequirements u64
  | ImageRequirements u64
  | HostPointerProperties u64
  | BindBufferMemory u64 u64
  | BindImageMemory u64 u64
  | MapMemory u64 nat
  | WriteMapped u64 bytes
  | UnmapMemory u64
  | InvalidateMapped u64
  | WriteDescriptors u64 "(u32 \<times> vk_descriptor \<times> u64) list"
  | ResetCommandPool u64
  | BeginCommandBuffer u64
  | RecordCommand u64 vk_command
  | EndCommandBuffer u64
  | ResetFence u64
  | QueueSubmit u64 u64
  | WaitFence u64
  | DeviceWaitIdle
  | DestroyObject vk_obj

record Answer =
  an_ok :: bool
  an_handle :: u64
  an_size :: nat
  an_bits :: u32

type_synonym driver = "nat \<Rightarrow> Answer"

datatype gpu_error = VkError | NoMemoryType | EmptyGeometry | BadTexture u32 u32 nat | BadUniform nat
  | BadStorage nat | TooManyTextures nat | GeometryNeedsCopyPath | NoHostImport | MisalignedPointer | NoHostMemory
  | BadConvertGeometry | ConvertTooShort | NoExport

text \<open>The device: its call log, its live objects, and no object destroyed that was not live.\<close>

record Device =
  dv_log :: "(vk_call \<times> Answer) list"
  dv_live :: "vk_obj multiset"
  dv_sound :: bool

definition device_new :: Device where
  "device_new = \<lparr>dv_log = [], dv_live = {#}, dv_sound = True\<rparr>"

definition call :: "driver \<Rightarrow> vk_call \<Rightarrow> Device \<Rightarrow> Answer \<times> Device" where
  "call W c d = (let a = W (length (dv_log d)) in (a, d\<lparr>dv_log := dv_log d @ [(c, a)]\<rparr>))"

definition destroy :: "driver \<Rightarrow> vk_kind \<Rightarrow> u64 \<Rightarrow> Device \<Rightarrow> Device" where
  "destroy W k h d = (let d = snd (call W (DestroyObject (k, h)) d) in
     d\<lparr>dv_live := dv_live d - {#(k, h)#}, dv_sound := dv_sound d \<and> (k, h) \<in># dv_live d\<rparr>)"

subsection \<open>Programs\<close>

type_synonym ('s, 'a) prog = "'s \<Rightarrow> (gpu_error + 'a) \<times> 's"

definition ret :: "'a \<Rightarrow> ('s, 'a) prog" where
  "ret x s = (Inr x, s)"

definition fail :: "gpu_error \<Rightarrow> ('s, 'a) prog" where
  "fail e s = (Inl e, s)"

definition try_let :: "('s, 'a) prog \<Rightarrow> ('a \<Rightarrow> ('s, 'b) prog) \<Rightarrow> ('s, 'b) prog" where
  "try_let m k s = (case m s of (Inl e, s') \<Rightarrow> (Inl e, s') | (Inr x, s') \<Rightarrow> k x s')"

definition try_option :: "gpu_error \<Rightarrow> 'a option \<Rightarrow> ('a \<Rightarrow> ('s, 'b) prog) \<Rightarrow> ('s, 'b) prog" where
  "try_option e r k = (case r of None \<Rightarrow> fail e | Some x \<Rightarrow> k x)"

text \<open>A call that cannot fail, one that can, and one that creates an object.\<close>

definition ask :: "driver \<Rightarrow> vk_call \<Rightarrow> (Device, Answer) prog" where
  "ask W c d = (case call W c d of (a, d') \<Rightarrow> (Inr a, d'))"

definition attempt :: "driver \<Rightarrow> vk_call \<Rightarrow> (Device, Answer) prog" where
  "attempt W c d = (case call W c d of (a, d') \<Rightarrow> (if an_ok a then Inr a else Inl VkError, d'))"

definition create :: "driver \<Rightarrow> vk_kind \<Rightarrow> vk_call \<Rightarrow> (Device, u64) prog" where
  "create W k c d = (case call W c d of (a, d') \<Rightarrow>
     if an_ok a then (Inr (an_handle a), d'\<lparr>dv_live := dv_live d' + {#(k, an_handle a)#}\<rparr>) else (Inl VkError, d'))"

definition tell :: "driver \<Rightarrow> vk_call list \<Rightarrow> (Device, unit) prog" where
  "tell W cs d = (Inr (), foldl (\<lambda>d c. snd (call W c d)) d cs)"

definition destroy_all :: "driver \<Rightarrow> vk_obj list \<Rightarrow> Device \<Rightarrow> Device" where
  "destroy_all W objs d = foldl (\<lambda>d (k, h). destroy W k h d) d objs"

subsection \<open>Partly built objects\<close>

text \<open>A builder creates several objects and holds each in a variable or guard field that starts null. When a
  step fails, the cleanup walks those variables in the order the code does and destroys the ones that are
  set. A handle the driver returns is not null.\<close>

datatype slot = Staging | StagingMem | TexImage | TexImageMem | TexView | TexSampler
  | MeshMem | MeshBuffer | DescPool | UboBuffer nat | UboMem nat | SsboBuffer | SsboMem
  | ScFence | ScPool | ScExportBuffer | ScExportMem | ScReadback | ScRbMem | ScPipeline | ScLayout | ScVsModule
  | ScFsModule | ScFramebuffer | ScRenderPass | ScView | ScImage | ScImgMem | ScDepthView | ScDepthImage | ScDepthMem
  | CtxPool | CtxFence | ImpBuffer | ImpMem | CvDstImage | CvDstMem | CvSrcImage | CvSrcMem

fun slot_kind :: "slot \<Rightarrow> vk_kind" where
  "slot_kind Staging = BufferObj" | "slot_kind StagingMem = MemoryObj" | "slot_kind TexImage = ImageObj"
| "slot_kind TexImageMem = MemoryObj" | "slot_kind TexView = ViewObj" | "slot_kind TexSampler = SamplerObj"
| "slot_kind MeshMem = MemoryObj" | "slot_kind MeshBuffer = BufferObj" | "slot_kind DescPool = DescriptorPoolObj"
| "slot_kind (UboBuffer i) = BufferObj" | "slot_kind (UboMem i) = MemoryObj" | "slot_kind SsboBuffer = BufferObj"
| "slot_kind SsboMem = MemoryObj" | "slot_kind ScFence = FenceObj" | "slot_kind ScPool = CommandPoolObj"
| "slot_kind ScExportBuffer = BufferObj" | "slot_kind ScExportMem = MemoryObj" | "slot_kind ScReadback = BufferObj"
| "slot_kind ScRbMem = MemoryObj" | "slot_kind ScPipeline = PipelineObj" | "slot_kind ScLayout = PipelineLayoutObj"
| "slot_kind ScVsModule = ModuleObj" | "slot_kind ScFsModule = ModuleObj" | "slot_kind ScFramebuffer = FramebufferObj"
| "slot_kind ScRenderPass = RenderPassObj" | "slot_kind ScView = ViewObj" | "slot_kind ScImage = ImageObj"
| "slot_kind ScImgMem = MemoryObj" | "slot_kind ScDepthView = ViewObj" | "slot_kind ScDepthImage = ImageObj"
| "slot_kind ScDepthMem = MemoryObj" | "slot_kind CtxPool = CommandPoolObj" | "slot_kind CtxFence = FenceObj" | "slot_kind ImpBuffer = BufferObj" | "slot_kind ImpMem = MemoryObj"
| "slot_kind CvDstImage = ImageObj" | "slot_kind CvDstMem = MemoryObj" | "slot_kind CvSrcImage = ImageObj" | "slot_kind CvSrcMem = MemoryObj"

type_synonym slots = "(slot \<times> u64) list"
type_synonym 'a builder = "(Device \<times> slots, 'a) prog"

definition grab :: "driver \<Rightarrow> slot \<Rightarrow> vk_call \<Rightarrow> u64 builder" where
  "grab W s c = (\<lambda>(d, t). case create W (slot_kind s) c d of
     (Inl e, d') \<Rightarrow> (Inl e, (d', t)) | (Inr h, d') \<Rightarrow> (Inr h, (d', (s, h) # t)))"

definition with_dev :: "(Device, 'a) prog \<Rightarrow> 'a builder" where
  "with_dev m = (\<lambda>(d, t). case m d of (r, d') \<Rightarrow> (r, (d', t)))"

definition release :: "driver \<Rightarrow> slot list \<Rightarrow> slots \<Rightarrow> Device \<Rightarrow> Device" where
  "release W order t d = foldl (\<lambda>d s. case map_of t s of Some h \<Rightarrow> destroy W (slot_kind s) h d | None \<Rightarrow> d) d order"

definition build :: "driver \<Rightarrow> slot list \<Rightarrow> 'a builder \<Rightarrow> (Device, 'a) prog" where
  "build W order body d = (case body (d, []) of
     (Inl e, (d', t)) \<Rightarrow> (Inl e, release W order t d')
   | (Inr x, (d', t)) \<Rightarrow> (Inr x, d'))"

subsection \<open>Ownership\<close>

named_theorems owns_rules "rules of the ownership calculus"

text \<open>\<open>owns L d\<close>: exactly the objects \<open>L\<close> are live, and nothing was destroyed twice. \<open>makes m own\<close>: when the
  program succeeds it has added the objects its result owns; when it fails it has left nothing behind.\<close>

definition owns :: "vk_obj multiset \<Rightarrow> Device \<Rightarrow> bool" where
  "owns L d \<longleftrightarrow> dv_sound d \<and> dv_live d = L"

definition makes :: "(Device, 'a) prog \<Rightarrow> ('a \<Rightarrow> vk_obj multiset) \<Rightarrow> bool" where
  "makes m own \<longleftrightarrow> (\<forall>L d. owns L d \<longrightarrow>
     (case m d of (Inr x, d') \<Rightarrow> owns (L + own x) d' | (Inl e, d') \<Rightarrow> owns L d'))"

lemma owns_call [simp]: "owns L (snd (call W c d)) = owns L d"
  by (simp add: owns_def call_def Let_def)

lemma owns_tell [simp]: "owns L (snd (tell W cs d)) = owns L d"
  by (induction cs arbitrary: d) (simp_all add: tell_def)

lemma fst_tell [simp]: "fst (tell W cs d) = Inr ()"
  by (simp add: tell_def)

lemma owns_destroy: "owns (L + {#(k, h)#}) d \<Longrightarrow> owns L (destroy W k h d)"
  by (simp add: owns_def destroy_def call_def Let_def)

lemma owns_destroy_all: "owns (L + mset objs) d \<Longrightarrow> owns L (destroy_all W objs d)"
proof (induction objs arbitrary: d)
  case (Cons a objs)
  obtain k h where a: "a = (k, h)" by (cases a)
  have "owns (L + mset objs) (destroy W k h d)" by (rule owns_destroy) (use Cons.prems a in \<open>simp add: ac_simps\<close>)
  from Cons.IH [OF this] show ?case by (simp add: destroy_all_def a)
qed (simp add: destroy_all_def)

text \<open>\<open>chain\<close> is \<open>makes\<close> inside a builder, which has set the variables \<open>t\<close> so far.\<close>

definition objs :: "slots \<Rightarrow> vk_obj multiset" where
  "objs t = mset (map (\<lambda>(s, h). (slot_kind s, h)) t)"

definition tidy :: "slot list \<Rightarrow> slots \<Rightarrow> bool" where
  "tidy order t \<longleftrightarrow> distinct order \<and> distinct (map fst t) \<and> fst ` set t \<subseteq> set order"

definition chain :: "slot list \<Rightarrow> slots \<Rightarrow> 'a builder \<Rightarrow> ('a \<Rightarrow> vk_obj multiset) \<Rightarrow> bool" where
  "chain order t body own \<longleftrightarrow> (\<forall>L d. owns (L + objs t) d \<longrightarrow>
     (case body (d, t) of (Inr x, (d', t')) \<Rightarrow> owns (L + own x) d' \<and> objs t' = own x \<and> tidy order t'
      | (Inl e, (d', t')) \<Rightarrow> owns (L + objs t') d' \<and> tidy order t'))"

lemma objs_simps [simp]: "objs [] = {#}" "objs ((s, h) # t) = objs t + {#(slot_kind s, h)#}"
  by (simp_all add: objs_def)

text \<open>Cleaning up visits every variable that is set, once.\<close>

definition held_in :: "slots \<Rightarrow> slot \<Rightarrow> vk_obj list" where
  "held_in t s = (case map_of t s of Some h \<Rightarrow> [(slot_kind s, h)] | None \<Rightarrow> [])"

lemma held_in_Cons: "held_in ((s, h) # t) s' = (if s' = s then [(slot_kind s, h)] else held_in t s')"
  by (simp add: held_in_def)

lemma objs_in_order: "tidy order t \<Longrightarrow> objs t = mset (concat (map (held_in t) order))"
proof (induction t arbitrary: order)
  case Nil
  then show ?case by (simp add: objs_def held_in_def)
next
  case (Cons p t)
  obtain s h where p: "p = (s, h)" by (cases p)
  from Cons.prems p have s: "s \<in> set order" "s \<notin> set (map fst t)" "distinct order" and tt: "tidy order t"
    by (auto simp: tidy_def)
  from s obtain a b where order: "order = a @ s # b" "s \<notin> set a" "s \<notin> set b"
    by (metis distinct.simps(2) distinct_append not_distinct_conv_prefix split_list_first)
  have "held_in t s = []" using s(2) by (simp add: held_in_def map_of_eq_None_iff split: option.split)
  then have old: "objs t = mset (concat (map (held_in t) a)) + mset (concat (map (held_in t) b))"
    using Cons.IH [OF tt] by (simp add: order(1))
  have same: "map (held_in (p # t)) xs = map (held_in t) xs" if "s \<notin> set xs" for xs
    using that by (auto simp: p held_in_Cons)
  have "concat (map (held_in (p # t)) order) = concat (map (held_in t) a) @ (slot_kind s, h) # concat (map (held_in t) b)"
    unfolding order(1) map_append concat_append list.map same [OF order(2)] same [OF order(3)]
    by (simp add: p held_in_Cons)
  then show ?case using old by (simp add: p)
qed

lemma release_as_destroy_all: "release W order t d = destroy_all W (concat (map (held_in t) order)) d"
  by (induction order arbitrary: d) (auto simp: release_def destroy_all_def held_in_def split: option.split)

lemma owns_release: "tidy order t \<Longrightarrow> owns (L + objs t) d \<Longrightarrow> owns L (release W order t d)"
  using owns_destroy_all objs_in_order unfolding release_as_destroy_all by metis

lemma makes_build: 
  assumes "chain order [] body own"
  shows "makes (build W order body) own"
  unfolding makes_def
proof (intro allI impI)
  fix L d assume "owns L d"
  then have "case body (d, []) of (Inr x, (d', t')) \<Rightarrow> owns (L + own x) d' \<and> objs t' = own x \<and> tidy order t'
      | (Inl e, (d', t')) \<Rightarrow> owns (L + objs t') d' \<and> tidy order t'"
    using assms by (simp add: chain_def)
  then show "case build W order body d of (Inr x, d') \<Rightarrow> owns (L + own x) d' | (Inl e, d') \<Rightarrow> owns L d'"
    by (auto simp: build_def owns_release split: prod.splits sum.splits)
qed

subsubsection \<open>Rules\<close>

lemma chain_grab [owns_rules]:
  assumes "\<And>h. chain order ((s, h) # t) (k h) own" "tidy order t"
  shows "chain order t (try_let (grab W s c) k) own"
  unfolding chain_def
proof (intro allI impI)
  fix L d assume d: "owns (L + objs t) d"
  let ?a = "fst (call W c d)" and ?d = "snd (call W c d)"
  have d': "owns (L + objs t) ?d" using d by simp
  show "case try_let (grab W s c) k (d, t) of (Inr x, d', t') \<Rightarrow> owns (L + own x) d' \<and> objs t' = own x \<and> tidy order t'
     | (Inl e, d', t') \<Rightarrow> owns (L + objs t') d' \<and> tidy order t'"
  proof (cases "an_ok ?a")
    case False
    then show ?thesis using d' assms(2) by (simp add: try_let_def grab_def create_def split_beta)
  next
    case True
    let ?h = "an_handle ?a"
    have "owns (L + objs ((s, ?h) # t)) (?d\<lparr>dv_live := dv_live ?d + {#(slot_kind s, ?h)#}\<rparr>)"
      using d' by (simp add: owns_def ac_simps)
    from assms(1) [of ?h, unfolded chain_def, rule_format, OF this] True
    show ?thesis by (simp add: try_let_def grab_def create_def split_beta)
  qed
qed

lemma chain_ask [owns_rules]:
  "(\<And>a. chain order t (k a) own) \<Longrightarrow> chain order t (try_let (with_dev (ask W c)) k) own"
  by (simp add: chain_def try_let_def with_dev_def ask_def split_beta)

lemma chain_tell [owns_rules]:
  "chain order t (k ()) own \<Longrightarrow> chain order t (try_let (with_dev (tell W cs)) k) own"
  by (simp add: chain_def try_let_def with_dev_def split_beta)

lemma chain_attempt [owns_rules]:
  assumes "\<And>a. chain order t (k a) own" "tidy order t"
  shows "chain order t (try_let (with_dev (attempt W c)) k) own"
  unfolding chain_def
proof (intro allI impI)
  fix L d assume d: "owns (L + objs t) d"
  obtain a d' where c: "call W c d = (a, d')" by (cases "call W c d")
  have d': "owns (L + objs t) d'" using d owns_call [of "L + objs t" W c d] by (simp add: c)
  show "case try_let (with_dev (attempt W c)) k (d, t) of (Inr x, d', t') \<Rightarrow> owns (L + own x) d' \<and> objs t' = own x \<and> tidy order t'
     | (Inl e, d', t') \<Rightarrow> owns (L + objs t') d' \<and> tidy order t'"
    using assms(1) [of a, unfolded chain_def, rule_format, OF d'] d' assms(2)
    by (simp add: try_let_def with_dev_def attempt_def c)
qed

lemma chain_option [owns_rules]:
  "(\<And>x. r = Some x \<Longrightarrow> chain order t (k x) own) \<Longrightarrow> tidy order t \<Longrightarrow> chain order t (try_option e r k) own"
  by (cases r) (simp_all add: chain_def try_option_def fail_def)

lemma chain_ret [owns_rules]: "objs t = own x \<Longrightarrow> tidy order t \<Longrightarrow> chain order t (ret x) own"
  by (simp add: chain_def ret_def)

lemma chain_fail [owns_rules]: "tidy order t \<Longrightarrow> chain order t (fail e) own"
  by (simp add: chain_def fail_def)

lemma chain_if [owns_rules]:
  "(b \<Longrightarrow> chain order t m own) \<Longrightarrow> (\<not> b \<Longrightarrow> chain order t m' own) \<Longrightarrow> chain order t (if b then m else m') own"
  by simp

lemma chain_prod [owns_rules]:
  "(\<And>a b. x = (a, b) \<Longrightarrow> chain order t (m a b) own) \<Longrightarrow> chain order t (case x of (a, b) \<Rightarrow> m a b) own"
  by (cases x) simp

lemma makes_create [owns_rules]: "makes (create W k c) (\<lambda>h. {#(k, h)#})"
  by (auto simp: makes_def create_def call_def Let_def owns_def split_beta)

lemma makes_attempt [owns_rules]: "makes (attempt W c) (\<lambda>_. {#})"
  by (simp add: makes_def attempt_def split_beta)

lemma tidy_simps [simp]:
  "tidy order [] = distinct order"
  "tidy order ((s, h) # t) = (s \<in> set order \<and> s \<notin> fst ` set t \<and> tidy order t)"
  by (auto simp: tidy_def)

end
