(* ===== verification/Replay_Objects.thy ===== *)
theory Replay_Objects
  imports Replay_Vulkan
begin

text \<open>
  The builders of \<open>HostGpu\<close> in \<open>crates/infinigpu-replay/src/lib.rs\<close>: each creates a group of Vulkan objects and,
  when any step fails, destroys what it had created. \<open>mems\<close> is the device's memory-type table.
\<close>

subsection \<open>Memory types\<close>

type_synonym mem_types = "vk_mem_flag list list"

definition find_mem :: "mem_types \<Rightarrow> u32 \<Rightarrow> vk_mem_flag list \<Rightarrow> nat option" where
  "find_mem mems bits flags = find (\<lambda>i. bit bits i \<and> set flags \<subseteq> set (mems ! i)) [0..<length mems]"

definition find_readback_mem :: "mem_types \<Rightarrow> u32 \<Rightarrow> (nat \<times> bool) option" where
  "find_readback_mem mems bits = (case find_mem mems bits [HostVisible, HostCached, HostCoherent] of
     Some i \<Rightarrow> Some (i, True)
   | None \<Rightarrow> (case find_mem mems bits [HostVisible, HostCached] of
       Some i \<Rightarrow> Some (i, False)
     | None \<Rightarrow> map_option (\<lambda>i. (i, True)) (find_mem mems bits [HostVisible, HostCoherent])))"

subsection \<open>Filled buffers\<close>

text \<open>A host-visible buffer created in the variables \<open>sb\<close> and \<open>sm\<close> and filled with \<open>data\<close>; \<open>k\<close> is the rest.\<close>

definition filled_buffer :: "driver \<Rightarrow> mem_types \<Rightarrow> slot \<Rightarrow> slot \<Rightarrow> vk_usage \<Rightarrow> bytes \<Rightarrow> (u64 \<Rightarrow> u64 \<Rightarrow> 'a builder) \<Rightarrow> 'a builder" where
  "filled_buffer W mems sb sm usage data k =
     try_let (grab W sb (CreateBuffer (length data) usage)) (\<lambda>buf.
     try_let (with_dev (ask W (BufferRequirements buf))) (\<lambda>req.
     try_option NoMemoryType (find_mem mems (an_bits req) [HostVisible, HostCoherent]) (\<lambda>mt.
     try_let (grab W sm (AllocateMemory (an_size req) mt)) (\<lambda>mem.
     try_let (with_dev (attempt W (BindBufferMemory buf mem))) (\<lambda>_.
     try_let (with_dev (attempt W (MapMemory mem (length data)))) (\<lambda>_.
     try_let (with_dev (tell W [WriteMapped mem data, UnmapMemory mem])) (\<lambda>_.
     k buf mem)))))))"

lemma chain_filled_buffer [owns_rules]:
  assumes "\<And>b m. chain order ((sm, m) # (sb, b) # t) (k b m) own"
    and "tidy order t" "sb \<in> set order" "sm \<in> set order" "sb \<notin> fst ` set t" "sm \<notin> fst ` set t" "sb \<noteq> sm"
  shows "chain order t (filled_buffer W mems sb sm usage data k) own"
  unfolding filled_buffer_def using assms by (intro owns_rules) simp_all

subsection \<open>Meshes\<close>

record GeometryGpu =
  gg_vbo :: u64
  gg_vbo_mem :: u64
  gg_ibo :: "(u64 \<times> u64) option"

definition geometry_objs :: "GeometryGpu \<Rightarrow> vk_obj list" where
  "geometry_objs g = [(BufferObj, gg_vbo g), (MemoryObj, gg_vbo_mem g)] @
     (case gg_ibo g of Some (b, m) \<Rightarrow> [(BufferObj, b), (MemoryObj, m)] | None \<Rightarrow> [])"

definition mesh_buffer :: "driver \<Rightarrow> mem_types \<Rightarrow> bytes \<Rightarrow> vk_usage \<Rightarrow> (Device, u64 \<times> u64) prog" where
  "mesh_buffer W mems data usage = (if data = [] then fail EmptyGeometry
     else build W [MeshMem, MeshBuffer] (filled_buffer W mems MeshBuffer MeshMem usage data (\<lambda>b m. ret (b, m))))"

definition upload_geometry :: "driver \<Rightarrow> mem_types \<Rightarrow> OwnedGeometry \<Rightarrow> (Device, GeometryGpu) prog" where
  "upload_geometry W mems g = try_let (mesh_buffer W mems (og_vertex_data g) UsageVertex) (\<lambda>(vbo, vbo_mem).
     if og_index_data g = [] then ret \<lparr>gg_vbo = vbo, gg_vbo_mem = vbo_mem, gg_ibo = None\<rparr>
     else (\<lambda>d. case mesh_buffer W mems (og_index_data g) UsageIndex d of
         (Inr x, d) \<Rightarrow> (Inr \<lparr>gg_vbo = vbo, gg_vbo_mem = vbo_mem, gg_ibo = Some x\<rparr>, d)
       | (Inl e, d) \<Rightarrow> (Inl e, destroy_all W [(BufferObj, vbo), (MemoryObj, vbo_mem)] d)))"

lemma makes_mesh_buffer: "makes (mesh_buffer W mems data usage) (\<lambda>(b, m). {#(BufferObj, b), (MemoryObj, m)#})"
proof (cases "data = []")
  case True
  then show ?thesis by (simp add: mesh_buffer_def makes_def fail_def)
next
  case False
  have "chain [MeshMem, MeshBuffer] [] (filled_buffer W mems MeshBuffer MeshMem usage data (\<lambda>b m. ret (b, m)))
      (\<lambda>(b, m). {#(BufferObj, b), (MemoryObj, m)#})"
    by (intro owns_rules) simp_all
  from makes_build [OF this] False show ?thesis by (simp add: mesh_buffer_def)
qed

text \<open>Sequencing of programs that own what they made: what the first made is released by the second when it
  fails.\<close>

lemma makes_bind:
  assumes m: "makes m own" and k: "\<And>x L d. owns (L + own x) d \<Longrightarrow>
      (case k x d of (Inr y, d') \<Rightarrow> owns (L + own' y) d' | (Inl e, d') \<Rightarrow> owns L d')"
  shows "makes (try_let m k) own'"
  unfolding makes_def
proof (intro allI impI)
  fix L d assume d: "owns L d"
  obtain r d' where md: "m d = (r, d')" by (cases "m d")
  show "case try_let m k d of (Inr x, d') \<Rightarrow> owns (L + own' x) d' | (Inl e, d') \<Rightarrow> owns L d'"
    using m [unfolded makes_def, rule_format, OF d] k [of L _ d'] by (cases r) (simp_all add: md try_let_def)
qed

lemma makes_elim:
  assumes "makes m own" "owns L d"
  shows "(\<exists>e d'. m d = (Inl e, d') \<and> owns L d') \<or> (\<exists>x d'. m d = (Inr x, d') \<and> owns (L + own x) d')"
  using assms unfolding makes_def by (cases "m d"; cases "fst (m d)") force+

lemma makes_upload_geometry [owns_rules]: "makes (upload_geometry W mems g) (mset \<circ> geometry_objs)"
  unfolding upload_geometry_def
proof (rule makes_bind [OF makes_mesh_buffer], goal_cases)
  case (1 x L d)
  obtain b m where x: "x = (b, m)" by (cases x)
  show ?case
  proof (cases "og_index_data g = []")
    case True
    then show ?thesis using 1 by (simp add: x ret_def geometry_objs_def)
  next
    case False
    have own: "owns (L + mset [(BufferObj, b), (MemoryObj, m)]) d" using 1 by (simp add: x)
    from makes_elim [OF makes_mesh_buffer own, of W mems "og_index_data g" UsageIndex] show ?thesis
      using False owns_destroy_all [of L "[(BufferObj, b), (MemoryObj, m)]" _ W]
      by (auto simp: x geometry_objs_def ac_simps)
  qed
qed

subsection \<open>Textures\<close>

text \<open>Both upload paths create the same six objects; \<open>k\<close> gets them and the image's memory size.\<close>

definition texture_bad :: "OwnedTexture \<Rightarrow> bool" where
  "texture_bad t = (let w = unat (ot_width t); h = unat (ot_height t) in
     w = 0 \<or> h = 0 \<or> 16384 < w \<or> 16384 < h \<or> w * h * 4 \<noteq> length (ot_rgba t))"

record TextureGpu =
  tg_staging :: u64
  tg_staging_mem :: u64
  tg_image :: u64
  tg_image_mem :: u64
  tg_view :: u64
  tg_sampler :: u64
  tg_width :: u32
  tg_height :: u32

definition texture_objs :: "TextureGpu \<Rightarrow> vk_obj list" where
  "texture_objs t = [(SamplerObj, tg_sampler t), (ViewObj, tg_view t), (ImageObj, tg_image t),
     (MemoryObj, tg_image_mem t), (BufferObj, tg_staging t), (MemoryObj, tg_staging_mem t)]"

definition texture_cleanup :: "slot list" where
  "texture_cleanup = [TexSampler, TexView, TexImage, TexImageMem, Staging, StagingMem]"

definition texture_objects :: "driver \<Rightarrow> mem_types \<Rightarrow> OwnedTexture \<Rightarrow> (TextureGpu \<Rightarrow> nat \<Rightarrow> 'a builder) \<Rightarrow> 'a builder" where
  "texture_objects W mems tex k =
     filled_buffer W mems Staging StagingMem UsageTransferSrc (ot_rgba tex) (\<lambda>staging staging_mem.
     try_let (grab W TexImage (CreateImage (ot_width tex) (ot_height tex) FORMAT_R8G8B8A8_UNORM ImageSampled)) (\<lambda>img.
     try_let (with_dev (ask W (ImageRequirements img))) (\<lambda>req.
     try_option NoMemoryType (find_mem mems (an_bits req) [DeviceLocal]) (\<lambda>mt.
     try_let (grab W TexImageMem (AllocateMemory (an_size req) mt)) (\<lambda>image_mem.
     try_let (with_dev (attempt W (BindImageMemory img image_mem))) (\<lambda>_.
     try_let (grab W TexView (CreateView img FORMAT_R8G8B8A8_UNORM)) (\<lambda>view.
     try_let (grab W TexSampler (CreateSampler (ot_linear tex) (ot_repeat tex))) (\<lambda>sampler.
     k \<lparr>tg_staging = staging, tg_staging_mem = staging_mem, tg_image = img, tg_image_mem = image_mem,
        tg_view = view, tg_sampler = sampler, tg_width = ot_width tex, tg_height = ot_height tex\<rparr> (an_size req)))))))))"

definition upload_texture_into :: "driver \<Rightarrow> mem_types \<Rightarrow> OwnedTexture \<Rightarrow> u64 \<Rightarrow> u32 \<Rightarrow> (Device, TextureGpu) prog" where
  "upload_texture_into W mems tex dset binding =
    (if texture_bad tex then fail (BadTexture (ot_width tex) (ot_height tex) (length (ot_rgba tex)))
     else build W texture_cleanup (texture_objects W mems tex (\<lambda>t _.
       try_let (with_dev (tell W [WriteDescriptors dset [(binding, SampledImage, tg_view t),
         (binding + 1, SamplerDescriptor, tg_sampler t)]])) (\<lambda>_. ret t))))"

record PendingTexUpload =
  pt_binding :: u32
  pt_key :: u64
  pt_gpu :: TextureGpu
  pt_bytes :: nat

definition alloc_resident_texture :: "driver \<Rightarrow> mem_types \<Rightarrow> OwnedTexture \<Rightarrow> u32 \<Rightarrow> u64 \<Rightarrow> (Device, PendingTexUpload) prog" where
  "alloc_resident_texture W mems tex binding key =
     build W texture_cleanup (texture_objects W mems tex (\<lambda>t size.
       ret \<lparr>pt_binding = binding, pt_key = key, pt_gpu = t, pt_bytes = max size (length (ot_rgba tex))\<rparr>))"

lemma chain_texture_objects:
  assumes "\<And>t n. chain texture_cleanup [(TexSampler, tg_sampler t), (TexView, tg_view t), (TexImageMem, tg_image_mem t),
      (TexImage, tg_image t), (StagingMem, tg_staging_mem t), (Staging, tg_staging t)] (k t n) own"
  shows "chain texture_cleanup [] (texture_objects W mems tex k) own"
  unfolding texture_objects_def
  by (intro owns_rules) (simp_all add: texture_cleanup_def assms [unfolded texture_cleanup_def,
      of "\<lparr>tg_staging = _, tg_staging_mem = _, tg_image = _, tg_image_mem = _, tg_view = _, tg_sampler = _, tg_width = _, tg_height = _\<rparr>", simplified])

lemma makes_upload_texture_into [owns_rules]: "makes (upload_texture_into W mems tex dset binding) (mset \<circ> texture_objs)"
proof (cases "texture_bad tex")
  case True
  then show ?thesis by (simp add: upload_texture_into_def makes_def fail_def)
next
  case False
  have "chain texture_cleanup [] (texture_objects W mems tex (\<lambda>t _.
       try_let (with_dev (tell W [WriteDescriptors dset [(binding, SampledImage, tg_view t),
         (binding + 1, SamplerDescriptor, tg_sampler t)]])) (\<lambda>_. ret t))) (mset \<circ> texture_objs)"
    by (intro chain_texture_objects chain_tell chain_ret) (simp_all add: texture_objs_def texture_cleanup_def)
  from makes_build [OF this] False show ?thesis by (simp add: upload_texture_into_def)
qed

lemma makes_alloc_resident_texture [owns_rules]:
  "makes (alloc_resident_texture W mems tex binding key) (mset \<circ> texture_objs \<circ> pt_gpu)"
  unfolding alloc_resident_texture_def
  by (intro makes_build chain_texture_objects chain_ret) (simp_all add: texture_objs_def texture_cleanup_def)

subsection \<open>Descriptor set layouts\<close>

definition set_layout_bindings :: "DescriptorSig \<Rightarrow> (u32 \<times> vk_descriptor \<times> vk_stages) list" where
  "set_layout_bindings sig =
     map (\<lambda>b. (b, UniformBuffer, StagesVertexFragment)) (take (unat (ds_ubo_count sig)) (ds_ubo_bindings sig)) @
     (case ds_ssbo_binding sig of Some b \<Rightarrow> [(b, StorageBuffer, StagesVertexFragment)] | None \<Rightarrow> []) @
     (case ds_tex_binding sig of
        Some base \<Rightarrow> concat (map (\<lambda>i. let b = base + 2 * word_of_nat i in
          [(b, SampledImage, StagesFragment), (b + 1, SamplerDescriptor, StagesFragment)]) [0..<unat (ds_tex_count sig)])
      | None \<Rightarrow> [])"

subsection \<open>Frame descriptors\<close>

record FrameDescriptors =
  fd_pool :: u64
  fd_set :: u64
  fd_ubos :: "(u64 \<times> u64) list"
  fd_ssbo :: "(u64 \<times> u64) option"
  fd_tex :: "TextureGpu list"

definition descriptor_objs :: "FrameDescriptors \<Rightarrow> vk_obj list" where
  "descriptor_objs f = (DescriptorPoolObj, fd_pool f) #
     concat (map (\<lambda>(b, m). [(BufferObj, b), (MemoryObj, m)]) (fd_ubos f)) @
     (case fd_ssbo f of Some (b, m) \<Rightarrow> [(BufferObj, b), (MemoryObj, m)] | None \<Rightarrow> []) @
     concat (map texture_objs (fd_tex f))"

definition pool_sizes :: "OwnedGeometry \<Rightarrow> (vk_descriptor \<times> nat) list" where
  "pool_sizes g = (if og_uniforms g \<noteq> [] then [(UniformBuffer, length (og_uniforms g))] else []) @
     (if og_storage g \<noteq> None then [(StorageBuffer, 1)] else []) @
     (if og_textures g \<noteq> [] then [(SampledImage, length (og_textures g)), (SamplerDescriptor, length (og_textures g))] else [])"

fun upload_ubos :: "driver \<Rightarrow> mem_types \<Rightarrow> u64 \<Rightarrow> nat \<Rightarrow> OwnedUniform list \<Rightarrow> (u64 \<times> u64) list \<Rightarrow>
    ((u64 \<times> u64) list \<Rightarrow> 'a builder) \<Rightarrow> 'a builder" where
  "upload_ubos W mems dset i [] ubos k = k ubos"
| "upload_ubos W mems dset i (u # us) ubos k =
     filled_buffer W mems (UboBuffer i) (UboMem i) UsageUniform (ou_bytes u) (\<lambda>b m.
     try_let (with_dev (tell W [WriteDescriptors dset [(ou_binding u, UniformBuffer, b)]])) (\<lambda>_.
     upload_ubos W mems dset (Suc i) us (ubos @ [(b, m)]) k))"

definition upload_ssbo :: "driver \<Rightarrow> mem_types \<Rightarrow> u64 \<Rightarrow> OwnedStorage option \<Rightarrow> ((u64 \<times> u64) option \<Rightarrow> 'a builder) \<Rightarrow> 'a builder" where
  "upload_ssbo W mems dset storage k = (case storage of
     None \<Rightarrow> k None
   | Some s \<Rightarrow> filled_buffer W mems SsboBuffer SsboMem UsageStorage (os_bytes s) (\<lambda>b m.
       try_let (with_dev (tell W [WriteDescriptors dset [(os_binding s, StorageBuffer, b)]])) (\<lambda>_. k (Some (b, m)))))"

text \<open>The pool, the set and the buffers; the textures follow, with these variables still set.\<close>

definition frame_buffers :: "driver \<Rightarrow> mem_types \<Rightarrow> OwnedGeometry \<Rightarrow> u64 \<Rightarrow> FrameDescriptors builder" where
  "frame_buffers W mems g layout =
     try_let (grab W DescPool (CreateDescriptorPool (pool_sizes g))) (\<lambda>pool.
     try_let (with_dev (attempt W (AllocateSet pool layout))) (\<lambda>a.
     upload_ubos W mems (an_handle a) 0 (og_uniforms g) [] (\<lambda>ubos.
     upload_ssbo W mems (an_handle a) (og_storage g) (\<lambda>ssbo.
     ret \<lparr>fd_pool = pool, fd_set = an_handle a, fd_ubos = ubos, fd_ssbo = ssbo, fd_tex = []\<rparr>))))"

definition frame_cleanup :: "nat \<Rightarrow> slot list" where
  "frame_cleanup n = map UboBuffer [0..<n] @ map UboMem [0..<n] @ [SsboBuffer, SsboMem, DescPool]"

definition first_bad_uniform :: "OwnedUniform list \<Rightarrow> OwnedUniform option" where
  "first_bad_uniform us = find (\<lambda>u. ou_bytes u = [] \<or> 65536 < length (ou_bytes u)) us"

definition descriptor_limits :: "OwnedGeometry \<Rightarrow> gpu_error option" where
  "descriptor_limits g = (case first_bad_uniform (og_uniforms g) of
     Some u \<Rightarrow> Some (BadUniform (length (ou_bytes u)))
   | None \<Rightarrow> (case og_storage g of
       Some s \<Rightarrow> if os_bytes s = [] \<or> MAX_SSBO_BYTES < length (os_bytes s) then Some (BadStorage (length (os_bytes s)))
         else if MAX_TEXTURES < length (og_textures g) then Some (TooManyTextures (length (og_textures g))) else None
     | None \<Rightarrow> if MAX_TEXTURES < length (og_textures g) then Some (TooManyTextures (length (og_textures g))) else None))"

lemma frame_cleanup_set: "s \<in> set (frame_cleanup n) \<longleftrightarrow>
    (\<exists>i < n. s = UboBuffer i \<or> s = UboMem i) \<or> s = SsboBuffer \<or> s = SsboMem \<or> s = DescPool"
  by (auto simp: frame_cleanup_def)

lemma distinct_frame_cleanup [simp]: "distinct (frame_cleanup n)"
  by (auto simp: frame_cleanup_def distinct_map inj_on_def)

lemma chain_upload_ubos:
  assumes "\<And>ubos t'. length ubos = n \<Longrightarrow> tidy (frame_cleanup n) t' \<Longrightarrow>
      fst ` set t' \<subseteq> insert DescPool (UboBuffer ` {..<n} \<union> UboMem ` {..<n}) \<Longrightarrow>
      objs t' = base + mset (concat (map (\<lambda>(b, m). [(BufferObj, b), (MemoryObj, m)]) ubos)) \<Longrightarrow>
      chain (frame_cleanup n) t' (k ubos) own"
    and "tidy (frame_cleanup n) t" "fst ` set t \<subseteq> insert DescPool (UboBuffer ` {..<i} \<union> UboMem ` {..<i})"
    and "objs t = base + mset (concat (map (\<lambda>(b, m). [(BufferObj, b), (MemoryObj, m)]) ubos))"
    and "i + length us = n" "length ubos = i"
  shows "chain (frame_cleanup n) t (upload_ubos W mems dset i us ubos k) own"
  using assms(2-)
proof (induction us arbitrary: i ubos t)
  case Nil
  then show ?case using assms(1) by auto
next
  case (Cons u us)
  have fresh: "UboBuffer i \<notin> fst ` set t" "UboMem i \<notin> fst ` set t" using Cons.prems(2) by auto
  have "chain (frame_cleanup n) ((UboMem i, m) # (UboBuffer i, b) # t)
      (upload_ubos W mems dset (Suc i) us (ubos @ [(b, m)]) k) own" for b m
    using Cons.prems fresh by (intro Cons.IH) (auto simp: frame_cleanup_set lessThan_Suc)
  then show ?case
    using Cons.prems fresh by (auto intro!: chain_filled_buffer chain_tell simp: frame_cleanup_set)
qed

lemma chain_frame_buffers:
  "chain (frame_cleanup (length (og_uniforms g))) [] (frame_buffers W mems g layout) (mset \<circ> descriptor_objs)"
proof -
  let ?n = "length (og_uniforms g)"
  have tail: "chain (frame_cleanup ?n) t' (upload_ssbo W mems dset (og_storage g) (\<lambda>ssbo.
       ret \<lparr>fd_pool = pool, fd_set = dset, fd_ubos = ubos, fd_ssbo = ssbo, fd_tex = []\<rparr>)) (mset \<circ> descriptor_objs)"
    if "tidy (frame_cleanup ?n) t'" "fst ` set t' \<subseteq> insert DescPool (UboBuffer ` {..<?n} \<union> UboMem ` {..<?n})"
      and o: "objs t' = {#(DescriptorPoolObj, pool)#} + mset (concat (map (\<lambda>(b, m). [(BufferObj, b), (MemoryObj, m)]) ubos))"
    for t' ubos dset pool
  proof -
    have fresh: "SsboBuffer \<notin> fst ` set t'" "SsboMem \<notin> fst ` set t'" using that(2) by auto
    show ?thesis
    proof (cases "og_storage g")
      case None
      then show ?thesis using that by (auto simp: upload_ssbo_def descriptor_objs_def intro!: chain_ret)
    next
      case (Some s)
      then show ?thesis using that fresh
        by (auto simp: upload_ssbo_def descriptor_objs_def frame_cleanup_set intro!: chain_filled_buffer chain_tell chain_ret)
    qed
  qed
  show ?thesis
    unfolding frame_buffers_def
    by (rule chain_grab, rule chain_attempt, rule chain_upload_ubos [where base = "{#(DescriptorPoolObj, _)#}"])
      (auto simp: frame_cleanup_set intro!: tail)
qed

subsection \<open>Per-size scratch objects\<close>

record SizedScratch =
  ss_image :: u64
  ss_img_mem :: u64
  ss_view :: u64
  ss_framebuffer :: u64
  ss_readback :: u64
  ss_rb_mem :: u64
  ss_rb_coherent :: bool
  ss_pool :: u64
  ss_cmd :: u64
  ss_fence :: u64
  ss_size :: nat
  ss_depth :: "(u64 \<times> u64 \<times> u64) option"

definition scratch_objs :: "SizedScratch \<Rightarrow> vk_obj list" where
  "scratch_objs s = [(FenceObj, ss_fence s), (CommandPoolObj, ss_pool s), (BufferObj, ss_readback s),
     (MemoryObj, ss_rb_mem s), (FramebufferObj, ss_framebuffer s), (ViewObj, ss_view s), (ImageObj, ss_image s),
     (MemoryObj, ss_img_mem s)] @
     (case ss_depth s of Some (dimg, dmem, dview) \<Rightarrow> [(ViewObj, dview), (ImageObj, dimg), (MemoryObj, dmem)] | None \<Rightarrow> [])"

definition destroy_scratch :: "driver \<Rightarrow> SizedScratch \<Rightarrow> Device \<Rightarrow> Device" where
  "destroy_scratch W s d = destroy_all W (scratch_objs s) (snd (tell W [UnmapMemory (ss_rb_mem s)] d))"

text \<open>The guard \<open>RenderScratch\<close> frees its fields in this order.\<close>

definition render_scratch_drop :: "slot list" where
  "render_scratch_drop = [ScFence, ScPool, ScExportBuffer, ScExportMem, ScReadback, ScRbMem, ScPipeline, ScLayout,
     ScVsModule, ScFsModule, ScFramebuffer, ScRenderPass, ScView, ScImage, ScImgMem, ScDepthView, ScDepthImage, ScDepthMem]"

definition scratch_attachment :: "driver \<Rightarrow> mem_types \<Rightarrow> slot \<Rightarrow> slot \<Rightarrow> slot \<Rightarrow> u32 \<Rightarrow> u32 \<Rightarrow> vk_format \<Rightarrow> vk_image_usage \<Rightarrow>
    (u64 \<Rightarrow> u64 \<Rightarrow> u64 \<Rightarrow> 'a builder) \<Rightarrow> 'a builder" where
  "scratch_attachment W mems si sm sv w h format usage k =
     try_let (grab W si (CreateImage w h format usage)) (\<lambda>img.
     try_let (with_dev (ask W (ImageRequirements img))) (\<lambda>req.
     try_option NoMemoryType (find_mem mems (an_bits req) [DeviceLocal]) (\<lambda>mt.
     try_let (grab W sm (AllocateMemory (an_size req) mt)) (\<lambda>mem.
     try_let (with_dev (attempt W (BindImageMemory img mem))) (\<lambda>_.
     try_let (grab W sv (CreateView img format)) (\<lambda>view.
     k img mem view))))))"

definition scratch_rest :: "driver \<Rightarrow> mem_types \<Rightarrow> u32 \<Rightarrow> u32 \<Rightarrow> u64 \<Rightarrow> u64 \<times> u64 \<times> u64 \<Rightarrow> (u64 \<times> u64 \<times> u64) option \<Rightarrow>
    SizedScratch builder" where
  "scratch_rest W mems w h rp colour depth = (case colour of (img, img_mem, view) \<Rightarrow>
     let size = wrap_u64 (unat w * unat h * 4);
         views = view # (case depth of Some (_, _, dview) \<Rightarrow> [dview] | None \<Rightarrow> []) in
     try_let (grab W ScFramebuffer (CreateFramebuffer rp views w h)) (\<lambda>framebuffer.
     try_let (grab W ScReadback (CreateBuffer size UsageTransferDst)) (\<lambda>readback.
     try_let (with_dev (ask W (BufferRequirements readback))) (\<lambda>req.
     try_option NoMemoryType (find_readback_mem mems (an_bits req)) (\<lambda>(rb_type, rb_coherent).
     try_let (grab W ScRbMem (AllocateMemory (an_size req) rb_type)) (\<lambda>rb_mem.
     try_let (with_dev (attempt W (BindBufferMemory readback rb_mem))) (\<lambda>_.
     try_let (grab W ScPool CreateCommandPool) (\<lambda>pool.
     try_let (with_dev (attempt W (AllocateCommandBuffer pool))) (\<lambda>cmd.
     try_let (grab W ScFence CreateFence) (\<lambda>fence.
     try_let (with_dev (attempt W (MapMemory rb_mem size))) (\<lambda>_.
     ret \<lparr>ss_image = img, ss_img_mem = img_mem, ss_view = view, ss_framebuffer = framebuffer, ss_readback = readback,
       ss_rb_mem = rb_mem, ss_rb_coherent = rb_coherent, ss_pool = pool, ss_cmd = an_handle cmd, ss_fence = fence,
       ss_size = size, ss_depth = depth\<rparr>)))))))))))"

definition build_sized_scratch :: "driver \<Rightarrow> mem_types \<Rightarrow> u32 \<Rightarrow> u32 \<Rightarrow> u64 \<Rightarrow> bool \<Rightarrow> (Device, SizedScratch) prog" where
  "build_sized_scratch W mems w h rp with_depth = build W render_scratch_drop
     (scratch_attachment W mems ScImage ScImgMem ScView w h FORMAT_R8G8B8A8_UNORM ImageColorTarget (\<lambda>img img_mem view.
        if with_depth then
          scratch_attachment W mems ScDepthImage ScDepthMem ScDepthView w h DEPTH_FORMAT ImageDepthTarget (\<lambda>dimg dmem dview.
            scratch_rest W mems w h rp (img, img_mem, view) (Some (dimg, dmem, dview)))
        else scratch_rest W mems w h rp (img, img_mem, view) None))"

lemma makes_build_sized_scratch: "makes (build_sized_scratch W mems w h rp with_depth) (mset \<circ> scratch_objs)"
  unfolding build_sized_scratch_def scratch_attachment_def scratch_rest_def Let_def case_prod_conv
  by (intro makes_build owns_rules) (simp_all add: render_scratch_drop_def scratch_objs_def split: prod.split)

end
