(* ===== verification/Replay_Caches.thy ===== *)
theory Replay_Caches
  imports Replay_Objects
begin

text \<open>
  \<open>HostGpu\<close> of \<open>crates/infinigpu-replay/src/lib.rs\<close>: its caches of pipelines, descriptor layouts, meshes, textures,
  per-size scratch objects and imported guest buffers. A hash map is an association list with distinct keys.
  One submit thread holds every lock in turn, so the mutexes are not part of the state.
\<close>

subsection \<open>State\<close>

record ResidentTexture =
  rx_image :: u64
  rx_image_mem :: u64
  rx_view :: u64
  rx_sampler :: u64
  rx_width :: u32
  rx_height :: u32
  rx_bytes :: nat

definition resident_objs :: "ResidentTexture \<Rightarrow> vk_obj list" where
  "resident_objs t = [(SamplerObj, rx_sampler t), (ViewObj, rx_view t), (ImageObj, rx_image t), (MemoryObj, rx_image_mem t)]"

record HostGpu =
  hg_dev :: Device
  hg_mems :: mem_types
  hg_cache_enabled :: bool
  hg_scratch_enabled :: bool
  hg_resource_cache_enabled :: bool
  hg_external_fd :: bool
  hg_dma_buf :: bool
  hg_ext_mem_host :: bool
  hg_host_ptr_align :: nat
  hg_modules :: "(u64 \<times> u64) list"
  hg_passes :: "((vk_format \<times> bool) \<times> u64) list"
  hg_pipelines :: "(PipelineKey \<times> u64 \<times> u64) list"
  hg_hits :: nat
  hg_misses :: nat
  hg_set_layouts :: "(DescriptorSig \<times> u64) list"
  hg_scratch :: "((u32 \<times> u32 \<times> bool) \<times> SizedScratch) list"
  hg_imports :: "((u64 \<times> nat) \<times> u64 \<times> u64) list"
  hg_geoms :: "(u64 \<times> GeometryGpu \<times> nat) list"
  hg_geom_bytes :: nat
  hg_geom_hits :: nat
  hg_geom_misses :: nat
  hg_texs :: "(u64 \<times> ResidentTexture) list"
  hg_tex_bytes :: nat
  hg_tex_hits :: nat
  hg_tex_misses :: nat
  hg_upload :: "(u64 \<times> u64 \<times> u64) option"

definition on_dev :: "(Device, 'a) prog \<Rightarrow> (HostGpu, 'a) prog" where
  "on_dev m hg = (case m (hg_dev hg) of (r, d) \<Rightarrow> (r, hg\<lparr>hg_dev := d\<rparr>))"

definition mod_dev :: "(Device \<Rightarrow> Device) \<Rightarrow> HostGpu \<Rightarrow> HostGpu" where
  "mod_dev f hg = hg\<lparr>hg_dev := f (hg_dev hg)\<rparr>"

definition MAX_CACHED_MODULES :: nat where [simp]: "MAX_CACHED_MODULES = 512"
definition MAX_CACHED_PIPELINES :: nat where [simp]: "MAX_CACHED_PIPELINES = 256"
definition MAX_CACHED_SCRATCH :: nat where [simp]: "MAX_CACHED_SCRATCH = 8"
definition MAX_DESC_SET_LAYOUTS :: nat where [simp]: "MAX_DESC_SET_LAYOUTS = 64"
definition MAX_CACHED_GEOM :: nat where [simp]: "MAX_CACHED_GEOM = 256"
definition MAX_CACHED_GEOM_BYTES :: nat where [simp]: "MAX_CACHED_GEOM_BYTES = 134217728"
definition MAX_CACHED_TEX :: nat where [simp]: "MAX_CACHED_TEX = 512"
definition MAX_CACHED_TEX_BYTES :: nat where [simp]: "MAX_CACHED_TEX_BYTES = 536870912"

subsection \<open>Pipelines\<close>

definition pipeline_objs :: "u64 \<times> u64 \<Rightarrow> vk_obj list" where
  "pipeline_objs x = [(PipelineObj, fst x), (PipelineLayoutObj, snd x)]"

definition clear_obj_cache :: "driver \<Rightarrow> HostGpu \<Rightarrow> HostGpu" where
  "clear_obj_cache W hg = (mod_dev (destroy_all W (concat (map (pipeline_objs \<circ> snd) (hg_pipelines hg)) @
      map (Pair ModuleObj \<circ> snd) (hg_modules hg) @ map (Pair RenderPassObj \<circ> snd) (hg_passes hg))) hg)
     \<lparr>hg_pipelines := [], hg_modules := [], hg_passes := []\<rparr>"

definition build_render_pass :: "driver \<Rightarrow> vk_format \<Rightarrow> bool \<Rightarrow> (Device, u64) prog" where
  "build_render_pass W format with_depth = create W RenderPassObj (CreateRenderPass format with_depth)"

definition render_pass_for :: "driver \<Rightarrow> vk_format \<Rightarrow> bool \<Rightarrow> (HostGpu, u64) prog" where
  "render_pass_for W format with_depth hg = (case map_of (hg_passes hg) (format, with_depth) of
     Some rp \<Rightarrow> (Inr rp, hg)
   | None \<Rightarrow> try_let (on_dev (build_render_pass W format with_depth)) (\<lambda>rp hg.
       (Inr rp, hg\<lparr>hg_passes := AList.update (format, with_depth) rp (hg_passes hg)\<rparr>)) hg)"

definition desc_set_layout :: "driver \<Rightarrow> DescriptorSig \<Rightarrow> (HostGpu, u64) prog" where
  "desc_set_layout W sig hg = (case map_of (hg_set_layouts hg) sig of
     Some sl \<Rightarrow> (Inr sl, hg)
   | None \<Rightarrow>
      (let hg = (if MAX_DESC_SET_LAYOUTS \<le> length (hg_set_layouts hg)
         then (mod_dev (destroy_all W (map (Pair SetLayoutObj \<circ> snd) (hg_set_layouts hg))) hg)\<lparr>hg_set_layouts := []\<rparr> else hg)
       in try_let (on_dev (create W SetLayoutObj (CreateSetLayout (set_layout_bindings sig)))) (\<lambda>sl hg.
         (Inr sl, hg\<lparr>hg_set_layouts := AList.update sig sl (hg_set_layouts hg)\<rparr>)) hg))"

definition layout_sets :: "driver \<Rightarrow> OwnedForwardedDraw \<Rightarrow> (HostGpu, u64 list) prog" where
  "layout_sets W draw = (case desc_sig_of draw of
     Some sig \<Rightarrow> try_let (desc_set_layout W sig) (\<lambda>sl. ret [sl]) | None \<Rightarrow> ret [])"

definition build_pipeline :: "driver \<Rightarrow> u64 \<Rightarrow> OwnedForwardedDraw \<Rightarrow> vk_topology \<Rightarrow> u64 \<Rightarrow> u64 \<Rightarrow> (HostGpu, u64 \<times> u64) prog" where
  "build_pipeline W rp draw topology vs fs = try_let (layout_sets W draw) (\<lambda>sets.
     try_let (on_dev (create W PipelineLayoutObj (CreatePipelineLayout (push_const_size_of draw) sets))) (\<lambda>layout hg.
       case on_dev (create W PipelineObj (CreatePipeline (pipeline_info rp draw topology vs fs layout))) hg of
         (Inr p, hg) \<Rightarrow> (Inr (p, layout), hg)
       | (Inl e, hg) \<Rightarrow> (Inl e, mod_dev (destroy W PipelineLayoutObj layout) hg)))"

definition module_for :: "driver \<Rightarrow> u64 \<Rightarrow> u32 list \<Rightarrow> (HostGpu, u64 \<times> bool) prog" where
  "module_for W hash words hg = (case map_of (hg_modules hg) hash of
     Some m \<Rightarrow> (Inr (m, False), hg)
   | None \<Rightarrow> try_let (on_dev (create W ModuleObj (CreateModule words))) (\<lambda>m. ret (m, True)) hg)"

definition drop_module :: "driver \<Rightarrow> u64 \<times> bool \<Rightarrow> HostGpu \<Rightarrow> HostGpu" where
  "drop_module W x = (if snd x then mod_dev (destroy W ModuleObj (fst x)) else id)"

definition add_module :: "u64 \<Rightarrow> u64 \<times> bool \<Rightarrow> HostGpu \<Rightarrow> HostGpu" where
  "add_module hash x hg = (if snd x then hg\<lparr>hg_modules := AList.update hash (fst x) (hg_modules hg)\<rparr> else hg)"

definition new_pipeline :: "driver \<Rightarrow> OwnedForwardedDraw \<Rightarrow> PipelineKey \<Rightarrow> u64 \<Rightarrow> (HostGpu, u64 \<times> u64) prog" where
  "new_pipeline W draw key rp = try_let (module_for W (pk_vs_hash key) (fd_vertex_spirv draw)) (\<lambda>vs hg.
     case (if pk_fs_hash key = pk_vs_hash key then (Inr (fst vs, False), hg)
           else module_for W (pk_fs_hash key) (fd_fragment_spirv draw) hg) of
       (Inl e, hg) \<Rightarrow> (Inl e, drop_module W vs hg)
     | (Inr fs, hg) \<Rightarrow> (case build_pipeline W rp draw (pk_topology key) (fst vs) (fst fs) hg of
         (Inr (p, layout), hg) \<Rightarrow> (let hg = add_module (pk_fs_hash key) fs (add_module (pk_vs_hash key) vs hg) in
           (Inr (p, layout), hg\<lparr>hg_misses := wrap_u64 (hg_misses hg + 1),
             hg_pipelines := AList.update key (p, layout) (hg_pipelines hg)\<rparr>))
       | (Inl e, hg) \<Rightarrow> (Inl e, drop_module W fs (drop_module W vs hg))))"

text \<open>\<open>pipeline_for\<close> with the object cache on.\<close>

definition pipeline_for :: "driver \<Rightarrow> OwnedForwardedDraw \<Rightarrow> vk_format \<Rightarrow> (HostGpu, u64 \<times> u64 \<times> u64) prog" where
  "pipeline_for W draw format hg =
    (let key = pipeline_key draw format;
         hg = (if MAX_CACHED_PIPELINES \<le> length (hg_pipelines hg) \<or> MAX_CACHED_MODULES \<le> length (hg_modules hg)
           then clear_obj_cache W hg else hg)
     in try_let (render_pass_for W format (fst (depth_key_of draw))) (\<lambda>rp hg.
       case map_of (hg_pipelines hg) key of
         Some (p, layout) \<Rightarrow> (Inr (rp, p, layout), hg\<lparr>hg_hits := wrap_u64 (hg_hits hg + 1)\<rparr>)
       | None \<Rightarrow> try_let (new_pipeline W draw key rp) (\<lambda>(p, layout). ret (rp, p, layout)) hg) hg)"

subsection \<open>Meshes\<close>

definition evict_geoms :: "driver \<Rightarrow> HostGpu \<Rightarrow> HostGpu" where
  "evict_geoms W hg = (mod_dev (destroy_all W (concat (map (geometry_objs \<circ> fst \<circ> snd) (hg_geoms hg)))) hg)
     \<lparr>hg_geoms := [], hg_geom_bytes := 0\<rparr>"

definition get_or_upload_geometry :: "driver \<Rightarrow> OwnedGeometry \<Rightarrow> (HostGpu, GeometryGpu) prog" where
  "get_or_upload_geometry W g hg = (let key = geom_key g in case map_of (hg_geoms hg) key of
     Some r \<Rightarrow> (Inr (fst r), hg\<lparr>hg_geom_hits := wrap_u64 (hg_geom_hits hg + 1)\<rparr>)
   | None \<Rightarrow> try_let (on_dev (upload_geometry W (hg_mems hg) g)) (\<lambda>gpu hg.
      (let bytes = length (og_vertex_data g) + length (og_index_data g);
           hg = hg\<lparr>hg_geom_misses := wrap_u64 (hg_geom_misses hg + 1)\<rparr>;
           hg = (if MAX_CACHED_GEOM \<le> length (hg_geoms hg) \<or> MAX_CACHED_GEOM_BYTES < hg_geom_bytes hg + bytes
             then evict_geoms W hg else hg)
       in (Inr gpu, hg\<lparr>hg_geoms := AList.update key (gpu, bytes) (hg_geoms hg), hg_geom_bytes := hg_geom_bytes hg + bytes\<rparr>))) hg)"

subsection \<open>Textures\<close>

definition trim_tex_cache :: "driver \<Rightarrow> HostGpu \<Rightarrow> HostGpu" where
  "trim_tex_cache W hg = (if MAX_CACHED_TEX \<le> length (hg_texs hg) \<or> MAX_CACHED_TEX_BYTES \<le> hg_tex_bytes hg
     then (mod_dev (destroy_all W (concat (map (resident_objs \<circ> snd) (hg_texs hg))) \<circ> snd \<circ> attempt W DeviceWaitIdle) hg)
       \<lparr>hg_texs := [], hg_tex_bytes := 0\<rparr> else hg)"

definition texture_writes :: "u64 \<Rightarrow> u32 \<Rightarrow> u64 \<Rightarrow> u64 \<Rightarrow> vk_call" where
  "texture_writes dset binding view sampler =
     WriteDescriptors dset [(binding, SampledImage, view), (binding + 1, SamplerDescriptor, sampler)]"

definition write_texture_descriptor :: "driver \<Rightarrow> u64 \<Rightarrow> u32 \<Rightarrow> u64 \<Rightarrow> u64 \<Rightarrow> HostGpu \<Rightarrow> HostGpu" where
  "write_texture_descriptor W dset binding view sampler = mod_dev (snd \<circ> tell W [texture_writes dset binding view sampler])"

definition free_pending :: "driver \<Rightarrow> PendingTexUpload list \<Rightarrow> HostGpu \<Rightarrow> HostGpu" where
  "free_pending W ps = mod_dev (destroy_all W (concat (map (texture_objs \<circ> pt_gpu) ps)))"

text \<open>The scan over a frame's textures: cached ones are bound at once, the others staged.\<close>

fun resolve_scan :: "driver \<Rightarrow> u64 \<Rightarrow> u32 \<Rightarrow> nat \<Rightarrow> OwnedTexture list \<Rightarrow> PendingTexUpload list \<Rightarrow> (HostGpu, PendingTexUpload list) prog" where
  "resolve_scan W dset base i [] ps hg = (Inr ps, hg)"
| "resolve_scan W dset base i (tex # ts) ps hg =
    (if texture_bad tex then (Inl (BadTexture (ot_width tex) (ot_height tex) (length (ot_rgba tex))), free_pending W ps hg)
     else let binding = base + 2 * word_of_nat i; key = tex_key tex in
       (case map_of (hg_texs hg) key of
          Some r \<Rightarrow> resolve_scan W dset base (Suc i) ts ps
            (write_texture_descriptor W dset binding (rx_view r) (rx_sampler r) (hg\<lparr>hg_tex_hits := wrap_u64 (hg_tex_hits hg + 1)\<rparr>))
        | None \<Rightarrow> (case on_dev (alloc_resident_texture W (hg_mems hg) tex binding key) hg of
            (Inl e, hg) \<Rightarrow> (Inl e, free_pending W ps hg)
          | (Inr p, hg) \<Rightarrow> resolve_scan W dset base (Suc i) ts (ps @ [p]) hg)))"

definition ensure_upload_ctx :: "driver \<Rightarrow> (HostGpu, unit) prog" where
  "ensure_upload_ctx W hg = (if hg_upload hg \<noteq> None then (Inr (), hg)
     else try_let (on_dev (build W [CtxPool, CtxFence] (
       try_let (grab W CtxPool CreateCommandPool) (\<lambda>pool.
       try_let (with_dev (attempt W (AllocateCommandBuffer pool))) (\<lambda>cmd.
       try_let (grab W CtxFence CreateFence) (\<lambda>fence. ret (pool, an_handle cmd, fence)))))))
       (\<lambda>ctx hg. (Inr (), hg\<lparr>hg_upload := Some ctx\<rparr>)) hg)"

text \<open>The copy of one staged texture into its image, between the two layout transitions.\<close>

definition texture_copy :: "TextureGpu \<Rightarrow> vk_command list" where
  "texture_copy t = [CmdImageBarrier (tg_image t) LayoutUndefined LayoutTransferDst,
     CmdCopyBufferToImage (tg_staging t) (tg_image t) (tg_width t) (tg_height t),
     CmdImageBarrier (tg_image t) LayoutTransferDst LayoutShaderRead]"

definition submit_and_wait :: "driver \<Rightarrow> u64 \<Rightarrow> u64 \<Rightarrow> (Device, unit) prog" where
  "submit_and_wait W cmd fence = try_let (attempt W (ResetFence fence)) (\<lambda>_.
     try_let (attempt W (QueueSubmit cmd fence)) (\<lambda>_. try_let (attempt W (WaitFence fence)) (\<lambda>_. ret ())))"

definition record_commands :: "driver \<Rightarrow> u64 \<Rightarrow> u64 \<Rightarrow> vk_command list \<Rightarrow> (Device, unit) prog" where
  "record_commands W pool cmd cs = try_let (attempt W (ResetCommandPool pool)) (\<lambda>_.
     try_let (attempt W (BeginCommandBuffer cmd)) (\<lambda>_.
     try_let (tell W (map (RecordCommand cmd) cs)) (\<lambda>_.
     try_let (attempt W (EndCommandBuffer cmd)) (\<lambda>_. ret ()))))"

definition record_and_submit_uploads :: "driver \<Rightarrow> PendingTexUpload list \<Rightarrow> (HostGpu, unit) prog" where
  "record_and_submit_uploads W ps = try_let (ensure_upload_ctx W) (\<lambda>_ hg.
     case hg_upload hg of
       Some (pool, cmd, fence) \<Rightarrow> on_dev (try_let (record_commands W pool cmd (concat (map (texture_copy \<circ> pt_gpu) ps)))
         (\<lambda>_. submit_and_wait W cmd fence)) hg
     | None \<Rightarrow> (Inr (), hg))"

definition into_resident :: "PendingTexUpload \<Rightarrow> ResidentTexture" where
  "into_resident p = (let t = pt_gpu p in \<lparr>rx_image = tg_image t, rx_image_mem = tg_image_mem t, rx_view = tg_view t,
     rx_sampler = tg_sampler t, rx_width = tg_width t, rx_height = tg_height t, rx_bytes = pt_bytes p\<rparr>)"

fun commit_pending :: "driver \<Rightarrow> u64 \<Rightarrow> PendingTexUpload list \<Rightarrow> HostGpu \<Rightarrow> HostGpu" where
  "commit_pending W dset [] hg = hg"
| "commit_pending W dset (p # ps) hg =
    (let r = into_resident p;
         hg = mod_dev (destroy_all W [(BufferObj, tg_staging (pt_gpu p)), (MemoryObj, tg_staging_mem (pt_gpu p))]) hg;
         hg = hg\<lparr>hg_tex_bytes := hg_tex_bytes hg + pt_bytes p, hg_tex_misses := wrap_u64 (hg_tex_misses hg + 1),
           hg_texs := AList.update (pt_key p) r (hg_texs hg)\<rparr>
     in commit_pending W dset ps (write_texture_descriptor W dset (pt_binding p) (rx_view r) (rx_sampler r) hg))"

definition resolve_frame_textures :: "driver \<Rightarrow> OwnedTexture list \<Rightarrow> u64 \<Rightarrow> u32 \<Rightarrow> (HostGpu, unit) prog" where
  "resolve_frame_textures W texs dset base = try_let (resolve_scan W dset base 0 texs []) (\<lambda>ps hg.
     if ps = [] then (Inr (), hg)
     else (case record_and_submit_uploads W ps hg of
         (Inl e, hg) \<Rightarrow> (Inl e, free_pending W ps hg)
       | (Inr _, hg) \<Rightarrow> (Inr (), commit_pending W dset ps hg)))"

text \<open>Without the cache every texture is uploaded for the frame alone.\<close>

fun upload_frame_textures :: "driver \<Rightarrow> u64 \<Rightarrow> u32 \<Rightarrow> nat \<Rightarrow> OwnedTexture list \<Rightarrow> TextureGpu list \<Rightarrow> (HostGpu, TextureGpu list) prog" where
  "upload_frame_textures W dset base i [] gs hg = (Inr gs, hg)"
| "upload_frame_textures W dset base i (t # ts) gs hg =
    (case on_dev (upload_texture_into W (hg_mems hg) t dset (base + 2 * word_of_nat i)) hg of
       (Inl e, hg) \<Rightarrow> (Inl e, mod_dev (destroy_all W (concat (map texture_objs gs))) hg)
     | (Inr g, hg) \<Rightarrow> upload_frame_textures W dset base (Suc i) ts (gs @ [g]) hg)"

definition frame_textures :: "driver \<Rightarrow> OwnedGeometry \<Rightarrow> u64 \<Rightarrow> (HostGpu, TextureGpu list) prog" where
  "frame_textures W g dset hg = (if hg_resource_cache_enabled hg
     then try_let (resolve_frame_textures W (og_textures g) dset (og_tex_binding g)) (\<lambda>_. ret []) hg
     else upload_frame_textures W dset (og_tex_binding g) 0 (og_textures g) [] hg)"

definition build_frame_descriptors :: "driver \<Rightarrow> OwnedGeometry \<Rightarrow> u64 \<Rightarrow> (HostGpu, FrameDescriptors) prog" where
  "build_frame_descriptors W g layout hg = (case descriptor_limits g of
     Some e \<Rightarrow> (Inl e, hg)
   | None \<Rightarrow> (let order = frame_cleanup (length (og_uniforms g)) in
      case frame_buffers W (hg_mems hg) g layout (hg_dev hg, []) of
        (Inl e, (d, t)) \<Rightarrow> (Inl e, hg\<lparr>hg_dev := release W order t d\<rparr>)
      | (Inr f, (d, t)) \<Rightarrow> (case frame_textures W g (fd_set f) (hg\<lparr>hg_dev := d\<rparr>) of
          (Inl e, hg) \<Rightarrow> (Inl e, mod_dev (release W order t) hg)
        | (Inr tex, hg) \<Rightarrow> (Inr (f\<lparr>fd_tex := tex\<rparr>), hg))))"

end
