(* ===== verification/Replay_Scoped.thy ===== *)
theory Replay_Scoped
  imports Replay_Caches
begin

text \<open>
  The frames of \<open>crates/infinigpu-replay/src/lib.rs\<close> that own everything they create: a guard (\<open>RenderScratch\<close>,
  \<open>ConvertScratch\<close>) holds the objects registered so far and destroys them when the function returns, on success
  and on every error alike. An object created but not yet registered is destroyed by nobody.
\<close>

subsection \<open>Programs with a guard\<close>

type_synonym 'a scoped = "(HostGpu \<times> slots, 'a) prog"

definition in_gpu :: "(HostGpu, 'a) prog \<Rightarrow> 'a scoped" where
  "in_gpu m = (\<lambda>(hg, t). case m hg of (r, hg') \<Rightarrow> (r, (hg', t)))"

definition in_dev :: "(Device, 'a) prog \<Rightarrow> 'a scoped" where
  "in_dev m = in_gpu (on_dev m)"

definition keep :: "slot \<Rightarrow> u64 \<Rightarrow> unit scoped" where
  "keep s h = (\<lambda>(hg, t). (Inr (), (hg, (s, h) # t)))"

definition register :: "driver \<Rightarrow> slot \<Rightarrow> vk_call \<Rightarrow> (u64 \<Rightarrow> 'a scoped) \<Rightarrow> 'a scoped" where
  "register W s c k = try_let (in_dev (create W (slot_kind s) c)) (\<lambda>h. try_let (keep s h) (\<lambda>_. k h))"

definition scoped :: "driver \<Rightarrow> slot list \<Rightarrow> (HostGpu \<Rightarrow> 'a scoped) \<Rightarrow> (HostGpu, 'a) prog" where
  "scoped W order body hg = (case body hg (hg, []) of (r, (hg', t)) \<Rightarrow> (r, mod_dev (release W order t) hg'))"

subsection \<open>Shared steps\<close>

definition scoped_image :: "driver \<Rightarrow> mem_types \<Rightarrow> slot \<Rightarrow> slot \<Rightarrow> u32 \<Rightarrow> u32 \<Rightarrow> vk_format \<Rightarrow> vk_image_usage \<Rightarrow> (u64 \<Rightarrow> 'a scoped) \<Rightarrow> 'a scoped" where
  "scoped_image W mems si sm w h format usage k =
     register W si (CreateImage w h format usage) (\<lambda>img.
     try_let (in_dev (ask W (ImageRequirements img))) (\<lambda>req.
     try_option NoMemoryType (find_mem mems (an_bits req) [DeviceLocal]) (\<lambda>mt.
     register W sm (AllocateMemory (an_size req) mt) (\<lambda>mem.
     try_let (in_dev (attempt W (BindImageMemory img mem))) (\<lambda>_. k img)))))"

definition scoped_buffer :: "driver \<Rightarrow> slot \<Rightarrow> slot \<Rightarrow> nat \<Rightarrow> vk_usage \<Rightarrow> (u32 \<Rightarrow> (nat \<times> bool) option) \<Rightarrow> (u64 \<Rightarrow> u64 \<Rightarrow> bool \<Rightarrow> 'a scoped) \<Rightarrow>
    'a scoped" where
  "scoped_buffer W sb sm sz usage pick k =
     register W sb (CreateBuffer sz usage) (\<lambda>buf.
     try_let (in_dev (ask W (BufferRequirements buf))) (\<lambda>req.
     try_option NoMemoryType (pick (an_bits req)) (\<lambda>(mt, coherent).
     register W sm (AllocateMemory (an_size req) mt) (\<lambda>mem.
     try_let (in_dev (attempt W (BindBufferMemory buf mem))) (\<lambda>_. k buf mem coherent)))))"

definition find_host_mem :: "mem_types \<Rightarrow> u32 \<Rightarrow> (nat \<times> bool) option" where
  "find_host_mem mems bits = map_option (\<lambda>i. (i, True)) (find_mem mems bits [HostVisible, HostCoherent])"

text \<open>The exportable buffer: both objects are registered once the memory is bound, not before.\<close>

record DmaBufExport =
  ex_fd :: u64
  ex_size :: nat
  ex_dma_buf :: bool

definition export_buffer :: "driver \<Rightarrow> mem_types \<Rightarrow> bool \<Rightarrow> nat \<Rightarrow> (u64 \<Rightarrow> u64 \<Rightarrow> nat \<Rightarrow> 'a scoped) \<Rightarrow> 'a scoped" where
  "export_buffer W mems dma sz k =
     try_let (in_dev (create W BufferObj (CreateExportBuffer sz dma))) (\<lambda>ebuf.
     try_let (in_dev (ask W (BufferRequirements ebuf))) (\<lambda>req.
     try_option NoMemoryType (find_mem mems (an_bits req) [DeviceLocal]) (\<lambda>mt.
     try_let (in_dev (create W MemoryObj (AllocateExport (an_size req) mt dma))) (\<lambda>emem.
     try_let (in_dev (attempt W (BindBufferMemory ebuf emem))) (\<lambda>_.
     try_let (keep ScExportBuffer ebuf) (\<lambda>_.
     try_let (keep ScExportMem emem) (\<lambda>_. k ebuf emem (an_size req))))))))"

definition export_fd :: "driver \<Rightarrow> bool \<Rightarrow> (u64 \<times> u64 \<times> nat) option \<Rightarrow> (DmaBufExport option \<Rightarrow> 'a scoped) \<Rightarrow> 'a scoped" where
  "export_fd W dma ex k = (case ex of
     Some (_, emem, sz) \<Rightarrow> try_let (in_dev (attempt W (GetMemoryFd emem dma))) (\<lambda>fd.
       k (Some \<lparr>ex_fd = an_handle fd, ex_size = sz, ex_dma_buf = dma\<rparr>))
   | None \<Rightarrow> k None)"

definition with_export :: "driver \<Rightarrow> HostGpu \<Rightarrow> bool \<Rightarrow> nat \<Rightarrow> ((u64 \<times> u64 \<times> nat) option \<Rightarrow> 'a scoped) \<Rightarrow> 'a scoped" where
  "with_export W hg export sz k = (if export
     then export_buffer W (hg_mems hg) (hg_dma_buf hg) sz (\<lambda>ebuf emem n. k (Some (ebuf, emem, n))) else k None)"

text \<open>Recording, submitting and waiting, on objects made for this frame.\<close>

definition record_once :: "driver \<Rightarrow> u64 \<Rightarrow> vk_command list \<Rightarrow> (Device, unit) prog" where
  "record_once W cmd cs = try_let (attempt W (BeginCommandBuffer cmd)) (\<lambda>_.
     try_let (tell W (map (RecordCommand cmd) cs)) (\<lambda>_.
     try_let (attempt W (EndCommandBuffer cmd)) (\<lambda>_. ret ())))"

definition submit_once :: "driver \<Rightarrow> u64 \<Rightarrow> (unit \<Rightarrow> 'a scoped) \<Rightarrow> 'a scoped" where
  "submit_once W cmd k = register W ScFence CreateFence (\<lambda>fence.
     try_let (in_dev (attempt W (QueueSubmit cmd fence))) (\<lambda>_.
     try_let (in_dev (attempt W (WaitFence fence))) (\<lambda>_. k ())))"

text \<open>\<open>pixels\<close> is what the GPU leaves in the mapped buffer.\<close>

definition map_frame :: "driver \<Rightarrow> u32 \<Rightarrow> u32 \<Rightarrow> u64 \<Rightarrow> nat \<Rightarrow> bool \<Rightarrow> bytes \<Rightarrow> (Frame \<Rightarrow> 'a scoped) \<Rightarrow> 'a scoped" where
  "map_frame W w h mem sz coherent pixels k =
     try_let (in_dev (attempt W (MapMemory mem sz))) (\<lambda>_.
     try_let (if coherent then ret () else try_let (in_dev (attempt W (InvalidateMapped mem))) (\<lambda>_. ret ())) (\<lambda>_.
     try_let (in_dev (tell W [UnmapMemory mem])) (\<lambda>_.
     k \<lparr>fr_width = w, fr_height = h, fr_rgba = take sz pixels\<rparr>)))"

subsection \<open>Clearing\<close>

definition render_clear :: "driver \<Rightarrow> u32 \<Rightarrow> u32 \<Rightarrow> u32 list \<Rightarrow> bytes \<Rightarrow> (HostGpu, Frame) prog" where
  "render_clear W w h clear pixels = scoped W render_scratch_drop (\<lambda>hg.
     let sz = wrap_u64 (unat w * unat h * 4) in
     scoped_image W (hg_mems hg) ScImage ScImgMem w h FORMAT_R8G8B8A8_UNORM ImageColorTarget (\<lambda>img.
     register W ScView (CreateView img FORMAT_R8G8B8A8_UNORM) (\<lambda>view.
     register W ScRenderPass (CreateRenderPass FORMAT_R8G8B8A8_UNORM False) (\<lambda>rp.
     register W ScFramebuffer (CreateFramebuffer rp [view] w h) (\<lambda>fb.
     scoped_buffer W ScReadback ScRbMem sz UsageTransferDst (find_host_mem (hg_mems hg)) (\<lambda>buf mem _.
     try_let (in_dev (create W CommandPoolObj CreateCommandPool)) (\<lambda>pool.
     try_let (in_dev (attempt W (AllocateCommandBuffer pool))) (\<lambda>cmd.
     try_let (keep ScPool pool) (\<lambda>_.
     try_let (in_dev (record_once W (an_handle cmd) [CmdBeginRenderPass rp fb w h clear False, CmdEndRenderPass,
       CmdCopyImageToBuffer img buf w h])) (\<lambda>_.
     submit_once W (an_handle cmd) (\<lambda>_.
     map_frame W w h mem sz True pixels ret)))))))))))"

subsection \<open>Converting a framebuffer\<close>

definition convert_scratch_drop :: "slot list" where
  "convert_scratch_drop = [ScFence, ScPool, ScExportBuffer, ScExportMem, ScReadback, ScRbMem, Staging, StagingMem,
     CvDstImage, CvDstMem, CvSrcImage, CvSrcMem]"

definition convert_error :: "HostGpu \<Rightarrow> u32 \<Rightarrow> u32 \<Rightarrow> u32 \<Rightarrow> bytes \<Rightarrow> bool \<Rightarrow> gpu_error option" where
  "convert_error hg w h pitch src export =
    (if w = 0 \<or> h = 0 \<or> unat pitch < min (unat w * 4) (2 ^ 32 - 1) then Some BadConvertGeometry
     else if length src < unat pitch * unat h then Some ConvertTooShort
     else if export \<and> \<not> hg_external_fd hg then Some NoExport
     else None)"

definition convert_commands :: "u64 \<Rightarrow> u64 \<Rightarrow> u64 \<Rightarrow> u64 \<Rightarrow> u64 option \<Rightarrow> u32 \<Rightarrow> u32 \<Rightarrow> u32 \<Rightarrow> vk_command list" where
  "convert_commands staging src dst rb ebuf w h pitch =
     [CmdImageBarrier src LayoutUndefined LayoutTransferDst, CmdImageBarrier dst LayoutUndefined LayoutTransferDst,
      CmdCopyRowsToImage staging src (pitch div 4) w h, CmdImageBarrier src LayoutTransferDst LayoutTransferSrc,
      CmdBlitImage src dst w h, CmdImageBarrier dst LayoutTransferDst LayoutTransferSrc,
      CmdCopyImageToBuffer dst rb w h] @ (case ebuf of Some b \<Rightarrow> [CmdCopyImageToBuffer dst b w h] | None \<Rightarrow> [])"

definition convert_present_inner :: "driver \<Rightarrow> u32 \<Rightarrow> u32 \<Rightarrow> u32 \<Rightarrow> vk_format \<Rightarrow> bytes \<Rightarrow> bool \<Rightarrow> bytes \<Rightarrow>
    (HostGpu, Frame \<times> DmaBufExport option) prog" where
  "convert_present_inner W w h pitch format src export pixels hg = (case convert_error hg w h pitch src export of
     Some e \<Rightarrow> (Inl e, hg)
   | None \<Rightarrow> scoped W convert_scratch_drop (\<lambda>hg.
      let st_size = unat pitch * unat h; rb_size = wrap_u64 (unat w * unat h * 4) in
      scoped_buffer W Staging StagingMem st_size UsageTransferSrc (find_host_mem (hg_mems hg)) (\<lambda>staging st_mem _.
      try_let (in_dev (attempt W (MapMemory st_mem st_size))) (\<lambda>_.
      try_let (in_dev (tell W [WriteMapped st_mem (take st_size src), UnmapMemory st_mem])) (\<lambda>_.
      scoped_image W (hg_mems hg) CvSrcImage CvSrcMem w h format ImageTransfer (\<lambda>src_img.
      scoped_image W (hg_mems hg) CvDstImage CvDstMem w h FORMAT_B8G8R8A8_UNORM ImageTransfer (\<lambda>dst_img.
      scoped_buffer W ScReadback ScRbMem rb_size UsageTransferDst (find_host_mem (hg_mems hg)) (\<lambda>rb rb_mem _.
      with_export W hg export rb_size (\<lambda>ex.
      register W ScPool CreateCommandPool (\<lambda>pool.
      try_let (in_dev (attempt W (AllocateCommandBuffer pool))) (\<lambda>cmd.
      try_let (in_dev (record_once W (an_handle cmd)
        (convert_commands staging src_img dst_img rb (map_option fst ex) w h pitch))) (\<lambda>_.
      submit_once W (an_handle cmd) (\<lambda>_.
      map_frame W w h rb_mem rb_size True pixels (\<lambda>frame.
      export_fd W (hg_dma_buf hg) ex (\<lambda>out. ret (frame, out))))))))))))))) hg)"

definition convert_present :: "driver \<Rightarrow> u32 \<Rightarrow> u32 \<Rightarrow> u32 \<Rightarrow> vk_format \<Rightarrow> bytes \<Rightarrow> bytes \<Rightarrow> (HostGpu, Frame) prog" where
  "convert_present W w h pitch format src pixels =
     try_let (convert_present_inner W w h pitch format src False pixels) (\<lambda>x. ret (fst x))"

definition convert_present_export :: "driver \<Rightarrow> u32 \<Rightarrow> u32 \<Rightarrow> u32 \<Rightarrow> vk_format \<Rightarrow> bytes \<Rightarrow> bytes \<Rightarrow>
    (HostGpu, Frame \<times> DmaBufExport) prog" where
  "convert_present_export W w h pitch format src pixels =
     try_let (convert_present_inner W w h pitch format src True pixels) (\<lambda>(frame, ex).
       try_option NoExport ex (\<lambda>x. ret (frame, x)))"

subsection \<open>Drawing once\<close>

text \<open>\<open>pipeline_for\<close>: with the object cache off the objects are registered in the guard.\<close>

definition pipeline_for_in :: "driver \<Rightarrow> OwnedForwardedDraw \<Rightarrow> vk_format \<Rightarrow> (u64 \<times> u64 \<times> u64 \<Rightarrow> 'a scoped) \<Rightarrow> 'a scoped" where
  "pipeline_for_in W draw format k st = (if hg_cache_enabled (fst st) then try_let (in_gpu (pipeline_for W draw format)) k st
     else register W ScRenderPass (CreateRenderPass format (fst (depth_key_of draw))) (\<lambda>rp.
       register W ScVsModule (CreateModule (fd_vertex_spirv draw)) (\<lambda>vs.
       register W ScFsModule (CreateModule (fd_fragment_spirv draw)) (\<lambda>fs.
       try_let (in_gpu (build_pipeline W rp draw (map_topology (fd_topology draw)) vs fs)) (\<lambda>(p, layout).
       try_let (keep ScLayout layout) (\<lambda>_.
       try_let (keep ScPipeline p) (\<lambda>_. k (rp, p, layout))))))) st)"

definition triangle_commands :: "u64 \<Rightarrow> u64 \<Rightarrow> u64 \<Rightarrow> u64 \<Rightarrow> u64 \<Rightarrow> u64 option \<Rightarrow> u32 \<Rightarrow> u32 \<Rightarrow> u32 list \<Rightarrow> u32 \<Rightarrow> vk_command list" where
  "triangle_commands rp fb pipeline img rb ebuf w h bg n =
     [CmdBeginRenderPass rp fb w h bg False, CmdBindPipeline pipeline, CmdSetFullViewport w h, CmdSetScissor w h,
      CmdDraw n 1 0, CmdEndRenderPass, CmdCopyImageToBuffer img rb w h] @
     (case ebuf of Some b \<Rightarrow> [CmdCopyImageToBuffer img b w h] | None \<Rightarrow> [])"

definition render_triangle_inner :: "driver \<Rightarrow> u32 \<Rightarrow> u32 \<Rightarrow> u32 list \<Rightarrow> OwnedForwardedDraw \<Rightarrow> bool \<Rightarrow> bytes \<Rightarrow>
    (HostGpu, Frame \<times> DmaBufExport option) prog" where
  "render_triangle_inner W w h bg draw export pixels hg = (if export \<and> \<not> hg_external_fd hg then (Inl NoExport, hg)
     else scoped W render_scratch_drop (\<lambda>hg.
      let sz = wrap_u64 (unat w * unat h * 4) in
      scoped_image W (hg_mems hg) ScImage ScImgMem w h FORMAT_R8G8B8A8_UNORM ImageColorTarget (\<lambda>img.
      register W ScView (CreateView img FORMAT_R8G8B8A8_UNORM) (\<lambda>view.
      pipeline_for_in W draw FORMAT_R8G8B8A8_UNORM (\<lambda>(rp, pipeline, _).
      register W ScFramebuffer (CreateFramebuffer rp [view] w h) (\<lambda>fb.
      scoped_buffer W ScReadback ScRbMem sz UsageTransferDst (find_readback_mem (hg_mems hg)) (\<lambda>rb rb_mem coherent.
      with_export W hg export sz (\<lambda>ex.
      register W ScPool CreateCommandPool (\<lambda>pool.
      try_let (in_dev (attempt W (AllocateCommandBuffer pool))) (\<lambda>cmd.
      try_let (in_dev (record_once W (an_handle cmd)
        (triangle_commands rp fb pipeline img rb (map_option fst ex) w h bg (fd_vertex_count draw)))) (\<lambda>_.
      submit_once W (an_handle cmd) (\<lambda>_.
      map_frame W w h rb_mem sz coherent pixels (\<lambda>frame.
      export_fd W (hg_dma_buf hg) ex (\<lambda>out. ret (frame, out)))))))))))))) hg)"

text \<open>The built-in triangle; \<open>spv\<close> is the module of \<open>shaders.rs\<close>, entered at \<open>vs_main\<close> and \<open>fs_main\<close>.\<close>

definition builtin_triangle :: "u32 list \<Rightarrow> OwnedForwardedDraw" where
  "builtin_triangle spv = \<lparr>fd_vertex_spirv = spv, fd_fragment_spirv = spv, fd_vertex_entry = [118, 115, 95, 109, 97, 105, 110],
     fd_fragment_entry = [102, 115, 95, 109, 97, 105, 110], fd_vertex_count = 3, fd_topology = 0, fd_geometry = None\<rparr>"

definition render_triangle :: "driver \<Rightarrow> u32 list \<Rightarrow> u32 \<Rightarrow> u32 \<Rightarrow> u32 list \<Rightarrow> bytes \<Rightarrow> (HostGpu, Frame) prog" where
  "render_triangle W spv w h bg pixels =
     try_let (render_triangle_inner W w h bg (builtin_triangle spv) False pixels) (\<lambda>x. ret (fst x))"

definition export_triangle_dmabuf :: "driver \<Rightarrow> u32 list \<Rightarrow> u32 \<Rightarrow> u32 \<Rightarrow> bytes \<Rightarrow> (HostGpu, Frame \<times> DmaBufExport) prog" where
  "export_triangle_dmabuf W spv w h pixels =
     try_let (render_triangle_inner W w h [0x3d4ccccd, 0x3d4ccccd, 0x3da3d70a, 0x3f800000] (builtin_triangle spv) True pixels)
       (\<lambda>(frame, ex). try_option NoExport ex (\<lambda>x. ret (frame, x)))"

end
