(* ===== verification/Replay_Frame.thy ===== *)
theory Replay_Frame
  imports Replay_Scoped
begin

text \<open>
  One forwarded frame of \<open>crates/infinigpu-replay/src/lib.rs\<close>: the commands it records, the cached present path
  and the zero-copy path, the imported guest buffers, and the end of the device.
\<close>

subsection \<open>Recording\<close>

text \<open>\<open>x > 0.0\<close> on the bits of an \<open>f32\<close>: the sign bit clear, not zero and not a NaN.\<close>

definition f32_positive :: "u32 \<Rightarrow> bool" where
  "f32_positive b = (b \<noteq> 0 \<and> b \<le> 0x7F800000)"

definition draw_viewport :: "u32 \<Rightarrow> u32 \<Rightarrow> DrawCmd \<Rightarrow> vk_command" where
  "draw_viewport w h d = (case dr_viewport d of (x, y, vw, vh) \<Rightarrow>
     if f32_positive vw then CmdSetViewport (x, y, vw, vh) else CmdSetFullViewport w h)"

definition draw_commands :: "u32 \<Rightarrow> u32 \<Rightarrow> bool \<Rightarrow> DrawCmd \<Rightarrow> vk_command list" where
  "draw_commands w h indexed d = (let inst = max (dr_instance_count d) 1 in
     [draw_viewport w h d,
      if indexed then CmdDrawIndexed (dr_count d) inst (dr_first d) (dr_vertex_offset d)
      else CmdDraw (dr_count d) inst (dr_first d)])"

definition geometry_commands :: "u32 \<Rightarrow> u32 \<Rightarrow> OwnedForwardedDraw \<Rightarrow> GeometryGpu option \<Rightarrow> vk_command list" where
  "geometry_commands w h draw geom = (case fd_geometry draw of
     Some g \<Rightarrow> if og_draws g \<noteq> [] then
        (case geom of
           Some gg \<Rightarrow> CmdBindVertexBuffer (gg_vbo gg) #
             (case gg_ibo gg of Some (ibo, _) \<Rightarrow> [CmdBindIndexBuffer ibo (og_index_u32 g)] | None \<Rightarrow> [])
         | None \<Rightarrow> []) @
        concat (map (draw_commands w h (case geom of Some gg \<Rightarrow> gg_ibo gg \<noteq> None | None \<Rightarrow> False)) (og_draws g))
      else [CmdSetFullViewport w h, CmdDraw (fd_vertex_count draw) 1 0]
   | None \<Rightarrow> [CmdSetFullViewport w h, CmdDraw (fd_vertex_count draw) 1 0])"

definition frame_uploads :: "FrameDescriptors option \<Rightarrow> vk_command list" where
  "frame_uploads descs = (case descs of Some f \<Rightarrow> concat (map texture_copy (fd_tex f)) | None \<Rightarrow> [])"

definition frame_commands :: "SizedScratch \<Rightarrow> u64 \<Rightarrow> u64 \<Rightarrow> u64 \<Rightarrow> u32 \<Rightarrow> u32 \<Rightarrow> u32 list \<Rightarrow> OwnedForwardedDraw \<Rightarrow>
    GeometryGpu option \<Rightarrow> FrameDescriptors option \<Rightarrow> u64 \<Rightarrow> vk_command list" where
  "frame_commands ss rp pipeline layout w h bg draw geom descs dst =
     frame_uploads descs @
     [CmdBeginRenderPass rp (ss_framebuffer ss) w h bg (ss_depth ss \<noteq> None), CmdBindPipeline pipeline] @
     (case descs of Some f \<Rightarrow> [CmdBindDescriptorSet layout (fd_set f)] | None \<Rightarrow> []) @
     (case fd_geometry draw of
        Some g \<Rightarrow> if og_push_constants g \<noteq> [] then [CmdPushConstants layout (og_push_constants g)] else []
      | None \<Rightarrow> []) @
     [CmdSetScissor w h] @ geometry_commands w h draw geom @
     [CmdEndRenderPass, CmdCopyImageToBuffer (ss_image ss) dst w h]"

subsection \<open>Presenting through the readback buffer\<close>

definition scratch_for :: "driver \<Rightarrow> u32 \<Rightarrow> u32 \<Rightarrow> u64 \<Rightarrow> bool \<Rightarrow> (HostGpu, SizedScratch) prog" where
  "scratch_for W w h rp with_depth hg = (let sk = (w, h, with_depth) in case map_of (hg_scratch hg) sk of
     Some ss \<Rightarrow> (Inr ss, hg)
   | None \<Rightarrow>
      (let hg = (if MAX_CACHED_SCRATCH \<le> length (hg_scratch hg)
         then (mod_dev (fold (destroy_scratch W \<circ> snd) (hg_scratch hg)) hg)\<lparr>hg_scratch := []\<rparr> else hg)
       in try_let (on_dev (build_sized_scratch W (hg_mems hg) w h rp with_depth)) (\<lambda>ss hg.
         (Inr ss, hg\<lparr>hg_scratch := AList.update sk ss (hg_scratch hg)\<rparr>)) hg))"

definition frame_geometry :: "driver \<Rightarrow> OwnedForwardedDraw \<Rightarrow> (HostGpu, GeometryGpu option) prog" where
  "frame_geometry W draw hg = (case fd_geometry draw of
     Some g \<Rightarrow> if og_vertex_stride g \<noteq> 0 \<and> og_vertex_data g \<noteq> []
       then try_let (if hg_resource_cache_enabled hg then get_or_upload_geometry W g
                     else on_dev (upload_geometry W (hg_mems hg) g)) (\<lambda>gg. ret (Some gg)) hg
       else (Inr None, hg)
   | None \<Rightarrow> (Inr None, hg))"

text \<open>The mesh is freed after the frame unless the cache owns it.\<close>

definition free_geometry :: "driver \<Rightarrow> bool \<Rightarrow> GeometryGpu option \<Rightarrow> HostGpu \<Rightarrow> HostGpu" where
  "free_geometry W owned_here geom = (case geom of
     Some gg \<Rightarrow> if owned_here then mod_dev (destroy_all W (geometry_objs gg)) else id | None \<Rightarrow> id)"

definition free_descriptors :: "driver \<Rightarrow> FrameDescriptors option \<Rightarrow> HostGpu \<Rightarrow> HostGpu" where
  "free_descriptors W descs = (case descs of Some f \<Rightarrow> mod_dev (destroy_all W (descriptor_objs f)) | None \<Rightarrow> id)"

definition frame_descriptors :: "driver \<Rightarrow> OwnedForwardedDraw \<Rightarrow> (HostGpu, FrameDescriptors option) prog" where
  "frame_descriptors W draw hg = (case (desc_sig_of draw, fd_geometry draw) of
     (Some sig, Some g) \<Rightarrow> try_let (desc_set_layout W sig) (\<lambda>sl.
       try_let (build_frame_descriptors W g sl) (\<lambda>f. ret (Some f))) hg
   | _ \<Rightarrow> (Inr None, hg))"

text \<open>Record, submit and wait; whatever happened, the objects of this submit are then freed.\<close>

definition run_frame :: "driver \<Rightarrow> SizedScratch \<Rightarrow> vk_command list \<Rightarrow> (HostGpu \<Rightarrow> HostGpu) \<Rightarrow> (HostGpu, unit) prog" where
  "run_frame W ss cmds free hg = (case on_dev (try_let (record_commands W (ss_pool ss) (ss_cmd ss) cmds)
       (\<lambda>_. submit_and_wait W (ss_cmd ss) (ss_fence ss))) hg of (r, hg) \<Rightarrow> (r, free hg))"

definition read_back :: "driver \<Rightarrow> SizedScratch \<Rightarrow> (HostGpu, unit) prog" where
  "read_back W ss = (if ss_rb_coherent ss then ret ()
     else try_let (on_dev (attempt W (InvalidateMapped (ss_rb_mem ss)))) (\<lambda>_. ret ()))"

text \<open>\<open>pixels\<close> is what the GPU leaves in the mapped readback buffer, \<open>present\<close> the caller's closure.\<close>

definition draw_frame :: "driver \<Rightarrow> u32 \<Rightarrow> u32 \<Rightarrow> u32 list \<Rightarrow> OwnedForwardedDraw \<Rightarrow> u64 \<times> u64 \<times> u64 \<Rightarrow> SizedScratch \<Rightarrow> (HostGpu, unit) prog" where
  "draw_frame W w h bg draw pl ss hg0 = (case pl of (rp, pipeline, layout) \<Rightarrow>
     (let hg = (if hg_resource_cache_enabled hg0 then trim_tex_cache W hg0 else hg0);
         owned_here = (\<not> hg_resource_cache_enabled hg) in
     try_let (frame_geometry W draw) (\<lambda>geom hg.
       case frame_descriptors W draw hg of
         (Inl e, hg) \<Rightarrow> (Inl e, free_geometry W owned_here geom hg)
       | (Inr descs, hg) \<Rightarrow> run_frame W ss
           (frame_commands ss rp pipeline layout w h bg draw geom descs (ss_readback ss))
           (free_descriptors W descs \<circ> free_geometry W owned_here geom) hg) hg))"

definition render_forwarded_cached_present :: "driver \<Rightarrow> u32 \<Rightarrow> u32 \<Rightarrow> u32 list \<Rightarrow> OwnedForwardedDraw \<Rightarrow> (bytes \<Rightarrow> bool) \<Rightarrow> bytes \<Rightarrow>
    (HostGpu, bool) prog" where
  "render_forwarded_cached_present W w h bg draw present pixels =
    try_let (pipeline_for W draw FORMAT_R8G8B8A8_UNORM) (\<lambda>pl.
    try_let (scratch_for W w h (fst pl) (fst (depth_key_of draw))) (\<lambda>ss.
    try_let (draw_frame W w h bg draw pl ss) (\<lambda>_.
    try_let (read_back W ss) (\<lambda>_. ret (present (take (ss_size ss) pixels))))))"

subsection \<open>Zero-copy presents\<close>

definition import_objs :: "u64 \<times> u64 \<Rightarrow> vk_obj list" where
  "import_objs x = [(BufferObj, snd x), (MemoryObj, fst x)]"

definition import_guest_buffer :: "driver \<Rightarrow> HostGpu \<Rightarrow> u64 \<Rightarrow> nat \<Rightarrow> (Device, u64 \<times> u64) prog" where
  "import_guest_buffer W hg ptr sz =
    (let align = max (hg_host_ptr_align hg) 1; alloc_size = wrap_u64 (div_ceil sz align * align) in
     if \<not> hg_ext_mem_host hg then fail NoHostImport
     else if unat ptr mod align \<noteq> 0 then fail MisalignedPointer
     else build W [ImpBuffer, ImpMem] (
       try_let (with_dev (attempt W (HostPointerProperties ptr))) (\<lambda>hpp.
       try_option NoHostMemory (find_mem (hg_mems hg) (an_bits hpp) [HostVisible]) (\<lambda>ty.
       try_let (grab W ImpMem (ImportMemory ptr alloc_size ty)) (\<lambda>mem.
       try_let (grab W ImpBuffer (CreateImportBuffer sz)) (\<lambda>buffer.
       try_let (with_dev (attempt W (BindBufferMemory buffer mem))) (\<lambda>_.
       ret (mem, buffer))))))))"

definition forget_all_guest_imports :: "driver \<Rightarrow> HostGpu \<Rightarrow> HostGpu" where
  "forget_all_guest_imports W hg =
     (mod_dev (destroy_all W (concat (map (import_objs \<circ> snd) (hg_imports hg)))) hg)\<lparr>hg_imports := []\<rparr>"

definition import_for :: "driver \<Rightarrow> u64 \<Rightarrow> nat \<Rightarrow> (HostGpu, u64) prog" where
  "import_for W ptr sz hg = (case map_of (hg_imports hg) (ptr, sz) of
     Some (_, buffer) \<Rightarrow> (Inr buffer, hg)
   | None \<Rightarrow> (let hg = (if MAX_CACHED_SCRATCH \<le> length (hg_imports hg) then forget_all_guest_imports W hg else hg) in
      try_let (on_dev (import_guest_buffer W hg ptr sz)) (\<lambda>x hg.
        (Inr (snd x), hg\<lparr>hg_imports := AList.update (ptr, sz) x (hg_imports hg)\<rparr>)) hg))"

definition render_forwarded_zerocopy :: "driver \<Rightarrow> u32 \<Rightarrow> u32 \<Rightarrow> u32 list \<Rightarrow> OwnedForwardedDraw \<Rightarrow> u64 \<Rightarrow> (HostGpu, unit) prog" where
  "render_forwarded_zerocopy W w h bg draw ptr = (if fd_geometry draw \<noteq> None then fail GeometryNeedsCopyPath
     else scoped W render_scratch_drop (\<lambda>_. pipeline_for_in W draw FORMAT_R8G8B8A8_UNORM (\<lambda>(rp, pipeline, layout).
       try_let (in_gpu (import_for W ptr (wrap_u64 (unat w * unat h * 4)))) (\<lambda>dst.
       try_let (in_gpu (scratch_for W w h rp False)) (\<lambda>ss.
       in_gpu (run_frame W ss (frame_commands ss rp pipeline layout w h bg draw None None dst) id))))))"

text \<open>Without the scratch cache a forwarded draw is drawn once, from its vertex count alone.\<close>

definition render_forwarded_present :: "driver \<Rightarrow> u32 \<Rightarrow> u32 \<Rightarrow> u32 list \<Rightarrow> OwnedForwardedDraw \<Rightarrow> (bytes \<Rightarrow> bool) \<Rightarrow> bytes \<Rightarrow>
    (HostGpu, bool) prog" where
  "render_forwarded_present W w h bg draw present pixels hg = (if hg_scratch_enabled hg
     then render_forwarded_cached_present W w h bg draw present pixels hg
     else try_let (render_triangle_inner W w h bg draw False pixels) (\<lambda>x. ret (present (fr_rgba (fst x)))) hg)"

definition render_forwarded :: "driver \<Rightarrow> u32 \<Rightarrow> u32 \<Rightarrow> u32 list \<Rightarrow> OwnedForwardedDraw \<Rightarrow> bytes \<Rightarrow> (HostGpu, Frame) prog" where
  "render_forwarded W w h bg draw pixels hg = (if hg_scratch_enabled hg
     then try_let (render_forwarded_cached_present W w h bg draw (\<lambda>_. True) pixels) (\<lambda>_.
       ret \<lparr>fr_width = w, fr_height = h, fr_rgba = take (wrap_u64 (unat w * unat h * 4)) pixels\<rparr>) hg
     else try_let (render_triangle_inner W w h bg draw False pixels) (\<lambda>x. ret (fst x)) hg)"

subsection \<open>Opening the device\<close>

text \<open>The physical device: NVIDIA's driver first, then any discrete GPU, then anything; ties go to the first.\<close>

record Physical =
  ph_nvidia :: bool
  ph_discrete :: bool
  ph_index :: nat

definition device_score :: "Physical \<Rightarrow> nat" where
  "device_score p = (if ph_nvidia p then 100 else 0) + (if ph_discrete p then 10 else 0)"

definition best_device :: "Physical list \<Rightarrow> Physical option" where
  "best_device ps = foldl (\<lambda>best p. case best of
     None \<Rightarrow> Some p | Some b \<Rightarrow> if device_score b < device_score p then Some p else Some b) None ps"

text \<open>A switch of the environment is on unless it is \<open>0\<close> or \<open>false\<close>.\<close>

definition ascii_lower :: "u8 \<Rightarrow> u8" where
  "ascii_lower b = (if 65 \<le> b \<and> b \<le> 90 then b + 32 else b)"

definition env_on :: "bytes option \<Rightarrow> bool" where
  "env_on v = (case v of Some x \<Rightarrow> x \<noteq> [48] \<and> map ascii_lower x \<noteq> [102, 97, 108, 115, 101] | None \<Rightarrow> True)"

text \<open>The state \<open>open\<close> builds: every cache empty; the scratch and resource caches depend on the pipeline cache.\<close>

record GpuEnv =
  ge_mems :: mem_types
  ge_pipeline_cache :: "bytes option"
  ge_scratch_cache :: "bytes option"
  ge_resource_cache :: "bytes option"
  ge_external_fd :: bool
  ge_dma_buf :: bool
  ge_mem_host :: bool
  ge_host_ptr_align :: nat

definition gpu_opened :: "GpuEnv \<Rightarrow> HostGpu" where
  "gpu_opened e = (let cache = env_on (ge_pipeline_cache e) in \<lparr>hg_dev = device_new, hg_mems = ge_mems e, hg_cache_enabled = cache,
     hg_scratch_enabled = (cache \<and> env_on (ge_scratch_cache e)),
     hg_resource_cache_enabled = (cache \<and> env_on (ge_resource_cache e)), hg_external_fd = ge_external_fd e,
     hg_dma_buf = (ge_external_fd e \<and> ge_dma_buf e), hg_ext_mem_host = ge_mem_host e,
     hg_host_ptr_align = (if ge_mem_host e then ge_host_ptr_align e else 0), hg_modules = [], hg_passes = [], hg_pipelines = [],
     hg_hits = 0, hg_misses = 0, hg_set_layouts = [], hg_scratch = [], hg_imports = [], hg_geoms = [], hg_geom_bytes = 0,
     hg_geom_hits = 0, hg_geom_misses = 0, hg_texs = [], hg_tex_bytes = 0, hg_tex_hits = 0, hg_tex_misses = 0, hg_upload = None\<rparr>)"

definition supports_zerocopy_scanout :: "HostGpu \<Rightarrow> bool" where
  "supports_zerocopy_scanout hg = (hg_ext_mem_host hg \<and> hg_host_ptr_align hg \<noteq> 0 \<and> hg_host_ptr_align hg \<le> 4096)"

definition cache_stats :: "HostGpu \<Rightarrow> nat \<times> nat \<times> nat" where
  "cache_stats hg = (hg_hits hg, hg_misses hg, length (hg_pipelines hg))"

subsection \<open>The end of the device\<close>

definition drop_gpu :: "driver \<Rightarrow> HostGpu \<Rightarrow> HostGpu" where
  "drop_gpu W hg = (let hg = mod_dev (snd \<circ> attempt W DeviceWaitIdle) hg;
     hg = forget_all_guest_imports W hg;
     hg = (mod_dev (destroy_all W (map (Pair SetLayoutObj \<circ> snd) (hg_set_layouts hg))) hg)\<lparr>hg_set_layouts := []\<rparr>;
     hg = (mod_dev (destroy_all W (concat (map (resident_objs \<circ> snd) (hg_texs hg)))) hg)\<lparr>hg_texs := []\<rparr>;
     hg = (mod_dev (destroy_all W (concat (map (geometry_objs \<circ> fst \<circ> snd) (hg_geoms hg)))) hg)\<lparr>hg_geoms := []\<rparr>
     in (case hg_upload hg of
          Some (pool, _, fence) \<Rightarrow> mod_dev (destroy_all W [(FenceObj, fence), (CommandPoolObj, pool)]) hg
        | None \<Rightarrow> hg)\<lparr>hg_upload := None\<rparr>)"

end
