(* ===== verification/Replay_Ownership.thy ===== *)
theory Replay_Ownership
  imports Replay_Frame "HOL-Library.Sublist"
begin

text \<open>
  Who owns the Vulkan objects of \<open>HostGpu\<close>: its caches, or the caller of the operation that made them. Every
  operation is shown to keep the account, whatever the driver answers, and to keep the caches within their caps.
\<close>

subsection \<open>The account\<close>

definition cached_objs :: "('v \<Rightarrow> vk_obj list) \<Rightarrow> ('k \<times> 'v) list \<Rightarrow> vk_obj multiset" where
  "cached_objs f m = mset (concat (map (f \<circ> snd) m))"

definition upload_objs :: "(u64 \<times> u64 \<times> u64) option \<Rightarrow> vk_obj list" where
  "upload_objs c = (case c of Some (pool, _, fence) \<Rightarrow> [(FenceObj, fence), (CommandPoolObj, pool)] | None \<Rightarrow> [])"

definition compiled_objs :: "HostGpu \<Rightarrow> vk_obj multiset" where
  "compiled_objs hg = cached_objs (\<lambda>m. [(ModuleObj, m)]) (hg_modules hg) + cached_objs (\<lambda>r. [(RenderPassObj, r)]) (hg_passes hg) +
     cached_objs pipeline_objs (hg_pipelines hg)"

definition held :: "HostGpu \<Rightarrow> vk_obj multiset" where
  "held hg = compiled_objs hg + cached_objs (\<lambda>s. [(SetLayoutObj, s)]) (hg_set_layouts hg) +
     cached_objs scratch_objs (hg_scratch hg) + cached_objs import_objs (hg_imports hg) +
     cached_objs (geometry_objs \<circ> fst) (hg_geoms hg) + cached_objs resident_objs (hg_texs hg) + mset (upload_objs (hg_upload hg))"

definition within_caps :: "HostGpu \<Rightarrow> bool" where
  "within_caps hg \<longleftrightarrow> length (hg_pipelines hg) \<le> MAX_CACHED_PIPELINES \<and> length (hg_modules hg) \<le> MAX_CACHED_MODULES + 1 \<and>
     length (hg_set_layouts hg) \<le> MAX_DESC_SET_LAYOUTS \<and> length (hg_scratch hg) \<le> MAX_CACHED_SCRATCH \<and>
     length (hg_imports hg) \<le> MAX_CACHED_SCRATCH \<and> length (hg_geoms hg) \<le> MAX_CACHED_GEOM"

definition owned :: "vk_obj multiset \<Rightarrow> HostGpu \<Rightarrow> bool" where
  "owned L hg \<longleftrightarrow> owns (L + held hg) (hg_dev hg) \<and> within_caps hg"

text \<open>\<open>post L own\<close>: on success the result's objects have come to \<open>L\<close>, on failure none.\<close>

definition post :: "vk_obj multiset \<Rightarrow> ('a \<Rightarrow> vk_obj multiset) \<Rightarrow> (gpu_error + 'a) \<times> HostGpu \<Rightarrow> bool" where
  "post L own r \<longleftrightarrow> (case r of (Inr x, hg) \<Rightarrow> owned (L + own x) hg | (Inl e, hg) \<Rightarrow> owned L hg)"

abbreviation nothing :: "'a \<Rightarrow> vk_obj multiset" where
  "nothing x \<equiv> {#}"

lemma post_simps [simp]: "post L own (Inr x, hg) = owned (L + own x) hg" "post L own (Inl e, hg) = owned L hg"
  by (simp_all add: post_def)

lemma post_bind:
  assumes "post L own (m hg)" "\<And>x hg'. m hg = (Inr x, hg') \<Longrightarrow> owned (L + own x) hg' \<Longrightarrow> post L own' (k x hg')"
  shows "post L own' (try_let m k hg)"
  using assms by (cases "m hg"; cases "fst (m hg)") (auto simp: try_let_def)

lemma post_on_dev:
  assumes "makes m own" "owned L hg"
  shows "post L own (on_dev m hg)"
proof -
  have hg: "owns (L + held hg) (hg_dev hg)" "within_caps hg" using assms(2) by (simp_all add: owned_def)
  have "held (hg\<lparr>hg_dev := d\<rparr>) = held hg" "within_caps (hg\<lparr>hg_dev := d\<rparr>) = within_caps hg" for d
    by (simp_all add: held_def compiled_objs_def within_caps_def)
  then show ?thesis using makes_elim [OF assms(1) hg(1)] hg(2)
    by (auto simp: on_dev_def owned_def ac_simps)
qed

lemma post_ret [simp]: "post L own (ret x hg) = owned (L + own x) hg"
  by (simp add: ret_def)

lemma post_fail [simp]: "post L own (fail e hg) = owned L hg"
  by (simp add: fail_def)

lemma cached_Nil [simp]: "cached_objs f [] = {#}"
  by (simp add: cached_objs_def)

lemma cached_Cons [simp]: "cached_objs f ((k, v) # m) = mset (f v) + cached_objs f m"
  by (simp add: cached_objs_def)

lemma cached_new: "map_of m k = None \<Longrightarrow> cached_objs f (AList.update k v m) = cached_objs f m + mset (f v)"
  by (induction m) (auto split: if_splits)

lemma cached_replace: "map_of m k = Some w \<Longrightarrow>
    cached_objs f (AList.update k v m) + mset (f w) = cached_objs f m + mset (f v)"
  by (induction m) (auto split: if_splits simp: ac_simps)

lemma length_new: "length (AList.update k v m) \<le> Suc (length m)"
  by (induction m) auto

text \<open>Destroying what the account holds.\<close>

lemma owned_destroy: 
  assumes "owned (L + mset os) hg" shows "owned L (mod_dev (destroy_all W os) hg)"
proof -
  have "owns ((L + held hg) + mset os) (hg_dev hg)" using assms by (simp add: owned_def ac_simps)
  from owns_destroy_all [OF this] show ?thesis using assms
    by (simp add: owned_def mod_dev_def held_def compiled_objs_def within_caps_def)
qed

lemma owned_destroy1: "owned (L + {#(k, h)#}) hg \<Longrightarrow> owned L (mod_dev (destroy W k h) hg)"
  using owned_destroy [of L "[(k, h)]" hg W] by (simp add: destroy_all_def mod_dev_def)

lemma owned_call [simp]:
  "owned L (mod_dev (snd \<circ> attempt W c) hg) = owned L hg" "owned L (mod_dev (snd \<circ> tell W cs) hg) = owned L hg"
  by (simp_all add: owned_def mod_dev_def held_def compiled_objs_def within_caps_def attempt_def split_beta)

text \<open>The counters are no part of the account.\<close>

lemma owned_counters [simp]:
  "owned L (hg\<lparr>hg_hits := n\<rparr>) = owned L hg" "owned L (hg\<lparr>hg_misses := n\<rparr>) = owned L hg"
  "owned L (hg\<lparr>hg_geom_hits := n\<rparr>) = owned L hg" "owned L (hg\<lparr>hg_geom_misses := n\<rparr>) = owned L hg"
  "owned L (hg\<lparr>hg_geom_bytes := n\<rparr>) = owned L hg"
  "owned L (hg\<lparr>hg_tex_hits := n\<rparr>) = owned L hg" "owned L (hg\<lparr>hg_tex_misses := n\<rparr>) = owned L hg"
  "owned L (hg\<lparr>hg_tex_bytes := n\<rparr>) = owned L hg"
  by (simp_all add: owned_def held_def compiled_objs_def within_caps_def)

subsection \<open>Pipelines\<close>

text \<open>A step that moves objects between the account \<open>L\<close> and the caches.\<close>

lemma owned_move:
  assumes "owned L hg" "hg_dev hg' = hg_dev hg" "L' + held hg' = L + held hg" "within_caps hg \<Longrightarrow> within_caps hg'"
  shows "owned L' hg'"
  using assms by (simp add: owned_def)

lemmas moves = held_def compiled_objs_def within_caps_def cached_new mod_dev_def ac_simps

lemma cached_groups: "mset (concat (map (f \<circ> snd) m)) = cached_objs f m"
  by (simp add: cached_objs_def)

lemma cached_singles: "image_mset (Pair k \<circ> snd) (mset m) = cached_objs (\<lambda>v. [(k, v)]) m"
  by (induction m) (auto simp: cached_objs_def)

lemmas cached_all = cached_groups cached_singles

lemma dev_first:
  "(mod_dev f hg)\<lparr>hg_pipelines := [], hg_modules := [], hg_passes := []\<rparr> = mod_dev f (hg\<lparr>hg_pipelines := [], hg_modules := [], hg_passes := []\<rparr>)"
  "(mod_dev f hg)\<lparr>hg_set_layouts := []\<rparr> = mod_dev f (hg\<lparr>hg_set_layouts := []\<rparr>)"
  "(mod_dev f hg)\<lparr>hg_scratch := []\<rparr> = mod_dev f (hg\<lparr>hg_scratch := []\<rparr>)"
  "(mod_dev f hg)\<lparr>hg_imports := []\<rparr> = mod_dev f (hg\<lparr>hg_imports := []\<rparr>)"
  "(mod_dev f hg)\<lparr>hg_geoms := []\<rparr> = mod_dev f (hg\<lparr>hg_geoms := []\<rparr>)"
  "(mod_dev f hg)\<lparr>hg_geom_bytes := 0\<rparr> = mod_dev f (hg\<lparr>hg_geom_bytes := 0\<rparr>)"
  "(mod_dev f hg)\<lparr>hg_texs := []\<rparr> = mod_dev f (hg\<lparr>hg_texs := []\<rparr>)"
  "(mod_dev f hg)\<lparr>hg_tex_bytes := 0\<rparr> = mod_dev f (hg\<lparr>hg_tex_bytes := 0\<rparr>)"
  "(mod_dev f hg)\<lparr>hg_upload := None\<rparr> = mod_dev f (hg\<lparr>hg_upload := None\<rparr>)"
  by (simp_all add: mod_dev_def)

lemma post_dev:
  assumes "makes m own" "owned L hg"
    and "\<And>x d. owned (L + own x) (hg\<lparr>hg_dev := d\<rparr>) \<Longrightarrow> post L own' (k x (hg\<lparr>hg_dev := d\<rparr>))"
  shows "post L own' (try_let (on_dev m) k hg)"
  by (rule post_bind, rule post_on_dev [OF assms(1,2)]) (use assms(3) in \<open>auto simp: on_dev_def split: prod.splits\<close>)

text \<open>Emptying a cache: what it held is destroyed.\<close>

lemma owned_empty:
  assumes "owned L hg" "hg_dev hg' = hg_dev hg" "held hg' + mset os = held hg" "within_caps hg \<Longrightarrow> within_caps hg'"
  shows "owned L (mod_dev (destroy_all W os) hg')"
  by (rule owned_destroy, rule owned_move [OF assms(1,2)]) (use assms(3,4) in \<open>simp_all add: ac_simps\<close>)

lemma owned_clear_obj_cache: "owned L hg \<Longrightarrow> owned L (clear_obj_cache W hg)"
  unfolding clear_obj_cache_def dev_first by (erule owned_empty) (simp_all add: moves cached_all)

lemma render_pass_for_owned: 
  assumes "owned L hg" shows "post L nothing (render_pass_for W format dep hg)"
proof (cases "map_of (hg_passes hg) (format, dep)")
  case None
  have "owned L (hg\<lparr>hg_dev := d, hg_passes := AList.update (format, dep) rp (hg_passes hg)\<rparr>)"
    if "owned (L + {#(RenderPassObj, rp)#}) (hg\<lparr>hg_dev := d\<rparr>)" for rp d
    by (rule owned_move [OF that]) (use None in \<open>auto simp: moves\<close>)
  with None show ?thesis
    by (simp add: render_pass_for_def build_render_pass_def) (rule post_dev [OF makes_create assms], simp)
qed (simp add: render_pass_for_def assms)

lemma desc_set_layout_owned: 
  assumes o: "owned L hg" shows "post L nothing (desc_set_layout W sig hg)"
proof (cases "map_of (hg_set_layouts hg) sig")
  case None
  let ?clear = "destroy_all W (map (Pair SetLayoutObj \<circ> snd) (hg_set_layouts hg))"
  let ?new = "try_let (on_dev (create W SetLayoutObj (CreateSetLayout (set_layout_bindings sig))))
      (\<lambda>sl hg. (Inr sl, hg\<lparr>hg_set_layouts := AList.update sig sl (hg_set_layouts hg)\<rparr>))"
  have new: "post L nothing (?new hg')"
    if "owned L hg'" "map_of (hg_set_layouts hg') sig = None" "length (hg_set_layouts hg') < MAX_DESC_SET_LAYOUTS" for hg'
  proof (rule post_dev [OF makes_create that(1)])
    fix sl d assume "owned (L + {#(SetLayoutObj, sl)#}) (hg'\<lparr>hg_dev := d\<rparr>)"
    from owned_move [OF this] show "post L nothing (Inr sl, hg'\<lparr>hg_dev := d, hg_set_layouts := AList.update sig sl (hg_set_layouts (hg'\<lparr>hg_dev := d\<rparr>))\<rparr>)"
      using that(2,3) length_new [of sig sl "hg_set_layouts hg'"] by (auto simp: moves)
  qed
  have "owned L (mod_dev ?clear (hg\<lparr>hg_set_layouts := []\<rparr>))"
    by (rule owned_empty [OF o]) (simp_all add: moves cached_all)
  then have "post L nothing (?new (mod_dev ?clear (hg\<lparr>hg_set_layouts := []\<rparr>)))" by (rule new) (simp_all add: mod_dev_def)
  moreover have "length (hg_set_layouts hg) < MAX_DESC_SET_LAYOUTS \<Longrightarrow> post L nothing (?new hg)" by (rule new [OF o None])
  ultimately show ?thesis by (simp add: desc_set_layout_def None Let_def dev_first)
qed (simp add: desc_set_layout_def o)

lemma layout_sets_owned: "owned L hg \<Longrightarrow> post L nothing (layout_sets W draw hg)"
  by (cases "desc_sig_of draw") (auto simp: layout_sets_def intro!: post_bind desc_set_layout_owned)

text \<open>The pipeline path only touches its own caches through \<open>pipeline_for\<close>.\<close>

definition pipes :: "HostGpu \<Rightarrow> (PipelineKey \<times> u64 \<times> u64) list \<times> (u64 \<times> u64) list" where
  "pipes hg = (hg_pipelines hg, hg_modules hg)"

lemma snd_try_let: "snd (try_let m k hg) = (case fst (m hg) of Inl e \<Rightarrow> snd (m hg) | Inr x \<Rightarrow> snd (k x (snd (m hg))))"
  by (cases "m hg"; cases "fst (m hg)") (auto simp: try_let_def)

lemma pipes_dev [simp]: "pipes (snd (on_dev m hg)) = pipes hg" "pipes (mod_dev f hg) = pipes hg" "pipes (hg\<lparr>hg_dev := d\<rparr>) = pipes hg"
  by (simp_all add: pipes_def on_dev_def mod_dev_def split: prod.split)

lemma pipes_other [simp]: "pipes (hg\<lparr>hg_passes := x\<rparr>) = pipes hg" "pipes (hg\<lparr>hg_set_layouts := y\<rparr>) = pipes hg"
  by (simp_all add: pipes_def)

lemma pipes_render_pass_for [simp]: "pipes (snd (render_pass_for W f dep hg)) = pipes hg"
  by (simp add: render_pass_for_def snd_try_let split: option.split sum.split)

lemma pipes_desc_set_layout [simp]: "pipes (snd (desc_set_layout W sig hg)) = pipes hg"
  by (simp add: desc_set_layout_def snd_try_let Let_def split: option.split sum.split)

lemma pipes_layout_sets [simp]: "pipes (snd (layout_sets W draw hg)) = pipes hg"
  by (simp add: layout_sets_def snd_try_let ret_def split: option.split sum.split)

lemma pipes_or_undo: "pipes (snd (case r of (Inr p, hg) \<Rightarrow> (Inr (g p), hg) | (Inl e, hg) \<Rightarrow> (Inl e, mod_dev f hg))) = pipes (snd r)"
  by (cases r; cases "fst r") auto

lemma pipes_build_pipeline [simp]: "pipes (snd (build_pipeline W rp draw top vs fs hg)) = pipes hg" for top :: vk_topology
  by (simp add: build_pipeline_def snd_try_let pipes_or_undo split: sum.split)

lemma pipes_module_for [simp]: "pipes (snd (module_for W h words hg)) = pipes hg"
  by (simp add: module_for_def snd_try_let ret_def split: option.split sum.split)

lemma build_pipeline_owned: "owned L hg \<Longrightarrow> post L (mset \<circ> pipeline_objs) (build_pipeline W rp draw top vs fs hg)" for top :: vk_topology
  unfolding build_pipeline_def
proof (rule post_bind [OF layout_sets_owned], assumption, simp, rule post_dev [OF makes_create], assumption, goal_cases)
  case (1 sets hg' layout d)
  from post_on_dev [OF makes_create [where W = W and k = PipelineObj] 1(4), of "CreatePipeline (pipeline_info rp draw top vs fs layout)"]
  show ?case by (auto simp: post_def pipeline_objs_def ac_simps intro!: owned_destroy1 split: prod.splits sum.splits)
qed

definition module_objs :: "u64 \<times> bool \<Rightarrow> vk_obj multiset" where
  "module_objs x = (if snd x then {#(ModuleObj, fst x)#} else {#})"

lemma module_for_owned: "owned L hg \<Longrightarrow> post L module_objs (module_for W h words hg)"
  by (auto simp: module_for_def module_objs_def intro!: post_dev [OF makes_create] split: option.split)

lemma drop_module_owned: "owned (L + module_objs x) hg \<Longrightarrow> owned L (drop_module W x hg)"
  by (auto simp: drop_module_def module_objs_def intro: owned_destroy1)

lemma module_for_absent: "module_for W h words hg = (Inr x, hg') \<Longrightarrow> snd x \<Longrightarrow> map_of (hg_modules hg) h = None"
  by (auto simp: module_for_def split: option.splits)

lemma module_for_pipes: "module_for W h words hg = (r, hg') \<Longrightarrow> pipes hg' = pipes hg"
  using pipes_module_for [of W h words hg] by simp

lemma add_module_owned:
  assumes "owned (L + module_objs x) hg" "snd x \<Longrightarrow> map_of (hg_modules hg) h = None" "length (hg_modules hg) \<le> MAX_CACHED_MODULES"
  shows "owned L (add_module h x hg)" "hg_pipelines (add_module h x hg) = hg_pipelines hg"
    "length (hg_modules (add_module h x hg)) \<le> Suc (length (hg_modules hg))"
    "h' \<noteq> h \<Longrightarrow> map_of (hg_modules (add_module h x hg)) h' = map_of (hg_modules hg) h'"
proof -
  show "owned L (add_module h x hg)"
    by (rule owned_move [OF assms(1)])
      (use assms(2,3) length_new [of h "fst x" "hg_modules hg"] in \<open>auto simp: add_module_def module_objs_def moves\<close>)
qed (auto simp: add_module_def length_new update_conv)

definition room :: "HostGpu \<Rightarrow> bool" where
  "room hg \<longleftrightarrow> length (hg_pipelines hg) < MAX_CACHED_PIPELINES \<and> length (hg_modules hg) < MAX_CACHED_MODULES"

lemma add_pipeline_owned:
  assumes "owned (L + mset (pipeline_objs x)) hg" "map_of (hg_pipelines hg) key = None" "length (hg_pipelines hg) < MAX_CACHED_PIPELINES"
  shows "owned L (hg\<lparr>hg_misses := n, hg_pipelines := AList.update key x (hg_pipelines hg)\<rparr>)"
  by (rule owned_move [OF assms(1)]) (use assms(2,3) length_new [of key x "hg_pipelines hg"] in \<open>auto simp: moves\<close>)

lemma commit_pipeline_owned:
  assumes o: "owned (L + mset (pipeline_objs x) + module_objs f + module_objs v) hg" and r: "room hg"
    and n: "map_of (hg_pipelines hg) key = None" and v: "snd v \<Longrightarrow> map_of (hg_modules hg) hv = None"
    and f: "snd f \<Longrightarrow> hf \<noteq> hv \<and> map_of (hg_modules hg) hf = None"
  shows "owned L (let hg = add_module hf f (add_module hv v hg) in
     hg\<lparr>hg_misses := wrap_u64 (hg_misses hg + 1), hg_pipelines := AList.update key x (hg_pipelines hg)\<rparr>)"
proof -
  let ?hg1 = "add_module hv v hg" and ?hg2 = "add_module hf f (add_module hv v hg)"
  have m: "length (hg_modules hg) \<le> MAX_CACHED_MODULES" using r by (simp add: room_def)
  note 1 = add_module_owned [OF o v m, simplified]
  have "length (hg_modules ?hg1) \<le> MAX_CACHED_MODULES" using 1(3) r by (simp add: room_def)
  then have 2: "owned (L + mset (pipeline_objs x)) ?hg2" using 1(1,4) f by - (rule add_module_owned(1), simp_all)
  have "hg_pipelines ?hg2 = hg_pipelines hg" by (simp add: add_module_def)
  with add_pipeline_owned [OF 2] n r show ?thesis by (simp add: Let_def room_def)
qed

lemma new_pipeline_owned:
  assumes o: "owned L hg" and r: "room hg" and n: "map_of (hg_pipelines hg) key = None"
  shows "post L nothing (new_pipeline W draw key rp hg)"
  unfolding new_pipeline_def
proof (rule post_bind, rule module_for_owned [OF o])
  fix vs hg1 assume m: "module_for W (pk_vs_hash key) (fd_vertex_spirv draw) hg = (Inr vs, hg1)" and o1: "owned (L + module_objs vs) hg1"
  note p1 = module_for_pipes [OF m] and a1 = module_for_absent [OF m]
  let ?r = "if pk_fs_hash key = pk_vs_hash key then (Inr (fst vs, False), hg1) else module_for W (pk_fs_hash key) (fd_fragment_spirv draw) hg1"
  have post1: "post (L + module_objs vs) module_objs ?r" using o1 module_for_owned [OF o1] by (simp add: module_objs_def)
  obtain fs hg2 where r2: "?r = (fs, hg2)" by (cases ?r)
  have p2: "pipes hg2 = pipes hg" using r2 p1 module_for_pipes by (force split: if_splits)
  have a2: "pk_fs_hash key \<noteq> pk_vs_hash key \<and> map_of (hg_modules hg) (pk_fs_hash key) = None" if "fs = Inr x" "snd x" for x
    using r2 p1 that module_for_absent [of W "pk_fs_hash key" "fd_fragment_spirv draw" hg1 x hg2] by (auto simp: pipes_def split: if_splits)
  let ?b = "\<lambda>f. build_pipeline W rp draw (pk_topology key) (fst vs) (fst f) hg2"
  have Inl: "post L nothing (Inl e, drop_module W vs hg2)" if "fs = Inl e" for e
    using post1 that by (simp add: r2 drop_module_owned)
  have Inr: "post L nothing (case ?b f of
         (Inr (p, layout), hg) \<Rightarrow> (let hg = add_module (pk_fs_hash key) f (add_module (pk_vs_hash key) vs hg) in
           (Inr (p, layout), hg\<lparr>hg_misses := wrap_u64 (hg_misses hg + 1),
             hg_pipelines := AList.update key (p, layout) (hg_pipelines hg)\<rparr>))
       | (Inl e, hg) \<Rightarrow> (Inl e, drop_module W f (drop_module W vs hg)))" if f: "fs = Inr f" for f
  proof -
    have "owned (L + module_objs f + module_objs vs) hg2" using post1 by (simp add: r2 f ac_simps)
    from build_pipeline_owned [OF this, of W rp draw "pk_topology key" "fst vs" "fst f"]
    obtain q hg3 where b: "?b f = (q, hg3)" "post (L + module_objs f + module_objs vs) (mset \<circ> pipeline_objs) (q, hg3)"
      by (cases "?b f") auto
    have p3: "pipes hg3 = pipes hg" using pipes_build_pipeline [of W rp draw "pk_topology key" "fst vs" "fst f" hg2] b p2 by simp
    have "owned L (let hg = add_module (pk_fs_hash key) f (add_module (pk_vs_hash key) vs hg3) in
        hg\<lparr>hg_misses := wrap_u64 (hg_misses hg + 1), hg_pipelines := AList.update key x (hg_pipelines hg)\<rparr>)" if "q = Inr x" for x
      by (rule commit_pipeline_owned) (use b(2) that p3 a1 a2 [OF f] r n in \<open>auto simp: pipes_def room_def ac_simps\<close>)
    with b show ?thesis by (cases q) (auto simp: drop_module_owned Let_def split: prod.splits)
  qed
  from Inl Inr show "post L nothing (case ?r of (Inl e, hg) \<Rightarrow> (Inl e, drop_module W vs hg)
     | (Inr fs, hg) \<Rightarrow> (case build_pipeline W rp draw (pk_topology key) (fst vs) (fst fs) hg of
         (Inr (p, layout), hg) \<Rightarrow> (let hg = add_module (pk_fs_hash key) fs (add_module (pk_vs_hash key) vs hg) in
           (Inr (p, layout), hg\<lparr>hg_misses := wrap_u64 (hg_misses hg + 1),
             hg_pipelines := AList.update key (p, layout) (hg_pipelines hg)\<rparr>))
       | (Inl e, hg) \<Rightarrow> (Inl e, drop_module W fs (drop_module W vs hg))))"
    unfolding r2 by (cases fs) simp_all
qed

lemma pipeline_for_owned: 
  assumes o: "owned L hg" shows "post L nothing (pipeline_for W draw format hg)"
proof -
  let ?hg = "if MAX_CACHED_PIPELINES \<le> length (hg_pipelines hg) \<or> MAX_CACHED_MODULES \<le> length (hg_modules hg)
      then clear_obj_cache W hg else hg"
  have o': "owned L ?hg" "room ?hg" using o owned_clear_obj_cache [OF o] by (simp_all add: room_def clear_obj_cache_def)
  let ?rp = "render_pass_for W format (fst (depth_key_of draw))"
  have "post L nothing (try_let ?rp (\<lambda>rp hg.
       case map_of (hg_pipelines hg) (pipeline_key draw format) of
         Some (p, layout) \<Rightarrow> (Inr (rp, p, layout), hg\<lparr>hg_hits := wrap_u64 (hg_hits hg + 1)\<rparr>)
       | None \<Rightarrow> try_let (new_pipeline W draw (pipeline_key draw format) rp) (\<lambda>(p, layout). ret (rp, p, layout)) hg) ?hg)"
  proof (rule post_bind, rule render_pass_for_owned [OF o'(1)])
    fix rp hg1 assume *: "?rp ?hg = (Inr rp, hg1)" "owned (L + {#}) hg1"
    then have "room hg1" using o'(2) pipes_render_pass_for [of W format "fst (depth_key_of draw)" ?hg] by (simp add: room_def pipes_def)
    with * show "post L nothing (case map_of (hg_pipelines hg1) (pipeline_key draw format) of
         Some (p, layout) \<Rightarrow> (Inr (rp, p, layout), hg1\<lparr>hg_hits := wrap_u64 (hg_hits hg1 + 1)\<rparr>)
       | None \<Rightarrow> try_let (new_pipeline W draw (pipeline_key draw format) rp) (\<lambda>(p, layout). ret (rp, p, layout)) hg1)"
      by (auto split: option.split intro!: post_bind new_pipeline_owned)
  qed
  then show ?thesis unfolding pipeline_for_def Let_def .
qed

subsection \<open>Meshes, scratch objects and imports\<close>

text \<open>A cache insertion: the caps allow it and the key is new.\<close>

lemma get_or_upload_geometry_owned: 
  assumes o: "owned L hg" shows "post L nothing (get_or_upload_geometry W g hg)"
proof (cases "map_of (hg_geoms hg) (geom_key g)")
  case None
  have new: "owned L (hg'\<lparr>hg_geoms := AList.update (geom_key g) (gpu, n) (hg_geoms hg'), hg_geom_bytes := b\<rparr>)"
    if "owned (L + mset (geometry_objs gpu)) hg'" "map_of (hg_geoms hg') (geom_key g) = None" "length (hg_geoms hg') < MAX_CACHED_GEOM"
    for hg' gpu n b
    by (rule owned_move [OF that(1)])
      (use that(2,3) length_new [of "geom_key g" "(gpu, n)" "hg_geoms hg'"] in \<open>auto simp: moves\<close>)
  have evict: "owned L' (evict_geoms W hg')" if "owned L' hg'" for L' hg'
    unfolding evict_geoms_def dev_first
    by (rule owned_empty [OF that]) (simp_all add: moves cached_all)
  have e: "hg_geoms (evict_geoms W hg') = []" for hg' by (simp add: evict_geoms_def)
  show ?thesis unfolding get_or_upload_geometry_def Let_def None option.case
    by (rule post_dev [OF makes_upload_geometry o], unfold post_simps empty_neutral, rule new)
      (use None in \<open>auto simp: e intro!: evict\<close>)
qed (simp add: get_or_upload_geometry_def Let_def o)

lemma mod_dev_comp: "mod_dev (f \<circ> g) hg = mod_dev f (mod_dev g hg)"
  by (simp add: mod_dev_def)

lemma trim_tex_cache_owned: 
  assumes o: "owned L hg" shows "owned L (trim_tex_cache W hg)"
proof -
  have 1: "owned L (hg\<lparr>hg_dev := snd (attempt W DeviceWaitIdle (hg_dev hg))\<rparr>)"
    using o owned_call(1) [of L W DeviceWaitIdle hg] by (simp add: mod_dev_def)
  have "owned L (mod_dev (destroy_all W (concat (map (resident_objs \<circ> snd) (hg_texs hg))))
     (mod_dev (snd \<circ> attempt W DeviceWaitIdle) (hg\<lparr>hg_texs := [], hg_tex_bytes := 0\<rparr>)))"
    by (rule owned_empty [OF 1]) (simp_all add: moves cached_all)
  then show ?thesis using o unfolding trim_tex_cache_def dev_first comp_assoc mod_dev_comp by simp
qed

lemma owned_fold_scratch: "owned (L + cached_objs scratch_objs m) hg \<Longrightarrow> owned L (mod_dev (fold (destroy_scratch W \<circ> snd) m) hg)"
proof (induction m arbitrary: hg)
  case (Cons x m)
  obtain k s where x: "x = (k, s)" by (cases x)
  have "owned ((L + cached_objs scratch_objs m) + mset (scratch_objs s)) (mod_dev (snd \<circ> tell W [UnmapMemory (ss_rb_mem s)]) hg)"
    using Cons.prems unfolding owned_call by (simp add: x ac_simps)
  from Cons.IH [OF owned_destroy [OF this]] show ?case by (simp add: x mod_dev_def destroy_scratch_def comp_def)
qed (simp add: mod_dev_def)

lemma scratch_for_owned: 
  assumes o: "owned L hg" shows "post L nothing (scratch_for W w h rp dep hg)"
proof (cases "map_of (hg_scratch hg) (w, h, dep)")
  case None
  let ?new = "\<lambda>hg. try_let (on_dev (build_sized_scratch W (hg_mems hg) w h rp dep)) (\<lambda>ss hg.
         (Inr ss, hg\<lparr>hg_scratch := AList.update (w, h, dep) ss (hg_scratch hg)\<rparr>)) hg"
  have new: "post L nothing (?new hg')"
    if "owned L hg'" "map_of (hg_scratch hg') (w, h, dep) = None" "length (hg_scratch hg') < MAX_CACHED_SCRATCH" for hg'
  proof (rule post_dev [OF makes_build_sized_scratch that(1)])
    fix ss d assume "owned (L + (mset \<circ> scratch_objs) ss) (hg'\<lparr>hg_dev := d\<rparr>)"
    from owned_move [OF this] show "post L nothing (Inr ss, hg'\<lparr>hg_dev := d, hg_scratch := AList.update (w, h, dep) ss (hg_scratch (hg'\<lparr>hg_dev := d\<rparr>))\<rparr>)"
      using that(2,3) length_new [of "(w, h, dep)" ss "hg_scratch hg'"] by (auto simp: moves)
  qed
  let ?clear = "mod_dev (fold (destroy_scratch W \<circ> snd) (hg_scratch hg)) (hg\<lparr>hg_scratch := []\<rparr>)"
  have "owned L ?clear"
    by (rule owned_fold_scratch, rule owned_move [OF o]) (simp_all add: moves)
  then have "post L nothing (?new ?clear)" by (rule new) (simp_all add: mod_dev_def)
  moreover have "length (hg_scratch hg) < MAX_CACHED_SCRATCH \<Longrightarrow> post L nothing (?new hg)" by (rule new [OF o None])
  ultimately show ?thesis by (simp add: scratch_for_def None Let_def dev_first)
qed (simp add: scratch_for_def Let_def o)

lemma makes_import_guest_buffer: "makes (import_guest_buffer W hg ptr sz) (mset \<circ> import_objs)"
proof -
  have m: "makes (build W [ImpBuffer, ImpMem] (
       try_let (with_dev (attempt W (HostPointerProperties ptr))) (\<lambda>hpp.
       try_option NoHostMemory (find_mem (hg_mems hg) (an_bits hpp) [HostVisible]) (\<lambda>ty.
       try_let (grab W ImpMem (ImportMemory ptr n ty)) (\<lambda>mem.
       try_let (grab W ImpBuffer (CreateImportBuffer sz)) (\<lambda>buffer.
       try_let (with_dev (attempt W (BindBufferMemory buffer mem))) (\<lambda>_.
       ret (mem, buffer)))))))) (mset \<circ> import_objs)" for n
    by (intro makes_build owns_rules) (simp_all add: import_objs_def)
  have "makes (fail e) (mset \<circ> import_objs)" for e by (simp add: makes_def fail_def)
  with m show ?thesis by (simp add: import_guest_buffer_def Let_def)
qed

lemma forget_all_guest_imports_owned: "owned L hg \<Longrightarrow> owned L (forget_all_guest_imports W hg)"
  unfolding forget_all_guest_imports_def dev_first by (erule owned_empty) (simp_all add: moves cached_all)

lemma import_for_owned: 
  assumes o: "owned L hg" shows "post L nothing (import_for W ptr sz hg)"
proof (cases "map_of (hg_imports hg) (ptr, sz)")
  case None
  let ?new = "\<lambda>hg. try_let (on_dev (import_guest_buffer W hg ptr sz)) (\<lambda>x hg.
        (Inr (snd x), hg\<lparr>hg_imports := AList.update (ptr, sz) x (hg_imports hg)\<rparr>)) hg"
  have new: "post L nothing (?new hg')"
    if "owned L hg'" "map_of (hg_imports hg') (ptr, sz) = None" "length (hg_imports hg') < MAX_CACHED_SCRATCH" for hg'
  proof (rule post_dev [OF makes_import_guest_buffer that(1)])
    fix x d assume "owned (L + (mset \<circ> import_objs) x) (hg'\<lparr>hg_dev := d\<rparr>)"
    from owned_move [OF this] show "post L nothing (Inr (snd x), hg'\<lparr>hg_dev := d, hg_imports := AList.update (ptr, sz) x (hg_imports (hg'\<lparr>hg_dev := d\<rparr>))\<rparr>)"
      using that(2,3) length_new [of "(ptr, sz)" x "hg_imports hg'"] by (auto simp: moves)
  qed
  have "post L nothing (?new (forget_all_guest_imports W hg))"
    by (rule new [OF forget_all_guest_imports_owned [OF o]]) (simp_all add: forget_all_guest_imports_def)
  moreover have "length (hg_imports hg) < MAX_CACHED_SCRATCH \<Longrightarrow> post L nothing (?new hg)" by (rule new [OF o None])
  ultimately show ?thesis by (simp add: import_for_def None Let_def)
qed (auto simp: import_for_def o split: prod.split)

subsection \<open>Textures\<close>

text \<open>\<open>may_leak c L own r\<close>: as \<open>post\<close>, but objects \<open>K\<close> may have dropped out of every cache while still live;
  under the condition \<open>c\<close> there are none.\<close>

definition may_leak :: "bool \<Rightarrow> vk_obj multiset \<Rightarrow> ('a \<Rightarrow> vk_obj multiset) \<Rightarrow> (gpu_error + 'a) \<times> HostGpu \<Rightarrow> bool" where
  "may_leak c L own r \<longleftrightarrow> (\<exists>K. (c \<longrightarrow> K = {#}) \<and> post (L + K) own r)"

lemma may_leak_none: "post L own r \<Longrightarrow> may_leak c L own r"
  unfolding may_leak_def by (rule exI [of _ "{#}"]) simp

definition pending_objs :: "PendingTexUpload list \<Rightarrow> vk_obj multiset" where
  "pending_objs ps = mset (concat (map (texture_objs \<circ> pt_gpu) ps))"

lemma pending_simps [simp]: "pending_objs [] = {#}" "pending_objs (p # ps) = mset (texture_objs (pt_gpu p)) + pending_objs ps"
  "pending_objs (ps @ qs) = pending_objs ps + pending_objs qs"
  by (simp_all add: pending_objs_def)

lemma free_pending_owned: "owned (L + pending_objs ps) hg \<Longrightarrow> owned L (free_pending W ps hg)"
  unfolding free_pending_def pending_objs_def by (rule owned_destroy)

lemma write_texture_owned [simp]: "owned L (write_texture_descriptor W dset b v s hg) = owned L hg"
  by (simp add: write_texture_descriptor_def)

lemma resolve_scan_owned:
  "owned (L + pending_objs ps) hg \<Longrightarrow> post L pending_objs (resolve_scan W dset base i ts ps hg)"
proof (induction ts arbitrary: i ps hg)
  case (Cons t ts)
  note IH = Cons.IH
  let ?b = "base + 2 * word_of_nat i" and ?k = "tex_key t"
  consider (bad) "texture_bad t" | (hit) r where "\<not> texture_bad t" "map_of (hg_texs hg) ?k = Some r"
    | (miss) "\<not> texture_bad t" "map_of (hg_texs hg) ?k = None" by (cases "map_of (hg_texs hg) ?k") auto
  then show ?case
  proof cases
    case bad
    then show ?thesis using Cons.prems by (simp add: free_pending_owned)
  next
    case hit
    then show ?thesis using Cons.prems by (simp add: Let_def) (rule IH, simp)
  next
    case miss
    let ?m = "on_dev (alloc_resident_texture W (hg_mems hg) t ?b ?k) hg"
    from post_on_dev [OF makes_alloc_resident_texture [of W "hg_mems hg" t ?b ?k] Cons.prems]
    obtain r hg1 where m: "?m = (r, hg1)" and p: "post (L + pending_objs ps) (mset \<circ> texture_objs \<circ> pt_gpu) (r, hg1)"
      by (cases ?m) auto
    have "post L pending_objs (resolve_scan W dset base (Suc i) ts (ps @ [p]) hg1)" if "r = Inr p" for p
      by (rule IH) (use p that in \<open>simp add: ac_simps\<close>)
    then show ?thesis using p m miss by (cases r) (auto simp: Let_def free_pending_owned)
  qed
qed simp

text \<open>What a program returns when it succeeds.\<close>

definition yields :: "('s, 'a) prog \<Rightarrow> ('a \<Rightarrow> bool) \<Rightarrow> bool" where
  "yields m P \<longleftrightarrow> (\<forall>s x s'. m s = (Inr x, s') \<longrightarrow> P x)"

lemma yields_rules [owns_rules]:
  "(\<And>x. yields (k x) P) \<Longrightarrow> yields (try_let m k) P"
  "(\<And>x. yields (k' x) P) \<Longrightarrow> yields (try_option e r k') P"
  "P x \<Longrightarrow> yields (ret x) P"
  by (auto simp: yields_def try_let_def try_option_def ret_def fail_def split: prod.splits sum.splits option.splits)

lemma yields_build: "yields body P \<Longrightarrow> yields (build W order body) P"
  by (fastforce simp: yields_def build_def split: prod.splits sum.splits)

lemma alloc_resident_yields: "yields (alloc_resident_texture W mems tex b key) (\<lambda>p. pt_key p = key \<and> pt_binding p = b)"
  unfolding alloc_resident_texture_def texture_objects_def filled_buffer_def by (intro yields_build owns_rules) simp

text \<open>What the scan staged are the keys the cache did not have.\<close>

lemma resolve_scan_keys:
  assumes "resolve_scan W dset base i ts ps hg = (Inr ps', hg')"
  shows "hg_texs hg' = hg_texs hg \<and> (\<exists>ks. map pt_key ps' = map pt_key ps @ ks \<and> subseq ks (map tex_key ts) \<and>
     (\<forall>k \<in> set ks. map_of (hg_texs hg) k = None))"
  using assms
proof (induction ts arbitrary: i ps hg)
  case (Cons t ts)
  have good: "\<not> texture_bad t" using Cons.prems by (auto split: if_splits)
  show ?case
  proof (cases "map_of (hg_texs hg) (tex_key t)")
    case (Some r)
    from Cons.prems good Some
    have "resolve_scan W dset base (Suc i) ts ps (write_texture_descriptor W dset (base + 2 * word_of_nat i) (rx_view r) (rx_sampler r)
        (hg\<lparr>hg_tex_hits := wrap_u64 (hg_tex_hits hg + 1)\<rparr>)) = (Inr ps', hg')" by (simp add: Let_def)
    from Cons.IH [OF this] show ?thesis by (auto simp: write_texture_descriptor_def mod_dev_def intro: list_emb.intros)
  next
    case None
    then obtain p hg1 where p: "on_dev (alloc_resident_texture W (hg_mems hg) t (base + 2 * word_of_nat i) (tex_key t)) hg = (Inr p, hg1)"
        "resolve_scan W dset base (Suc i) ts (ps @ [p]) hg1 = (Inr ps', hg')"
      using Cons.prems good by (auto simp: Let_def split: prod.splits sum.splits)
    have "hg_texs hg1 = hg_texs hg" "pt_key p = tex_key t" using p(1)
        alloc_resident_yields [where W = W and mems = "hg_mems hg" and tex = t and b = "base + 2 * word_of_nat i" and key = "tex_key t"]
      by (auto simp: on_dev_def yields_def split: prod.splits)
    with Cons.IH [OF p(2)] None show ?thesis by auto
  qed
qed simp

lemma texture_objs_split: "mset (texture_objs (pt_gpu p)) = mset (resident_objs (into_resident p)) +
    mset [(BufferObj, tg_staging (pt_gpu p)), (MemoryObj, tg_staging_mem (pt_gpu p))]"
  by (simp add: texture_objs_def resident_objs_def into_resident_def Let_def)

text \<open>The commit of one staged texture. When its key is already resident it replaces that texture, whose image
  is lost.\<close>

definition commit_one :: "driver \<Rightarrow> u64 \<Rightarrow> PendingTexUpload \<Rightarrow> HostGpu \<Rightarrow> HostGpu" where
  "commit_one W dset p hg = commit_pending W dset [p] hg"

lemma commit_Cons: "commit_pending W dset (p # ps) hg = commit_pending W dset ps (commit_one W dset p hg)"
  by (simp add: commit_one_def Let_def)

lemma commit_one_texs: "hg_texs (commit_one W dset p hg) = AList.update (pt_key p) (into_resident p) (hg_texs hg)"
  by (simp add: commit_one_def Let_def write_texture_descriptor_def mod_dev_def)

lemma commit_one_owned:
  assumes "owned (L + mset (texture_objs (pt_gpu p))) hg"
  shows "owned (L + (case map_of (hg_texs hg) (pt_key p) of Some r \<Rightarrow> mset (resident_objs r) | None \<Rightarrow> {#})) (commit_one W dset p hg)"
proof -
  let ?r = "into_resident p" and ?k = "pt_key p"
  let ?lost = "case map_of (hg_texs hg) ?k of Some r \<Rightarrow> mset (resident_objs r) | None \<Rightarrow> {#}"
  let ?hg1 = "mod_dev (destroy_all W [(BufferObj, tg_staging (pt_gpu p)), (MemoryObj, tg_staging_mem (pt_gpu p))]) hg"
  have 1: "owned (L + mset (resident_objs ?r)) ?hg1"
    by (rule owned_destroy) (use assms in \<open>simp add: texture_objs_split ac_simps\<close>)
  have "cached_objs resident_objs (AList.update ?k ?r (hg_texs hg)) + ?lost = cached_objs resident_objs (hg_texs hg) + mset (resident_objs ?r)"
    by (cases "map_of (hg_texs hg) ?k") (simp_all add: cached_new cached_replace)
  then have "owned (L + ?lost) (?hg1\<lparr>hg_tex_bytes := hg_tex_bytes ?hg1 + pt_bytes p, hg_tex_misses := wrap_u64 (hg_tex_misses ?hg1 + 1),
      hg_texs := AList.update ?k ?r (hg_texs ?hg1)\<rparr>)"
    by (intro owned_move [OF 1]) (simp_all add: held_def compiled_objs_def within_caps_def mod_dev_def union_assoc [symmetric], simp add: ac_simps)
  then show ?thesis by (simp add: commit_one_def Let_def)
qed

lemma commit_pending_owned:
  "owned (L + pending_objs ps) hg \<Longrightarrow>
    \<exists>K. (distinct (map pt_key ps) \<and> (\<forall>k \<in> set (map pt_key ps). map_of (hg_texs hg) k = None) \<longrightarrow> K = {#}) \<and>
      owned (L + K) (commit_pending W dset ps hg)"
proof (induction ps arbitrary: L hg)
  case Nil
  then show ?case by (intro exI [of _ "{#}"]) simp
next
  case (Cons p ps)
  let ?lost = "case map_of (hg_texs hg) (pt_key p) of Some r \<Rightarrow> mset (resident_objs r) | None \<Rightarrow> {#}"
  let ?hg1 = "commit_one W dset p hg"
  have "owned (L + ?lost + pending_objs ps) ?hg1"
    using commit_one_owned [of "L + pending_objs ps" p hg W dset] Cons.prems by (simp add: ac_simps)
  from Cons.IH [OF this, unfolded commit_one_texs] obtain K
    where K: "distinct (map pt_key ps) \<and> (\<forall>k \<in> set (map pt_key ps). map_of (AList.update (pt_key p) (into_resident p) (hg_texs hg)) k = None) \<longrightarrow> K = {#}"
      "owned (L + ?lost + K) (commit_pending W dset ps ?hg1)" by blast
  have K1: "K = {#}" if "distinct (map pt_key ps)" "pt_key p \<notin> pt_key ` set ps" "\<forall>k \<in> set ps. map_of (hg_texs hg) (pt_key k) = None"
    by (rule K(1) [THEN mp]) (use that in \<open>simp add: update_conv, metis imageI\<close>)
  show ?case
  proof (intro exI [of _ "?lost + K"] conjI impI)
    show "owned (L + (?lost + K)) (commit_pending W dset (p # ps) hg)"
      using K(2) by (simp only: commit_Cons add.assoc)
  qed (use K1 in auto)
qed

lemma distinct_subseq: "subseq xs ys \<Longrightarrow> distinct ys \<Longrightarrow> distinct xs"
  by (induction rule: list_emb.induct) (auto dest: list_emb_set)

lemma may_leak_weaken: "may_leak c L own r \<Longrightarrow> (c' \<Longrightarrow> c) \<Longrightarrow> may_leak c' L own r"
  unfolding may_leak_def by blast

lemma ensure_upload_ctx_owned: 
  assumes o: "owned L hg" shows "post L nothing (ensure_upload_ctx W hg)"
proof (cases "hg_upload hg")
  case None
  let ?own = "\<lambda>x. mset (upload_objs (Some x))"
  have m: "makes (build W [CtxPool, CtxFence] (
       try_let (grab W CtxPool CreateCommandPool) (\<lambda>pool.
       try_let (with_dev (attempt W (AllocateCommandBuffer pool))) (\<lambda>cmd.
       try_let (grab W CtxFence CreateFence) (\<lambda>fence. ret (pool, an_handle cmd, fence)))))) ?own"
    by (intro makes_build owns_rules) (simp_all add: upload_objs_def)
  have "owned L (hg\<lparr>hg_dev := d, hg_upload := Some x\<rparr>)" if "owned (L + ?own x) (hg\<lparr>hg_dev := d\<rparr>)" for x d
    by (rule owned_move [OF that]) (use None in \<open>auto simp: upload_objs_def moves split: prod.split\<close>)
  then show ?thesis unfolding ensure_upload_ctx_def using None
    by simp (rule post_dev [OF m o], simp)
qed (simp add: ensure_upload_ctx_def o)

lemma makes_try: "makes m nothing \<Longrightarrow> (\<And>x. makes (k x) own) \<Longrightarrow> makes (try_let m k) own"
  by (rule makes_bind, assumption) (simp add: makes_def)

lemma makes_ret: "makes (ret x) nothing"
  by (simp add: makes_def ret_def)

lemma makes_tell: "makes (tell W cs) nothing"
  by (simp add: makes_def split_beta)

lemma makes_submit: "makes (record_commands W pool cmd cs) nothing" "makes (submit_and_wait W cmd fence) nothing"
  unfolding record_commands_def submit_and_wait_def by (intro makes_try makes_attempt makes_tell makes_ret)+

lemma record_and_submit_uploads_owned: "owned L hg \<Longrightarrow> post L nothing (record_and_submit_uploads W ps hg)"
  unfolding record_and_submit_uploads_def
  by (rule post_bind, erule ensure_upload_ctx_owned)
    (auto split: option.split intro!: post_on_dev makes_try makes_submit)

lemma hg_texs_uploads [simp]: "hg_texs (snd (record_and_submit_uploads W ps hg)) = hg_texs hg"
  by (auto simp: record_and_submit_uploads_def ensure_upload_ctx_def snd_try_let on_dev_def split: sum.split option.split prod.split)

lemma resolve_frame_textures_owned:
  assumes o: "owned L hg"
  shows "may_leak (distinct (map tex_key texs)) L nothing (resolve_frame_textures W texs dset base hg)"
proof -
  obtain r hg1 where s: "resolve_scan W dset base 0 texs [] hg = (r, hg1)" by (cases "resolve_scan W dset base 0 texs [] hg")
  have p: "post L pending_objs (r, hg1)" using resolve_scan_owned [of L "[]" hg W dset base 0 texs] o s by simp
  show ?thesis
  proof (cases r)
    case (Inl e)
    then show ?thesis using p s by (intro may_leak_none) (simp add: resolve_frame_textures_def try_let_def)
  next
    case (Inr ps)
    obtain u hg2 where u: "record_and_submit_uploads W ps hg1 = (u, hg2)" by (cases "record_and_submit_uploads W ps hg1")
    have o2: "owned (L + pending_objs ps) hg2" 
      using record_and_submit_uploads_owned [of "L + pending_objs ps" hg1 W ps] p by (cases u) (simp_all add: Inr u)
    have keys: "distinct (map pt_key ps) \<and> (\<forall>k \<in> set (map pt_key ps). map_of (hg_texs hg2) k = None)" if "distinct (map tex_key texs)"
      using resolve_scan_keys [OF s [unfolded Inr]] hg_texs_uploads [of W ps hg1] that
      by (auto simp: u distinct_subseq)
    show ?thesis
    proof (cases "ps = [] \<or> (\<exists>e. u = Inl e)")
      case True
      then show ?thesis using p s Inr u o2
        by (intro may_leak_none) (auto simp: resolve_frame_textures_def try_let_def free_pending_owned)
    next
      case False
      then obtain x where x: "u = Inr x" by (cases u) auto
      from commit_pending_owned [OF o2, of W dset] keys False s Inr u x show ?thesis
        by (auto simp: may_leak_def resolve_frame_textures_def try_let_def)
    qed
  qed
qed

lemma upload_frame_textures_owned:
  "owned (L + mset (concat (map texture_objs gs))) hg \<Longrightarrow>
    post L (\<lambda>gs. mset (concat (map texture_objs gs))) (upload_frame_textures W dset base i ts gs hg)"
proof (induction ts arbitrary: i gs hg)
  case (Cons t ts)
  let ?m = "on_dev (upload_texture_into W (hg_mems hg) t dset (base + 2 * word_of_nat i)) hg"
  from post_on_dev [OF makes_upload_texture_into Cons.prems]
  obtain r hg1 where m: "?m = (r, hg1)" and p: "post (L + mset (concat (map texture_objs gs))) (mset \<circ> texture_objs) (r, hg1)"
    by (cases ?m) metis
  have "post L (\<lambda>gs. mset (concat (map texture_objs gs))) (upload_frame_textures W dset base (Suc i) ts (gs @ [g]) hg1)" if "r = Inr g" for g
    by (rule Cons.IH) (use p that in \<open>simp add: ac_simps\<close>)
  then show ?case using p m by (cases r) (auto intro: owned_destroy)
qed simp

lemma frame_textures_owned:
  assumes "owned L hg"
  shows "may_leak (distinct (map tex_key (og_textures g))) L (\<lambda>gs. mset (concat (map texture_objs gs))) (frame_textures W g dset hg)"
proof (cases "hg_resource_cache_enabled hg")
  case True
  from resolve_frame_textures_owned [OF assms, of "og_textures g" W dset "og_tex_binding g"] show ?thesis
    unfolding may_leak_def by (auto simp: frame_textures_def True intro!: post_bind)
next
  case False
  then show ?thesis using upload_frame_textures_owned [of L "[]" hg] assms by (auto simp: frame_textures_def intro: may_leak_none)
qed

subsection \<open>Frames\<close>

lemma yields_upload_ubos: "(\<And>ubos. yields (k ubos) P) \<Longrightarrow> yields (upload_ubos W mems dset i us ubos k) P"
proof (induction us arbitrary: i ubos)
  case (Cons u us)
  then show ?case unfolding upload_ubos.simps filled_buffer_def by (intro owns_rules) auto
qed simp

lemma yields_upload_ssbo: "(\<And>x. yields (k x) P) \<Longrightarrow> yields (upload_ssbo W mems dset st k) P"
  by (cases st) (auto simp: upload_ssbo_def filled_buffer_def intro!: owns_rules)

lemma yields_frame_buffers: "yields (frame_buffers W mems g layout) (\<lambda>f. fd_tex f = [])"
  unfolding frame_buffers_def by (intro owns_rules yields_upload_ubos yields_upload_ssbo) simp

lemma owned_release: "tidy order t \<Longrightarrow> owned (L + objs t) hg \<Longrightarrow> owned L (mod_dev (release W order t) hg)"
  using owns_release [of order t "L + held hg" "hg_dev hg" W]
  by (simp add: owned_def mod_dev_def held_def compiled_objs_def within_caps_def ac_simps)

lemma owned_dev: "owned L hg \<Longrightarrow> owns (L' + held hg) d \<Longrightarrow> owned L' (hg\<lparr>hg_dev := d\<rparr>)"
  by (simp add: owned_def held_def compiled_objs_def within_caps_def)

text \<open>The buffers of a frame: either all are there, or the cleanup has what it needs.\<close>

lemma frame_buffers_owned:
  assumes o: "owned L hg" and b: "frame_buffers W (hg_mems hg) g layout (hg_dev hg, []) = (r, (d, t))"
  shows "tidy (frame_cleanup (length (og_uniforms g))) t" "owned (L + objs t) (hg\<lparr>hg_dev := d\<rparr>)"
    "r = Inr f \<Longrightarrow> objs t = mset (descriptor_objs f) \<and> fd_tex f = []"
proof -
  have "owns (L + held hg + objs []) (hg_dev hg)" using o by (simp add: owned_def)
  from chain_frame_buffers [of g W "hg_mems hg" layout, unfolded chain_def, rule_format, OF this]
  have c: "case r of Inr x \<Rightarrow> owns (L + held hg + mset (descriptor_objs x)) d \<and> objs t = mset (descriptor_objs x) \<and>
        tidy (frame_cleanup (length (og_uniforms g))) t
      | Inl e \<Rightarrow> owns (L + held hg + objs t) d \<and> tidy (frame_cleanup (length (og_uniforms g))) t"
    by (simp add: b split: sum.splits)
  then show "tidy (frame_cleanup (length (og_uniforms g))) t" by (cases r) auto
  have "owns (L + objs t + held hg) d" using c by (cases r) (auto simp: ac_simps)
  from owned_dev [OF o this] show "owned (L + objs t) (hg\<lparr>hg_dev := d\<rparr>)" .
  show "objs t = mset (descriptor_objs f) \<and> fd_tex f = []" if "r = Inr f"
    using c that b yields_frame_buffers [of W "hg_mems hg" g layout] unfolding yields_def by simp blast
qed

definition same_textures :: "OwnedGeometry \<Rightarrow> bool" where
  "same_textures g \<longleftrightarrow> \<not> distinct (map tex_key (og_textures g))"

lemma build_frame_descriptors_owned:
  assumes o: "owned L hg"
  shows "may_leak (\<not> same_textures g) L (mset \<circ> descriptor_objs) (build_frame_descriptors W g layout hg)"
proof (cases "descriptor_limits g")
  case None
  let ?order = "frame_cleanup (length (og_uniforms g))"
  obtain r d t where b: "frame_buffers W (hg_mems hg) g layout (hg_dev hg, []) = (r, (d, t))"
    by (cases "frame_buffers W (hg_mems hg) g layout (hg_dev hg, [])") auto
  note fb = frame_buffers_owned [OF o b]
  show ?thesis
  proof (cases r)
    case (Inl e)
    have "owned L (mod_dev (release W ?order t) (hg\<lparr>hg_dev := d\<rparr>))" by (rule owned_release [OF fb(1,2)])
    then show ?thesis by (intro may_leak_none) (simp add: build_frame_descriptors_def None b Inl Let_def mod_dev_def)
  next
    case (Inr f)
    obtain u hg1 where u: "frame_textures W g (fd_set f) (hg\<lparr>hg_dev := d\<rparr>) = (u, hg1)"
      by (cases "frame_textures W g (fd_set f) (hg\<lparr>hg_dev := d\<rparr>)")
    from frame_textures_owned [OF fb(2), of g W "fd_set f"] obtain K where K: "\<not> same_textures g \<longrightarrow> K = {#}"
        "post (L + objs t + K) (\<lambda>gs. mset (concat (map texture_objs gs))) (u, hg1)"
      by (auto simp: may_leak_def u same_textures_def)
    from fb(3) [OF Inr] have f: "objs t = mset (descriptor_objs f)" "fd_tex f = []" by auto
    have "mset (descriptor_objs (f\<lparr>fd_tex := tex\<rparr>)) = objs t + mset (concat (map texture_objs tex))" for tex
      unfolding f(1) by (simp add: descriptor_objs_def f(2))
    moreover have "owned (L + K) (mod_dev (release W ?order t) hg1)" if "u = Inl e" for e
      by (rule owned_release [OF fb(1)]) (use K(2) that in \<open>simp add: ac_simps\<close>)
    ultimately have "post (L + K) (mset \<circ> descriptor_objs) (build_frame_descriptors W g layout hg)"
      using K(2) by (cases u) (simp_all add: build_frame_descriptors_def None b Inr u Let_def ac_simps)
    with K(1) show ?thesis by (auto simp: may_leak_def)
  qed
qed (auto simp: build_frame_descriptors_def o intro: may_leak_none)

definition draw_repeats :: "OwnedForwardedDraw \<Rightarrow> bool" where
  "draw_repeats draw \<longleftrightarrow> (\<exists>g. fd_geometry draw = Some g \<and> same_textures g)"

definition option_objs :: "('a \<Rightarrow> vk_obj list) \<Rightarrow> 'a option \<Rightarrow> vk_obj multiset" where
  "option_objs f x = (case x of Some y \<Rightarrow> mset (f y) | None \<Rightarrow> {#})"

lemma option_objs_simps [simp]: "option_objs f None = {#}" "option_objs f (Some y) = mset (f y)"
  by (simp_all add: option_objs_def)

lemma frame_descriptors_owned:
  assumes o: "owned L hg"
  shows "may_leak (\<not> draw_repeats draw) L (option_objs descriptor_objs) (frame_descriptors W draw hg)"
proof (cases "desc_sig_of draw = None \<or> fd_geometry draw = None")
  case True
  then show ?thesis using o by (intro may_leak_none) (auto simp: frame_descriptors_def split: option.split)
next
  case False
  then obtain sig g where s: "desc_sig_of draw = Some sig" "fd_geometry draw = Some g" by auto
  obtain r hg1 where l: "desc_set_layout W sig hg = (r, hg1)" "post L nothing (r, hg1)"
    using desc_set_layout_owned [OF o, of W sig] by (cases "desc_set_layout W sig hg") auto
  show ?thesis
  proof (cases r)
    case (Inl e)
    then show ?thesis using l s by (intro may_leak_none) (simp add: frame_descriptors_def try_let_def)
  next
    case (Inr sl)
    with l(2) have "owned L hg1" by simp
    from build_frame_descriptors_owned [OF this, of g W sl] obtain K where K: "\<not> same_textures g \<longrightarrow> K = {#}"
        "post (L + K) (mset \<circ> descriptor_objs) (build_frame_descriptors W g sl hg1)" by (auto simp: may_leak_def)
    have "post (L + K) (option_objs descriptor_objs) (try_let (build_frame_descriptors W g sl) (\<lambda>f. ret (Some f)) hg1)"
      by (rule post_bind, rule K(2)) simp
    then show ?thesis using K(1) l Inr s by (auto simp: may_leak_def frame_descriptors_def try_let_def draw_repeats_def)
  qed
qed

end
