(* ===== verification/Replay_Guards.thy ===== *)
theory Replay_Guards
  imports Replay_Ownership
begin

text \<open>
  The frames with a guard: whatever step fails, the guard destroys what was registered. \<open>lk\<close> says which objects may
  be lost: those created and not yet registered when a step in between fails.
\<close>

subsection \<open>Rules\<close>

named_theorems guard_rules "rules for programs with a guard"

text \<open>\<open>loose\<close> are the objects created and not registered, \<open>t\<close> the registered ones.\<close>

definition guarded :: "(vk_obj multiset \<Rightarrow> bool) \<Rightarrow> slot list \<Rightarrow> vk_obj list \<Rightarrow> slots \<Rightarrow> 'a scoped \<Rightarrow> bool" where
  "guarded lk order loose t body \<longleftrightarrow> (\<forall>L hg. owned (L + mset loose + objs t) hg \<longrightarrow>
     (case body (hg, t) of (r, (hg', t')) \<Rightarrow> \<exists>K. lk K \<and> owned (L + K + objs t') hg' \<and> tidy order t'))"

lemma guarded_scoped:
  assumes "\<And>hg. guarded lk order [] [] (body hg)" "owned L hg"
  shows "\<exists>K. lk K \<and> post (L + K) nothing (scoped W order body hg)"
proof -
  obtain r hg' t' where b: "body hg (hg, []) = (r, (hg', t'))" by (cases "body hg (hg, [])") auto
  have "owned (L + mset [] + objs []) hg" using assms(2) by simp
  with assms(1) [of hg] b obtain K where K: "lk K" "owned (L + K + objs t') hg'" "tidy order t'" unfolding guarded_def by fastforce
  from owned_release [OF K(3) K(2)] have "owned (L + K) (mod_dev (release W order t') hg')" .
  with K(1) b show ?thesis by (auto simp: scoped_def post_def split: sum.split intro!: exI [of _ K])
qed

lemma guarded_gpu:
  assumes m: "\<And>L hg. owned L hg \<Longrightarrow> post L (mset \<circ> f) (m hg)" and k: "\<And>x. guarded lk order (f x @ loose) t (k x)"
    and ok: "lk (mset loose)" "tidy order t"
  shows "guarded lk order loose t (try_let (in_gpu m) k)"
  unfolding guarded_def
proof (intro allI impI)
  fix L hg assume o: "owned (L + mset loose + objs t) hg"
  obtain r hg1 where r: "m hg = (r, hg1)" by (cases "m hg")
  show "case try_let (in_gpu m) k (hg, t) of (r, (hg', t')) \<Rightarrow> \<exists>K. lk K \<and> owned (L + K + objs t') hg' \<and> tidy order t'"
  proof (cases r)
    case (Inl e)
    then show ?thesis using m [OF o] ok r by (auto simp: try_let_def in_gpu_def)
  next
    case (Inr x)
    have "owned (L + mset (f x @ loose) + objs t) hg1" using m [OF o] r Inr by (simp add: ac_simps)
    with k [of x] show ?thesis by (simp add: guarded_def try_let_def in_gpu_def r Inr)
  qed
qed

lemma guarded_plain:
  assumes "makes m nothing" "\<And>x. guarded lk order loose t (k x)" "lk (mset loose)" "tidy order t"
  shows "guarded lk order loose t (try_let (in_dev m) k)"
  unfolding in_dev_def
  by (rule guarded_gpu [where f = "\<lambda>_. []"]) (use assms post_on_dev [OF assms(1)] in \<open>simp_all add: comp_def\<close>)

lemma makes_ask: "makes (ask W c) nothing"
  by (simp add: makes_def ask_def split_beta)

lemma makes_record_once: "makes (record_once W cmd cs) nothing"
  unfolding record_once_def by (intro makes_try makes_attempt makes_tell makes_ret)

lemmas plain_calls [guard_rules] = guarded_plain [OF makes_ask] guarded_plain [OF makes_attempt] guarded_plain [OF makes_tell]
  guarded_plain [OF makes_record_once]

lemma guarded_create [guard_rules]:
  assumes "\<And>h. guarded lk order ((s, h) # loose) t (k h)" "lk (mset loose)" "tidy order t"
  shows "guarded lk order loose t (try_let (in_dev (create W s c)) k)"
  unfolding in_dev_def
  by (rule guarded_gpu [where f = "\<lambda>h. [(s, h)]"]) (use assms post_on_dev [OF makes_create] in \<open>simp_all add: comp_def\<close>)

lemma guarded_keep [guard_rules]:
  assumes "guarded lk order (remove1 (slot_kind s, h) loose) ((s, h) # t) (k ())" "(slot_kind s, h) \<in> set loose"
  shows "guarded lk order loose t (try_let (keep s h) k)"
proof -
  have e: "L + mset (remove1 (slot_kind s, h) loose) + objs ((s, h) # t) = L + mset loose + objs t" for L
  proof -
    have m: "mset loose = mset (remove1 (slot_kind s, h) loose) + {#(slot_kind s, h)#}" using assms(2) by simp
    show ?thesis by (simp only: m objs_simps ac_simps)
  qed
  show ?thesis unfolding guarded_def try_let_def keep_def
    using assms(1) [unfolded guarded_def, unfolded e] by simp
qed

lemma guarded_register [guard_rules]:
  assumes "\<And>h. guarded lk order loose ((s, h) # t) (k h)" "lk (mset loose)" "tidy order t"
  shows "guarded lk order loose t (register W s c k)"
  unfolding register_def using assms by (intro guard_rules) simp_all

lemma guarded_option [guard_rules]:
  "(\<And>x. guarded lk order loose t (k x)) \<Longrightarrow> lk (mset loose) \<Longrightarrow> tidy order t \<Longrightarrow> guarded lk order loose t (try_option e r k)"
  by (cases r) (auto simp: guarded_def try_option_def fail_def)

lemma guarded_ret [guard_rules]: "lk (mset loose) \<Longrightarrow> tidy order t \<Longrightarrow> guarded lk order loose t (ret x)"
  by (auto simp: guarded_def ret_def)

lemma guarded_prod [guard_rules]: "(\<And>a b. guarded lk order loose t (m a b)) \<Longrightarrow> guarded lk order loose t (case x of (a, b) \<Rightarrow> m a b)"
  by (cases x) simp

lemma guarded_if: "(b \<Longrightarrow> guarded lk order loose t m) \<Longrightarrow> (\<not> b \<Longrightarrow> guarded lk order loose t m') \<Longrightarrow> guarded lk order loose t (if b then m else m')"
  by simp

lemma guarded_choice: 
  "guarded lk order loose t m \<Longrightarrow> guarded lk order loose t m' \<Longrightarrow> guarded lk order loose t (\<lambda>st. if c st then m st else m' st)"
  by (auto simp: guarded_def)

subsection \<open>Shared steps\<close>

text \<open>Nothing is loose in these; \<open>lk {#}\<close> is all they need.\<close>

lemma guarded_image [guard_rules]:
  assumes "\<And>img mem. guarded lk order [] ((sm, mem) # (si, img) # t) (k img)" "lk {#}" "tidy order t"
    "si \<in> set order" "sm \<in> set order" "si \<notin> fst ` set t" "sm \<notin> fst ` set t" "si \<noteq> sm"
  shows "guarded lk order [] t (scoped_image W mems si sm w h format usage k)"
  unfolding scoped_image_def using assms by (intro guard_rules) simp_all

lemma guarded_buffer [guard_rules]:
  assumes "\<And>b m c. guarded lk order [] ((sm, m) # (sb, b) # t) (k b m c)" "lk {#}" "tidy order t"
    "sb \<in> set order" "sm \<in> set order" "sb \<notin> fst ` set t" "sm \<notin> fst ` set t" "sb \<noteq> sm"
  shows "guarded lk order [] t (scoped_buffer W sb sm sz usage pick k)"
  unfolding scoped_buffer_def using assms by (intro guard_rules) simp_all

lemma guarded_submit [guard_rules]:
  assumes "\<And>f. guarded lk order [] ((ScFence, f) # t) (k ())" "lk {#}" "tidy order t" "ScFence \<in> set order" "ScFence \<notin> fst ` set t"
  shows "guarded lk order [] t (submit_once W cmd k)"
  unfolding submit_once_def using assms by (intro guard_rules) simp_all

lemma guarded_map [guard_rules]:
  assumes "\<And>f. guarded lk order [] t (k f)" "lk {#}" "tidy order t"
  shows "guarded lk order [] t (map_frame W w h mem sz coherent pixels k)"
proof (cases coherent)
  case True
  have "try_let (ret ()) f = f ()" for f :: "unit \<Rightarrow> 'a scoped" by (rule ext) (simp add: try_let_def ret_def)
  then show ?thesis unfolding map_frame_def using assms True by simp (intro guard_rules, simp_all)
next
  case False
  have "try_let (try_let m (\<lambda>_. ret ())) f = try_let m (\<lambda>_. f ())" for m :: "Answer scoped" and f :: "unit \<Rightarrow> 'a scoped"
    by (rule ext) (simp add: try_let_def ret_def split: prod.split sum.split)
  then show ?thesis unfolding map_frame_def using assms False by simp (intro guard_rules, simp_all)
qed

lemma guarded_fd [guard_rules]:
  assumes "\<And>x. guarded lk order [] t (k x)" "lk {#}" "tidy order t"
  shows "guarded lk order [] t (export_fd W dma ex k)"
  unfolding export_fd_def using assms
  by (auto split: option.split intro!: guard_rules)

text \<open>The exportable buffer and its memory are the objects an error can lose.\<close>

definition export_lost :: "bool \<Rightarrow> vk_obj multiset \<Rightarrow> bool" where
  "export_lost export K \<longleftrightarrow> K = {#} \<or> export \<and> ((\<exists>b. K = {#(BufferObj, b)#}) \<or> (\<exists>b m. K = {#(BufferObj, b), (MemoryObj, m)#}))"

lemma export_lost_simps [simp]: "export_lost e {#}" "export_lost True {#(BufferObj, b)#}" "export_lost True {#(MemoryObj, m), (BufferObj, b)#}"
  "export_lost False K = (K = {#})"
  by (auto simp: export_lost_def add_mset_commute)

lemma guarded_export [guard_rules]:
  assumes "guarded (export_lost export) order [] t (k None)"
    and "\<And>b m n. guarded (export_lost export) order [] ((ScExportMem, m) # (ScExportBuffer, b) # t) (k (Some (b, m, n)))"
    and "tidy order t" "{ScExportMem, ScExportBuffer} \<subseteq> set order" "ScExportMem \<notin> fst ` set t" "ScExportBuffer \<notin> fst ` set t"
  shows "guarded (export_lost export) order [] t (with_export W hg export sz k)"
proof (cases export)
  case True
  have "guarded (export_lost True) order [] t (export_buffer W (hg_mems hg) (hg_dma_buf hg) sz (\<lambda>ebuf emem n. k (Some (ebuf, emem, n))))"
    unfolding export_buffer_def using assms True by (intro guard_rules) simp_all
  then show ?thesis by (simp add: with_export_def True)
qed (use assms(1) in \<open>simp add: with_export_def\<close>)

subsection \<open>The frames\<close>

text \<open>The pool of a clear is registered after its command buffer is allocated.\<close>

definition pool_lost :: "vk_obj multiset \<Rightarrow> bool" where
  "pool_lost K \<longleftrightarrow> K = {#} \<or> (\<exists>h. K = {#(CommandPoolObj, h)#})"

lemma pool_lost_simps [simp]: "pool_lost {#}" "pool_lost {#(CommandPoolObj, h)#}"
  by (simp_all add: pool_lost_def)

lemma render_clear_owned: "owned L hg \<Longrightarrow> \<exists>K. pool_lost K \<and> post (L + K) nothing (render_clear W w h clear pixels hg)"
  unfolding render_clear_def Let_def
  by (rule guarded_scoped [rotated], assumption, intro guard_rules)
    (simp_all add: render_scratch_drop_def, intro guard_rules, simp_all)

lemma convert_present_inner_owned:
  assumes o: "owned L hg"
  shows "\<exists>K. export_lost export K \<and> post (L + K) nothing (convert_present_inner W w h pitch format src export pixels hg)"
proof (cases "convert_error hg w h pitch src export")
  case None
  show ?thesis unfolding convert_present_inner_def None option.case Let_def
    by (rule guarded_scoped [OF _ o], intro guard_rules) (simp_all add: convert_scratch_drop_def)
next
  case (Some e)
  then show ?thesis using o by (intro exI [of _ "{#}"]) (simp add: convert_present_inner_def)
qed

lemma guarded_pipeline_for [guard_rules]:
  assumes k: "\<And>x. guarded lk order [] t (k x)"
    "\<And>x p l f v r. guarded lk order [] ((ScPipeline, p) # (ScLayout, l) # (ScFsModule, f) # (ScVsModule, v) # (ScRenderPass, r) # t) (k x)"
    and ok: "lk {#}" "tidy order t" "{ScPipeline, ScLayout, ScFsModule, ScVsModule, ScRenderPass} \<subseteq> set order"
      "fst ` set t \<inter> {ScPipeline, ScLayout, ScFsModule, ScVsModule, ScRenderPass} = {}"
  shows "guarded lk order [] t (pipeline_for_in W draw format k)"
proof -
  have cached: "guarded lk order [] t (try_let (in_gpu (pipeline_for W draw format)) k)"
    by (rule guarded_gpu [where f = "\<lambda>_. []"]) (use pipeline_for_owned k ok in \<open>simp_all add: comp_def\<close>)
  have build: "guarded lk order [] t' (try_let (in_gpu (build_pipeline W rp draw (map_topology (fd_topology draw)) vs fs)) (\<lambda>(p, layout).
       try_let (keep ScLayout layout) (\<lambda>_. try_let (keep ScPipeline p) (\<lambda>_. k (rp, p, layout)))))"
    if "tidy order t'" "\<And>p l x. guarded lk order [] ((ScPipeline, p) # (ScLayout, l) # t') (k x)" for rp vs fs t'
    by (rule guarded_gpu [where f = pipeline_objs], erule build_pipeline_owned)
      (use that ok in \<open>auto simp: pipeline_objs_def split: prod.split intro!: guarded_keep\<close>)
  show ?thesis unfolding pipeline_for_in_def
    by (rule guarded_choice, rule cached, intro guarded_register build) (use ok k in auto)
qed

lemma render_triangle_inner_owned:
  assumes o: "owned L hg"
  shows "\<exists>K. export_lost export K \<and> post (L + K) nothing (render_triangle_inner W w h bg draw export pixels hg)"
proof (cases "export \<and> \<not> hg_external_fd hg")
  case False
  show ?thesis unfolding render_triangle_inner_def Let_def if_not_P [OF False]
    by (rule guarded_scoped [OF _ o], intro guard_rules) (simp_all add: render_scratch_drop_def)
next
  case True
  then show ?thesis using o by (intro exI [of _ "{#}"]) (simp add: render_triangle_inner_def)
qed

text \<open>An error between creating an object and registering it: the guard has nothing to free.\<close>

lemma clear_loses_its_pool:
  assumes "an_ok (W (length (dv_log (hg_dev hg))))" "\<not> an_ok (W (Suc (length (dv_log (hg_dev hg)))))"
  shows "\<exists>hg' pool. try_let (in_dev (create W CommandPoolObj CreateCommandPool)) (\<lambda>pool.
      try_let (in_dev (attempt W (AllocateCommandBuffer pool))) (\<lambda>cmd. try_let (keep ScPool pool) (\<lambda>_. k cmd))) (hg, t) = (Inl VkError, (hg', t)) \<and>
    dv_live (hg_dev hg') = dv_live (hg_dev hg) + {#(CommandPoolObj, pool)#}"
  using assms by (simp add: try_let_def in_dev_def in_gpu_def on_dev_def create_def attempt_def call_def Let_def)

lemma export_loses_its_buffer:
  assumes "an_ok (W (length (dv_log (hg_dev hg))))" "\<not> an_ok (W (Suc (Suc (length (dv_log (hg_dev hg))))))"
    "find_mem mems (an_bits (W (Suc (length (dv_log (hg_dev hg)))))) [DeviceLocal] = Some mt"
  shows "\<exists>hg' b. export_buffer W mems dma sz k (hg, t) = (Inl VkError, (hg', t)) \<and>
    dv_live (hg_dev hg') = dv_live (hg_dev hg) + {#(BufferObj, b)#}"
  using assms
  by (simp add: export_buffer_def try_let_def try_option_def in_dev_def in_gpu_def on_dev_def create_def ask_def call_def Let_def)
end
