(* ===== verification/Replay_Safety.thy ===== *)
theory Replay_Safety
  imports Replay_Guards
begin

text \<open>
  The Vulkan objects of \<open>HostGpu\<close> over whole frames and over every sequence of frames, and what is left when the
  device is dropped.
\<close>

subsection \<open>One frame\<close>

lemma frame_geometry_owned:
  assumes o: "owned L hg"
  shows "post L (\<lambda>x. if hg_resource_cache_enabled hg then {#} else option_objs geometry_objs x) (frame_geometry W draw hg)"
proof (cases "\<exists>g. fd_geometry draw = Some g \<and> og_vertex_stride g \<noteq> 0 \<and> og_vertex_data g \<noteq> []")
  case True
  then obtain g where g: "fd_geometry draw = Some g" "og_vertex_stride g \<noteq> 0" "og_vertex_data g \<noteq> []" by auto
  show ?thesis
  proof (cases "hg_resource_cache_enabled hg")
    case True
    then show ?thesis using g by (simp add: frame_geometry_def) (rule post_bind, rule get_or_upload_geometry_owned [OF o], simp)
  next
    case False
    then show ?thesis using g
      by (simp add: frame_geometry_def) (rule post_bind, rule post_on_dev [OF makes_upload_geometry o], simp)
  qed
qed (use o in \<open>auto simp: frame_geometry_def split: option.split\<close>)

lemma owned_free_geometry: "owned (L + (if c then {#} else option_objs geometry_objs x)) hg \<Longrightarrow> owned L (free_geometry W (\<not> c) x hg)"
  by (cases x) (auto simp: free_geometry_def owned_destroy split: if_splits)

lemma owned_free_descriptors: "owned (L + option_objs descriptor_objs x) hg \<Longrightarrow> owned L (free_descriptors W x hg)"
  by (cases x) (auto simp: free_descriptors_def owned_destroy)

lemma run_frame_owned:
  assumes "owned L hg" "\<And>hg'. owned L hg' \<Longrightarrow> owned L' (free hg')"
  shows "post L' nothing (run_frame W ss cmds free hg)"
proof -
  have "makes (try_let (record_commands W (ss_pool ss) (ss_cmd ss) cmds) (\<lambda>_. submit_and_wait W (ss_cmd ss) (ss_fence ss))) nothing"
    by (intro makes_try makes_submit)
  from post_on_dev [OF this assms(1)] show ?thesis using assms(2)
    by (auto simp: run_frame_def post_def split: prod.splits sum.splits)
qed

lemma draw_frame_owned:
  assumes o: "owned L hg"
  shows "may_leak (\<not> draw_repeats draw) L nothing (draw_frame W w h bg draw pl ss hg)"
proof -
  obtain rp pipeline layout where pl: "pl = (rp, pipeline, layout)" by (cases pl)
  let ?hg0 = "if hg_resource_cache_enabled hg then trim_tex_cache W hg else hg"
  let ?on = "hg_resource_cache_enabled hg"
  let ?geo = "\<lambda>x. if ?on then {#} else option_objs geometry_objs x"
  have on: "hg_resource_cache_enabled ?hg0 = ?on" by (simp add: trim_tex_cache_def mod_dev_def)
  have o0: "owned L ?hg0" using o by (simp add: trim_tex_cache_owned)
  obtain r hg1 where r: "frame_geometry W draw ?hg0 = (r, hg1)" by (cases "frame_geometry W draw ?hg0")
  have p1: "post L ?geo (r, hg1)" using frame_geometry_owned [OF o0, of W draw] by (simp only: on r)
  show ?thesis
  proof (cases r)
    case (Inl e)
    then show ?thesis using p1 by (intro may_leak_none) (simp add: draw_frame_def pl Let_def try_let_def r)
  next
    case (Inr geom)
    have "owned (L + ?geo geom) hg1" using p1 by (simp add: Inr)
    from frame_descriptors_owned [OF this, of draw W] obtain K where K: "\<not> draw_repeats draw \<longrightarrow> K = {#}"
        "post (L + ?geo geom + K) (option_objs descriptor_objs) (frame_descriptors W draw hg1)" by (auto simp: may_leak_def)
    obtain d hg2 where d: "frame_descriptors W draw hg1 = (d, hg2)" by (cases "frame_descriptors W draw hg1")
    have "post (L + K) nothing (case frame_descriptors W draw hg1 of
         (Inl e, hg) \<Rightarrow> (Inl e, free_geometry W (\<not> ?on) geom hg)
       | (Inr descs, hg) \<Rightarrow> run_frame W ss (frame_commands ss rp pipeline layout w h bg draw geom descs (ss_readback ss))
           (free_descriptors W descs \<circ> free_geometry W (\<not> ?on) geom) hg)"
    proof (cases d)
      case (Inl e)
      have "owned ((L + K) + ?geo geom) hg2" using K(2) by (simp add: d Inl ac_simps)
      from owned_free_geometry [OF this] show ?thesis by (simp add: d Inl)
    next
      case (Inr descs)
      have 2: "owned (((L + K) + option_objs descriptor_objs descs) + ?geo geom) hg2" using K(2) by (simp add: d Inr ac_simps)
      have "owned (L + K) ((free_descriptors W descs \<circ> free_geometry W (\<not> ?on) geom) hg')"
        if "owned (((L + K) + option_objs descriptor_objs descs) + ?geo geom) hg'" for hg'
        using owned_free_descriptors [OF owned_free_geometry [OF that, of W], of W] by simp
      then have "post (L + K) nothing (run_frame W ss (frame_commands ss rp pipeline layout w h bg draw geom descs (ss_readback ss))
           (free_descriptors W descs \<circ> free_geometry W (\<not> ?on) geom) hg2)" by (rule run_frame_owned [OF 2])
      then show ?thesis by (simp add: d Inr)
    qed
    then have "post (L + K) nothing (draw_frame W w h bg draw pl ss hg)"
      unfolding draw_frame_def pl case_prod_conv Let_def on try_let_def r Inr sum.case .
    with K(1) show ?thesis by (auto simp: may_leak_def)
  qed
qed

lemma read_back_owned: "owned L hg \<Longrightarrow> post L nothing (read_back W ss hg)"
  by (auto simp: read_back_def intro!: post_bind post_on_dev makes_attempt)

lemma may_leak_bind:
  assumes "may_leak c L own (m hg)" "\<And>x K hg'. owned (L + K + own x) hg' \<Longrightarrow> post (L + K) own' (k x hg')"
  shows "may_leak c L own' (try_let m k hg)"
  using assms post_bind unfolding may_leak_def by metis

lemma present_owned:
  assumes o: "owned L hg"
  shows "may_leak (\<not> draw_repeats draw) L nothing (render_forwarded_cached_present W w h bg draw present pixels hg)"
proof -
  have fin: "post L' nothing (try_let (read_back W ss) (\<lambda>_. ret (present (take (ss_size ss) pixels))) hg')" if "owned L' hg'" for L' ss hg'
    by (rule post_bind, rule read_back_owned [OF that]) simp
  have "may_leak (\<not> draw_repeats draw) L nothing (try_let (draw_frame W w h bg draw pl ss) (\<lambda>_.
      try_let (read_back W ss) (\<lambda>_. ret (present (take (ss_size ss) pixels)))) hg')" if "owned L hg'" for pl ss hg'
    by (rule may_leak_bind, rule draw_frame_owned [OF that], rule fin) simp
  then have draw: "may_leak (\<not> draw_repeats draw) L nothing (try_let (scratch_for W w h (fst pl) (fst (depth_key_of draw))) (\<lambda>ss.
      try_let (draw_frame W w h bg draw pl ss) (\<lambda>_.
      try_let (read_back W ss) (\<lambda>_. ret (present (take (ss_size ss) pixels))))) hg')" if "owned L hg'" for pl hg'
    using scratch_for_owned [OF that, of W w h "fst pl" "fst (depth_key_of draw)"]
    by (cases "scratch_for W w h (fst pl) (fst (depth_key_of draw)) hg'"; cases "fst (scratch_for W w h (fst pl) (fst (depth_key_of draw)) hg')")
      (auto simp: try_let_def [of "scratch_for W w h _ _"] intro: may_leak_none)
  show ?thesis unfolding render_forwarded_cached_present_def using pipeline_for_owned [OF o, of W draw FORMAT_R8G8B8A8_UNORM] draw
    by (cases "pipeline_for W draw FORMAT_R8G8B8A8_UNORM hg"; cases "fst (pipeline_for W draw FORMAT_R8G8B8A8_UNORM hg)")
      (auto simp: try_let_def [of "pipeline_for W draw _"] intro: may_leak_none)
qed

lemma guarded_gpu_step:
  assumes "\<And>L hg. owned L hg \<Longrightarrow> post L nothing (m hg)" "\<And>x. guarded lk order [] t (k x)" "lk {#}" "tidy order t"
  shows "guarded lk order [] t (try_let (in_gpu m) k)"
  by (rule guarded_gpu [where f = "\<lambda>_. []"]) (use assms in \<open>simp_all add: comp_def\<close>)

lemma guarded_gpu_last:
  assumes "\<And>L hg. owned L hg \<Longrightarrow> post L nothing (m hg)" "lk {#}" "tidy order t"
  shows "guarded lk order [] t (in_gpu m)"
proof -
  have "try_let (in_gpu m) ret = in_gpu m" by (rule ext) (simp add: try_let_def ret_def split: prod.split sum.split)
  moreover have "guarded lk order [] t (try_let (in_gpu m) ret)"
    by (rule guarded_gpu_step, erule assms(1)) (use assms(2,3) in \<open>simp_all add: guarded_ret\<close>)
  ultimately show ?thesis by simp
qed

lemma zerocopy_owned:
  assumes o: "owned L hg"
  shows "post L nothing (render_forwarded_zerocopy W w h bg draw ptr hg)"
proof (cases "fd_geometry draw = None")
  case True
  have run: "post L' nothing (run_frame W ss cmds id hg')" if "owned L' hg'" for L' hg' ss cmds
    by (rule run_frame_owned [OF that]) simp
  have "\<exists>K. export_lost False K \<and> post (L + K) nothing (scoped W render_scratch_drop
      (\<lambda>_. pipeline_for_in W draw FORMAT_R8G8B8A8_UNORM (\<lambda>(rp, pipeline, layout).
       try_let (in_gpu (import_for W ptr (wrap_u64 (unat w * unat h * 4)))) (\<lambda>dst.
       try_let (in_gpu (scratch_for W w h rp False)) (\<lambda>ss.
       in_gpu (run_frame W ss (frame_commands ss rp pipeline layout w h bg draw None None dst) id))))) hg)"
    by (rule guarded_scoped [OF _ o], intro guarded_pipeline_for guarded_prod guarded_gpu_step guarded_gpu_last)
      (simp_all add: import_for_owned scratch_for_owned run render_scratch_drop_def)
  then show ?thesis using True by (simp add: render_forwarded_zerocopy_def)
qed (simp add: render_forwarded_zerocopy_def o)

lemma post_then: "post L nothing (m hg) \<Longrightarrow> post L nothing (try_let m (\<lambda>x. ret (f x)) hg)"
  by (rule post_bind) simp_all

lemma forwarded_present_owned:
  assumes o: "owned L hg"
  shows "may_leak (\<not> draw_repeats draw) L nothing (render_forwarded_present W w h bg draw present pixels hg)"
proof (cases "hg_scratch_enabled hg")
  case True
  then show ?thesis using present_owned [OF o] by (simp add: render_forwarded_present_def)
next
  case False
  from render_triangle_inner_owned [OF o, of False W w h bg draw pixels]
  have "post L nothing (try_let (render_triangle_inner W w h bg draw False pixels) (\<lambda>x. ret (present (fr_rgba (fst x)))) hg)"
    by (auto intro: post_then)
  then show ?thesis using False by (simp add: render_forwarded_present_def may_leak_none)
qed

subsection \<open>Every sequence of frames\<close>

text \<open>What the device process and the render service ask of \<open>HostGpu\<close>.\<close>

datatype GpuOp =
    Present u32 u32 "u32 list" OwnedForwardedDraw bytes
  | ZeroCopy u32 u32 "u32 list" OwnedForwardedDraw u64
  | ForgetImports
  | Clear u32 u32 "u32 list" bytes
  | Triangle "u32 list" u32 u32 "u32 list" bytes
  | ExportTriangle "u32 list" u32 u32 bytes
  | Convert u32 u32 u32 vk_format bytes bytes
  | ConvertExport u32 u32 u32 vk_format bytes bytes

fun gpu_op :: "driver \<Rightarrow> GpuOp \<Rightarrow> HostGpu \<Rightarrow> HostGpu" where
  "gpu_op W (Present w h bg draw pixels) hg = snd (render_forwarded_present W w h bg draw (\<lambda>_. True) pixels hg)"
| "gpu_op W (ZeroCopy w h bg draw ptr) hg = snd (render_forwarded_zerocopy W w h bg draw ptr hg)"
| "gpu_op W ForgetImports hg = forget_all_guest_imports W hg"
| "gpu_op W (Clear w h rgba pixels) hg = snd (render_clear W w h rgba pixels hg)"
| "gpu_op W (Triangle spv w h bg pixels) hg = snd (render_triangle W spv w h bg pixels hg)"
| "gpu_op W (ExportTriangle spv w h pixels) hg = snd (export_triangle_dmabuf W spv w h pixels hg)"
| "gpu_op W (Convert w h pitch format src pixels) hg = snd (convert_present W w h pitch format src pixels hg)"
| "gpu_op W (ConvertExport w h pitch format src pixels) hg = snd (convert_present_export W w h pitch format src pixels hg)"

text \<open>The operations that can lose objects: a repeated texture, and errors in a clear or an export.\<close>

fun may_lose :: "GpuOp \<Rightarrow> bool" where
  "may_lose (Present w h bg draw pixels) = draw_repeats draw"
| "may_lose (ZeroCopy w h bg draw ptr) = False"
| "may_lose ForgetImports = False"
| "may_lose (Clear w h rgba pixels) = True"
| "may_lose (Triangle spv w h bg pixels) = False"
| "may_lose (ExportTriangle spv w h pixels) = True"
| "may_lose (Convert w h pitch format src pixels) = False"
| "may_lose (ConvertExport w h pitch format src pixels) = True"

lemma post_snd: "post L nothing r \<Longrightarrow> owned L (snd r)"
  by (cases r; cases "fst r") auto

lemma owned_try:
  assumes "\<exists>K. lk K \<and> post (L + K) nothing (m hg)" "\<And>x hg'. snd (k x hg') = hg'"
  shows "\<exists>K. lk K \<and> owned (L + K) (snd (try_let m k hg))"
proof -
  obtain K where K: "lk K" "post (L + K) nothing (m hg)" using assms(1) by blast
  have "snd (try_let m k hg) = snd (m hg)" by (simp add: snd_try_let assms(2) split: sum.split)
  with K post_snd show ?thesis by metis
qed

lemma gpu_op_owned: 
  assumes o: "owned L hg" shows "\<exists>K. (\<not> may_lose op \<longrightarrow> K = {#}) \<and> owned (L + K) (gpu_op W op hg)"
proof (cases op)
  case (Present w h bg draw pixels)
  from forwarded_present_owned [OF o, of draw W w h bg "\<lambda>_. True" pixels] Present show ?thesis
    by (auto simp: may_leak_def intro: post_snd)
next
  case (Triangle spv w h bg pixels)
  have "\<exists>K. export_lost False K \<and> owned (L + K) (snd (render_triangle W spv w h bg pixels hg))"
    unfolding render_triangle_def by (rule owned_try, rule render_triangle_inner_owned [OF o]) (simp add: ret_def)
  then show ?thesis by (simp add: Triangle)
next
  case (Convert w h pitch format src pixels)
  have "\<exists>K. export_lost False K \<and> owned (L + K) (snd (convert_present W w h pitch format src pixels hg))"
    unfolding convert_present_def by (rule owned_try, rule convert_present_inner_owned [OF o]) (simp add: ret_def)
  then show ?thesis by (simp add: Convert)
next
  case (Clear w h rgba pixels)
  from render_clear_owned [OF o, of W w h rgba pixels] Clear show ?thesis by (auto intro: post_snd)
next
  case (ExportTriangle spv w h pixels)
  have "\<exists>K. export_lost True K \<and> owned (L + K) (snd (export_triangle_dmabuf W spv w h pixels hg))"
    unfolding export_triangle_dmabuf_def
    by (rule owned_try, rule render_triangle_inner_owned [OF o]) (simp add: try_option_def ret_def fail_def split: prod.split option.split)
  then show ?thesis by (auto simp: ExportTriangle)
next
  case (ConvertExport w h pitch format src pixels)
  have "\<exists>K. export_lost True K \<and> owned (L + K) (snd (convert_present_export W w h pitch format src pixels hg))"
    unfolding convert_present_export_def
    by (rule owned_try, rule convert_present_inner_owned [OF o]) (simp add: try_option_def ret_def fail_def split: prod.split option.split)
  then show ?thesis by (auto simp: ConvertExport)
qed (use o in \<open>auto intro!: exI [of _ "{#}"] post_snd zerocopy_owned forget_all_guest_imports_owned\<close>)

lemma gpu_ops_owned: 
  "owned L hg \<Longrightarrow> \<exists>K. ((\<forall>op \<in> set ops. \<not> may_lose op) \<longrightarrow> K = {#}) \<and> owned (L + K) (fold (gpu_op W) ops hg)"
proof (induction ops arbitrary: L hg)
  case (Cons op ops)
  from gpu_op_owned [OF Cons.prems, of op W] obtain K where K: "\<not> may_lose op \<longrightarrow> K = {#}" "owned (L + K) (gpu_op W op hg)" by blast
  from Cons.IH [OF K(2)] obtain K' where K': "(\<forall>op \<in> set ops. \<not> may_lose op) \<longrightarrow> K' = {#}"
      "owned (L + K + K') (fold (gpu_op W) ops (gpu_op W op hg))" by blast
  show ?case by (rule exI [of _ "K + K'"]) (use K K' in \<open>auto simp: ac_simps\<close>)
qed (auto intro: exI [of _ "{#}"])

lemma gpu_opened_owned: "owned {#} (gpu_opened e)"
  by (simp add: owned_def gpu_opened_def held_def compiled_objs_def upload_objs_def within_caps_def owns_def device_new_def Let_def)


definition demo_gpu_env :: GpuEnv where
  "demo_gpu_env = \<lparr>ge_mems = [[DeviceLocal], [HostVisible, HostCoherent]], ge_pipeline_cache = None, ge_scratch_cache = None,
     ge_resource_cache = None, ge_external_fd = True, ge_dma_buf = True, ge_mem_host = True, ge_host_ptr_align = 4096\<rparr>"


text \<open>A mesh with the same texture in two slots: the first copy is lost.\<close>

lemma resolve_scan_misses:
  assumes "resolve_scan W dset base i ts ps hg = (Inr ps', hg')" "\<forall>t \<in> set ts. map_of (hg_texs hg) (tex_key t) = None"
  shows "map pt_key ps' = map pt_key ps @ map tex_key ts"
  using assms
proof (induction ts arbitrary: i ps hg)
  case (Cons t ts)
  then obtain p hg1 where p: "on_dev (alloc_resident_texture W (hg_mems hg) t (base + 2 * word_of_nat i) (tex_key t)) hg = (Inr p, hg1)"
      "resolve_scan W dset base (Suc i) ts (ps @ [p]) hg1 = (Inr ps', hg')"
    by (auto simp: Let_def split: prod.splits sum.splits if_splits)
  have "hg_texs hg1 = hg_texs hg" "pt_key p = tex_key t" using p(1)
      alloc_resident_yields [where W = W and mems = "hg_mems hg" and tex = t and b = "base + 2 * word_of_nat i" and key = "tex_key t"]
    by (auto simp: on_dev_def yields_def split: prod.splits)
  with Cons.IH [OF p(2)] Cons.prems(2) show ?case by simp
qed simp

lemma repeated_texture_lost:
  assumes o: "owned L hg" and new: "map_of (hg_texs hg) (tex_key t) = None"
    and ok: "resolve_frame_textures W [t, t] dset base hg = (Inr (), hg')"
  shows "\<exists>r. owned (L + mset (resident_objs r)) hg'"
proof -
  obtain ps hg1 where s: "resolve_scan W dset base 0 [t, t] [] hg = (Inr ps, hg1)"
    using ok by (auto simp: resolve_frame_textures_def try_let_def split: prod.splits sum.splits)
  have "map pt_key ps = [tex_key t, tex_key t]" using resolve_scan_misses [OF s] new by simp
  then obtain p q where ps: "ps = [p, q]" "pt_key p = tex_key t" "pt_key q = tex_key t" by auto
  obtain u hg2 where u: "record_and_submit_uploads W ps hg1 = (u, hg2)" by (cases "record_and_submit_uploads W ps hg1")
  obtain x where x: "u = Inr x" and hg': "hg' = commit_pending W dset ps hg2"
    using ok s u ps(1) by (cases u) (auto simp: resolve_frame_textures_def try_let_def)
  have texs: "hg_texs hg2 = hg_texs hg" using resolve_scan_keys [OF s] hg_texs_uploads [of W ps hg1] u by simp
  have "owned (L + pending_objs ps) hg1" using resolve_scan_owned [of L "[]" hg W dset base 0 "[t, t]"] o s by simp
  from record_and_submit_uploads_owned [OF this, of W ps] have "owned (L + pending_objs ps) hg2" by (simp add: u x)
  then have "owned (L + mset (texture_objs (pt_gpu q)) + mset (texture_objs (pt_gpu p))) hg2" by (simp add: ps ac_simps)
  from commit_one_owned [OF this, of W dset] have 1: "owned (L + mset (texture_objs (pt_gpu q))) (commit_one W dset p hg2)"
    by (simp add: texs ps new)
  from commit_one_owned [OF this, of W dset] have "owned (L + mset (resident_objs (into_resident p))) hg'"
    unfolding hg' ps commit_Cons by (simp add: commit_one_texs ps update_conv del: commit_pending.simps(2)) 
  then show ?thesis by blast
qed

subsection \<open>Dropping the device\<close>

lemma owned_drop_gpu:
  assumes o: "owned L hg"
  shows "owned L (drop_gpu W hg)" "held (drop_gpu W hg) = compiled_objs hg + cached_objs scratch_objs (hg_scratch hg)"
proof -
  let ?h0 = "mod_dev (snd \<circ> attempt W DeviceWaitIdle) hg"
  let ?h1 = "forget_all_guest_imports W ?h0"
  let ?h2 = "(mod_dev (destroy_all W (map (Pair SetLayoutObj \<circ> snd) (hg_set_layouts ?h1))) ?h1)\<lparr>hg_set_layouts := []\<rparr>"
  let ?h3 = "(mod_dev (destroy_all W (concat (map (resident_objs \<circ> snd) (hg_texs ?h2)))) ?h2)\<lparr>hg_texs := []\<rparr>"
  let ?h4 = "(mod_dev (destroy_all W (concat (map (geometry_objs \<circ> fst \<circ> snd) (hg_geoms ?h3)))) ?h3)\<lparr>hg_geoms := []\<rparr>"
  let ?h5 = "(case hg_upload ?h4 of Some (pool, _, fence) \<Rightarrow> mod_dev (destroy_all W [(FenceObj, fence), (CommandPoolObj, pool)]) ?h4
        | None \<Rightarrow> ?h4)\<lparr>hg_upload := None\<rparr>"
  have 1: "owned L ?h1" using o by (intro forget_all_guest_imports_owned) simp
  have 2: "owned L ?h2" unfolding dev_first by (rule owned_empty [OF 1]) (simp_all add: moves cached_all)
  have 3: "owned L ?h3" unfolding dev_first by (rule owned_empty [OF 2 [unfolded dev_first]]) (simp_all add: moves cached_all)
  have 4: "owned L ?h4" unfolding dev_first by (rule owned_empty [OF 3 [unfolded dev_first]]) (simp_all add: moves cached_all)
  have 5: "owned L ?h5"
  proof (cases "hg_upload ?h4")
    case (Some x)
    have "owned L (mod_dev (destroy_all W (upload_objs (Some x))) (?h4\<lparr>hg_upload := None\<rparr>))"
      by (rule owned_empty [OF 4]) (use Some in \<open>simp_all add: moves upload_objs_def split: prod.splits\<close>)
    then show ?thesis using Some by (cases x) (simp add: upload_objs_def dev_first)
  next
    case None
    have "owned L (?h4\<lparr>hg_upload := None\<rparr>)" by (rule owned_move [OF 4]) (use None in \<open>simp_all add: moves upload_objs_def\<close>)
    then show ?thesis using None by simp
  qed
  have d: "drop_gpu W hg = ?h5" by (simp add: drop_gpu_def Let_def)
  show "owned L (drop_gpu W hg)" unfolding d by (rule 5)
  show "held (drop_gpu W hg) = compiled_objs hg + cached_objs scratch_objs (hg_scratch hg)"
    by (simp add: drop_gpu_def Let_def held_def compiled_objs_def upload_objs_def forget_all_guest_imports_def mod_dev_def split: option.split prod.split)
qed

end
