(* ===== verification/Replay_Bindings.thy ===== *)
theory Replay_Bindings
  imports Replay_Safety
begin

text \<open>
  The descriptor writes of a frame against the layout its descriptor set is allocated with: what a program asks
  of the driver is read off the call log.
\<close>

subsection \<open>The calls of a program\<close>

named_theorems emits_rules "rules for the calls a program makes"

text \<open>\<open>grew P d d'\<close>: the log grew by calls that satisfy \<open>P\<close>.\<close>

definition grew :: "(vk_call \<Rightarrow> bool) \<Rightarrow> Device \<Rightarrow> Device \<Rightarrow> bool" where
  "grew P d d' \<longleftrightarrow> (\<exists>cs. dv_log d' = dv_log d @ cs \<and> (\<forall>c \<in> set cs. P (fst c)))"

definition emits :: "(vk_call \<Rightarrow> bool) \<Rightarrow> ('s \<Rightarrow> Device) \<Rightarrow> ('s, 'a) prog \<Rightarrow> bool" where
  "emits P dev m \<longleftrightarrow> (\<forall>s. grew P (dev s) (dev (snd (m s))))"

definition destroys :: "(vk_call \<Rightarrow> bool) \<Rightarrow> bool" where
  "destroys P \<longleftrightarrow> (\<forall>x. P (DestroyObject x))"

lemma grew_refl [simp]: "grew P d d"
  by (simp add: grew_def)

lemma grew_trans: "grew P d d1 \<Longrightarrow> grew P d1 d2 \<Longrightarrow> grew P d d2"
  by (auto simp: grew_def)

lemma grew_call: "P c \<Longrightarrow> grew P d (snd (call W c d))"
  by (simp add: grew_def call_def Let_def)

lemma grew_live [simp]: "grew P d (d'\<lparr>dv_live := l\<rparr>) = grew P d d'" "grew P d (d'\<lparr>dv_live := l, dv_sound := b\<rparr>) = grew P d d'"
  by (simp_all add: grew_def)

lemma grew_destroy: "destroys P \<Longrightarrow> grew P d (destroy W k h d)"
  by (simp add: destroy_def Let_def grew_call destroys_def)

lemma grew_destroy_all: "destroys P \<Longrightarrow> grew P d (destroy_all W os d)"
proof (induction os arbitrary: d)
  case (Cons x os)
  obtain k h where x: "x = (k, h)" by (cases x)
  from grew_trans [OF grew_destroy [OF Cons.prems] Cons.IH [OF Cons.prems]] show ?case
    by (simp add: destroy_all_def x)
qed (simp add: destroy_all_def)

lemma grew_tell: "\<forall>c \<in> set cs. P c \<Longrightarrow> grew P d (snd (tell W cs d))"
proof (induction cs arbitrary: d)
  case (Cons c cs)
  have "grew P d (snd (call W c d))" using Cons.prems by (simp add: grew_call)
  moreover have "grew P (snd (call W c d)) (snd (tell W cs (snd (call W c d))))" using Cons by simp
  ultimately show ?case using grew_trans by (fastforce simp: tell_def)
qed (simp add: tell_def)

lemma emits_ret [emits_rules]: "emits P dev (ret x)" "emits P dev (fail e)"
  by (simp_all add: emits_def ret_def fail_def)

lemma emits_try_let [emits_rules]: "emits P dev m \<Longrightarrow> (\<And>x. emits P dev (k x)) \<Longrightarrow> emits P dev (try_let m k)"
  by (auto simp: emits_def snd_try_let split: sum.split intro: grew_trans)

lemma emits_option [emits_rules]: "(\<And>x. emits P dev (k x)) \<Longrightarrow> emits P dev (try_option e r k)"
  by (cases r) (auto simp: try_option_def emits_rules)

lemma emits_prod [emits_rules]: "(\<And>a b. emits P dev (k a b)) \<Longrightarrow> emits P dev (case x of (a, b) \<Rightarrow> k a b)"
  by (cases x) simp

lemma emits_calls [emits_rules]:
  "P c \<Longrightarrow> emits P (\<lambda>d. d) (ask W c)" "P c \<Longrightarrow> emits P (\<lambda>d. d) (attempt W c)" "P c \<Longrightarrow> emits P (\<lambda>d. d) (create W k c)"
  "\<forall>c \<in> set cs. P c \<Longrightarrow> emits P (\<lambda>d. d) (tell W cs)"
  by (auto simp: emits_def ask_def attempt_def create_def grew_call grew_tell split_beta)

lemma emits_grab [emits_rules]: "P c \<Longrightarrow> emits P fst (grab W s c)"
  by (auto simp: emits_def grab_def create_def grew_call split_beta split: sum.split)

lemma emits_with_dev [emits_rules]: "emits P (\<lambda>d. d) m \<Longrightarrow> emits P fst (with_dev m)"
  by (auto simp: emits_def with_dev_def split_beta)

lemma emits_build: 
  assumes "emits P fst body" "destroys P" shows "emits P (\<lambda>d. d) (build W order body)"
  unfolding emits_def
proof
  fix d
  obtain r d1 t where b: "body (d, []) = (r, (d1, t))" by (cases "body (d, [])") auto
  have 1: "grew P d d1" using assms(1) b unfolding emits_def by (metis fst_conv snd_conv)
  have "grew P d1 (release W order t d1)" unfolding release_as_destroy_all by (rule grew_destroy_all [OF assms(2)])
  with 1 b show "grew P d (snd (build W order body d))" by (cases r) (auto simp: build_def intro: grew_trans)
qed

lemma emits_on_dev [emits_rules]: "emits P (\<lambda>d. d) m \<Longrightarrow> emits P hg_dev (on_dev m)"
  by (auto simp: emits_def on_dev_def split_beta)

subsection \<open>Writes within a layout\<close>

text \<open>Writes only to bindings \<open>bs\<close>, with their types, and sets allocated only with the layout \<open>l\<close>.\<close>

fun frame_call :: "(u32 \<times> vk_descriptor \<times> vk_stages) list \<Rightarrow> u64 \<Rightarrow> vk_call \<Rightarrow> bool" where
  "frame_call bs l (WriteDescriptors dset ws) = (\<forall>(b, ty, _) \<in> set ws. \<exists>st. (b, ty, st) \<in> set bs)"
| "frame_call bs l (AllocateSet pool l') = (l' = l)"
| "frame_call bs l _ = True"

abbreviation texture_slot :: "(u32 \<times> vk_descriptor \<times> vk_stages) list \<Rightarrow> u32 \<Rightarrow> bool" where
  "texture_slot bs b \<equiv> (\<exists>st. (b, SampledImage, st) \<in> set bs) \<and> (\<exists>st. (b + 1, SamplerDescriptor, st) \<in> set bs)"

lemma destroys_frame [simp]: "destroys (frame_call bs l)"
  by (simp add: destroys_def)

lemma emits_filled [emits_rules]:
  "(\<And>b m. emits (frame_call bs l) fst (k b m)) \<Longrightarrow> emits (frame_call bs l) fst (filled_buffer W mems sb sm usage data k)"
  unfolding filled_buffer_def by (intro emits_rules) auto

lemma emits_ubos:
  assumes "\<And>ubos. emits (frame_call bs l) fst (k ubos)" "\<forall>u \<in> set us. \<exists>st. (ou_binding u, UniformBuffer, st) \<in> set bs"
  shows "emits (frame_call bs l) fst (upload_ubos W mems dset i us ubos k)"
  using assms(2)
proof (induction us arbitrary: i ubos)
  case (Cons u us)
  show ?case unfolding upload_ubos.simps by (intro emits_rules Cons.IH) (use Cons.prems in auto)
qed (simp add: assms(1))

lemma emits_ssbo:
  assumes "\<And>x. emits (frame_call bs l) fst (k x)" "\<forall>s. st = Some s \<longrightarrow> (\<exists>f. (os_binding s, StorageBuffer, f) \<in> set bs)"
  shows "emits (frame_call bs l) fst (upload_ssbo W mems dset st k)"
  unfolding upload_ssbo_def using assms by (cases st) (auto intro!: emits_rules)

lemma emits_texture_objects:
  "(\<And>t n. emits (frame_call bs l) fst (k t n)) \<Longrightarrow> emits (frame_call bs l) fst (texture_objects W mems tex k)"
  unfolding texture_objects_def by (intro emits_rules) auto

lemma emits_upload_texture: "texture_slot bs b \<Longrightarrow> emits (frame_call bs l) (\<lambda>d. d) (upload_texture_into W mems tex dset b)"
  unfolding upload_texture_into_def
  by (auto intro!: emits_ret emits_build emits_texture_objects emits_try_let emits_with_dev emits_calls)

lemma emits_alloc_texture: "emits (frame_call bs l) (\<lambda>d. d) (alloc_resident_texture W mems tex b key)"
  unfolding alloc_resident_texture_def by (intro emits_build emits_texture_objects emits_rules) simp_all

subsection \<open>Textures\<close>

definition slots_ok :: "(u32 \<times> vk_descriptor \<times> vk_stages) list \<Rightarrow> u32 \<Rightarrow> nat \<Rightarrow> bool" where
  "slots_ok bs base n \<longleftrightarrow> (\<forall>i < n. texture_slot bs (base + 2 * word_of_nat i))"

definition pending_ok :: "(u32 \<times> vk_descriptor \<times> vk_stages) list \<Rightarrow> PendingTexUpload list \<Rightarrow> bool" where
  "pending_ok bs ps \<longleftrightarrow> (\<forall>p \<in> set ps. texture_slot bs (pt_binding p))"

lemma grew_mod_dev: "(\<And>d. grew P d (f d)) \<Longrightarrow> grew P (hg_dev hg) (hg_dev (mod_dev f hg))"
  by (simp add: mod_dev_def)

lemma grew_free_pending: "destroys P \<Longrightarrow> grew P (hg_dev hg) (hg_dev (free_pending W ps hg))"
  unfolding free_pending_def by (intro grew_mod_dev grew_destroy_all)

lemma grew_write_texture: "texture_slot bs b \<Longrightarrow> grew (frame_call bs l) (hg_dev hg) (hg_dev (write_texture_descriptor W dset b v sm hg))"
  unfolding write_texture_descriptor_def by (rule grew_mod_dev) (auto simp: texture_writes_def intro!: grew_tell)

lemma resolve_scan_grew:
  assumes "slots_ok bs base (i + length ts)" "pending_ok bs ps"
  shows "grew (frame_call bs l) (hg_dev hg) (hg_dev (snd (resolve_scan W dset base i ts ps hg))) \<and>
    (\<forall>ps'. fst (resolve_scan W dset base i ts ps hg) = Inr ps' \<longrightarrow> pending_ok bs ps')"
  using assms
proof (induction ts arbitrary: i ps hg)
  case (Cons t ts)
  let ?b = "base + 2 * word_of_nat i" and ?k = "tex_key t"
  have b: "texture_slot bs ?b" and rest: "slots_ok bs base (Suc i + length ts)" using Cons.prems(1) by (auto simp: slots_ok_def)
  consider (bad) "texture_bad t" | (hit) r where "\<not> texture_bad t" "map_of (hg_texs hg) ?k = Some r"
    | (miss) "\<not> texture_bad t" "map_of (hg_texs hg) ?k = None" by (cases "map_of (hg_texs hg) ?k") auto
  then show ?case
  proof cases
    case bad
    then show ?thesis by (simp add: grew_free_pending)
  next
    case hit
    let ?hg = "write_texture_descriptor W dset ?b (rx_view r) (rx_sampler r) (hg\<lparr>hg_tex_hits := wrap_u64 (hg_tex_hits hg + 1)\<rparr>)"
    have "grew (frame_call bs l) (hg_dev hg) (hg_dev ?hg)" using grew_write_texture [OF b, where hg = "hg\<lparr>hg_tex_hits := _\<rparr>"] by simp
    with Cons.IH [OF rest Cons.prems(2), of ?hg] hit show ?thesis by (auto simp: Let_def intro: grew_trans)
  next
    case miss
    obtain r hg1 where m: "on_dev (alloc_resident_texture W (hg_mems hg) t ?b ?k) hg = (r, hg1)"
      by (cases "on_dev (alloc_resident_texture W (hg_mems hg) t ?b ?k) hg")
    have g: "grew (frame_call bs l) (hg_dev hg) (hg_dev hg1)"
      using emits_on_dev [OF emits_alloc_texture, unfolded emits_def, rule_format, where s = hg] m by (metis snd_conv)
    show ?thesis
    proof (cases r)
      case (Inl e)
      then show ?thesis using miss m grew_trans [OF g grew_free_pending [OF destroys_frame]] by (simp add: Let_def)
    next
      case (Inr p)
      have "pt_binding p = ?b" using m Inr
          alloc_resident_yields [where W = W and mems = "hg_mems hg" and tex = t and b = ?b and key = ?k]
        by (auto simp: on_dev_def yields_def split: prod.splits)
      then have "pending_ok bs (ps @ [p])" using Cons.prems(2) b by (auto simp: pending_ok_def)
      from Cons.IH [OF rest this, of hg1] miss m Inr g show ?thesis by (auto simp: Let_def intro: grew_trans)
    qed
  qed
qed simp

lemma commit_one_grew: 
  assumes "texture_slot bs (pt_binding p)" shows "grew (frame_call bs l) (hg_dev hg) (hg_dev (commit_one W dset p hg))"
proof -
  let ?hg1 = "mod_dev (destroy_all W [(BufferObj, tg_staging (pt_gpu p)), (MemoryObj, tg_staging_mem (pt_gpu p))]) hg"
  have "grew (frame_call bs l) (hg_dev hg) (hg_dev ?hg1)" by (intro grew_mod_dev grew_destroy_all destroys_frame)
  then show ?thesis unfolding commit_one_def commit_pending.simps Let_def
    by (rule grew_trans) (rule grew_trans [OF _ grew_write_texture [OF assms]], simp)
qed

lemma commit_pending_grew: "pending_ok bs ps \<Longrightarrow> grew (frame_call bs l) (hg_dev hg) (hg_dev (commit_pending W dset ps hg))"
proof (induction ps arbitrary: hg)
  case (Cons p ps)
  have "grew (frame_call bs l) (hg_dev hg) (hg_dev (commit_one W dset p hg))"
    by (rule commit_one_grew) (use Cons.prems in \<open>auto simp: pending_ok_def\<close>)
  moreover have "grew (frame_call bs l) (hg_dev (commit_one W dset p hg)) (hg_dev (commit_pending W dset ps (commit_one W dset p hg)))"
    by (rule Cons.IH) (use Cons.prems in \<open>auto simp: pending_ok_def\<close>)
  ultimately show ?case unfolding commit_Cons by (rule grew_trans)
qed simp

lemma uploads_grew: "grew (frame_call bs l) (hg_dev hg) (hg_dev (snd (record_and_submit_uploads W ps hg)))"
proof -
  let ?body = "try_let (grab W CtxPool CreateCommandPool) (\<lambda>pool.
       try_let (with_dev (attempt W (AllocateCommandBuffer pool))) (\<lambda>cmd.
       try_let (grab W CtxFence CreateFence) (\<lambda>fence. ret (pool, an_handle cmd, fence))))"
  have "emits (frame_call bs l) (\<lambda>d. d) (build W [CtxPool, CtxFence] ?body)"
    by (intro emits_build emits_rules) simp_all
  note made = emits_on_dev [OF this, unfolded emits_def, rule_format]
  have ctx: "emits (frame_call bs l) hg_dev (ensure_upload_ctx W)"
    unfolding emits_def
  proof
    fix hg
    show "grew (frame_call bs l) (hg_dev hg) (hg_dev (snd (ensure_upload_ctx W hg)))"
      using made [of hg] by (simp add: ensure_upload_ctx_def snd_try_let split: sum.split)
  qed
  have run: "emits (frame_call bs l) (\<lambda>d. d) (try_let (record_commands W pool cmd cs) (\<lambda>_. submit_and_wait W cmd fence))" for pool cmd cs fence
    unfolding record_commands_def submit_and_wait_def by (intro emits_rules) auto
  have "emits (frame_call bs l) hg_dev (record_and_submit_uploads W ps)"
    unfolding record_and_submit_uploads_def
    by (rule emits_try_let [OF ctx]) (auto simp: emits_def split: option.split intro: emits_on_dev [OF run, unfolded emits_def, rule_format])
  then show ?thesis by (simp add: emits_def)
qed

lemma resolve_frame_textures_grew:
  assumes "slots_ok bs base (length ts)"
  shows "grew (frame_call bs l) (hg_dev hg) (hg_dev (snd (resolve_frame_textures W ts dset base hg)))"
proof -
  obtain r hg1 where s: "resolve_scan W dset base 0 ts [] hg = (r, hg1)" by (cases "resolve_scan W dset base 0 ts [] hg")
  have g: "grew (frame_call bs l) (hg_dev hg) (hg_dev hg1)" "r = Inr ps \<Longrightarrow> pending_ok bs ps" for ps
    using resolve_scan_grew [where bs = bs and base = base and i = 0 and ts = ts and ps = "[]" and hg = hg and W = W and dset = dset and l = l] assms s by (auto simp: pending_ok_def)
  show ?thesis
  proof (cases r)
    case (Inl e)
    then show ?thesis using g s by (simp add: resolve_frame_textures_def try_let_def)
  next
    case (Inr ps)
    obtain u hg2 where u: "record_and_submit_uploads W ps hg1 = (u, hg2)" by (cases "record_and_submit_uploads W ps hg1")
    have g2: "grew (frame_call bs l) (hg_dev hg) (hg_dev hg2)" using grew_trans [OF g(1)] uploads_grew [where hg = hg1 and W = W and ps = ps] u by simp
    have "grew (frame_call bs l) (hg_dev hg) (hg_dev (free_pending W ps hg2))"
      "grew (frame_call bs l) (hg_dev hg) (hg_dev (commit_pending W dset ps hg2))"
      using grew_trans [OF g2] grew_free_pending commit_pending_grew g(2) [OF Inr] by auto
    then show ?thesis using g s u Inr by (cases u) (auto simp: resolve_frame_textures_def try_let_def)
  qed
qed

lemma upload_frame_textures_grew:
  assumes "slots_ok bs base (i + length ts)"
  shows "grew (frame_call bs l) (hg_dev hg) (hg_dev (snd (upload_frame_textures W dset base i ts gs hg)))"
  using assms
proof (induction ts arbitrary: i gs hg)
  case (Cons t ts)
  let ?b = "base + 2 * word_of_nat i"
  have b: "texture_slot bs ?b" and rest: "slots_ok bs base (Suc i + length ts)" using Cons.prems(1) by (auto simp: slots_ok_def)
  obtain r hg1 where m: "on_dev (upload_texture_into W (hg_mems hg) t dset ?b) hg = (r, hg1)"
    by (cases "on_dev (upload_texture_into W (hg_mems hg) t dset ?b) hg")
  have g: "grew (frame_call bs l) (hg_dev hg) (hg_dev hg1)"
    using emits_on_dev [OF emits_upload_texture [OF b], unfolded emits_def, rule_format, where s = hg] m by (metis snd_conv)
  show ?case
  proof (cases r)
    case (Inl e)
    then show ?thesis using m grew_trans [OF g grew_mod_dev [OF grew_destroy_all [OF destroys_frame]]] by simp
  next
    case (Inr x)
    with Cons.IH [OF rest, of hg1] m g show ?thesis by (auto intro: grew_trans)
  qed
qed simp

lemma frame_textures_grew:
  assumes "slots_ok bs (og_tex_binding g) (length (og_textures g))"
  shows "grew (frame_call bs l) (hg_dev hg) (hg_dev (snd (frame_textures W g dset hg)))"
  using resolve_frame_textures_grew [OF assms] upload_frame_textures_grew [of bs "og_tex_binding g" 0 "og_textures g"] assms
  by (auto simp: frame_textures_def snd_try_let ret_def split: sum.split)

subsection \<open>The layout of a draw\<close>

lemma sig_of_draw:
  assumes "fd_geometry draw = Some g" "desc_sig_of draw = Some sig"
  shows "ds_ubo_bindings sig = sort (map ou_binding (take 8 (og_uniforms g))) @ replicate (8 - min (length (og_uniforms g)) 8) 0"
    "ds_ubo_count sig = word_of_nat (min (length (og_uniforms g)) 8)" "ds_ssbo_binding sig = map_option os_binding (og_storage g)"
    "ds_tex_count sig = word_of_nat (length (og_textures g))"
    "ds_tex_binding sig = (if 0 < (word_of_nat (length (og_textures g)) :: u32) then Some (og_tex_binding g) else None)"
  using assms by (auto simp: desc_sig_of_def Let_def split: if_splits)

lemma layout_has_uniforms:
  assumes "fd_geometry draw = Some g" "desc_sig_of draw = Some sig" "length (og_uniforms g) \<le> MAX_UBOS" "u \<in> set (og_uniforms g)"
  shows "\<exists>st. (ou_binding u, UniformBuffer, st) \<in> set (set_layout_bindings sig)"
proof -
  have "unat (word_of_nat (length (og_uniforms g)) :: u32) = length (og_uniforms g)"
    using assms(3) by (simp add: unat_of_nat take_bit_eq_mod)
  with sig_of_draw [OF assms(1,2)] assms(3,4) show ?thesis by (auto simp: set_layout_bindings_def)
qed

lemma layout_has_storage:
  assumes "fd_geometry draw = Some g" "desc_sig_of draw = Some sig" "og_storage g = Some s"
  shows "\<exists>st. (os_binding s, StorageBuffer, st) \<in> set (set_layout_bindings sig)"
  using sig_of_draw(3) [OF assms(1,2)] assms(3) by (auto simp: set_layout_bindings_def)

lemma layout_has_textures:
  assumes "fd_geometry draw = Some g" "desc_sig_of draw = Some sig" "length (og_textures g) \<le> MAX_TEXTURES"
  shows "slots_ok (set_layout_bindings sig) (og_tex_binding g) (length (og_textures g))"
proof (cases "og_textures g = []")
  case False
  have n: "unat (word_of_nat (length (og_textures g)) :: u32) = length (og_textures g)"
    using assms(3) by (simp add: unat_of_nat take_bit_eq_mod MAX_TEXTURES_def)
  then have "0 < (word_of_nat (length (og_textures g)) :: u32)" using False by (simp add: word_less_nat_alt)
  with sig_of_draw(4,5) [OF assms(1,2)] n
  have "set (set_layout_bindings sig) \<supseteq> (\<Union>i \<in> {..<length (og_textures g)}. {(og_tex_binding g + 2 * word_of_nat i, SampledImage, StagesFragment),
      (og_tex_binding g + 2 * word_of_nat i + 1, SamplerDescriptor, StagesFragment)})"
    by (auto simp: set_layout_bindings_def Let_def)
  then show ?thesis unfolding slots_ok_def by blast
qed (simp add: slots_ok_def)

subsection \<open>The descriptors of a frame\<close>

lemma limits_none: "descriptor_limits g = None \<Longrightarrow> length (og_textures g) \<le> MAX_TEXTURES"
  by (auto simp: descriptor_limits_def split: option.splits if_splits)

lemma frame_buffers_grew:
  assumes "\<forall>u \<in> set (og_uniforms g). \<exists>st. (ou_binding u, UniformBuffer, st) \<in> set bs"
    "\<forall>s. og_storage g = Some s \<longrightarrow> (\<exists>f. (os_binding s, StorageBuffer, f) \<in> set bs)"
  shows "emits (frame_call bs l) fst (frame_buffers W mems g l)"
  unfolding frame_buffers_def by (intro emits_rules emits_ubos emits_ssbo) (use assms in auto)

lemma build_frame_descriptors_grew:
  assumes "fd_geometry draw = Some g" "desc_sig_of draw = Some sig" "length (og_uniforms g) \<le> MAX_UBOS"
  shows "grew (frame_call (set_layout_bindings sig) l) (hg_dev hg) (hg_dev (snd (build_frame_descriptors W g l hg)))"
proof (cases "descriptor_limits g")
  case None
  let ?P = "frame_call (set_layout_bindings sig) l"
  obtain r d t where b: "frame_buffers W (hg_mems hg) g l (hg_dev hg, []) = (r, (d, t))"
    by (cases "frame_buffers W (hg_mems hg) g l (hg_dev hg, [])") auto
  have "emits ?P fst (frame_buffers W (hg_mems hg) g l)"
    by (rule frame_buffers_grew) (use layout_has_uniforms [OF assms] layout_has_storage [OF assms(1,2)] in blast)+
  then have g1: "grew ?P (hg_dev hg) d" using b unfolding emits_def by (metis fst_conv snd_conv)
  have rel: "grew ?P d' (release W order t' d')" for order t' d' unfolding release_as_destroy_all by (simp add: grew_destroy_all)
  show ?thesis
  proof (cases r)
    case (Inl e)
    then show ?thesis using b grew_trans [OF g1 rel] by (simp add: build_frame_descriptors_def None Let_def)
  next
    case (Inr f)
    obtain u hg1 where u: "frame_textures W g (fd_set f) (hg\<lparr>hg_dev := d\<rparr>) = (u, hg1)"
      by (cases "frame_textures W g (fd_set f) (hg\<lparr>hg_dev := d\<rparr>)")
    have "grew ?P d (hg_dev hg1)"
      using frame_textures_grew [OF layout_has_textures [OF assms(1,2) limits_none [OF None]], of l "hg\<lparr>hg_dev := d\<rparr>" W "fd_set f"] u by simp
    then have g2: "grew ?P (hg_dev hg) (hg_dev hg1)" by (rule grew_trans [OF g1])
    with grew_trans [OF g2 rel] b u Inr show ?thesis
      by (cases u) (simp_all add: build_frame_descriptors_def None Let_def mod_dev_def)
  qed
qed (simp add: build_frame_descriptors_def)

lemma desc_set_layout_grew:
  "grew (frame_call bs l) (hg_dev hg) (hg_dev (snd (desc_set_layout W sig hg)))"
  "fst (desc_set_layout W sig hg) = Inr sl \<Longrightarrow> map_of (hg_set_layouts (snd (desc_set_layout W sig hg))) sig = Some sl"
proof -
  let ?new = "try_let (on_dev (create W SetLayoutObj (CreateSetLayout (set_layout_bindings sig))))
      (\<lambda>sl hg. (Inr sl, hg\<lparr>hg_set_layouts := AList.update sig sl (hg_set_layouts hg)\<rparr>))"
  let ?clear = "(mod_dev (destroy_all W (map (Pair SetLayoutObj \<circ> snd) (hg_set_layouts hg))) hg)\<lparr>hg_set_layouts := []\<rparr>"
  have new: "grew (frame_call bs l) (hg_dev hg') (hg_dev (snd (?new hg')))" for hg'
    using emits_on_dev [OF emits_calls(3) [of "frame_call bs l" "CreateSetLayout (set_layout_bindings sig)"], unfolded emits_def, rule_format]
    by (auto simp: snd_try_let split: sum.split)
  have clear: "grew (frame_call bs l) (hg_dev hg) (hg_dev ?clear)" by (simp add: mod_dev_def grew_destroy_all)
  show "grew (frame_call bs l) (hg_dev hg) (hg_dev (snd (desc_set_layout W sig hg)))"
    using new [of hg] grew_trans [OF clear new [of ?clear]] by (simp add: desc_set_layout_def Let_def split: option.split)
  have "map_of (hg_set_layouts (snd (?new hg'))) sig = Some sl" if "fst (?new hg') = Inr sl" for hg'
    using that by (auto simp: try_let_def split: prod.splits sum.splits)
  then show "fst (desc_set_layout W sig hg) = Inr sl \<Longrightarrow> map_of (hg_set_layouts (snd (desc_set_layout W sig hg))) sig = Some sl"
    by (auto simp: desc_set_layout_def Let_def split: option.splits if_splits)
qed

text \<open>C23: A frame writes its descriptors where its layout has them. For a draw with at most eight uniform blocks whose
  layout could be had, every descriptor the frame writes targets a binding of the layout built for the draw's
  signature, with the type that binding was declared with, and the set is allocated with the layout cached under
  that signature, whatever the driver answers and whatever the caches hold.\<close>

theorem descriptor_writes_in_layout:
  assumes draw: "fd_geometry draw = Some g" "desc_sig_of draw = Some sig" "length (og_uniforms g) \<le> MAX_UBOS"
    and layout: "desc_set_layout W sig hg = (Inr l, hg1)"
  shows "map_of (hg_set_layouts hg1) sig = Some l \<and>
    (\<exists>cs. dv_log (hg_dev (snd (frame_descriptors W draw hg))) = dv_log (hg_dev hg) @ cs \<and>
      (\<forall>c \<in> set cs. frame_call (set_layout_bindings sig) l (fst c)))"
proof -
  let ?P = "frame_call (set_layout_bindings sig) l"
  have g1: "grew ?P (hg_dev hg) (hg_dev hg1)" and m: "map_of (hg_set_layouts hg1) sig = Some l"
    using desc_set_layout_grew(1) [where bs = "set_layout_bindings sig" and l = l and hg = hg and W = W and sig = sig]
      desc_set_layout_grew(2) [where W = W and sig = sig and hg = hg and sl = l] layout by simp_all
  have "snd (frame_descriptors W draw hg) = snd (build_frame_descriptors W g l hg1)"
    using draw(1,2) layout by (simp add: frame_descriptors_def snd_try_let ret_def split: sum.split)
  with grew_trans [OF g1 build_frame_descriptors_grew [OF draw, of l hg1 W]] m show ?thesis
    by (simp add: grew_def)
qed

theorem descriptor_writes_in_layout_witness:
  "let draw = demo_draw (Some demo_geometry); hg = gpu_opened demo_gpu_env;
       W = (\<lambda>n. \<lparr>an_ok = True, an_handle = 70 + word_of_nat n, an_size = 64, an_bits = 7\<rparr>) in
   \<exists>cs. dv_log (hg_dev (snd (frame_descriptors W draw hg))) = dv_log (hg_dev hg) @ cs \<and>
     (\<forall>c \<in> set cs. frame_call [(0, UniformBuffer, StagesVertexFragment), (4, UniformBuffer, StagesVertexFragment),
        (3, StorageBuffer, StagesVertexFragment), (1, SampledImage, StagesFragment), (2, SamplerDescriptor, StagesFragment)] 70 (fst c))"
proof -
  let ?sig = "\<lparr>ds_ubo_bindings = [0, 4, 0, 0, 0, 0, 0, 0], ds_ubo_count = 2, ds_tex_binding = Some 1, ds_tex_count = 1, ds_ssbo_binding = Some 3\<rparr>"
  let ?hg = "gpu_opened demo_gpu_env"
  let ?W = "\<lambda>n. \<lparr>an_ok = True, an_handle = 70 + word_of_nat n, an_size = 64, an_bits = 7\<rparr>"
  have "desc_sig_of (demo_draw (Some demo_geometry)) = Some ?sig"
    by (simp add: desc_sig_of_def demo_draw_def demo_geometry_def Let_def numeral_eq_Suc)
  moreover have "fst (desc_set_layout ?W ?sig ?hg) = Inr 70"
    by (simp add: desc_set_layout_def gpu_opened_def demo_gpu_env_def Let_def try_let_def on_dev_def create_def call_def device_new_def)
  moreover have "set_layout_bindings ?sig = [(0, UniformBuffer, StagesVertexFragment), (4, UniformBuffer, StagesVertexFragment),
      (3, StorageBuffer, StagesVertexFragment), (1, SampledImage, StagesFragment), (2, SamplerDescriptor, StagesFragment)]"
    by (simp add: set_layout_bindings_def Let_def upt_rec)
  ultimately show ?thesis
    using descriptor_writes_in_layout [of "demo_draw (Some demo_geometry)" demo_geometry ?sig ?W ?hg 70 "snd (desc_set_layout ?W ?sig ?hg)"]
    by (simp add: demo_draw_def demo_geometry_def Let_def prod_eq_iff)
qed

text \<open>With more uniform blocks the signature is cut at eight, and the ninth has no binding in the layout.\<close>

lemma ninth_uniform_not_in_layout:
  assumes "fd_geometry draw = Some g" "desc_sig_of draw = Some sig" "length (og_uniforms g) = 9" "distinct (map ou_binding (og_uniforms g))"
  shows "(ou_binding (og_uniforms g ! 8), UniformBuffer, st) \<notin> set (set_layout_bindings sig)"
proof -
  let ?us = "og_uniforms g"
  have "unat (8 :: u32) = 8" by simp
  then have "ou_binding (?us ! 8) \<in> ou_binding ` set (take 8 ?us)" if "(ou_binding (?us ! 8), UniformBuffer, st) \<in> set (set_layout_bindings sig)"
    using that sig_of_draw [OF assms(1,2)] assms(3)
    by (auto simp: set_layout_bindings_def Let_def split: option.splits if_splits)
  moreover have "ou_binding (?us ! 8) \<notin> ou_binding ` set (take 8 ?us)"
    using assms(3,4) by (auto simp: distinct_conv_nth in_set_conv_nth)
  ultimately show ?thesis by blast
qed

end
