(* ===== verification/Replay_Protocol.thy ===== *)
theory Replay_Protocol
  imports Replay_Safety
begin

text \<open>
  \<open>replay/src/process.rs\<close>: the protocol between the device and the replay process of one VM. A request is
  a tag, two \<open>u32\<close> and four \<open>f32\<close>; a response is a status byte and either a frame or a message, both
  length-prefixed. The server loop reads requests until the peer closes and answers each with what
  \<open>render_clear\<close> or \<open>render_triangle\<close> of \<open>Replay_Scoped\<close> gave.

  A socket is the bytes still to be read, what follows them, the bytes written so far and how many more the
  peer will take before a write fails. Floats are their bit patterns. The text of a GPU error is an argument
  (\<open>msg\<close>), and so is what the GPU leaves in the readback memory (\<open>px\<close>). Spawning, binding, the rlimits and
  the reaping of the process are calls of the operating system and are not modelled.
\<close>

subsection \<open>The socket\<close>

datatype at_end = PeerClosed | ReadFails

record Socket =
  sk_in :: bytes
  sk_end :: at_end
  sk_out :: bytes
  sk_room :: nat

datatype io_error = UnexpectedEof | IoFailed | BadRequestTag u8 | FrameTooLarge | ReplayFailed bytes

type_synonym 'a io = "Socket \<Rightarrow> (io_error + 'a) \<times> Socket"

definition io_ret :: "'a \<Rightarrow> 'a io" where
  "io_ret x s = (Inr x, s)"

definition io_fail :: "io_error \<Rightarrow> 'a io" where
  "io_fail e s = (Inl e, s)"

definition io_let :: "'a io \<Rightarrow> ('a \<Rightarrow> 'b io) \<Rightarrow> 'b io" where
  "io_let m k s = (case m s of (Inl e, s') \<Rightarrow> (Inl e, s') | (Inr x, s') \<Rightarrow> k x s')"

definition read_exact :: "nat \<Rightarrow> bytes io" where
  "read_exact n s =
    (if n \<le> length (sk_in s) then (Inr (take n (sk_in s)), s\<lparr>sk_in := drop n (sk_in s)\<rparr>)
     else (Inl (case sk_end s of PeerClosed \<Rightarrow> UnexpectedEof | ReadFails \<Rightarrow> IoFailed), s\<lparr>sk_in := []\<rparr>))"

definition write_all :: "bytes \<Rightarrow> unit io" where
  "write_all bs s =
    (if length bs \<le> sk_room s then (Inr (), s\<lparr>sk_out := sk_out s @ bs, sk_room := sk_room s - length bs\<rparr>)
     else (Inl IoFailed, s\<lparr>sk_out := sk_out s @ take (sk_room s) bs, sk_room := 0\<rparr>))"

fun write_pieces :: "bytes list \<Rightarrow> unit io" where
  "write_pieces [] = io_ret ()"
| "write_pieces (p # ps) = io_let (write_all p) (\<lambda>_. write_pieces ps)"

definition read_u32 :: "u32 io" where
  "read_u32 = io_let (read_exact 4) (\<lambda>b. io_ret (get_u32 b 0))"

fun read_f32s :: "nat \<Rightarrow> u32 list io" where
  "read_f32s 0 = io_ret []"
| "read_f32s (Suc n) = io_let read_u32 (\<lambda>c. io_let (read_f32s n) (\<lambda>cs. io_ret (c # cs)))"

subsection \<open>Requests\<close>

definition TAG_CLEAR :: u8 where [simp]: "TAG_CLEAR = 1"
definition TAG_TRIANGLE :: u8 where [simp]: "TAG_TRIANGLE = 2"
definition STATUS_OK :: u8 where [simp]: "STATUS_OK = 0"
definition STATUS_ERR :: u8 where [simp]: "STATUS_ERR = 1"

text \<open>A colour is the four \<open>f32\<close> of the array.\<close>

type_synonym colour = "u32 \<times> u32 \<times> u32 \<times> u32"

datatype RenderRequest = ClearRequest u32 u32 colour | TriangleRequest u32 u32 colour

fun request_fields :: "RenderRequest \<Rightarrow> u8 \<times> u32 \<times> u32 \<times> colour" where
  "request_fields (ClearRequest w h rgba) = (TAG_CLEAR, w, h, rgba)"
| "request_fields (TriangleRequest w h bg) = (TAG_TRIANGLE, w, h, bg)"

definition write_request :: "RenderRequest \<Rightarrow> unit io" where
  "write_request r = (case request_fields r of (tag, w, h, c0, c1, c2, c3) \<Rightarrow>
     write_pieces ([tag] # u32_le w # u32_le h # map u32_le [c0, c1, c2, c3]))"

text \<open>The whole request is read before its tag is looked at.\<close>

definition decode_request :: "u8 \<Rightarrow> u32 \<Rightarrow> u32 \<Rightarrow> u32 list \<Rightarrow> RenderRequest option io" where
  "decode_request tag w h cs =
    (let c = (cs ! 0, cs ! 1, cs ! 2, cs ! 3) in
     if tag = TAG_CLEAR then io_ret (Some (ClearRequest w h c))
     else if tag = TAG_TRIANGLE then io_ret (Some (TriangleRequest w h c))
     else io_fail (BadRequestTag tag))"

definition read_request :: "RenderRequest option io" where
  "read_request s = (case read_exact 1 s of
     (Inl UnexpectedEof, s') \<Rightarrow> (Inr None, s')
   | (Inl e, s') \<Rightarrow> (Inl e, s')
   | (Inr tag, s') \<Rightarrow> io_let read_u32 (\<lambda>w. io_let read_u32 (\<lambda>h. io_let (read_f32s 4) (\<lambda>cs.
       decode_request (tag ! 0) w h cs))) s')"

subsection \<open>Responses\<close>

definition write_frame :: "Frame \<Rightarrow> unit io" where
  "write_frame f = write_pieces [[STATUS_OK], u32_le (fr_width f), u32_le (fr_height f),
     u32_le (word_of_nat (length (fr_rgba f))), fr_rgba f]"

definition write_error :: "bytes \<Rightarrow> unit io" where
  "write_error m = write_pieces [[STATUS_ERR], u32_le (word_of_nat (length m)), m]"

definition MAX_RESPONSE :: nat where
  "MAX_RESPONSE = 256 * 1024 * 1024"

definition read_response :: "Frame io" where
  "read_response = io_let (read_exact 1) (\<lambda>status.
     if status ! 0 = STATUS_OK then
       io_let read_u32 (\<lambda>w. io_let read_u32 (\<lambda>h. io_let read_u32 (\<lambda>n.
       if MAX_RESPONSE < unat n then io_fail FrameTooLarge
       else io_let (read_exact (unat n)) (\<lambda>px. io_ret \<lparr>fr_width = w, fr_height = h, fr_rgba = px\<rparr>))))
     else io_let read_u32 (\<lambda>n. io_let (read_exact (min (unat n) 4096)) (\<lambda>m. io_fail (ReplayFailed m))))"

subsection \<open>Serving\<close>

fun render_request :: "driver \<Rightarrow> u32 list \<Rightarrow> (HostGpu \<Rightarrow> bytes) \<Rightarrow> RenderRequest \<Rightarrow> (HostGpu, Frame) prog" where
  "render_request W spv px (ClearRequest w h (r, g, b, a)) hg = render_clear W w h [r, g, b, a] (px hg) hg"
| "render_request W spv px (TriangleRequest w h (r, g, b, a)) hg = render_triangle W spv w h [r, g, b, a] (px hg) hg"

definition answer :: "(gpu_error \<Rightarrow> bytes) \<Rightarrow> gpu_error + Frame \<Rightarrow> unit io" where
  "answer msg r = (case r of Inr f \<Rightarrow> write_frame f | Inl e \<Rightarrow> write_error (msg e))"

lemma io_let_Inr: "io_let m k s = (Inr y, s') \<longleftrightarrow> (\<exists>x t. m s = (Inr x, t) \<and> k x t = (Inr y, s'))"
  by (auto simp: io_let_def split: prod.split sum.split)

lemma read_exact_shrinks: "read_exact n s = (Inr x, s') \<Longrightarrow> length (sk_in s') = length (sk_in s) - n \<and> n \<le> length (sk_in s)"
  by (auto simp: read_exact_def split: if_splits)

lemma read_u32_shrinks: "read_u32 s = (Inr x, s') \<Longrightarrow> length (sk_in s') \<le> length (sk_in s)"
  by (auto simp: read_u32_def io_let_Inr io_ret_def dest: read_exact_shrinks)

lemma read_f32s_shrinks: "read_f32s n s = (Inr x, s') \<Longrightarrow> length (sk_in s') \<le> length (sk_in s)"
proof (induction n arbitrary: s x s')
  case (Suc n)
  then show ?case by (auto simp: io_let_Inr io_ret_def dest!: read_u32_shrinks) (metis le_trans)
qed (simp add: io_ret_def)

lemma read_request_shrinks:
  assumes "read_request s = (Inr (Some r), s')"
  shows "length (sk_in s') < length (sk_in s)"
proof (cases "read_exact 1 s")
  case (Pair a t)
  with assms obtain tag where "read_exact 1 s = (Inr tag, t)"
    and k: "io_let read_u32 (\<lambda>w. io_let read_u32 (\<lambda>h. io_let (read_f32s 4) (\<lambda>cs. decode_request (tag ! 0) w h cs))) t = (Inr (Some r), s')"
    by (auto simp: read_request_def split: sum.splits io_error.splits)
  from k have "length (sk_in s') \<le> length (sk_in t)"
    by (auto simp: io_let_Inr decode_request_def io_ret_def io_fail_def Let_def split: if_splits
        dest!: read_u32_shrinks read_f32s_shrinks)
  with read_exact_shrinks [OF \<open>read_exact 1 s = (Inr tag, t)\<close>] show ?thesis by auto
qed

definition same_input :: "Socket \<Rightarrow> Socket \<Rightarrow> bool" where
  "same_input s t = (sk_in t = sk_in s \<and> sk_end t = sk_end s)"

lemma write_all_keeps: "same_input s (snd (write_all b s))"
  by (simp add: same_input_def write_all_def)

lemma write_pieces_keeps: "same_input s (snd (write_pieces ps s))"
proof (induction ps arbitrary: s)
  case (Cons p ps)
  obtain r t where w: "write_all p s = (r, t)" by fastforce
  with write_all_keeps [of s p] Cons [of t] show ?case
    by (auto simp: io_let_def same_input_def split: sum.split)
qed (simp add: io_ret_def same_input_def)

lemma answer_keeps: "same_input s (snd (answer msg r s))"
  by (cases r) (simp_all del: write_pieces.simps add: answer_def write_frame_def write_error_def write_pieces_keeps)

text \<open>The loop of \<open>handle_conn\<close>: every turn reads at least the tag, so it ends.\<close>

function handle_conn :: "driver \<Rightarrow> u32 list \<Rightarrow> (HostGpu \<Rightarrow> bytes) \<Rightarrow> (gpu_error \<Rightarrow> bytes) \<Rightarrow> Socket \<Rightarrow> HostGpu \<Rightarrow>
    (io_error + unit) \<times> Socket \<times> HostGpu" where
  "handle_conn W spv px msg s hg = (case read_request s of
     (Inl e, s1) \<Rightarrow> (Inl e, s1, hg)
   | (Inr None, s1) \<Rightarrow> (Inr (), s1, hg)
   | (Inr (Some req), s1) \<Rightarrow> (case render_request W spv px req hg of (r, hg1) \<Rightarrow>
       (case answer msg r s1 of
          (Inl e, s2) \<Rightarrow> (Inl e, s2, hg1)
        | (Inr _, s2) \<Rightarrow> handle_conn W spv px msg s2 hg1)))"
  by pat_completeness auto
termination
proof (relation "measure (\<lambda>(W, spv, px, msg, s, hg). length (sk_in s))", goal_cases)
  case prems: (2 W spv px msg s hg x s1 q req r hg1 a s2 u)
  have "same_input s1 (snd (answer msg r s1))" by (rule answer_keeps)
  with prems(5) have "sk_in s2 = sk_in s1" by (metis same_input_def snd_conv)
  with prems(1-3) read_request_shrinks [of s req s1] show ?case by simp
qed simp

declare handle_conn.simps [simp del]

text \<open>\<open>ReplayProcess::render\<close>: the client writes the request and reads the response off the same socket.\<close>

definition render_via_process :: "RenderRequest \<Rightarrow> Frame io" where
  "render_via_process r = io_let (write_request r) (\<lambda>_. read_response)"

subsection \<open>What travels on the socket\<close>

fun request_bytes :: "RenderRequest \<Rightarrow> bytes" where
  "request_bytes (ClearRequest w h (a, b, c, d)) = 1 # u32_le w @ u32_le h @ u32_le a @ u32_le b @ u32_le c @ u32_le d"
| "request_bytes (TriangleRequest w h (a, b, c, d)) = 2 # u32_le w @ u32_le h @ u32_le a @ u32_le b @ u32_le c @ u32_le d"

fun response_bytes :: "(gpu_error \<Rightarrow> bytes) \<Rightarrow> gpu_error + Frame \<Rightarrow> bytes" where
  "response_bytes msg (Inr f) = 0 # u32_le (fr_width f) @ u32_le (fr_height f) @ u32_le (word_of_nat (length (fr_rgba f))) @ fr_rgba f"
| "response_bytes msg (Inl e) = 1 # u32_le (word_of_nat (length (msg e))) @ msg e"

text \<open>What the client makes of a response, when it fits the limits of \<open>read_response\<close>.\<close>

fun response_fits :: "(gpu_error \<Rightarrow> bytes) \<Rightarrow> gpu_error + Frame \<Rightarrow> bool" where
  "response_fits msg (Inr f) = (length (fr_rgba f) \<le> MAX_RESPONSE)"
| "response_fits msg (Inl e) = (length (msg e) \<le> 4096)"

fun seen_by_client :: "(gpu_error \<Rightarrow> bytes) \<Rightarrow> gpu_error + Frame \<Rightarrow> io_error + Frame" where
  "seen_by_client msg (Inr f) = Inr f"
| "seen_by_client msg (Inl e) = Inl (ReplayFailed (msg e))"

lemma write_pieces_ok:
  "length (concat ps) \<le> sk_room s \<Longrightarrow>
   write_pieces ps s = (Inr (), s\<lparr>sk_out := sk_out s @ concat ps, sk_room := sk_room s - length (concat ps)\<rparr>)"
  by (induction ps arbitrary: s) (simp_all add: io_ret_def io_let_def write_all_def)

lemma write_request_ok:
  "length (request_bytes r) \<le> sk_room s \<Longrightarrow>
   write_request r s = (Inr (), s\<lparr>sk_out := sk_out s @ request_bytes r, sk_room := sk_room s - length (request_bytes r)\<rparr>)"
  by (cases r rule: request_bytes.cases)
    (simp_all del: write_pieces.simps add: write_request_def write_pieces_ok)

lemma answer_ok:
  "length (response_bytes msg r) \<le> sk_room s \<Longrightarrow>
   answer msg r s = (Inr (), s\<lparr>sk_out := sk_out s @ response_bytes msg r, sk_room := sk_room s - length (response_bytes msg r)\<rparr>)"
  by (cases r) (simp_all del: write_pieces.simps add: answer_def write_frame_def write_error_def write_pieces_ok)

lemma read_exact_hit: "sk_in s = b @ rest \<Longrightarrow> length b = n \<Longrightarrow> read_exact n s = (Inr b, s\<lparr>sk_in := rest\<rparr>)"
  by (simp add: read_exact_def)

lemma read_u32_hit: "sk_in s = u32_le w @ rest \<Longrightarrow> read_u32 s = (Inr w, s\<lparr>sk_in := rest\<rparr>)"
  by (simp add: read_u32_def io_let_def io_ret_def read_exact_hit [where n = 4] get_u32_def)

lemma read_byte_hit: "sk_in s = b # rest \<Longrightarrow> read_exact (Suc 0) s = (Inr [b], s\<lparr>sk_in := rest\<rparr>)"
  by (simp add: read_exact_def)

lemmas io_defs = io_let_def io_ret_def io_fail_def

lemma read_colour_hit:
  "sk_in s = u32_le a @ u32_le b @ u32_le c @ u32_le d @ rest \<Longrightarrow> read_f32s 4 s = (Inr [a, b, c, d], s\<lparr>sk_in := rest\<rparr>)"
  by (simp add: numeral_eq_Suc io_defs read_u32_hit)

lemma read_request_hit:
  "sk_in s = request_bytes r @ rest \<Longrightarrow> read_request s = (Inr (Some r), s\<lparr>sk_in := rest\<rparr>)"
  by (cases r rule: request_bytes.cases)
    (simp_all add: read_request_def read_byte_hit io_defs read_u32_hit read_colour_hit decode_request_def)

lemma read_request_eof: "sk_in s = [] \<Longrightarrow> sk_end s = PeerClosed \<Longrightarrow> read_request s = (Inr None, s)"
  by (simp add: read_request_def read_exact_def)

lemma read_response_hit:
  assumes "sk_in s = response_bytes msg r @ rest" "response_fits msg r"
  shows "read_response s = (seen_by_client msg r, s\<lparr>sk_in := rest\<rparr>)"
proof (cases r)
  case (Inl e)
  then have "unat (word_of_nat (length (msg e)) :: u32) = length (msg e)"
    using assms(2) by (simp add: unat_of_nat)
  with Inl assms show ?thesis
    by (simp add: read_response_def read_byte_hit io_defs read_u32_hit read_exact_hit [where b = "msg e"])
next
  case (Inr f)
  then have "unat (word_of_nat (length (fr_rgba f)) :: u32) = length (fr_rgba f)"
    using assms(2) by (simp add: unat_of_nat MAX_RESPONSE_def)
  with Inr assms show ?thesis
    by (simp add: read_response_def read_byte_hit io_defs read_u32_hit read_exact_hit [where b = "fr_rgba f"])
qed

lemma long_error_desyncs:
  assumes "sk_in s = response_bytes msg (Inl e) @ rest" "4096 < length (msg e)" "length (msg e) < 2 ^ 32"
  shows "read_response s = (Inl (ReplayFailed (take 4096 (msg e))), s\<lparr>sk_in := drop 4096 (msg e) @ rest\<rparr>)"
proof -
  have "unat (word_of_nat (length (msg e)) :: u32) = length (msg e)"
    using assms(3) by (simp add: unat_of_nat)
  with assms show ?thesis
    by (simp add: read_response_def read_byte_hit io_defs read_u32_hit
        read_exact_hit [where b = "take 4096 (msg e)" and rest = "drop 4096 (msg e) @ rest"])
qed

lemma large_frame_desyncs:
  assumes "sk_in s = response_bytes msg (Inr f) @ rest" "MAX_RESPONSE < length (fr_rgba f)" "length (fr_rgba f) < 2 ^ 32"
  shows "read_response s = (Inl FrameTooLarge, s\<lparr>sk_in := fr_rgba f @ rest\<rparr>)"
proof -
  have "unat (word_of_nat (length (fr_rgba f)) :: u32) = length (fr_rgba f)"
    using assms(3) by (simp add: unat_of_nat)
  with assms show ?thesis by (simp add: read_response_def read_byte_hit io_defs read_u32_hit)
qed

subsection \<open>A run of the replay process\<close>

text \<open>The specification: the requests are rendered one after another on the same GPU context.\<close>

fun rendered_in_order :: "driver \<Rightarrow> u32 list \<Rightarrow> (HostGpu \<Rightarrow> bytes) \<Rightarrow> RenderRequest list \<Rightarrow> HostGpu \<Rightarrow> (gpu_error + Frame) list \<times> HostGpu" where
  "rendered_in_order W spv px [] hg = ([], hg)"
| "rendered_in_order W spv px (r # rs) hg = (case render_request W spv px r hg of (x, hg1) \<Rightarrow>
     (case rendered_in_order W spv px rs hg1 of (xs, hg2) \<Rightarrow> (x # xs, hg2)))"

fun send_requests :: "RenderRequest list \<Rightarrow> unit io" where
  "send_requests [] = io_ret ()"
| "send_requests (r # rs) = io_let (write_request r) (\<lambda>_. send_requests rs)"

fun read_responses :: "nat \<Rightarrow> Socket \<Rightarrow> (io_error + Frame) list \<times> Socket" where
  "read_responses 0 s = ([], s)"
| "read_responses (Suc n) s = (case read_response s of (x, s1) \<Rightarrow>
     (case read_responses n s1 of (xs, s2) \<Rightarrow> (x # xs, s2)))"

lemma send_requests_ok:
  "length (concat (map request_bytes rs)) \<le> sk_room s \<Longrightarrow>
   send_requests rs s = (Inr (), s\<lparr>sk_out := sk_out s @ concat (map request_bytes rs),
     sk_room := sk_room s - length (concat (map request_bytes rs))\<rparr>)"
  by (induction rs arbitrary: s) (simp_all add: io_defs write_request_ok)

lemma read_responses_hit:
  "sk_in s = concat (map (response_bytes msg) xs) @ rest \<Longrightarrow> \<forall>x \<in> set xs. response_fits msg x \<Longrightarrow>
   read_responses (length xs) s = (map (seen_by_client msg) xs, s\<lparr>sk_in := rest\<rparr>)"
  by (induction xs arbitrary: s) (simp_all add: read_response_hit)

lemma handle_conn_serves:
  "sk_in s = concat (map request_bytes rs) \<Longrightarrow> sk_end s = PeerClosed \<Longrightarrow> rendered_in_order W spv px rs hg = (xs, hg') \<Longrightarrow>
   length (concat (map (response_bytes msg) xs)) \<le> sk_room s \<Longrightarrow>
   handle_conn W spv px msg s hg = (Inr (), s\<lparr>sk_in := [], sk_out := sk_out s @ concat (map (response_bytes msg) xs),
     sk_room := sk_room s - length (concat (map (response_bytes msg) xs))\<rparr>, hg')"
proof (induction rs arbitrary: s hg xs)
  case Nil
  then show ?case by (simp add: handle_conn.simps [of _ _ _ _ s] read_request_eof)
next
  case (Cons r rs)
  obtain x hg1 ys where x: "render_request W spv px r hg = (x, hg1)"
    and ys: "rendered_in_order W spv px rs hg1 = (ys, hg')" and xs: "xs = x # ys"
    using Cons.prems(3) by (auto split: prod.splits)
  let ?s = "s\<lparr>sk_in := concat (map request_bytes rs)\<rparr>"
  have "read_request s = (Inr (Some r), ?s)"
    using Cons.prems(1) by (simp add: read_request_hit)
  moreover have "answer msg x ?s = (Inr (), ?s\<lparr>sk_out := sk_out s @ response_bytes msg x, sk_room := sk_room s - length (response_bytes msg x)\<rparr>)"
    using Cons.prems(4) xs by (simp add: answer_ok)
  ultimately show ?case
    using Cons.IH [OF _ _ ys] Cons.prems(2,4) xs x by (simp add: handle_conn.simps [of _ _ _ _ s])
qed

text \<open>C20: The replay process answers in order. A client that writes any requests and hangs up, and then reads as many
  responses as it sent requests, sees for each request, in order, the frame the GPU rendered for it, or the text of
  the error it failed with; the server reads every byte, ends without an error, and leaves the GPU as the renderings
  do. This needs room for the bytes both ways, frames of at most 256 MiB and error texts of at most 4096 bytes,
  the limits \<open>read_response\<close> enforces.\<close>

theorem replay_process_answers_in_order:
  assumes client: "length (concat (map request_bytes reqs)) \<le> sk_room c" "sk_out c = []"
    and server: "sk_in s = sk_out (snd (send_requests reqs c))" "sk_end s = PeerClosed" "sk_out s = []"
      "length (concat (map (response_bytes msg) xs)) \<le> sk_room s"
    and rendered: "rendered_in_order W spv px reqs hg = (xs, hg')" "\<forall>x \<in> set xs. response_fits msg x"
    and reader: "sk_in b = sk_out (fst (snd (handle_conn W spv px msg s hg)))"
  shows "fst (handle_conn W spv px msg s hg) = Inr () \<and> sk_in (fst (snd (handle_conn W spv px msg s hg))) = [] \<and>
    snd (snd (handle_conn W spv px msg s hg)) = hg' \<and>
    fst (read_responses (length xs) b) = map (seen_by_client msg) xs \<and> sk_in (snd (read_responses (length xs) b)) = []"
proof -
  have "sk_in s = concat (map request_bytes reqs)"
    using server(1) client by (simp add: send_requests_ok)
  note run = handle_conn_serves [OF this server(2) rendered(1) server(4)]
  have "sk_in b = concat (map (response_bytes msg) xs) @ []"
    using reader server(3) by (simp add: run)
  from read_responses_hit [OF this rendered(2)] show ?thesis by (simp add: run)
qed

definition demo_gpu_answers :: driver where
  "demo_gpu_answers n = \<lparr>an_ok = True, an_handle = word_of_nat n, an_size = 4, an_bits = 7\<rparr>"

lemma demo_clear_renders:
  "fst (render_clear demo_gpu_answers 1 1 [0, 0, 0, 0] [9, 8, 7, 6] (gpu_opened demo_gpu_env)) =
    Inr \<lparr>fr_width = 1, fr_height = 1, fr_rgba = [9, 8, 7, 6]\<rparr>"
  by (simp add: demo_gpu_answers_def render_clear_def scoped_def scoped_image_def register_def scoped_buffer_def
      try_let_def in_dev_def in_gpu_def on_dev_def create_def attempt_def ask_def tell_def call_def keep_def record_once_def
      submit_once_def map_frame_def ret_def fail_def try_option_def gpu_opened_def demo_gpu_env_def device_new_def
      find_mem_def find_host_mem_def Let_def upt_rec split: prod.split)

theorem replay_process_answers_in_order_witness:
  "let c = \<lparr>sk_in = [], sk_end = PeerClosed, sk_out = [], sk_room = 100\<rparr>;
       s = \<lparr>sk_in = sk_out (snd (send_requests [ClearRequest 1 1 (0, 0, 0, 0)] c)), sk_end = PeerClosed, sk_out = [], sk_room = 100\<rparr>;
       run = handle_conn demo_gpu_answers [] (\<lambda>_. [9, 8, 7, 6]) (\<lambda>_. []) s (gpu_opened demo_gpu_env);
       b = \<lparr>sk_in = sk_out (fst (snd run)), sk_end = PeerClosed, sk_out = [], sk_room = 0\<rparr>
   in fst run = Inr () \<and> fst (read_responses 1 b) = [Inr \<lparr>fr_width = 1, fr_height = 1, fr_rgba = [9, 8, 7, 6]\<rparr>]"
proof -
  let ?reqs = "[ClearRequest 1 1 (0, 0, 0, 0)]" and ?W = demo_gpu_answers and ?hg = "gpu_opened demo_gpu_env"
  let ?c = "\<lparr>sk_in = [], sk_end = PeerClosed, sk_out = [], sk_room = 100\<rparr>"
  let ?s = "\<lparr>sk_in = sk_out (snd (send_requests ?reqs ?c)), sk_end = PeerClosed, sk_out = [], sk_room = 100\<rparr>"
  let ?f = "\<lparr>fr_width = 1, fr_height = 1, fr_rgba = [9, 8, 7, 6]\<rparr>"
  let ?b = "\<lparr>sk_in = sk_out (fst (snd (handle_conn ?W [] (\<lambda>_. [9, 8, 7, 6]) (\<lambda>_. []) ?s ?hg))), sk_end = PeerClosed, sk_out = [], sk_room = 0\<rparr>"
  obtain hg' where r: "render_clear ?W 1 1 [0, 0, 0, 0] [9, 8, 7, 6] ?hg = (Inr ?f, hg')"
    using demo_clear_renders by (metis prod.collapse)
  show ?thesis
    using replay_process_answers_in_order [where reqs = ?reqs and c = ?c and s = ?s and msg = "\<lambda>_. []" and xs = "[Inr ?f]"
        and W = ?W and spv = "[]" and px = "\<lambda>_. [9, 8, 7, 6]" and hg = ?hg and hg' = hg' and b = ?b]
    by (simp add: r Let_def MAX_RESPONSE_def del: send_requests.simps read_responses.simps)
qed

end
