(* ===== verification/Viewer_Stream.thy ===== *)
theory Viewer_Stream
  imports Pixel_Hub
begin

text \<open>
  \<open>viewer/src/stream.rs\<close> and \<open>headless.rs\<close>: the two hand-off slots between the network thread and the render
  loop, and the network thread itself, which forwards input, routes plane messages to the cursor slot and
  feeds frames to the decoder, starting at a keyframe and again after every decode error.

  One turn of the loop is the input strings pending at its start and what the socket read gave. The decoder
  (openh264) and the \<open>on_frame\<close> callback are arguments with their own state; \<open>vs_fed\<close> is the model's log of
  what the decoder was given and answered. Sends whose failure the code ignores are always recorded. The
  connection, the socket options and the logging are not modelled.
\<close>

subsection \<open>Hand-off slots\<close>

record DecodedFrame =
  df_rgba :: bytes
  df_width :: u32
  df_height :: u32
  df_seq :: u32
  df_keyframe :: bool

type_synonym FrameSlot = "DecodedFrame option"

definition FrameSlot_new :: FrameSlot where
  "FrameSlot_new = None"

definition slot_put :: "DecodedFrame \<Rightarrow> FrameSlot \<Rightarrow> FrameSlot" where
  "slot_put f s = Some f"

definition slot_take :: "FrameSlot \<Rightarrow> DecodedFrame option \<times> FrameSlot" where
  "slot_take s = (s, None)"

record CursorShape =
  cs_bgra :: bytes
  cs_w :: u16
  cs_h :: u16
  cs_hot_x :: u16
  cs_hot_y :: u16
  cs_premultiplied :: bool

record CursorSlot =
  ci_shape :: "CursorShape option"
  ci_version :: u64
  ci_visible :: bool
  ci_active :: bool

definition CursorSlot_new :: CursorSlot where
  "CursorSlot_new = \<lparr>ci_shape = None, ci_version = 0, ci_visible = False, ci_active = False\<rparr>"

definition cursor_slot_define :: "CursorShape \<Rightarrow> bool \<Rightarrow> CursorSlot \<Rightarrow> CursorSlot" where
  "cursor_slot_define shape visible c =
     c\<lparr>ci_shape := Some shape, ci_version := ci_version c + 1, ci_visible := visible, ci_active := True\<rparr>"

definition cursor_slot_set_visible :: "bool \<Rightarrow> CursorSlot \<Rightarrow> CursorSlot" where
  "cursor_slot_set_visible visible c = c\<lparr>ci_visible := visible, ci_active := True\<rparr>"

definition cursor_slot_snapshot :: "CursorSlot \<Rightarrow> bool \<times> bool \<times> CursorShape option \<times> u64" where
  "cursor_slot_snapshot c = (ci_active c, ci_visible c, ci_shape c, ci_version c)"

definition cursor_slot_has_shape :: "CursorSlot \<Rightarrow> bool" where
  "cursor_slot_has_shape c = (ci_shape c \<noteq> None)"

interpretation frame_slot: latest_wins slot_put slot_take "\<lambda>s. s" "\<lambda>_. True"
  by unfold_locales (simp_all add: slot_put_def slot_take_def)

subsection \<open>Plane messages\<close>

definition cursor_plane :: "bytes \<Rightarrow> CursorSlot \<Rightarrow> CursorSlot" where
  "cursor_plane data c = (case plane_parse data of
     None \<Rightarrow> c
   | Some ph \<Rightarrow>
       if ph_plane_kind ph = PLANE_KIND_CURSOR then
         let vis = (ph_flags ph AND PLANE_VISIBLE \<noteq> 0) in
         if ph_op ph = PLANE_OP_DEFINE then
           let body = drop PLANE_HEADER_LEN data; need = unat (ph_width ph) * unat (ph_height ph) * 4 in
           if 0 < ph_width ph \<and> 0 < ph_height ph \<and> need \<le> length body then
             cursor_slot_define \<lparr>cs_bgra = take need body, cs_w = ph_width ph, cs_h = ph_height ph, cs_hot_x = ph_hot_x ph,
               cs_hot_y = ph_hot_y ph, cs_premultiplied = (ph_flags ph AND PLANE_PREMULTIPLIED \<noteq> 0)\<rparr> vis c
           else c
         else if ph_op ph = PLANE_OP_MOVE \<or> ph_op ph = PLANE_OP_DESTROY then
           cursor_slot_set_visible (vis \<and> ph_op ph = PLANE_OP_MOVE) c
         else c
       else c)"

subsection \<open>The network thread\<close>

datatype decoded = Picture nat nat bytes | NoPicture | DecodeError

type_synonym 'd decoder = "'d \<Rightarrow> bytes \<Rightarrow> decoded \<times> 'd"
type_synonym 'u on_frame = "DecodedFrame \<Rightarrow> 'u \<Rightarrow> bool \<times> 'u"

datatype ws_msg = BinaryMsg bytes | PingMsg bytes | CloseMsg | OtherMsg
datatype ws_read = ReadMsg ws_msg | ReadTimeout | ReadClosed | ReadFailed
datatype ws_sent = TextSent string | PongSent bytes

record ('d, 'u) ViewerStream =
  vs_synced :: bool
  vs_decoder :: 'd
  vs_cursor :: "CursorSlot option"
  vs_user :: 'u
  vs_sent :: "ws_sent list"
  vs_fed :: "(FrameHeader \<times> bytes \<times> decoded) list"

definition stream_start :: "'d \<Rightarrow> CursorSlot option \<Rightarrow> 'u \<Rightarrow> ('d, 'u) ViewerStream" where
  "stream_start d c u = \<lparr>vs_synced = False, vs_decoder = d, vs_cursor = c, vs_user = u, vs_sent = [], vs_fed = []\<rparr>"

datatype flow = Continue | Break | Abort

definition feed_decoder :: "'d decoder \<Rightarrow> 'u on_frame \<Rightarrow> FrameHeader \<Rightarrow> bytes \<Rightarrow> ('d, 'u) ViewerStream \<Rightarrow>
    flow \<times> ('d, 'u) ViewerStream" where
  "feed_decoder decode on_frame hdr au s = (case decode (vs_decoder s) au of (r, d) \<Rightarrow>
     let s = s\<lparr>vs_decoder := d, vs_fed := vs_fed s @ [(hdr, au, r)]\<rparr> in
     (case r of
        Picture w h rgba \<Rightarrow>
          (case on_frame \<lparr>df_rgba = rgba, df_width = word_of_nat w, df_height = word_of_nat h,
               df_seq = fh_frame_seq hdr, df_keyframe = frame_is_keyframe hdr\<rparr> (vs_user s) of (go, u) \<Rightarrow>
             (if go then Continue else Break, s\<lparr>vs_synced := True, vs_user := u\<rparr>))
      | NoPicture \<Rightarrow> (Continue, s)
      | DecodeError \<Rightarrow> (Continue, s\<lparr>vs_synced := False\<rparr>)))"

definition on_binary :: "'d decoder \<Rightarrow> 'u on_frame \<Rightarrow> bytes \<Rightarrow> ('d, 'u) ViewerStream \<Rightarrow> flow \<times> ('d, 'u) ViewerStream" where
  "on_binary decode on_frame data s =
    (if 4 \<le> length data \<and> get_u32 data 0 = PLANE_MAGIC then
       (Continue, s\<lparr>vs_cursor := map_option (cursor_plane data) (vs_cursor s)\<rparr>)
     else (case frame_parse data of
        None \<Rightarrow> (Continue, s)
      | Some hdr \<Rightarrow>
          if \<not> vs_synced s \<and> \<not> frame_is_keyframe hdr then (Continue, s)
          else feed_decoder decode on_frame hdr (drop PROTO_HEADER_LEN data) s))"

fun on_read :: "'d decoder \<Rightarrow> 'u on_frame \<Rightarrow> ws_read \<Rightarrow> ('d, 'u) ViewerStream \<Rightarrow> flow \<times> ('d, 'u) ViewerStream" where
  "on_read decode on_frame (ReadMsg (BinaryMsg data)) s = on_binary decode on_frame data s"
| "on_read decode on_frame (ReadMsg (PingMsg p)) s = (Continue, s\<lparr>vs_sent := vs_sent s @ [PongSent p]\<rparr>)"
| "on_read decode on_frame (ReadMsg CloseMsg) s = (Break, s)"
| "on_read decode on_frame (ReadMsg OtherMsg) s = (Continue, s)"
| "on_read decode on_frame ReadClosed s = (Break, s)"
| "on_read decode on_frame ReadTimeout s = (Continue, s)"
| "on_read decode on_frame ReadFailed s = (Abort, s)"

definition drain_input :: "bool \<Rightarrow> string list \<Rightarrow> ('d, 'u) ViewerStream \<Rightarrow> ('d, 'u) ViewerStream" where
  "drain_input has_input js s = (if has_input then s\<lparr>vs_sent := vs_sent s @ map TextSent js\<rparr> else s)"

text \<open>The loop: \<open>None\<close> while the next read has not returned yet, \<open>Some\<close> whether it ended well.\<close>

fun run_stream :: "'d decoder \<Rightarrow> 'u on_frame \<Rightarrow> bool \<Rightarrow> (string list \<times> ws_read) list \<Rightarrow> ('d, 'u) ViewerStream \<Rightarrow>
    bool option \<times> ('d, 'u) ViewerStream" where
  "run_stream decode on_frame has_input [] s = (None, s)"
| "run_stream decode on_frame has_input ((js, r) # turns) s =
    (case on_read decode on_frame r (drain_input has_input js s) of
       (Continue, s) \<Rightarrow> run_stream decode on_frame has_input turns s
     | (Break, s) \<Rightarrow> (Some True, s)
     | (Abort, s) \<Rightarrow> (Some False, s))"

text \<open>The windowed client publishes every frame in the slot.\<close>

definition window_on_frame :: "FrameSlot on_frame" where
  "window_on_frame f s = (True, slot_put f s)"

subsection \<open>The headless probe\<close>

record Headless =
  hd_got :: nat
  hd_keyframes :: nat
  hd_last :: "DecodedFrame option"

definition Headless_new :: Headless where
  "Headless_new = \<lparr>hd_got = 0, hd_keyframes = 0, hd_last = None\<rparr>"

definition headless_on_frame :: "nat \<Rightarrow> Headless on_frame" where
  "headless_on_frame frames f s =
    (hd_got s + 1 < frames, \<lparr>hd_got = hd_got s + 1,
       hd_keyframes = (if df_keyframe f then hd_keyframes s + 1 else hd_keyframes s), hd_last = Some f\<rparr>)"

fun nonblank :: "bytes \<Rightarrow> nat" where
  "nonblank (r # g # b # a # px) = (if 8 < r \<or> 8 < g \<or> 8 < b then 1 else 0) + nonblank px"
| "nonblank _ = 0"

datatype probe_error = StreamError | NoFrames | PpmFailed | TooFewFrames nat nat | AllBlack

text \<open>\<open>saved\<close> is whether writing the picture file worked, when one was asked for.\<close>

definition headless_verdict :: "nat \<Rightarrow> bool option \<Rightarrow> bool \<Rightarrow> Headless \<Rightarrow> probe_error option" where
  "headless_verdict frames saved stream_ok s =
    (if \<not> stream_ok then Some StreamError
     else (case hd_last s of
        None \<Rightarrow> Some NoFrames
      | Some f \<Rightarrow>
          if saved = Some False then Some PpmFailed
          else if hd_got s < frames then Some (TooFewFrames (hd_got s) frames)
          else if nonblank (df_rgba f) = 0 then Some AllBlack
          else None))"

end
