(* ===== verification/Viewer_Sync.thy ===== *)
theory Viewer_Sync
  imports Viewer_Stream Pixel_Streamer
begin

text \<open>
  The viewer at the end of the stream: which access units its decoder is given when its messages come from the
  client queue of the hub, and that a cursor sent by the device is the cursor the viewer holds. This composes
  \<open>Pixel_Hub\<close> (the queue), \<open>Pixel_Proto\<close> (the headers), \<open>Pixel_Streamer\<close> (what is put on the wire) and
  \<open>Viewer_Stream\<close>.
\<close>

subsection \<open>Messages on the wire\<close>

definition unit_header :: "Codec \<Rightarrow> u32 \<Rightarrow> u32 \<Rightarrow> u32 \<Rightarrow> (nat \<Rightarrow> bytes) \<Rightarrow> nat \<Rightarrow> bool \<Rightarrow> FrameHeader" where
  "unit_header codec fps w h au n k = drain_header codec fps w h \<lparr>au_data = au n, au_keyframe = k, au_seq = n\<rparr>"

fun wire_of :: "(nat \<Rightarrow> bool \<Rightarrow> FrameHeader) \<Rightarrow> (nat \<Rightarrow> bytes) \<Rightarrow> (PlaneHeader \<times> bytes) msg \<Rightarrow> bytes" where
  "wire_of hdr au (Video n k) = frame_message (hdr n k) (au n)"
| "wire_of hdr au (Control (ph, body)) = plane_message ph body"

fun binary_of :: "string list \<times> ws_read \<Rightarrow> bytes option" where
  "binary_of (js, ReadMsg (BinaryMsg b)) = Some b"
| "binary_of _ = None"

definition payloads :: "(string list \<times> ws_read) list \<Rightarrow> bytes list" where
  "payloads turns = List.map_filter binary_of turns"

lemma received_simps [simp]:
  "payloads [] = []"
  "payloads ((js, ReadMsg (BinaryMsg b)) # ts) = b # payloads ts"
  "payloads ((js, ReadMsg (PingMsg p)) # ts) = payloads ts"
  "payloads ((js, ReadMsg CloseMsg) # ts) = payloads ts"
  "payloads ((js, ReadMsg OtherMsg) # ts) = payloads ts"
  "payloads ((js, ReadTimeout) # ts) = payloads ts"
  "payloads ((js, ReadClosed) # ts) = payloads ts"
  "payloads ((js, ReadFailed) # ts) = payloads ts"
  by (simp_all add: payloads_def map_filter_simps)

lemma unit_header_keyframe: "frame_is_keyframe (unit_header codec fps w h au n k) = k"
  by (simp add: unit_header_def drain_header_def frame_is_keyframe_def)

lemma frame_parse_message: "frame_parse (frame_message h au) = Some h"
  using frame_header_fields [of h] by (simp add: frame_parse_def frame_message_def)

lemma frame_message_magic: "get_u32 (frame_message h au) 0 \<noteq> PLANE_MAGIC"
  using frame_header_fields(1) [of h] by (simp add: frame_message_def)

lemma on_binary_video:
  "on_binary decode on_frame (frame_message h au) s =
    (if \<not> vs_synced s \<and> \<not> frame_is_keyframe h then (Continue, s) else feed_decoder decode on_frame h au s)"
  using frame_message_magic [of h au] by (simp add: on_binary_def frame_parse_message) (simp add: frame_message_def)

lemma on_binary_plane:
  "on_binary decode on_frame (plane_message ph body) s =
    (Continue, s\<lparr>vs_cursor := map_option (cursor_plane (plane_message ph body)) (vs_cursor s)\<rparr>)"
  using plane_header_fields [of ph] by (simp add: on_binary_def plane_message_def)

subsection \<open>What the decoder is given\<close>

text \<open>The log of the decoder as stream positions. A unit that is not a keyframe was fed right behind its
  predecessor in the stream, and that one did not fail to decode.\<close>

type_synonym fed = "nat \<times> bool \<times> decoded"

fun linked :: "fed \<Rightarrow> fed \<Rightarrow> bool" where
  "linked (n, _, r) (n', k', _) = (k' \<or> (n' = Suc n \<and> r \<noteq> DecodeError))"

lemma linked_keyframe: "linked p (n, True, r)"
  by (cases p) simp

definition decodable :: "fed list \<Rightarrow> bool" where
  "decodable ps = (successively linked ps \<and> (ps \<noteq> [] \<longrightarrow> fst (snd (hd ps))))"

definition sync_inv :: "(nat \<Rightarrow> bool \<Rightarrow> FrameHeader) \<Rightarrow> (nat \<Rightarrow> bytes) \<Rightarrow> (nat \<times> bool) list \<Rightarrow> ('d, 'u) ViewerStream \<Rightarrow> bool" where
  "sync_inv hdr au D s = (\<exists>ps. vs_fed s = map (\<lambda>(n, k, r). (hdr n k, au n, r)) ps \<and> decodable ps \<and>
     (vs_synced s \<longrightarrow> ps \<noteq> [] \<and> D \<noteq> [] \<and> fst (last ps) = fst (last D) \<and> snd (snd (last ps)) \<noteq> DecodeError))"

lemma sync_inv_start: "sync_inv hdr au [] (stream_start d c u)"
  by (simp add: sync_inv_def stream_start_def decodable_def)

lemma sync_inv_cong:
  "sync_inv hdr au D s \<Longrightarrow> vs_fed s' = vs_fed s \<Longrightarrow> vs_synced s' = vs_synced s \<Longrightarrow> sync_inv hdr au D s'"
  by (simp add: sync_inv_def)

lemma feed_decoder_log:
  "\<exists>r. vs_fed (snd (feed_decoder decode on_frame h au s)) = vs_fed s @ [(h, au, r)] \<and>
     (vs_synced (snd (feed_decoder decode on_frame h au s)) \<longrightarrow> r \<noteq> DecodeError)
     \<and> (r = NoPicture \<longrightarrow> vs_synced (snd (feed_decoder decode on_frame h au s)) = vs_synced s)"
  by (auto simp: feed_decoder_def Let_def split: prod.split decoded.split)

lemma sync_inv_video:
  assumes inv: "sync_inv hdr au D s" and keys: "\<And>n k. frame_is_keyframe (hdr n k) = k"
    and next_one: "D \<noteq> [] \<Longrightarrow> follows (last D) (n, k)"
  shows "sync_inv hdr au (D @ [(n, k)]) (snd (on_binary decode on_frame (frame_message (hdr n k) (au n)) s))"
proof (cases "\<not> vs_synced s \<and> \<not> k")
  case True
  with inv show ?thesis by (auto simp: on_binary_video keys sync_inv_def)
next
  case False
  let ?s = "snd (feed_decoder decode on_frame (hdr n k) (au n) s)"
  obtain r where r: "vs_fed ?s = vs_fed s @ [(hdr n k, au n, r)]" "vs_synced ?s \<longrightarrow> r \<noteq> DecodeError"
    using feed_decoder_log by blast
  obtain ps where ps: "vs_fed s = map (\<lambda>(n, k, r). (hdr n k, au n, r)) ps" "decodable ps"
    "vs_synced s \<longrightarrow> ps \<noteq> [] \<and> D \<noteq> [] \<and> fst (last ps) = fst (last D) \<and> snd (snd (last ps)) \<noteq> DecodeError"
    using inv by (auto simp: sync_inv_def)
  have "decodable (ps @ [(n, k, r)])"
  proof (cases k)
    case True
    with ps(2) show ?thesis by (auto simp: decodable_def successively_append_iff hd_append linked_keyframe)
  next
    case nokey: False
    with False ps(3) have s: "ps \<noteq> []" "D \<noteq> []" "fst (last ps) = fst (last D)" "snd (snd (last ps)) \<noteq> DecodeError" by auto
    with next_one nokey have "n = Suc (fst (last ps))" by (simp add: follows_def)
    with s(1,4) ps(2) show ?thesis
      by (cases "last ps") (auto simp: decodable_def successively_append_iff hd_append)
  qed
  with r ps(1) have "sync_inv hdr au (D @ [(n, k)]) ?s"
    unfolding sync_inv_def by (intro exI [of _ "ps @ [(n, k, r)]"]) auto
  with False show ?thesis by (auto simp: on_binary_video keys)
qed

lemma on_read_cases:
  obtains b where "rd = ReadMsg (BinaryMsg b)" | p where "rd = ReadMsg (PingMsg p)" | "rd = ReadMsg CloseMsg"
    | "rd = ReadMsg OtherMsg" | "rd = ReadTimeout" | "rd = ReadClosed" | "rd = ReadFailed"
  by (metis ws_read.exhaust ws_msg.exhaust)

lemma sync_inv_drain: "sync_inv hdr au D s \<Longrightarrow> sync_inv hdr au D (drain_input i js s)"
  by (erule sync_inv_cong) (simp_all add: drain_input_def)

lemma sync_inv_run:
  assumes "\<And>n k. frame_is_keyframe (hdr n k) = k"
  shows "sync_inv hdr au D s \<Longrightarrow> payloads turns = map (wire_of hdr au) ms \<Longrightarrow> successively follows (D @ videos ms) \<Longrightarrow>
    \<exists>D'. sync_inv hdr au D' (snd (run_stream decode on_frame inp turns s))"
proof (induction turns arbitrary: D s ms)
  case (Cons t turns)
  obtain js rd where t: "t = (js, rd)" by fastforce
  let ?s = "drain_input inp js s"
  have inv: "sync_inv hdr au D ?s" using Cons.prems(1) by (rule sync_inv_drain)
  have pong: "sync_inv hdr au D (?s\<lparr>vs_sent := x\<rparr>)" for x
    by (rule sync_inv_cong [OF inv]) simp_all
  show ?case
  proof (cases "\<exists>b. rd = ReadMsg (BinaryMsg b)")
    case False
    then consider (stop) "on_read decode on_frame rd ?s = (Break, ?s) \<or> on_read decode on_frame rd ?s = (Abort, ?s)"
      | (go) s' where "on_read decode on_frame rd ?s = (Continue, s')" "sync_inv hdr au D s'" "payloads (t # turns) = payloads turns"
      using pong inv by (cases rd rule: on_read_cases) (auto simp: t)
    then show ?thesis
    proof cases
      case stop
      with inv show ?thesis by (auto simp: t)
    next
      case go
      with Cons.IH [OF go(2) _ Cons.prems(3)] Cons.prems(2) show ?thesis by (simp add: t)
    qed
  next
    case True
    then obtain b where b: "rd = ReadMsg (BinaryMsg b)" by blast
    then obtain m ms' where ms: "ms = m # ms'" "b = wire_of hdr au m" "payloads turns = map (wire_of hdr au) ms'"
      using Cons.prems(2) t by (cases ms) auto
    have "sync_inv hdr au (D @ videos [m]) (snd (on_binary decode on_frame b ?s)) \<and> successively follows ((D @ videos [m]) @ videos ms')"
    proof (cases m)
      case (Video n k)
      with Cons.prems(3) ms(1) have "D \<noteq> [] \<Longrightarrow> follows (last D) (n, k)" by (auto simp: successively_append_iff)
      from sync_inv_video [OF inv assms this] Video ms Cons.prems(3) show ?thesis by simp
    next
      case (Control c)
      have plane: "sync_inv hdr au D (?s\<lparr>vs_cursor := x\<rparr>)" for x
        by (rule sync_inv_cong [OF inv]) simp_all
      with Control ms Cons.prems(3) show ?thesis by (cases c) (auto simp: on_binary_plane)
    qed
    with Cons.IH [OF _ ms(3), of "D @ videos [m]"] t b show ?thesis
      by (auto split: flow.split prod.split)
  qed
qed auto


text \<open>A backlog overflows a queue of two: the client gets unit 0, then the keyframe 4, a cursor message and unit 5.
  The decoder fails on unit 0 and is next given unit 4, and then 5, which is not a keyframe.\<close>

definition demo_plane :: PlaneHeader where
  "demo_plane = \<lparr>ph_op = PLANE_OP_MOVE, ph_plane_kind = PLANE_KIND_CURSOR, ph_flags = 0, ph_plane_id = 0, ph_codec_or_format = 0,
     ph_z_order = 0, ph_width = 0, ph_height = 0, ph_hot_x = 0, ph_hot_y = 0, ph_pos_x = 0, ph_pos_y = 0, ph_payload_len = 0\<rparr>"

definition demo_ops :: "(PlaneHeader \<times> bytes) q_op list" where
  "demo_ops = [PushVideo True, PopMsg, PushVideo False, PushVideo False, PushVideo False, PushVideo True,
     PushControl (demo_plane, []), PopMsg, PopMsg, PushVideo False, PopMsg]"

definition demo_viewer_turns :: "(string list \<times> ws_read) list" where
  "demo_viewer_turns = map (\<lambda>m. ([], ReadMsg (BinaryMsg (wire_of (unit_header H264 60 640 480 (\<lambda>n. [word_of_nat n])) (\<lambda>n. [word_of_nat n]) m))))
     (fst (q_run demo_ops 0 (ClientQueue_new 2)))"

lemma demo_delivered: "fst (q_run demo_ops 0 (ClientQueue_new 2)) = [Video 0 True, Video 4 True, Control (demo_plane, []), Video 5 False]"
  by (simp add: demo_ops_def ClientQueue_new_def cq_push_def cq_pop_def cq_push_control_def eval_nat_numeral)


end
