(* ===== verification/Viewer_Cursor.thy ===== *)
theory Viewer_Cursor
  imports Viewer_Sync Device_Cursor
begin

unbundle bit_operations_syntax

text \<open>
  A cursor from the guest's memory to the viewer: the sprite rows the device cuts out of the pitch, the plane
  header it puts before them, and the shape the viewer's cursor slot holds after reading that message.
\<close>

lemma plane_parse_message: "plane_parse (plane_message ph body) = Some ph"
  using plane_header_fields [of ph] by (simp add: plane_parse_def plane_message_def)

lemma plane_message_body: "drop PLANE_HEADER_LEN (plane_message ph body) = body"
  by (simp add: plane_message_def)

lemma sideband_visible: "(sideband_flags fl AND PLANE_VISIBLE \<noteq> 0) = (fl AND CURSOR_VISIBLE \<noteq> 0)"
  by (simp add: sideband_flags_def)

lemma sideband_premultiplied: "(sideband_flags fl AND PLANE_PREMULTIPLIED \<noteq> 0) = (fl AND CURSOR_PREMULTIPLIED \<noteq> 0)"
  by (simp add: sideband_flags_def)

lemma length_sprite_rows:
  "w * 4 \<le> pitch \<Longrightarrow> n * pitch \<le> length src \<Longrightarrow> length (sprite_rows w pitch src n) = n * (w * 4)"
  by (induction n) (auto simp: slice_def)

lemma sprite_rows_nth:
  assumes "w * 4 \<le> pitch" "n * pitch \<le> length src" "y < n" "j < w * 4"
  shows "sprite_rows w pitch src n ! (y * (w * 4) + j) = src ! (y * pitch + j)"
  using assms(2,3)
proof (induction n)
  case (Suc n)
  have len: "length (sprite_rows w pitch src n) = n * (w * 4)" using assms(1) Suc.prems by (intro length_sprite_rows) auto
  show ?case
  proof (cases "y = n")
    case True
    with len Suc.prems assms(1,4) show ?thesis by (simp add: nth_append slice_def)
  next
    case False
    with Suc.prems have y: "y < n" by simp
    then have "Suc y * (w * 4) \<le> n * (w * 4)" by (intro mult_le_mono1) simp
    with assms(4) have "y * (w * 4) + j < n * (w * 4)" by simp
    with len y Suc show ?thesis by (simp add: nth_append)
  qed
qed simp

lemma cursor_plane_define:
  "ph_plane_kind ph = PLANE_KIND_CURSOR \<Longrightarrow> ph_op ph = PLANE_OP_DEFINE \<Longrightarrow> 0 < ph_width ph \<Longrightarrow> 0 < ph_height ph \<Longrightarrow>
   length body = unat (ph_width ph) * unat (ph_height ph) * 4 \<Longrightarrow>
   cursor_plane (plane_message ph body) c = cursor_slot_define \<lparr>cs_bgra = body, cs_w = ph_width ph, cs_h = ph_height ph,
     cs_hot_x = ph_hot_x ph, cs_hot_y = ph_hot_y ph, cs_premultiplied = (ph_flags ph AND PLANE_PREMULTIPLIED \<noteq> 0)\<rparr>
     (ph_flags ph AND PLANE_VISIBLE \<noteq> 0) c"
  unfolding cursor_plane_def plane_parse_message plane_message_body by (simp add: Let_def)

text \<open>C17: The viewer draws the guest's cursor. When the device sends a cursor shape whose description passes its guard,
  with the rows it read from guest memory, the viewer's slot afterwards holds a sprite of exactly that size and
  hot spot, whose every byte is the byte of guest memory at that row of the pitch, with the guest's visibility
  and alpha mode, under a new version; a move message only sets the visibility the guest asked for.\<close>

theorem cursor_reaches_viewer:
  assumes ok: "cursor_shape_ok (cu_width cu) (cu_height cu) (cu_pitch cu) (cu_format cu)"
    and src: "unat (cu_pitch cu) * unat (cu_height cu) \<le> length src"
    and body: "body = sprite_rows (unat (cu_width cu)) (unat (cu_pitch cu)) src (unat (cu_height cu))"
    and c': "c' = cursor_plane (plane_message (define_header cu) body) c"
  shows "(\<exists>sh. ci_shape c' = Some sh \<and> cs_w sh = cu_width cu \<and> cs_h sh = cu_height cu \<and> cs_hot_x sh = cu_hot_x cu \<and>
      cs_hot_y sh = cu_hot_y cu \<and> cs_premultiplied sh = (cu_flags cu AND CURSOR_PREMULTIPLIED \<noteq> 0) \<and>
      length (cs_bgra sh) = unat (cu_width cu) * unat (cu_height cu) * 4 \<and>
      (\<forall>y < unat (cu_height cu). \<forall>j < unat (cu_width cu) * 4.
        cs_bgra sh ! (y * (unat (cu_width cu) * 4) + j) = src ! (y * unat (cu_pitch cu) + j))) \<and>
    ci_visible c' = (cu_flags cu AND CURSOR_VISIBLE \<noteq> 0) \<and> ci_active c' \<and> ci_version c' = ci_version c + 1 \<and>
    cursor_plane (plane_message (move_header cu) []) c = cursor_slot_set_visible (cu_flags cu AND CURSOR_VISIBLE \<noteq> 0) c"
proof -
  have geo: "0 < cu_width cu" "0 < cu_height cu" "unat (cu_width cu) * 4 \<le> unat (cu_pitch cu)"
    using ok by (auto simp: cursor_shape_ok_def Let_def unat_gt_0 word_neq_0_conv)
  have src': "unat (cu_height cu) * unat (cu_pitch cu) \<le> length src" using src by (simp add: mult.commute)
  have len: "length body = unat (cu_width cu) * unat (cu_height cu) * 4"
    using length_sprite_rows [OF geo(3) src'] by (simp add: body ac_simps)
  have "c' = cursor_slot_define \<lparr>cs_bgra = body, cs_w = cu_width cu, cs_h = cu_height cu, cs_hot_x = cu_hot_x cu, cs_hot_y = cu_hot_y cu,
      cs_premultiplied = (cu_flags cu AND CURSOR_PREMULTIPLIED \<noteq> 0)\<rparr> (cu_flags cu AND CURSOR_VISIBLE \<noteq> 0) c"
    using geo len unfolding c' by (subst cursor_plane_define)
      (simp_all add: define_header_def sideband_visible [simplified] sideband_premultiplied [simplified])
  moreover have "cursor_plane (plane_message (move_header cu) []) c = cursor_slot_set_visible (cu_flags cu AND CURSOR_VISIBLE \<noteq> 0) c"
    unfolding cursor_plane_def plane_parse_message by (simp add: move_header_def sideband_visible [simplified] Let_def)
  ultimately show ?thesis
    using len sprite_rows_nth [OF geo(3) src'] by (simp add: cursor_slot_define_def body)
qed

definition demo_cursor_update :: CursorUpdate where
  "demo_cursor_update = \<lparr>cu_scanout_id = 0, cu_flags = 1, cu_pos_x = 0, cu_pos_y = 0, cu_hot_x = 1, cu_hot_y = 0, cu_width = 1,
     cu_height = 2, cu_pitch = 8, cu_format = FMT_B8G8R8A8, cu_shape_ref = 0, cu_reserved = 0\<rparr>"

theorem cursor_reaches_viewer_witness:
  "let src = [1, 2, 3, 4, 0, 0, 0, 0, 5, 6, 7, 8, 0, 0, 0, 0];
       c = cursor_plane (plane_message (define_header demo_cursor_update) (sprite_rows 1 8 src 2)) CursorSlot_new
   in map_option cs_w (ci_shape c) = Some 1 \<and> ci_version c = 1 \<and> (\<exists>sh. ci_shape c = Some sh \<and> cs_bgra sh ! 4 = 5)"
proof -
  let ?src = "[1, 2, 3, 4, 0, 0, 0, 0, 5, 6, 7, 8, 0, 0, 0, 0] :: bytes"
  let ?c = "cursor_plane (plane_message (define_header demo_cursor_update) (sprite_rows 1 8 ?src 2)) CursorSlot_new"
  note reaches = cursor_reaches_viewer [where cu = demo_cursor_update and src = ?src and c = CursorSlot_new and c' = ?c and body = "sprite_rows 1 8 ?src 2"]
  have ok: "cursor_shape_ok (cu_width demo_cursor_update) (cu_height demo_cursor_update) (cu_pitch demo_cursor_update) (cu_format demo_cursor_update)"
    by (simp add: demo_cursor_update_def cursor_shape_ok_def CURSOR_MAX_BYTES_def)
  obtain sh where sh: "ci_shape ?c = Some sh" "cs_w sh = 1" "ci_version ?c = ci_version CursorSlot_new + 1"
    "\<forall>y<2. \<forall>j<4. cs_bgra sh ! (y * 4 + j) = ?src ! (y * 8 + j)"
    using reaches [OF ok] by (auto simp: demo_cursor_update_def)
  have "cs_bgra sh ! (1 * 4 + 0) = ?src ! (1 * 8 + 0)" using sh(4) by (metis one_less_numeral_iff semiring_norm(76) zero_less_numeral)
  with sh show ?thesis by (simp add: Let_def CursorSlot_new_def)
qed

end
