(* ===== verification/Viewer_Blend.thy ===== *)
theory Viewer_Blend
  imports Igpu_Prelude
begin

text \<open>
  \<open>blend_sprite\<close> of \<open>viewer/src/window.rs\<close>: the cursor sprite is alpha-blended into a BGRA frame at a position
  that may lie partly or wholly outside it. The loops over sprite rows and columns are folds; positions are
  \<open>i32\<close> and are written with their wrap-around. The property is the picture: every byte of the frame is the
  blend of what was there with the texel that covers it, or is untouched.
\<close>

subsection \<open>The loops\<close>

definition wrap_i32 :: "int \<Rightarrow> int" where
  "wrap_i32 i = (i + 2 ^ 31) mod 2 ^ 32 - 2 ^ 31"

definition blend_channel :: "bool \<Rightarrow> nat \<Rightarrow> nat \<Rightarrow> nat \<Rightarrow> u8" where
  "blend_channel premul sa sc dc =
    (if premul then word_of_nat (min (sc + dc * (255 - sa) div 255) 255)
     else word_of_nat ((sc * sa + dc * (255 - sa)) div 255))"

definition blend_texel :: "bool \<Rightarrow> bytes \<Rightarrow> nat \<Rightarrow> bytes \<Rightarrow> bytes" where
  "blend_texel premul s di dst =
    fold (\<lambda>c dst. dst[di + c := blend_channel premul (unat (s ! 3)) (unat (s ! c)) (unat (dst ! (di + c)))]) [0..<3] dst"

definition blend_column :: "nat \<Rightarrow> bytes \<Rightarrow> nat \<Rightarrow> int \<Rightarrow> bool \<Rightarrow> nat \<Rightarrow> int \<Rightarrow> nat \<Rightarrow> bytes \<Rightarrow> bytes" where
  "blend_column fw sprite cw px0 premul sy dy sx dst =
    (let dx = wrap_i32 (px0 + int sx) in
     if dx < 0 \<or> wrap_i32 (int fw) \<le> dx then dst
     else let s = take 4 (drop ((sy * cw + sx) * 4) sprite) in
       if s ! 3 = 0 then dst else blend_texel premul s ((nat dy * fw + nat dx) * 4) dst)"

definition blend_row :: "nat \<Rightarrow> nat \<Rightarrow> bytes \<Rightarrow> nat \<Rightarrow> int \<Rightarrow> int \<Rightarrow> bool \<Rightarrow> nat \<Rightarrow> bytes \<Rightarrow> bytes" where
  "blend_row fw fh sprite cw px0 py0 premul sy dst =
    (let dy = wrap_i32 (py0 + int sy) in
     if dy < 0 \<or> wrap_i32 (int fh) \<le> dy then dst
     else fold (blend_column fw sprite cw px0 premul sy dy) [0..<cw] dst)"

definition blend_sprite :: "bytes \<Rightarrow> nat \<Rightarrow> nat \<Rightarrow> bytes \<Rightarrow> nat \<Rightarrow> nat \<Rightarrow> int \<Rightarrow> int \<Rightarrow> bool \<Rightarrow> bytes" where
  "blend_sprite dst fw fh sprite cw ch px0 py0 premul =
    (if length sprite < cw * ch * 4 then dst
     else fold (blend_row fw fh sprite cw px0 py0 premul) [0..<ch] dst)"

subsection \<open>One channel stays a byte\<close>

lemma blend_straight_le: "sc \<le> 255 \<Longrightarrow> dc \<le> 255 \<Longrightarrow> sa \<le> 255 \<Longrightarrow> (sc * sa + dc * (255 - sa)) div 255 \<le> (255 :: nat)"
proof -
  assume "sc \<le> 255" "dc \<le> 255" "sa \<le> 255"
  then have "sc * sa + dc * (255 - sa) \<le> 255 * sa + 255 * (255 - sa)" by (intro add_mono mult_le_mono1)
  also have "\<dots> = 255 * 255" using \<open>sa \<le> 255\<close> by (simp flip: add_mult_distrib2)
  finally show ?thesis by (metis div_le_mono nonzero_mult_div_cancel_left zero_neq_numeral)
qed

text \<open>\<open>as u8\<close> never cuts anything off: the blended value fits, in both alpha modes.\<close>

lemma blend_channel_exact:
  "unat (blend_channel premul (unat (sa :: u8)) (unat (sc :: u8)) (unat (dc :: u8))) =
    (if premul then min (unat sc + unat dc * (255 - unat sa) div 255) 255
     else (unat sc * unat sa + unat dc * (255 - unat sa)) div 255)"
  using blend_straight_le [of "unat sc" "unat dc" "unat sa"] unat_u_lt(1) [of sa] unat_u_lt(1) [of sc] unat_u_lt(1) [of dc]
  by (simp add: blend_channel_def unat_of_nat)

subsection \<open>What one texel changes\<close>

lemma length_blend_texel [simp]: "length (blend_texel premul s di dst) = length dst"
  by (simp add: blend_texel_def upt_rec)

lemma length_fold_keeps: "(\<And>x d. length (f x d) = length d) \<Longrightarrow> length (fold f xs d) = length d"
  by (induction xs arbitrary: d) simp_all

lemma length_blend_sprite [simp]: "length (blend_sprite dst fw fh sprite cw ch px0 py0 premul) = length dst"
  by (simp add: blend_sprite_def blend_row_def blend_column_def length_fold_keeps Let_def)

lemma nth_blend_texel:
  "di + 3 < length dst \<Longrightarrow> k < length dst \<Longrightarrow> di = 4 * d \<Longrightarrow> blend_texel premul s di dst ! k =
    (if k div 4 = d \<and> k mod 4 < 3 then blend_channel premul (unat (s ! 3)) (unat (s ! (k mod 4))) (unat (dst ! k)) else dst ! k)"
proof -
  assume a: "di + 3 < length dst" "k < length dst" "di = 4 * d"
  have k: "k = 4 * (k div 4) + k mod 4" by simp
  have upt: "[0..<3] = [0, 1, 2 :: nat]" by (simp add: upt_rec)
  have q: "Suc (4 * d) div 4 = d" "Suc (4 * d) mod 4 = 1" "Suc (Suc (4 * d)) div 4 = d" "Suc (Suc (4 * d)) mod 4 = 2" "(4 * d + 3) div 4 = d"
    "(4 * d + 3) mod 4 = 3" by presburger+
  consider "k = di" | "k = di + 1" | "k = di + 2" | "k = di + 3" | "k div 4 \<noteq> d" using k a(3) by force
  then show ?thesis
  proof cases
    case 5
    with a have "k \<noteq> di" "k \<noteq> Suc di" "k \<noteq> Suc (Suc di)" by (auto simp: div_mult_self4)
    with 5 show ?thesis by (simp add: blend_texel_def upt)
  qed (use a in \<open>simp_all add: blend_texel_def upt q\<close>)
qed

subsection \<open>The sprite as a list of texels\<close>

text \<open>Texel \<open>(sx, sy)\<close> lands on frame pixel \<open>(px0 + sx, py0 + sy)\<close>.\<close>

definition texel :: "bytes \<Rightarrow> nat \<Rightarrow> nat \<Rightarrow> nat \<Rightarrow> bytes" where
  "texel sprite cw sx sy = take 4 (drop ((sy * cw + sx) * 4) sprite)"

record Placement =
  pl_fw :: nat
  pl_fh :: nat
  pl_cw :: nat
  pl_ch :: nat
  pl_x :: int
  pl_y :: int
  pl_sprite :: bytes
  pl_premul :: bool

text \<open>Nothing leaves the range of \<open>i32\<close>: the sprite ends below \<open>2 ^ 31\<close> and the frame is smaller than that.\<close>

definition in_i32 :: "Placement \<Rightarrow> bool" where
  "in_i32 P = (pl_fw P < 2 ^ 31 \<and> pl_fh P < 2 ^ 31 \<and> - (2 ^ 31) \<le> pl_x P \<and> pl_x P + int (pl_cw P) \<le> 2 ^ 31 \<and>
     - (2 ^ 31) \<le> pl_y P \<and> pl_y P + int (pl_ch P) \<le> 2 ^ 31)"

definition texel_visible :: "Placement \<Rightarrow> nat \<times> nat \<Rightarrow> bool" where
  "texel_visible P p = (0 \<le> pl_x P + int (fst p) \<and> (pl_x P) + int (fst p) < int (pl_fw P) \<and> 0 \<le> pl_y P + int (snd p) \<and> pl_y P + int (snd p) < int (pl_fh P))"

definition pixel_at :: "Placement \<Rightarrow> nat \<times> nat \<Rightarrow> nat" where
  "pixel_at P p = nat (pl_y P + int (snd p)) * pl_fw P + nat (pl_x P + int (fst p))"

definition covers :: "Placement \<Rightarrow> nat \<times> nat \<Rightarrow> nat \<Rightarrow> bool" where
  "covers P p k = (texel_visible P p \<and> texel (pl_sprite P) (pl_cw P) (fst p) (snd p) ! 3 \<noteq> 0 \<and> k div 4 = pixel_at P p \<and> k mod 4 < 3)"

definition draw_texel :: "Placement \<Rightarrow> nat \<times> nat \<Rightarrow> bytes \<Rightarrow> bytes" where
  "draw_texel P p dst = (if texel_visible P p \<and> texel (pl_sprite P) (pl_cw P) (fst p) (snd p) ! 3 \<noteq> 0
     then blend_texel (pl_premul P) (texel (pl_sprite P) (pl_cw P) (fst p) (snd p)) (pixel_at P p * 4) dst else dst)"

definition blended :: "Placement \<Rightarrow> nat \<times> nat \<Rightarrow> nat \<Rightarrow> u8 \<Rightarrow> u8" where
  "blended P p k b = (let s = texel (pl_sprite P) (pl_cw P) (fst p) (snd p) in blend_channel (pl_premul P) (unat (s ! 3)) (unat (s ! (k mod 4))) (unat b))"

lemma wrap_i32_id: "- (2 ^ 31) \<le> i \<Longrightarrow> i < 2 ^ 31 \<Longrightarrow> wrap_i32 i = i"
  by (simp add: wrap_i32_def)

lemma blend_column_draws:
  assumes "in_i32 P" "sx < pl_cw P" "sy < pl_ch P" "0 \<le> pl_y P + int sy" "pl_y P + int sy < int (pl_fh P)"
  shows "blend_column (pl_fw P) (pl_sprite P) (pl_cw P) (pl_x P) (pl_premul P) sy (pl_y P + int sy) sx dst = draw_texel P (sx, sy) dst"
proof -
  have "wrap_i32 (pl_x P + int sx) = pl_x P + int sx" "wrap_i32 (int (pl_fw P)) = int (pl_fw P)"
    using assms by (auto simp: in_i32_def intro!: wrap_i32_id)
  with assms show ?thesis
    by (auto simp: blend_column_def draw_texel_def texel_visible_def texel_def pixel_at_def Let_def)
qed

lemma blend_row_draws:
  assumes "in_i32 P" "sy < pl_ch P"
  shows "blend_row (pl_fw P) (pl_fh P) (pl_sprite P) (pl_cw P) (pl_x P) (pl_y P) (pl_premul P) sy dst = fold (draw_texel P) (map (\<lambda>sx. (sx, sy)) [0..<pl_cw P]) dst"
proof -
  have w: "wrap_i32 (pl_y P + int sy) = pl_y P + int sy" "wrap_i32 (int (pl_fh P)) = int (pl_fh P)"
    using assms by (auto simp: in_i32_def intro!: wrap_i32_id)
  show ?thesis
  proof (cases "0 \<le> pl_y P + int sy \<and> pl_y P + int sy < int (pl_fh P)")
    case True
    with assms show ?thesis
      by (auto simp: blend_row_def w Let_def fold_map intro!: fold_cong blend_column_draws)
  next
    case False
    have "draw_texel P (sx, sy) d = d" for sx d using False by (auto simp: draw_texel_def texel_visible_def)
    then have "fold (draw_texel P) (map (\<lambda>sx. (sx, sy)) xs) dst = dst" for xs by (induction xs) auto
    with False show ?thesis by (auto simp: blend_row_def w Let_def)
  qed
qed

definition texels :: "Placement \<Rightarrow> (nat \<times> nat) list" where
  "texels P = concat (map (\<lambda>sy. map (\<lambda>sx. (sx, sy)) [0..<pl_cw P]) [0..<pl_ch P])"

lemma blend_sprite_draws:
  assumes "in_i32 P" "pl_cw P * pl_ch P * 4 \<le> length (pl_sprite P)"
  shows "blend_sprite dst (pl_fw P) (pl_fh P) (pl_sprite P) (pl_cw P) (pl_ch P) (pl_x P) (pl_y P) (pl_premul P) = fold (draw_texel P) (texels P) dst"
proof -
  have "fold (blend_row (pl_fw P) (pl_fh P) (pl_sprite P) (pl_cw P) (pl_x P) (pl_y P) (pl_premul P)) [0..<n] dst =
      fold (draw_texel P) (concat (map (\<lambda>sy. map (\<lambda>sx. (sx, sy)) [0..<pl_cw P]) [0..<n])) dst" if "n \<le> pl_ch P" for n
    using that by (induction n) (simp_all add: blend_row_draws [OF assms(1)])
  with assms show ?thesis by (simp add: blend_sprite_def texels_def)
qed

lemma distinct_texels: "distinct (texels P)"
proof -
  have "distinct (concat (map (\<lambda>sy. map (\<lambda>sx. (sx, sy)) [0..<pl_cw P]) [0..<n]))" for n
    by (induction n) (auto simp: distinct_map inj_on_def)
  then show ?thesis by (simp add: texels_def)
qed

lemma set_texels: "set (texels P) = {0..<pl_cw P} \<times> {0..<pl_ch P}"
  by (auto simp: texels_def)

lemma pixel_at_inject: "texel_visible P p \<Longrightarrow> texel_visible P q \<Longrightarrow> pixel_at P p = pixel_at P q \<Longrightarrow> p = q"
proof -
  assume o: "texel_visible P p" "texel_visible P q" and eq: "pixel_at P p = pixel_at P q"
  have x: "nat (pl_x P + int (fst p)) < pl_fw P" "nat (pl_x P + int (fst q)) < pl_fw P" using o by (auto simp: texel_visible_def)
  have "nat (pl_x P + int (fst p)) = nat (pl_x P + int (fst q))"
    using arg_cong [OF eq, of "\<lambda>n. n mod (pl_fw P)"] x by (simp add: pixel_at_def)
  moreover have "nat (pl_y P + int (snd p)) = nat (pl_y P + int (snd q))"
    using arg_cong [OF eq, of "\<lambda>n. n div (pl_fw P)"] x by (simp add: pixel_at_def)
  ultimately show "p = q" using o by (auto simp: texel_visible_def prod_eq_iff)
qed

lemma pixel_at_lt: "texel_visible P p \<Longrightarrow> pixel_at P p < pl_fw P * pl_fh P"
proof -
  assume o: "texel_visible P p"
  then have "Suc (nat (pl_y P + int (snd p))) \<le> pl_fh P" "nat (pl_x P + int (fst p)) < pl_fw P" by (auto simp: texel_visible_def)
  then have "pixel_at P p < Suc (nat (pl_y P + int (snd p))) * pl_fw P" by (simp add: pixel_at_def)
  also have "\<dots> \<le> pl_fh P * pl_fw P" using \<open>Suc _ \<le> pl_fh P\<close> by (rule mult_le_mono1)
  finally show ?thesis by (simp add: mult.commute)
qed

lemma length_draw_texel [simp]: "length (draw_texel P p dst) = length dst"
  by (simp add: draw_texel_def)

lemma nth_draw_texel:
  assumes "pl_fw P * pl_fh P * 4 \<le> length dst" "k < length dst"
  shows "draw_texel P p dst ! k = (if covers P p k then blended P p k (dst ! k) else dst ! k)"
proof (cases "texel_visible P p")
  case True
  then have "pixel_at P p * 4 + 3 < length dst" using pixel_at_lt [OF True] assms(1) by simp
  from nth_blend_texel [OF this assms(2), of "pixel_at P p" "pl_premul P" "texel (pl_sprite P) (pl_cw P) (fst p) (snd p)"] True
  show ?thesis by (auto simp: draw_texel_def covers_def blended_def Let_def)
qed (simp add: draw_texel_def covers_def)

lemma length_fold_draw [simp]: "length (fold (draw_texel P) ps dst) = length dst"
  by (induction ps arbitrary: dst) simp_all

lemma nth_fold_draw_other:
  "pl_fw P * pl_fh P * 4 \<le> length dst \<Longrightarrow> k < length dst \<Longrightarrow> \<forall>p \<in> set ps. \<not> covers P p k \<Longrightarrow> fold (draw_texel P) ps dst ! k = dst ! k"
  by (induction ps arbitrary: dst) (simp_all add: nth_draw_texel)

lemma nth_fold_draw:
  assumes "pl_fw P * pl_fh P * 4 \<le> length dst" "k < length dst" "distinct ps" "p \<in> set ps" "covers P p k"
  shows "fold (draw_texel P) ps dst ! k = blended P p k (dst ! k)"
proof -
  obtain xs ys where ps: "ps = xs @ p # ys" using assms(4) by (meson split_list)
  have alone: "q = p" if "covers P q k" for q
    using that assms(5) by (intro pixel_at_inject [of P]) (auto simp: covers_def)
  with assms(3) ps have "\<forall>q \<in> set xs. \<not> covers P q k" "\<forall>q \<in> set ys. \<not> covers P q k" by auto
  with assms(1,2,5) show ?thesis by (simp add: ps nth_fold_draw_other nth_draw_texel)
qed

lemma blend_sprite_pixels:
  assumes "in_i32 P" "pl_fw P * pl_fh P * 4 \<le> length dst" "pl_cw P * pl_ch P * 4 \<le> length (pl_sprite P)" "k < length dst"
  shows "length (blend_sprite dst (pl_fw P) (pl_fh P) (pl_sprite P) (pl_cw P) (pl_ch P) (pl_x P) (pl_y P) (pl_premul P)) = length dst"
    and "sx < pl_cw P \<Longrightarrow> sy < pl_ch P \<Longrightarrow> covers P (sx, sy) k \<Longrightarrow>
      blend_sprite dst (pl_fw P) (pl_fh P) (pl_sprite P) (pl_cw P) (pl_ch P) (pl_x P) (pl_y P) (pl_premul P) ! k = blended P (sx, sy) k (dst ! k)"
    and "\<forall>sx < pl_cw P. \<forall>sy < pl_ch P. \<not> covers P (sx, sy) k \<Longrightarrow> blend_sprite dst (pl_fw P) (pl_fh P) (pl_sprite P) (pl_cw P) (pl_ch P) (pl_x P) (pl_y P) (pl_premul P) ! k = dst ! k"
  using nth_fold_draw [OF assms(2,4) distinct_texels, of "(sx, sy)"] nth_fold_draw_other [OF assms(2,4), of "texels P"] assms(1,3)
  by (auto simp: blend_sprite_draws set_texels)

text \<open>C18: The cursor is blended exactly. For a sprite placed anywhere in the range of \<open>i32\<close>, over a buffer that holds the
  frame: the length stays; a colour byte of a pixel under a texel that is not transparent becomes the blend of the
  two, computed without overflow, premultiplied (saturating) or straight; every other byte, every alpha byte and
  everything behind the frame is untouched.\<close>

theorem blend_sprite_exact:
  assumes "fw < 2 ^ 31" "fh < 2 ^ 31" "- (2 ^ 31) \<le> col" "col + int cw \<le> 2 ^ 31" "- (2 ^ 31) \<le> row" "row + int ch \<le> 2 ^ 31"
    and "fw * fh * 4 \<le> length dst" "cw * ch * 4 \<le> length sprite" "x < fw" "y < fh" "c < 4"
  shows "let out = blend_sprite dst fw fh sprite cw ch col row premul; i = (y * fw + x) * 4 + c;
      sx = int x - col; sy = int y - row; s = take 4 (drop ((nat sy * cw + nat sx) * 4) sprite); sa = unat (s ! 3)
    in length out = length dst \<and> (\<forall>j. fw * fh * 4 \<le> j \<and> j < length dst \<longrightarrow> out ! j = dst ! j) \<and>
      unat (out ! i) =
        (if 0 \<le> sx \<and> sx < int cw \<and> 0 \<le> sy \<and> sy < int ch \<and> s ! 3 \<noteq> 0 \<and> c < 3 then
           (if premul then min (unat (s ! c) + unat (dst ! i) * (255 - sa) div 255) 255
            else (unat (s ! c) * sa + unat (dst ! i) * (255 - sa)) div 255)
         else unat (dst ! i))"
proof -
  let ?P = "\<lparr>pl_fw = fw, pl_fh = fh, pl_cw = cw, pl_ch = ch, pl_x = col, pl_y = row, pl_sprite = sprite, pl_premul = premul\<rparr>"
  let ?out = "blend_sprite dst fw fh sprite cw ch col row premul"
  define k where "k = (y * fw + x) * 4 + c"
  let ?p = "(nat (int x - col), nat (int y - row))"
  let ?in = "0 \<le> int x - col \<and> int x - col < int cw \<and> 0 \<le> int y - row \<and> int y - row < int ch"
  have P: "in_i32 ?P" using assms(1-6) by (simp add: in_i32_def)
  have pix: "y * fw + x < fw * fh"
  proof -
    have "y * fw + x < Suc y * fw" using assms(9) by simp
    also have "\<dots> \<le> fh * fw" using assms(10) by (intro mult_le_mono1) simp
    finally show ?thesis by (simp add: mult.commute)
  qed
  then have "k < length dst" using assms(7,11) by (simp add: k_def)
  moreover have "k mod 4 = c" "k div 4 = y * fw + x" unfolding k_def using assms(11) by (metis mod_less mod_mult_self3, metis div_less div_mult_self3 add.right_neutral zero_neq_numeral)
  ultimately have i: "k < length dst" "k div 4 = y * fw + x" "k mod 4 = c" by simp_all
  note draws = blend_sprite_pixels [OF P, unfolded Placement.select_convs, OF assms(7,8)]
  have far: "?out ! j = dst ! j" if "fw * fh * 4 \<le> j" "j < length dst" for j
  proof (rule draws(3) [OF that(2)])
    have "fw * fh \<le> j div 4" using that(1) by (simp add: less_eq_div_iff_mult_less_eq)
    then show "\<forall>sx<cw. \<forall>sy<ch. \<not> covers ?P (sx, sy) j"
      using pixel_at_lt [of ?P] by (fastforce simp: covers_def)
  qed
  have here: "covers ?P (sx, sy) k \<longleftrightarrow> int sx = int x - col \<and> int sy = int y - row \<and> texel sprite cw sx sy ! 3 \<noteq> 0 \<and> c < 3" for sx sy
  proof -
    have "texel_visible ?P (sx, sy) \<and> y * fw + x = pixel_at ?P (sx, sy) \<longleftrightarrow> int sx = int x - col \<and> int sy = int y - row"
    proof
      assume v: "texel_visible ?P (sx, sy) \<and> y * fw + x = pixel_at ?P (sx, sy)"
      then have e: "y * fw + x = nat (row + int sy) * fw + nat (col + int sx)" and b: "nat (col + int sx) < fw"
        by (auto simp: pixel_at_def texel_visible_def)
      have "x = nat (col + int sx)" using arg_cong [OF e, of "\<lambda>n. n mod fw"] b assms(9) by simp
      moreover have "y = nat (row + int sy)" using arg_cong [OF e, of "\<lambda>n. n div fw"] b assms(9) by simp
      ultimately show "int sx = int x - col \<and> int sy = int y - row" using v by (auto simp: texel_visible_def)
    qed (use assms(9,10) in \<open>auto simp: texel_visible_def pixel_at_def\<close>)
    then show ?thesis by (auto simp: covers_def i)
  qed
  have "unat (?out ! k) =
      (if ?in \<and> texel sprite cw (fst ?p) (snd ?p) ! 3 \<noteq> 0 \<and> c < 3
       then unat (blend_channel premul (unat (texel sprite cw (fst ?p) (snd ?p) ! 3)) (unat (texel sprite cw (fst ?p) (snd ?p) ! c)) (unat (dst ! k)))
       else unat (dst ! k))"
  proof (cases "?in \<and> texel sprite cw (fst ?p) (snd ?p) ! 3 \<noteq> 0 \<and> c < 3")
    case True
    then have "covers ?P ?p k" "fst ?p < cw" "snd ?p < ch" by (auto simp: here)
    from draws(2) [OF i(1) this(2,3)] this(1) True show ?thesis by (simp add: blended_def Let_def i(3))
  next
    case False
    then have "\<forall>sx<cw. \<forall>sy<ch. \<not> covers ?P (sx, sy) k" by (auto simp: here) (metis nat_int)
    from draws(3) [OF i(1) this] False show ?thesis by auto
  qed
  note here_value = this [unfolded fst_conv snd_conv blend_channel_exact conj_assoc]
  show ?thesis unfolding Let_def texel_def [symmetric] k_def [symmetric]
    using far draws(1) [OF i(1)] here_value by blast
qed

theorem blend_sprite_exact_witness:
  "let out = blend_sprite [100, 100, 100, 0, 100, 100, 100, 0] 1 2 [255, 255, 255, 255, 51, 51, 51, 51] 1 2 0 (- 1) True in
   length out = 8 \<and> unat (out ! 0) = 131 \<and> unat (out ! 4) = 100"
proof -
  let ?dst = "[100, 100, 100, 0, 100, 100, 100, 0] :: bytes" and ?sprite = "[255, 255, 255, 255, 51, 51, 51, 51] :: bytes"
  note exact = blend_sprite_exact [where dst = ?dst and sprite = ?sprite and fw = 1 and fh = 2 and cw = 1 and ch = 2
      and col = 0 and row = "- 1" and premul = True and x = 0 and c = 0, unfolded Let_def]
  have "length (blend_sprite ?dst 1 2 ?sprite 1 2 0 (- 1) True) = 8 \<and> unat (blend_sprite ?dst 1 2 ?sprite 1 2 0 (- 1) True ! 0) = 131"
    using exact [of 0] by simp
  moreover have "unat (blend_sprite ?dst 1 2 ?sprite 1 2 0 (- 1) True ! 4) = 100"
    using exact [of 1] by simp
  ultimately show ?thesis by (simp add: Let_def)
qed

end
