(* ===== verification/Viewer_Window.thy ===== *)
theory Viewer_Window
  imports Viewer_Blend Viewer_Stream Replay_Objects
begin

text \<open>
  \<open>viewer/src/window.rs\<close>, the Vulkan half: \<open>VkViewer\<close> with its swapchain, the frame image and its mapped staging
  buffer, the clean copy of the last frame, the cursor overlay and its change key, and \<open>draw\<close> from the frame taken
  out of the slot to the presented image.

  The calls the replay library also makes go to the same driver (\<open>Replay_Vulkan\<close>); the window-system calls have a
  driver of their own. Either may fail any call. A wait on a fence that was reset and never submitted does not
  return, nor does an index that panics: the outcome is \<open>NoReturn\<close>. The command buffer's effect happens at submission: the model keeps what the frame
  image holds, its layout, what each presented image shows, whether every command found the layout it needs, and
  where the host touched memory that a submission in flight was still reading. \<open>scale n w\<close> is the float product
  \<open>n * w as f32\<close> cut to \<open>i32\<close>. The constructor's Vulkan calls before the first swapchain are not modelled.
\<close>

subsection \<open>Window system\<close>

datatype present_mode = Mailbox | Immediate | Fifo | OtherMode
datatype wsi_result = WsiOk | WsiSuboptimal | WsiOutOfDate | WsiFailed

datatype window_call = GetCapabilities | GetFormats | GetPresentModes
  | CreateSwapchain u32 "vk_format \<times> nat" "u32 \<times> u32" present_mode u64
  | DestroySwapchain u64 | GetImages u64 | AcquireImage u64 | ResetCommandBuffer | QueuePresent u64 nat

record SurfaceAnswer =
  sa_result :: wsi_result
  sa_extent :: "u32 \<times> u32"
  sa_min_extent :: "u32 \<times> u32"
  sa_max_extent :: "u32 \<times> u32"
  sa_min_images :: u32
  sa_max_images :: u32
  sa_formats :: "(vk_format \<times> nat) list"
  sa_modes :: "present_mode list"
  sa_handle :: u64
  sa_images :: "u64 list"
  sa_index :: nat

type_synonym surface = "nat \<Rightarrow> SurfaceAnswer"

subsection \<open>State\<close>

datatype win_layout = WinUndefined | WinTransferDst | WinTransferSrc | WinPresentSrc

datatype win_image = FrameImg u64 | SwapImg u64

datatype win_command = WinBarrier win_image win_layout win_layout | WinCopy u64 u64 u32 u32
  | WinBlit u64 "u32 \<times> u32" u64 "u32 \<times> u32" | WinClear u64

record FrameImage =
  fi_width :: u32
  fi_height :: u32
  fi_image :: u64
  fi_memory :: u64
  fi_staging :: u64
  fi_staging_mem :: u64
  fi_pixels :: bytes
  fi_initialized :: bool
  fi_pending_upload :: bool
  fi_shown :: bytes
  fi_layout :: win_layout

text \<open>The fence: signalled, in flight (and whether that submission copies from the staging buffer), or reset with
  nothing submitted.\<close>

datatype fence_state = FenceSignaled | FenceInFlight bool | FenceReset

datatype hazard = StagingWritten | ImageDestroyed

record VkViewer =
  vw_dev :: Device
  vw_calls :: "window_call list"
  vw_mems :: mem_types
  vw_swapchain :: u64
  vw_swap_images :: "u64 list"
  vw_extent :: "u32 \<times> u32"
  vw_fence :: fence_state
  vw_frame :: "FrameImage option"
  vw_want_extent :: "u32 \<times> u32"
  vw_dirty :: bool
  vw_clean :: bytes
  vw_clean_w :: u32
  vw_clean_h :: u32
  vw_local_cursor :: "(u32 \<times> u32) option"
  vw_shape :: "CursorShape option"
  vw_version :: u64
  vw_visible :: bool
  vw_last_key :: "(int \<times> int \<times> u64 \<times> bool) option"
  vw_presented :: "(u64 \<times> bytes option) list"
  vw_layouts_ok :: bool
  vw_hazards :: "hazard list"

definition viewer_new :: "Device \<Rightarrow> mem_types \<Rightarrow> u32 \<Rightarrow> u32 \<Rightarrow> VkViewer" where
  "viewer_new dev mems w h = \<lparr>vw_dev = dev, vw_calls = [], vw_mems = mems, vw_swapchain = 0, vw_swap_images = [], vw_extent = (0, 0),
     vw_fence = FenceSignaled, vw_frame = None, vw_want_extent = (max w 1, max h 1), vw_dirty = True, vw_clean = [],
     vw_clean_w = 0, vw_clean_h = 0, vw_local_cursor = None, vw_shape = None, vw_version = 0, vw_visible = False,
     vw_last_key = None, vw_presented = [], vw_layouts_ok = True, vw_hazards = []\<rparr>"

text \<open>The scan for a device and a queue family that can draw and present: the first with the best score.\<close>

fun pick_queue :: "(nat \<times> nat \<times> bool \<times> bool \<times> bool) list \<Rightarrow> (nat \<times> nat \<times> nat) option \<Rightarrow> (nat \<times> nat \<times> nat) option" where
  "pick_queue [] chosen = chosen"
| "pick_queue ((dev, family, graphics, present, discrete) # qs) chosen =
    pick_queue qs (let score = if discrete then 10 else 1 in
      if graphics \<and> present \<and> (case chosen of None \<Rightarrow> True | Some (_, _, best) \<Rightarrow> best < score)
      then Some (dev, family, score) else chosen)"

subsection \<open>Outcomes\<close>

datatype 'a outcome = Done 'a | Failed gpu_error | NoReturn

type_synonym 'a win = "VkViewer \<Rightarrow> 'a outcome \<times> VkViewer"

definition win_ret :: "'a \<Rightarrow> 'a win" where
  "win_ret x v = (Done x, v)"

definition win_let :: "'a win \<Rightarrow> ('a \<Rightarrow> 'b win) \<Rightarrow> 'b win" where
  "win_let m k v = (case m v of (Done x, v') \<Rightarrow> k x v' | (Failed e, v') \<Rightarrow> (Failed e, v') | (NoReturn, v') \<Rightarrow> (NoReturn, v'))"

definition win_mod :: "(VkViewer \<Rightarrow> VkViewer) \<Rightarrow> unit win" where
  "win_mod f v = (Done (), f v)"

definition win_dev :: "(Device, 'a) prog \<Rightarrow> 'a win" where
  "win_dev m v = (case m (vw_dev v) of (Inr x, d) \<Rightarrow> (Done x, v\<lparr>vw_dev := d\<rparr>) | (Inl e, d) \<Rightarrow> (Failed e, v\<lparr>vw_dev := d\<rparr>))"

definition win_ask :: "surface \<Rightarrow> window_call \<Rightarrow> SurfaceAnswer win" where
  "win_ask S c v = (Done (S (length (vw_calls v))), v\<lparr>vw_calls := vw_calls v @ [c]\<rparr>)"

definition win_attempt :: "surface \<Rightarrow> window_call \<Rightarrow> SurfaceAnswer win" where
  "win_attempt S c = win_let (win_ask S c) (\<lambda>a v. (if sa_result a = WsiOk \<or> sa_result a = WsiSuboptimal then Done a else Failed VkError, v))"

subsection \<open>Swapchain\<close>

definition mark_dirty :: "u32 \<Rightarrow> u32 \<Rightarrow> VkViewer \<Rightarrow> VkViewer" where
  "mark_dirty w h v = v\<lparr>vw_want_extent := (max w 1, max h 1), vw_dirty := True\<rparr>"

definition set_local_cursor :: "(u32 \<times> u32) option \<Rightarrow> VkViewer \<Rightarrow> VkViewer" where
  "set_local_cursor pos v = v\<lparr>vw_local_cursor := pos\<rparr>"

definition swap_extent :: "SurfaceAnswer \<Rightarrow> u32 \<times> u32 \<Rightarrow> u32 \<times> u32" where
  "swap_extent caps want = (if fst (sa_extent caps) \<noteq> - 1 then sa_extent caps
     else (min (max (fst want) (fst (sa_min_extent caps))) (fst (sa_max_extent caps)),
           min (max (snd want) (snd (sa_min_extent caps))) (snd (sa_max_extent caps))))"

definition pick_format :: "(vk_format \<times> nat) list \<Rightarrow> (vk_format \<times> nat) option" where
  "pick_format fs = (case find (\<lambda>f. fst f = FORMAT_B8G8R8A8_UNORM) fs of Some f \<Rightarrow> Some f
     | None \<Rightarrow> (case fs of [] \<Rightarrow> None | f # _ \<Rightarrow> Some f))"

definition pick_mode :: "present_mode list \<Rightarrow> present_mode" where
  "pick_mode ms = (if Mailbox \<in> set ms then Mailbox else if Immediate \<in> set ms then Immediate else Fifo)"

definition pick_image_count :: "SurfaceAnswer \<Rightarrow> u32" where
  "pick_image_count caps = (let n = sa_min_images caps + 1 in if 0 < sa_max_images caps then min n (sa_max_images caps) else n)"

definition win_get :: "'a option \<Rightarrow> 'a win" where
  "win_get x v = (case x of None \<Rightarrow> (NoReturn, v) | Some y \<Rightarrow> (Done y, v))"

definition recreate_swapchain :: "driver \<Rightarrow> surface \<Rightarrow> unit win" where
  "recreate_swapchain W S =
     win_let (win_dev (attempt W DeviceWaitIdle)) (\<lambda>_.
     win_let (win_mod (\<lambda>v. v\<lparr>vw_fence := (case vw_fence v of FenceInFlight _ \<Rightarrow> FenceSignaled | f \<Rightarrow> f)\<rparr>)) (\<lambda>_.
     win_let (win_attempt S GetCapabilities) (\<lambda>caps v.
       let extent = swap_extent caps (vw_want_extent v) in
       if fst extent = 0 \<or> snd extent = 0 then (Done (), v)
       else (
         win_let (win_attempt S GetFormats) (\<lambda>formats.
         win_let (win_get (pick_format (sa_formats formats))) (\<lambda>fmt.
         win_let (win_attempt S GetPresentModes) (\<lambda>modes v.
           let old = vw_swapchain v in (
           win_let (win_attempt S (CreateSwapchain (pick_image_count caps) fmt extent (pick_mode (sa_modes modes)) old)) (\<lambda>a.
           win_let (if old \<noteq> 0 then win_let (win_ask S (DestroySwapchain old)) (\<lambda>_. win_ret ()) else win_ret ()) (\<lambda>_.
           win_let (win_mod (\<lambda>v. v\<lparr>vw_swapchain := sa_handle a\<rparr>)) (\<lambda>_.
           win_let (win_attempt S (GetImages (sa_handle a))) (\<lambda>images.
           win_mod (\<lambda>v. v\<lparr>vw_swap_images := sa_images images, vw_extent := extent, vw_dirty := False\<rparr>)))))) v)))) v)))"

subsection \<open>The frame image\<close>

definition frame_objs :: "FrameImage \<Rightarrow> vk_obj list" where
  "frame_objs f = [(BufferObj, fi_staging f), (MemoryObj, fi_staging_mem f), (ImageObj, fi_image f), (MemoryObj, fi_memory f)]"

definition destroy_frame_image :: "driver \<Rightarrow> FrameImage \<Rightarrow> VkViewer \<Rightarrow> VkViewer" where
  "destroy_frame_image W f v = v\<lparr>vw_dev := destroy_all W (frame_objs f) (snd (call W (UnmapMemory (fi_staging_mem f)) (vw_dev v)))\<rparr>"

definition create_frame_image :: "driver \<Rightarrow> mem_types \<Rightarrow> u32 \<Rightarrow> u32 \<Rightarrow> (Device, FrameImage) prog" where
  "create_frame_image W mems w h =
     try_let (create W ImageObj (CreateImage w h FORMAT_B8G8R8A8_UNORM ImageTransfer)) (\<lambda>image.
     try_let (ask W (ImageRequirements image)) (\<lambda>req.
     try_option NoMemoryType (find_mem mems (an_bits req) [DeviceLocal]) (\<lambda>mt.
     try_let (create W MemoryObj (AllocateMemory (an_size req) mt)) (\<lambda>memory.
     try_let (attempt W (BindImageMemory image memory)) (\<lambda>_.
     try_let (create W BufferObj (CreateBuffer (wrap_u64 (unat w * unat h * 4)) UsageTransferSrc)) (\<lambda>staging.
     try_let (ask W (BufferRequirements staging)) (\<lambda>sreq.
     try_option NoMemoryType (find_mem mems (an_bits sreq) [HostVisible, HostCoherent]) (\<lambda>smt.
     try_let (create W MemoryObj (AllocateMemory (an_size sreq) smt)) (\<lambda>staging_mem.
     try_let (attempt W (BindBufferMemory staging staging_mem)) (\<lambda>_.
     try_let (attempt W (MapMemory staging_mem (an_size sreq))) (\<lambda>_.
     ret \<lparr>fi_width = w, fi_height = h, fi_image = image, fi_memory = memory, fi_staging = staging, fi_staging_mem = staging_mem,
       fi_pixels = replicate (an_size sreq) 0, fi_initialized = False, fi_pending_upload = False, fi_shown = [],
       fi_layout = WinUndefined\<rparr>)))))))))))"

definition in_flight :: "VkViewer \<Rightarrow> bool" where
  "in_flight v = (case vw_fence v of FenceInFlight _ \<Rightarrow> True | _ \<Rightarrow> False)"

definition drop_frame_image :: "driver \<Rightarrow> VkViewer \<Rightarrow> VkViewer" where
  "drop_frame_image W v = (case vw_frame v of None \<Rightarrow> v
     | Some f \<Rightarrow> (destroy_frame_image W f (v\<lparr>vw_frame := None\<rparr>))
         \<lparr>vw_hazards := vw_hazards v @ (if in_flight v then [ImageDestroyed] else [])\<rparr>)"

definition ensure_frame_image :: "driver \<Rightarrow> u32 \<Rightarrow> u32 \<Rightarrow> unit win" where
  "ensure_frame_image W w h v =
    (if (case vw_frame v of Some f \<Rightarrow> fi_width f = w \<and> fi_height f = h | None \<Rightarrow> False) then (Done (), v)
     else win_let (win_dev (create_frame_image W (vw_mems v) w h)) (\<lambda>f. win_mod (\<lambda>v. v\<lparr>vw_frame := Some f\<rparr>)) (drop_frame_image W v))"

subsection \<open>The cursor overlay\<close>

definition cursor_origin :: "(u32 \<Rightarrow> u32 \<Rightarrow> int) \<Rightarrow> VkViewer \<Rightarrow> u32 \<times> u32 \<Rightarrow> CursorShape \<Rightarrow> int \<times> int" where
  "cursor_origin scale v n sh = (wrap_i32 (scale (fst n) (vw_clean_w v) - int (unat (cs_hot_x sh))),
     wrap_i32 (scale (snd n) (vw_clean_h v) - int (unat (cs_hot_y sh))))"

definition cursor_key :: "(u32 \<Rightarrow> u32 \<Rightarrow> int) \<Rightarrow> VkViewer \<Rightarrow> int \<times> int \<times> u64 \<times> bool" where
  "cursor_key scale v =
    (let (px, py) = (case (vw_local_cursor v, vw_shape v) of
         (Some n, Some sh) \<Rightarrow> cursor_origin scale v n sh
       | _ \<Rightarrow> (- (2 ^ 31), - (2 ^ 31)));
       drawn = (vw_visible v \<and> vw_local_cursor v \<noteq> None \<and> vw_shape v \<noteq> None)
     in (px, py, vw_version v, drawn))"

definition frame_bytes :: "VkViewer \<Rightarrow> nat" where
  "frame_bytes v = unat (vw_clean_w v) * unat (vw_clean_h v) * 4"

definition overlay :: "(u32 \<Rightarrow> u32 \<Rightarrow> int) \<Rightarrow> VkViewer \<Rightarrow> bytes" where
  "overlay scale v = (let base = take (frame_bytes v) (vw_clean v) in
     (case (vw_local_cursor v, vw_shape v) of
        (Some n, Some sh) \<Rightarrow>
          if \<not> vw_visible v then base
          else (case cursor_origin scale v n sh of (px, py) \<Rightarrow>
            blend_sprite base (unat (vw_clean_w v)) (unat (vw_clean_h v)) (cs_bgra sh) (unat (cs_w sh)) (unat (cs_h sh)) px py
              (cs_premultiplied sh))
      | _ \<Rightarrow> base))"

definition composite_into_staging :: "(u32 \<Rightarrow> u32 \<Rightarrow> int) \<Rightarrow> VkViewer \<Rightarrow> VkViewer" where
  "composite_into_staging scale v =
    (if frame_bytes v = 0 \<or> length (vw_clean v) < frame_bytes v then v
     else (case vw_frame v of
        None \<Rightarrow> v
      | Some f \<Rightarrow>
          if fi_width f \<noteq> vw_clean_w v \<or> fi_height f \<noteq> vw_clean_h v then v
          else v\<lparr>vw_frame := Some (f\<lparr>fi_pending_upload := True,
                   fi_pixels := overlay scale v @ drop (frame_bytes v) (fi_pixels f)\<rparr>),
                 vw_hazards := vw_hazards v @ (if vw_fence v = FenceInFlight True then [StagingWritten] else [])\<rparr>))"

subsection \<open>A new frame\<close>

text \<open>Red and blue change places and alpha becomes opaque; both sides are walked in whole pixels.\<close>

fun to_bgra :: "bytes \<Rightarrow> bytes \<Rightarrow> bytes" where
  "to_bgra (r # g # b # a # src) (_ # _ # _ # _ # dst) = b # g # r # 255 # to_bgra src dst"
| "to_bgra src dst = dst"

definition resized :: "nat \<Rightarrow> bytes \<Rightarrow> bytes" where
  "resized n bs = take n bs @ replicate (n - length bs) 0"

definition ingest :: "DecodedFrame \<Rightarrow> VkViewer \<Rightarrow> VkViewer" where
  "ingest f v = v\<lparr>vw_clean := to_bgra (df_rgba f) (resized (unat (df_width f * df_height f) * 4) (vw_clean v)),
     vw_clean_w := df_width f, vw_clean_h := df_height f\<rparr>"

definition refresh_overlay :: "(u32 \<Rightarrow> u32 \<Rightarrow> int) \<Rightarrow> CursorSlot \<Rightarrow> bool \<Rightarrow> VkViewer \<Rightarrow> VkViewer" where
  "refresh_overlay scale slot new_frame v0 =
    (case cursor_slot_snapshot slot of (_, visible, shape, version) \<Rightarrow>
     let v1 = v0\<lparr>vw_visible := visible\<rparr>;
         (need1, v2) = (if version \<noteq> vw_version v1 then (True, v1\<lparr>vw_shape := shape, vw_version := version\<rparr>) else (new_frame, v1));
         key = cursor_key scale v2;
         (need, v3) = (if vw_last_key v2 \<noteq> Some key then (True, v2\<lparr>vw_last_key := Some key\<rparr>) else (need1, v2))
     in if need then composite_into_staging scale v3 else v3)"

subsection \<open>Recording and submitting\<close>

definition upload_commands :: "FrameImage \<Rightarrow> win_command list" where
  "upload_commands f = (if fi_pending_upload f then
     [WinBarrier (FrameImg (fi_image f)) (if fi_initialized f then WinTransferSrc else WinUndefined) WinTransferDst,
      WinCopy (fi_staging f) (fi_image f) (fi_width f) (fi_height f),
      WinBarrier (FrameImg (fi_image f)) WinTransferDst WinTransferSrc] else [])"

definition uploaded :: "FrameImage \<Rightarrow> FrameImage" where
  "uploaded f = (if fi_pending_upload f then f\<lparr>fi_initialized := True, fi_pending_upload := False\<rparr> else f)"

definition window_commands :: "FrameImage option \<Rightarrow> u64 \<Rightarrow> u32 \<times> u32 \<Rightarrow> win_command list" where
  "window_commands frame swap extent =
    (case frame of None \<Rightarrow> [] | Some f \<Rightarrow> upload_commands f) @
    [WinBarrier (SwapImg swap) WinUndefined WinTransferDst] @
    (case frame of
       Some f \<Rightarrow> if fi_initialized (uploaded f) then [WinBlit (fi_image f) (fi_width f, fi_height f) swap extent] else [WinClear swap]
     | None \<Rightarrow> [WinClear swap]) @
    [WinBarrier (SwapImg swap) WinTransferDst WinPresentSrc]"

definition record_frame :: "driver \<Rightarrow> surface \<Rightarrow> u64 \<Rightarrow> win_command list win" where
  "record_frame W S swap =
     win_let (win_attempt S ResetCommandBuffer) (\<lambda>_.
     win_let (win_dev (attempt W (BeginCommandBuffer 0))) (\<lambda>_ v.
       let cmds = window_commands (vw_frame v) swap (vw_extent v) in
       win_let (win_mod (\<lambda>v. v\<lparr>vw_frame := map_option uploaded (vw_frame v)\<rparr>)) (\<lambda>_.
       win_let (win_dev (attempt W (EndCommandBuffer 0))) (\<lambda>_. win_ret cmds)) v))"

text \<open>What the GPU does with the commands: layouts as the commands say, and the pixels that move.\<close>

record GpuRun =
  gr_frame :: "FrameImage option"
  gr_swap_layout :: win_layout
  gr_swap :: "bytes option"
  gr_ok :: bool

definition gpu_layout :: "win_layout \<Rightarrow> GpuRun \<Rightarrow> bool" where
  "gpu_layout l r = (case gr_frame r of Some f \<Rightarrow> fi_layout f = l | None \<Rightarrow> False)"

fun gpu_exec :: "win_command \<Rightarrow> GpuRun \<Rightarrow> GpuRun" where
  "gpu_exec (WinBarrier (FrameImg i) old new) r = r\<lparr>gr_ok := gr_ok r \<and> (old = WinUndefined \<or> gpu_layout old r),
     gr_frame := map_option (\<lambda>f. f\<lparr>fi_layout := new, fi_shown := (if old = WinUndefined then [] else fi_shown f)\<rparr>) (gr_frame r)\<rparr>"
| "gpu_exec (WinBarrier (SwapImg i) old new) r = r\<lparr>gr_ok := gr_ok r \<and> (old = WinUndefined \<or> old = gr_swap_layout r), gr_swap_layout := new\<rparr>"
| "gpu_exec (WinCopy buf img w h) r = r\<lparr>gr_ok := gr_ok r \<and> gpu_layout WinTransferDst r,
     gr_frame := map_option (\<lambda>f. f\<lparr>fi_shown := take (unat w * unat h * 4) (fi_pixels f)\<rparr>) (gr_frame r)\<rparr>"
| "gpu_exec (WinBlit img src swap dst) r = r\<lparr>gr_ok := gr_ok r \<and> gpu_layout WinTransferSrc r \<and> gr_swap_layout r = WinTransferDst,
     gr_swap := map_option fi_shown (gr_frame r)\<rparr>"
| "gpu_exec (WinClear swap) r = r\<lparr>gr_ok := gr_ok r \<and> gr_swap_layout r = WinTransferDst, gr_swap := None\<rparr>"

definition uploads :: "win_command list \<Rightarrow> bool" where
  "uploads cmds = list_ex (\<lambda>c. case c of WinCopy _ _ _ _ \<Rightarrow> True | _ \<Rightarrow> False) cmds"

definition submit_window :: "driver \<Rightarrow> win_command list \<Rightarrow> bytes option win" where
  "submit_window W cmds =
     win_let (win_dev (attempt W (QueueSubmit 0 0))) (\<lambda>_ v.
       let r = fold gpu_exec cmds \<lparr>gr_frame = vw_frame v, gr_swap_layout = WinUndefined, gr_swap = None, gr_ok = True\<rparr> in
       (Done (gr_swap r), v\<lparr>vw_fence := FenceInFlight (uploads cmds), vw_frame := gr_frame r,
          vw_layouts_ok := vw_layouts_ok v \<and> gr_ok r \<and> gr_swap_layout r = WinPresentSrc\<rparr>))"

subsection \<open>Drawing\<close>

definition wait_in_flight :: "driver \<Rightarrow> unit win" where
  "wait_in_flight W = win_let (win_dev (attempt W (WaitFence 0))) (\<lambda>_ v.
     if vw_fence v = FenceReset then (NoReturn, v) else (Done (), v\<lparr>vw_fence := FenceSignaled\<rparr>))"

definition present_result :: "u64 \<Rightarrow> bytes option \<Rightarrow> SurfaceAnswer \<Rightarrow> unit win" where
  "present_result swap shown p v = (case sa_result p of
       WsiOk \<Rightarrow> (Done (), v\<lparr>vw_presented := vw_presented v @ [(swap, shown)]\<rparr>)
     | WsiSuboptimal \<Rightarrow> (Done (), v\<lparr>vw_presented := vw_presented v @ [(swap, shown)], vw_dirty := True\<rparr>)
     | WsiOutOfDate \<Rightarrow> (Done (), v\<lparr>vw_dirty := True\<rparr>)
     | WsiFailed \<Rightarrow> (Failed VkError, v))"

definition swap_image :: "nat \<Rightarrow> u64 win" where
  "swap_image index v = win_get (if index < length (vw_swap_images v) then Some (vw_swap_images v ! index) else None) v"

definition queue_frame :: "driver \<Rightarrow> surface \<Rightarrow> nat \<Rightarrow> unit win" where
  "queue_frame W S index =
     win_let (win_dev (attempt W (ResetFence 0))) (\<lambda>_.
     win_let (win_mod (\<lambda>v. v\<lparr>vw_fence := FenceReset\<rparr>)) (\<lambda>_.
     win_let (swap_image index) (\<lambda>swap.
     win_let (record_frame W S swap) (\<lambda>cmds.
     win_let (submit_window W cmds) (\<lambda>shown v.
     win_let (win_ask S (QueuePresent (vw_swapchain v) index)) (present_result swap shown) v)))))"

definition present_frame :: "driver \<Rightarrow> surface \<Rightarrow> unit win" where
  "present_frame W S =
     win_let (wait_in_flight W) (\<lambda>_ v.
     win_let (win_ask S (AcquireImage (vw_swapchain v))) (\<lambda>a.
       (case sa_result a of
          WsiOutOfDate \<Rightarrow> win_mod (\<lambda>v. v\<lparr>vw_dirty := True\<rparr>)
        | WsiFailed \<Rightarrow> (\<lambda>v. (Failed VkError, v))
        | WsiSuboptimal \<Rightarrow> win_let (win_mod (\<lambda>v. v\<lparr>vw_dirty := True\<rparr>)) (\<lambda>_. queue_frame W S (sa_index a))
        | WsiOk \<Rightarrow> queue_frame W S (sa_index a))) v)"

definition take_frame :: "driver \<Rightarrow> DecodedFrame option \<Rightarrow> unit win" where
  "take_frame W new_frame = (case new_frame of
     None \<Rightarrow> win_ret ()
   | Some f \<Rightarrow> win_let (ensure_frame_image W (df_width f) (df_height f)) (\<lambda>_. win_mod (ingest f)))"

definition draw :: "driver \<Rightarrow> surface \<Rightarrow> (u32 \<Rightarrow> u32 \<Rightarrow> int) \<Rightarrow> CursorSlot \<Rightarrow> DecodedFrame option \<Rightarrow> unit win" where
  "draw W S scale slot new_frame =
     win_let (\<lambda>v. if vw_dirty v then recreate_swapchain W S v else (Done (), v)) (\<lambda>_ v.
       if fst (vw_extent v) = 0 \<or> vw_swapchain v = 0 then (Done (), v)
       else win_let (take_frame W new_frame) (\<lambda>_.
            win_let (win_mod (refresh_overlay scale slot (new_frame \<noteq> None))) (\<lambda>_.
            present_frame W S)) v)"

end
