(* ===== verification/Viewer_Draw.thy ===== *)
theory Viewer_Draw
  imports Viewer_Window
begin

text \<open>
  What the window shows. The overlay is drawn into the staging buffer only when a frame arrived, the sprite's version
  changed or the change key did; the copy to the frame image happens only when an upload is pending; and each
  presented image is blitted from the frame image. The invariant says that none of this skipping is visible:
  every image that is presented shows the last frame with the slot's current cursor at the pointer.
\<close>

subsection \<open>The change key is enough\<close>

definition keyed_overlay :: "VkViewer \<Rightarrow> int \<times> int \<times> u64 \<times> bool \<Rightarrow> bytes" where
  "keyed_overlay v key = (let base = take (frame_bytes v) (vw_clean v) in
     (case (key, vw_shape v) of
        ((px, py, _, True), Some sh) \<Rightarrow>
          blend_sprite base (unat (vw_clean_w v)) (unat (vw_clean_h v)) (cs_bgra sh) (unat (cs_w sh)) (unat (cs_h sh)) px py
            (cs_premultiplied sh)
      | _ \<Rightarrow> base))"

lemma overlay_keyed: "overlay scale v = keyed_overlay v (cursor_key scale v)"
  by (cases "vw_local_cursor v"; cases "vw_shape v"; cases "vw_visible v")
    (simp_all add: overlay_def keyed_overlay_def cursor_key_def Let_def split: prod.split)

lemma length_keyed_overlay [simp]:
  "length (keyed_overlay v key) = min (length (vw_clean v)) (frame_bytes v)"
  by (simp add: keyed_overlay_def Let_def split: prod.split bool.split option.split)

subsection \<open>Invariant\<close>

text \<open>The fields a picture is made of.\<close>

definition content :: "VkViewer \<Rightarrow> (bytes \<times> u32 \<times> u32) \<times> (u32 \<times> u32) option \<times> (CursorShape option \<times> u64 \<times> bool) \<times> (int \<times> int \<times> u64 \<times> bool) option" where
  "content v = ((vw_clean v, vw_clean_w v, vw_clean_h v), vw_local_cursor v, (vw_shape v, vw_version v, vw_visible v), vw_last_key v)"

lemma content_eqs:
  "content v' = content v \<Longrightarrow> vw_clean v' = vw_clean v" "content v' = content v \<Longrightarrow> vw_clean_w v' = vw_clean_w v"
  "content v' = content v \<Longrightarrow> vw_clean_h v' = vw_clean_h v" "content v' = content v \<Longrightarrow> vw_local_cursor v' = vw_local_cursor v"
  "content v' = content v \<Longrightarrow> vw_shape v' = vw_shape v" "content v' = content v \<Longrightarrow> vw_version v' = vw_version v"
  "content v' = content v \<Longrightarrow> vw_visible v' = vw_visible v" "content v' = content v \<Longrightarrow> vw_last_key v' = vw_last_key v"
  by (simp_all add: content_def)

lemma frame_bytes_content: "content v' = content v \<Longrightarrow> frame_bytes v' = frame_bytes v"
  by (simp add: frame_bytes_def content_def)

lemma keyed_overlay_content:
  assumes "content v' = content v"
  shows "keyed_overlay v' k = keyed_overlay v k"
  by (simp only: keyed_overlay_def frame_bytes_content [OF assms] content_eqs [OF assms])

definition staged :: "VkViewer \<Rightarrow> FrameImage \<Rightarrow> bytes" where
  "staged v f = take (frame_bytes v) (fi_pixels f)"

definition sized :: "VkViewer \<Rightarrow> FrameImage \<Rightarrow> bool" where
  "sized v f = (fi_width f = vw_clean_w v \<and> fi_height f = vw_clean_h v \<and> 0 < frame_bytes v \<and> length (vw_clean v) = frame_bytes v)"

definition composed :: "VkViewer \<Rightarrow> FrameImage \<Rightarrow> bool" where
  "composed v f = ((\<exists>k. vw_last_key v = Some k \<and> staged v f = keyed_overlay v k) \<and> (fi_pending_upload f \<or> fi_initialized f))"

definition gpu_synced :: "VkViewer \<Rightarrow> FrameImage \<Rightarrow> bool" where
  "gpu_synced v f = (fi_initialized f \<longrightarrow> fi_layout f = WinTransferSrc \<and> (\<not> fi_pending_upload f \<longrightarrow> fi_shown f = staged v f))"

definition viewer_inv :: "VkViewer \<Rightarrow> bool" where
  "viewer_inv v = (vw_layouts_ok v \<and> (case vw_frame v of None \<Rightarrow> True
     | Some f \<Rightarrow> sized v f \<and> composed v f \<and> (vw_fence v \<noteq> FenceReset \<longrightarrow> gpu_synced v f)))"

text \<open>What a presentation would show.\<close>

definition picture :: "VkViewer \<Rightarrow> bytes option" where
  "picture v = map_option (staged v) (vw_frame v)"

lemma parts_content:
  assumes "content v' = content v"
  shows "sized v' f = sized v f" "composed v' f = composed v f" "gpu_synced v' f = gpu_synced v f" "staged v' f = staged v f"
  by (simp_all only: sized_def composed_def gpu_synced_def staged_def frame_bytes_content [OF assms] content_eqs [OF assms]
      keyed_overlay_content [OF assms])

text \<open>A step that leaves the picture alone, and at most makes the fence less certain.\<close>

definition still :: "VkViewer \<Rightarrow> VkViewer \<Rightarrow> bool" where
  "still v v' = (content v' = content v \<and> vw_frame v' = vw_frame v \<and> vw_layouts_ok v' = vw_layouts_ok v \<and>
     vw_presented v' = vw_presented v \<and> (vw_fence v' \<noteq> FenceReset \<longrightarrow> vw_fence v \<noteq> FenceReset))"

lemma still_refl [simp, intro]: "still v v"
  by (simp add: still_def)

lemma still_trans [trans]: "still u v \<Longrightarrow> still v w \<Longrightarrow> still u w"
  by (simp add: still_def)

lemma viewer_inv_still: "viewer_inv v \<Longrightarrow> still v v' \<Longrightarrow> viewer_inv v'"
  by (cases "vw_frame v") (auto simp: viewer_inv_def still_def parts_content [of v' v])

lemma picture_still: "still v v' \<Longrightarrow> picture v' = picture v"
  by (cases "vw_frame v") (auto simp: picture_def still_def parts_content [of v' v])

subsection \<open>Quiet programs\<close>

definition quiet :: "'a win \<Rightarrow> bool" where
  "quiet m = (\<forall>v. still v (snd (m v)))"

named_theorems quiet_rules "programs that leave the picture alone"

lemma quiet_win_let [quiet_rules]:
  assumes "quiet m" "\<And>x. quiet (k x)"
  shows "quiet (win_let m k)"
proof -
  have "still v (snd (win_let m k v))" for v
  proof -
    obtain r u where m: "m v = (r, u)" by fastforce
    with assms(1) have "still v u" unfolding quiet_def by (metis snd_conv)
    with m assms(2) show ?thesis
      by (cases r) (auto simp: win_let_def quiet_def intro: still_trans)
  qed
  then show ?thesis by (simp add: quiet_def)
qed

lemma quiet_win_dev [quiet_rules]: "quiet (win_dev m)"
proof -
  have "still v (v\<lparr>vw_dev := d\<rparr>)" for v d by (simp add: still_def content_def)
  then show ?thesis by (simp add: quiet_def win_dev_def split: prod.split sum.split)
qed

lemma quiet_win_ask [quiet_rules]: "quiet (win_ask S c)"
  by (simp add: quiet_def win_ask_def still_def content_def)

lemma quiet_pure [quiet_rules]: "quiet (\<lambda>v. (r, v))"
  by (simp add: quiet_def)

lemma quiet_win_ret [quiet_rules]: "quiet (win_ret x)"
  unfolding win_ret_def by (rule quiet_pure)

lemma quiet_win_attempt [quiet_rules]: "quiet (win_attempt S c)"
  unfolding win_attempt_def by (intro quiet_rules)

lemma quiet_win_get [quiet_rules]: "quiet (win_get x)"
  by (simp add: quiet_def win_get_def split: option.split)

lemma quiet_at: "(\<And>s. quiet (m s)) \<Longrightarrow> quiet (\<lambda>v. m v v)"
  by (simp add: quiet_def)

lemma quiet_mods [quiet_rules]:
  "quiet (win_mod (\<lambda>v. v\<lparr>vw_fence := (case vw_fence v of FenceInFlight _ \<Rightarrow> FenceSignaled | f \<Rightarrow> f)\<rparr>))"
  "quiet (win_mod (\<lambda>v. v\<lparr>vw_swapchain := h\<rparr>))" "quiet (win_mod (\<lambda>v. v\<lparr>vw_dirty := b\<rparr>))"
  "quiet (win_mod (\<lambda>v. v\<lparr>vw_swap_images := xs, vw_extent := e, vw_dirty := False\<rparr>))"
  "quiet (win_mod (\<lambda>v. v\<lparr>vw_fence := FenceReset\<rparr>))"
  by (simp_all add: quiet_def win_mod_def still_def content_def split: fence_state.split)

lemma quiet_read: "(\<And>x. quiet (m x)) \<Longrightarrow> quiet (\<lambda>v. let x = g v in m x v)"
  by (simp add: quiet_def)

lemma quiet_if: "quiet m \<Longrightarrow> quiet n \<Longrightarrow> quiet (if c then m else n)"
  by simp

lemma quiet_recreate: "quiet (recreate_swapchain W S)"
proof -
  have early: "quiet (\<lambda>v. let e = g v in if c e then (Done (), v) else m e v)" if "\<And>e. quiet (m e)"
    for g :: "VkViewer \<Rightarrow> u32 \<times> u32" and c and m :: "u32 \<times> u32 \<Rightarrow> unit win"
    using that by (simp add: quiet_def Let_def)
  show ?thesis
    unfolding recreate_swapchain_def by (intro quiet_rules early quiet_if quiet_read)
qed

subsection \<open>One submission\<close>

lemma win_let_cases:
  assumes "win_let m k v = (r, v')"
  obtains x u where "m v = (Done x, u)" "k x u = (r, v')" | e where "m v = (Failed e, v')" "r = Failed e"
    | "m v = (NoReturn, v')" "r = NoReturn"
  using assms by (auto simp: win_let_def split: prod.splits outcome.splits)

lemma quiet_run: "quiet m \<Longrightarrow> m v = (r, v') \<Longrightarrow> still v v'"
  unfolding quiet_def by (metis snd_conv)

text \<open>Steps that also keep the fence.\<close>

definition fence_kept :: "'a win \<Rightarrow> bool" where
  "fence_kept m = (\<forall>v. vw_fence (snd (m v)) = vw_fence v)"

lemma fence_kept_steps: "fence_kept (win_dev m)" "fence_kept (win_ask S c)" "fence_kept (win_attempt S c)"
  by (auto simp: fence_kept_def win_dev_def win_ask_def win_attempt_def win_let_def split: prod.split sum.split)

lemma fence_kept_run: "fence_kept m \<Longrightarrow> m v = (r, v') \<Longrightarrow> vw_fence v' = vw_fence v"
  unfolding fence_kept_def by (metis snd_conv)

lemma parts_uploaded:
  "sized v (uploaded f) = sized v f" "composed v f \<Longrightarrow> composed v (uploaded f)" "staged v (uploaded f) = staged v f"
  "composed v f \<Longrightarrow> fi_initialized (uploaded f)" "\<not> fi_pending_upload (uploaded f)"
  by (auto simp: uploaded_def sized_def composed_def staged_def)

text \<open>What a run of the recorded commands leaves behind.\<close>

lemma gpu_exec_frame:
  assumes "sized v f" "composed v f" "gpu_synced v f"
  shows "let r = fold gpu_exec (window_commands (Some f) swap e) \<lparr>gr_frame = Some (uploaded f), gr_swap_layout = WinUndefined, gr_swap = None, gr_ok = True\<rparr>
    in gr_ok r \<and> gr_swap_layout r = WinPresentSrc \<and> gr_swap r = Some (staged v f) \<and>
      (\<exists>f'. gr_frame r = Some f' \<and> sized v f' \<and> composed v f' \<and> gpu_synced v f' \<and> staged v f' = staged v f)"
proof (cases "fi_pending_upload f")
  case True
  have "take (unat (fi_width f) * unat (fi_height f) * 4) (fi_pixels f) = staged v f"
    using assms(1) by (simp add: staged_def sized_def frame_bytes_def)
  with True assms show ?thesis
    by (auto simp: window_commands_def upload_commands_def uploaded_def gpu_layout_def gpu_synced_def sized_def composed_def staged_def Let_def)
next
  case False
  with assms show ?thesis
    by (auto simp: window_commands_def upload_commands_def uploaded_def gpu_layout_def gpu_synced_def composed_def Let_def)
qed

lemma gpu_run_none:
  "fold gpu_exec (window_commands None swap e) \<lparr>gr_frame = None, gr_swap_layout = WinUndefined, gr_swap = None, gr_ok = True\<rparr> =
    \<lparr>gr_frame = None, gr_swap_layout = WinPresentSrc, gr_swap = None, gr_ok = True\<rparr>"
  by (simp add: window_commands_def)

definition after_record :: "VkViewer \<Rightarrow> VkViewer" where
  "after_record v = v\<lparr>vw_frame := map_option uploaded (vw_frame v)\<rparr>"

lemma still_after_record: "still v u \<Longrightarrow> still (after_record v) (after_record u)"
  by (simp add: still_def after_record_def content_def)

lemma record_frame_run:
  assumes "record_frame W S swap v = (r, v')"
  shows "vw_fence v' = vw_fence v \<and> r \<noteq> NoReturn \<and> ((\<exists>e. r = Failed e) \<and> still v v' \<or>
    still (after_record v) v' \<and> (\<forall>c. r = Done c \<longrightarrow> (\<exists>e. c = window_commands (vw_frame v) swap e)))"
  using assms unfolding record_frame_def
proof (cases rule: win_let_cases)
  case (1 a u)
  have u: "still v u" "vw_fence u = vw_fence v"
    using quiet_run [OF quiet_win_attempt 1(1)] fence_kept_run [OF fence_kept_steps(3) 1(1)] by auto
  from 1(2) show ?thesis
  proof (cases rule: win_let_cases)
    case (1 b w)
    have w: "still v w" "vw_fence w = vw_fence v"
      using still_trans [OF u(1) quiet_run [OF quiet_win_dev 1(1)]] fence_kept_run [OF fence_kept_steps(1) 1(1)] u(2) by auto
    have frame: "vw_frame w = vw_frame v" using w(1) by (simp add: still_def)
    have "win_let (win_dev (attempt W (EndCommandBuffer 0))) (\<lambda>_. win_ret (window_commands (vw_frame w) swap (vw_extent w))) (after_record w) = (r, v')"
      using 1(2) by (simp add: Let_def win_let_def [of "win_mod _"] win_mod_def after_record_def)
    then show ?thesis
    proof (cases rule: win_let_cases)
      case (1 c z)
      then have r: "r = Done (window_commands (vw_frame v) swap (vw_extent w))" "z = v'" using frame by (auto simp: win_ret_def)
      then have "still (after_record v) v'" "vw_fence v' = vw_fence v"
        using still_trans [OF still_after_record [OF w(1)] quiet_run [OF quiet_win_dev 1(1)]]
          fence_kept_run [OF fence_kept_steps(1) 1(1)] w(2) by (simp_all add: after_record_def)
      with r(1) show ?thesis by blast
    next
      case (2 e)
      with w quiet_run [OF quiet_win_dev 2(1)] fence_kept_run [OF fence_kept_steps(1) 2(1)] still_after_record [OF w(1)]
      show ?thesis by (auto simp: after_record_def intro: still_trans)
    next
      case 3
      then show ?thesis by (auto simp: win_dev_def split: prod.splits sum.splits)
    qed
  next
    case (2 e)
    with u quiet_run [OF quiet_win_dev 2(1)] fence_kept_run [OF fence_kept_steps(1) 2(1)] show ?thesis
      by (auto intro: still_trans)
  next
    case 3
    then show ?thesis by (auto simp: win_dev_def split: prod.splits sum.splits)
  qed
next
  case (2 e)
  with quiet_run [OF quiet_win_attempt 2(1)] fence_kept_run [OF fence_kept_steps(3) 2(1)] show ?thesis by auto
next
  case 3
  then show ?thesis by (auto simp: win_attempt_def win_let_def win_ask_def split: prod.splits if_splits)
qed

lemma content_after_record: "content (after_record v) = content v"
  by (simp add: content_def after_record_def)

lemma after_record_inv:
  assumes "viewer_inv v"
  shows "viewer_inv ((after_record v)\<lparr>vw_fence := FenceReset\<rparr>)"
proof -
  have c: "content ((after_record v)\<lparr>vw_fence := FenceReset\<rparr>) = content v" by (simp add: content_def after_record_def)
  have f: "vw_frame ((after_record v)\<lparr>vw_fence := FenceReset\<rparr>) = map_option uploaded (vw_frame v)"
    "vw_layouts_ok ((after_record v)\<lparr>vw_fence := FenceReset\<rparr>) = vw_layouts_ok v" by (simp_all add: after_record_def)
  show ?thesis
    using assms by (cases "vw_frame v") (auto simp: viewer_inv_def f parts_content [OF c] parts_uploaded)
qed

lemma picture_after_record: "picture (after_record v) = picture v"
  by (cases "vw_frame v") (simp_all add: picture_def parts_content [OF content_after_record] parts_uploaded, simp_all add: after_record_def parts_uploaded)

text \<open>The submission of what was recorded: the GPU finds every layout it needs, and the swapchain image gets the picture.\<close>

lemma submit_frame_run:
  assumes inv: "viewer_inv v" "vw_fence v \<noteq> FenceReset" and w: "still (after_record v) w" "vw_fence w = FenceReset"
    and run: "submit_window W (window_commands (vw_frame v) swap e) w = (r, w')"
  shows "(\<exists>x. r = Failed x) \<and> still (after_record v) w' \<and> vw_fence w' = FenceReset \<or>
    r = Done (picture v) \<and> viewer_inv w' \<and> content w' = content v \<and> vw_presented w' = vw_presented v \<and> picture w' = picture v"
  using run unfolding submit_window_def
proof (cases rule: win_let_cases)
  case (1 x u)
  let ?g = "fold gpu_exec (window_commands (vw_frame v) swap e) \<lparr>gr_frame = vw_frame u, gr_swap_layout = WinUndefined, gr_swap = None, gr_ok = True\<rparr>"
  have u: "still (after_record v) u" using still_trans [OF w(1) quiet_run [OF quiet_win_dev 1(1)]] .
  then have frame: "vw_frame u = map_option uploaded (vw_frame v)" and ok: "vw_layouts_ok u = vw_layouts_ok v"
    and shown: "vw_presented u = vw_presented v" and cu: "content u = content v"
    by (simp_all add: still_def after_record_def content_def)
  have r: "r = Done (gr_swap ?g)" and w': "w' = u\<lparr>vw_fence := FenceInFlight (uploads (window_commands (vw_frame v) swap e)),
      vw_frame := gr_frame ?g, vw_layouts_ok := vw_layouts_ok u \<and> gr_ok ?g \<and> gr_swap_layout ?g = WinPresentSrc\<rparr>"
    using 1(2) by (simp_all add: Let_def)
  have c: "content w' = content v" using cu by (simp add: w' content_def)
  have out: "vw_frame w' = gr_frame ?g" "vw_presented w' = vw_presented v"
      "vw_layouts_ok w' = (vw_layouts_ok v \<and> gr_ok ?g \<and> gr_swap_layout ?g = WinPresentSrc)" by (simp_all add: w' ok shown)
  show ?thesis
  proof (cases "vw_frame v")
    case None
    with inv(1) frame show ?thesis
      by (simp add: viewer_inv_def r c out gpu_run_none picture_def)
  next
    case (Some f)
    with inv have "sized v f" "composed v f" "gpu_synced v f" by (auto simp: viewer_inv_def)
    from gpu_exec_frame [OF this, of swap e] Some frame inv(1) show ?thesis
      by (auto simp: Let_def viewer_inv_def r c out picture_def parts_content [OF c])
  qed
next
  case (2 x)
  with still_trans [OF w(1) quiet_run [OF quiet_win_dev 2(1)]] fence_kept_run [OF fence_kept_steps(1) 2(1)] w(2)
  show ?thesis by auto
next
  case 3
  then show ?thesis by (auto simp: win_dev_def split: prod.splits sum.splits)
qed

subsection \<open>Presenting\<close>

text \<open>What a step makes of the picture: it keeps the invariant and the content, and presents nothing or the picture.\<close>

definition presents :: "VkViewer \<Rightarrow> unit outcome \<Rightarrow> VkViewer \<Rightarrow> bool" where
  "presents v r v' = (viewer_inv v' \<and> content v' = content v \<and> (vw_presented v' = vw_presented v \<or>
     r = Done () \<and> picture v' = picture v \<and> (\<exists>img. vw_presented v' = vw_presented v @ [(img, picture v)])))"

lemma presents_still: "viewer_inv v \<Longrightarrow> still v v' \<Longrightarrow> presents v r v'"
  using viewer_inv_still by (simp add: presents_def still_def)

lemma presents_from: "still v u \<Longrightarrow> presents u r v' \<Longrightarrow> presents v r v'"
  using picture_still [of v u] by (auto simp: presents_def still_def)

lemma present_result_presents:
  "viewer_inv u \<Longrightarrow> shown = picture u \<Longrightarrow> present_result swap shown p u = (r, v') \<Longrightarrow> presents u r v'"
proof -
  assume a: "viewer_inv u" "shown = picture u" "present_result swap shown p u = (r, v')"
  have keep: "viewer_inv v' \<and> content v' = content u \<and> picture v' = picture u"
    if "vw_frame v' = vw_frame u" "vw_layouts_ok v' = vw_layouts_ok u" "vw_fence v' = vw_fence u" "content v' = content u"
  proof -
    have "still u (v'\<lparr>vw_presented := vw_presented u\<rparr>)" using that by (simp add: still_def content_def)
    from viewer_inv_still [OF a(1) this] picture_still [OF this] that show ?thesis
      by (cases "vw_frame u") (simp_all add: viewer_inv_def picture_def parts_content [of "v'\<lparr>vw_presented := vw_presented u\<rparr>" u]
          parts_content [of v' u] content_def)
  qed
  show ?thesis
  proof (cases "sa_result p")
    case WsiFailed
    with a show ?thesis by (auto simp: present_result_def presents_def)
  qed (use a keep in \<open>auto simp: present_result_def presents_def content_def\<close>)
qed

lemma recorded_presents:
  assumes inv1: "viewer_inv v1" "vw_fence v1 \<noteq> FenceReset"
    and run: "win_let (record_frame W S swap) (\<lambda>cmds. win_let (submit_window W cmds) (\<lambda>shown v.
      win_let (win_ask S (QueuePresent (vw_swapchain v) i)) (present_result swap shown) v)) (v1\<lparr>vw_fence := FenceReset\<rparr>) = (r, v')"
  shows "presents v1 r v'"
proof -
  let ?v2 = "v1\<lparr>vw_fence := FenceReset\<rparr>"
  have v2: "still v1 ?v2" by (simp add: still_def content_def)
  have after: "after_record ?v2 = (after_record v1)\<lparr>vw_fence := FenceReset\<rparr>" by (simp add: after_record_def)
  have lost: "presents v1 q z" if "still (after_record ?v2) z" for q z
    using viewer_inv_still [OF after_record_inv [OF inv1(1)], of z] that content_after_record [of ?v2]
    by (simp add: after presents_def still_def content_def after_record_def)
  have v12: "still (after_record v1) (after_record ?v2)" by (rule still_after_record [OF v2])
  from run show ?thesis
  proof (cases rule: win_let_cases)
    case (1 cmds w)
    with record_frame_run [OF 1(1)] obtain e where w: "still (after_record ?v2) w" "vw_fence w = FenceReset"
      "cmds = window_commands (vw_frame v1) swap e" by auto
    from 1(2) show ?thesis
    proof (cases rule: win_let_cases)
      case (1 shown z)
      with submit_frame_run [OF inv1 still_trans [OF v12 w(1)] w(2) 1(1) [unfolded w(3)]]
      have z: "viewer_inv z" "content z = content v1" "vw_presented z = vw_presented v1" "picture z = picture v1" "shown = picture v1" by auto
      obtain p u where p: "win_ask S (QueuePresent (vw_swapchain z) i) z = (Done p, u)" "present_result swap shown p u = (r, v')"
        using 1(2) by (auto simp: win_let_def win_ask_def split: prod.splits)
      have "presents u r v'"
        using p(2) viewer_inv_still [OF z(1) quiet_run [OF quiet_win_ask p(1)]] z(4,5) picture_still [OF quiet_run [OF quiet_win_ask p(1)]]
        by (intro present_result_presents) auto
      with presents_from [OF quiet_run [OF quiet_win_ask p(1)]] have "presents z r v'" by blast
      with z show ?thesis by (simp add: presents_def)
    next
      case (2 x)
      with submit_frame_run [OF inv1 still_trans [OF v12 w(1)] w(2) 2(1) [unfolded w(3)]]
      have "still (after_record v1) v'" "vw_fence v' = FenceReset" by auto
      then have "still (after_record ?v2) v'" by (simp add: still_def after_record_def content_def)
      then show ?thesis by (rule lost)
    next
      case 3
      with submit_frame_run [OF inv1 still_trans [OF v12 w(1)] w(2) 3(1) [unfolded w(3)]] show ?thesis by simp
    qed
  next
    case (2 x)
    with record_frame_run [OF 2(1)] have "still ?v2 v' \<or> still (after_record ?v2) v'" by auto
    with lost presents_still [OF viewer_inv_still [OF inv1(1) v2]] presents_from [OF v2] show ?thesis by blast
  next
    case 3
    with record_frame_run [OF 3(1)] show ?thesis by simp
  qed
qed

lemma queue_frame_presents:
  assumes inv: "viewer_inv v" "vw_fence v \<noteq> FenceReset" and run: "queue_frame W S i v = (r, v')"
  shows "presents v r v'"
  using run unfolding queue_frame_def
proof (cases rule: win_let_cases)
  case (1 x v1)
  have v1: "still v v1" "vw_fence v1 = vw_fence v"
    using quiet_run [OF quiet_win_dev 1(1)] fence_kept_run [OF fence_kept_steps(1) 1(1)] by auto
  let ?v2 = "v1\<lparr>vw_fence := FenceReset\<rparr>"
  have v2: "still v1 ?v2" by (simp add: still_def content_def)
  have inv1: "viewer_inv v1" "vw_fence v1 \<noteq> FenceReset" using viewer_inv_still [OF inv(1) v1(1)] inv(2) v1(2) by auto
  obtain q z where sw: "swap_image i ?v2 = (q, z)" by fastforce
  then have z: "z = ?v2" by (auto simp: swap_image_def win_get_def split: if_splits)
  have "presents v1 r v'" if "q = NoReturn"
    using 1(2) sw z that presents_still [OF inv1(1) v2] by (simp add: win_let_def win_mod_def)
  moreover have "q \<noteq> Failed e" for e using sw by (auto simp: swap_image_def win_get_def split: if_splits)
  moreover have "presents v1 r v'" if "q = Done swap" for swap
  proof -
    have "win_let (record_frame W S swap) (\<lambda>cmds. win_let (submit_window W cmds) (\<lambda>shown v.
        win_let (win_ask S (QueuePresent (vw_swapchain v) i)) (present_result swap shown) v)) ?v2 = (r, v')"
      using 1(2) sw z that by (simp add: win_let_def [of "win_mod _"] win_let_def [of "swap_image i"] win_mod_def)
    with inv1 show ?thesis by (rule recorded_presents)
  qed
  ultimately have "presents v1 r v'" by (cases q) auto
  with presents_from [OF v1(1)] show ?thesis by blast
next
  case (2 e)
  then show ?thesis using presents_still [OF inv(1) quiet_run [OF quiet_win_dev 2(1)]] by simp
next
  case 3
  then show ?thesis by (auto simp: win_dev_def split: prod.splits sum.splits)
qed

lemma wait_in_flight_run:
  assumes "viewer_inv v" "wait_in_flight W v = (r, v')"
  shows "(r \<noteq> Done () \<and> still v v') \<or> (r = Done () \<and> viewer_inv v' \<and> vw_fence v' = FenceSignaled \<and> content v' = content v \<and>
    vw_presented v' = vw_presented v \<and> picture v' = picture v)"
  using assms(2) unfolding wait_in_flight_def
proof (cases rule: win_let_cases)
  case (1 x u)
  have u: "still v u" "vw_fence u = vw_fence v" "viewer_inv u"
    using quiet_run [OF quiet_win_dev 1(1)] fence_kept_run [OF fence_kept_steps(1) 1(1)] viewer_inv_still [OF assms(1)] by auto
  show ?thesis
  proof (cases "vw_fence u = FenceReset")
    case True
    with 1(2) u show ?thesis by auto
  next
    case False
    then have "r = Done ()" and v': "v' = u\<lparr>vw_fence := FenceSignaled\<rparr>" using 1(2) by auto
    then have "content v' = content u" "vw_frame v' = vw_frame u" "vw_layouts_ok v' = vw_layouts_ok u" "vw_presented v' = vw_presented u"
      "vw_fence v' = FenceSignaled" by (simp_all add: content_def)
    moreover have "content u = content v" "vw_frame u = vw_frame v" "vw_presented u = vw_presented v" "picture u = picture v"
      using u(1) picture_still [OF u(1)] by (simp_all add: still_def)
    moreover have "viewer_inv v'" "picture v' = picture u" using u(3) False calculation(1-5)
      by (cases "vw_frame u"; simp add: viewer_inv_def picture_def parts_content [OF calculation(1)])+
    ultimately show ?thesis using \<open>r = Done ()\<close> by simp
  qed
next
  case (2 e)
  then show ?thesis using quiet_run [OF quiet_win_dev 2(1)] by auto
next
  case 3
  then show ?thesis by (auto simp: win_dev_def split: prod.splits sum.splits)
qed

lemma present_frame_presents:
  assumes inv: "viewer_inv v" and run: "present_frame W S v = (r, v')"
  shows "presents v r v'"
  using run unfolding present_frame_def
proof (cases rule: win_let_cases)
  case (1 x u)
  with wait_in_flight_run [OF inv 1(1)] have u: "viewer_inv u" "vw_fence u = FenceSignaled" "content u = content v"
    "vw_presented u = vw_presented v" "picture u = picture v" by auto
  obtain a w where a: "win_ask S (AcquireImage (vw_swapchain u)) u = (Done a, w)" by (simp add: win_ask_def)
  have w: "still u w" "vw_fence w = FenceSignaled" "viewer_inv w"
    using quiet_run [OF quiet_win_ask a] fence_kept_run [OF fence_kept_steps(2) a] u viewer_inv_still [OF u(1)] by auto
  let ?w = "w\<lparr>vw_dirty := True\<rparr>"
  have d: "still w ?w" by (simp add: still_def content_def)
  have "presents w r v'"
  proof (cases "sa_result a")
    case WsiOk
    then have "queue_frame W S (sa_index a) w = (r, v')" using 1(2) a by (simp add: win_let_def)
    from queue_frame_presents [OF w(3) _ this] w(2) show ?thesis by simp
  next
    case WsiSuboptimal
    then have "queue_frame W S (sa_index a) ?w = (r, v')" using 1(2) a by (simp add: win_let_def win_mod_def)
    from presents_from [OF d queue_frame_presents [OF viewer_inv_still [OF w(3) d] _ this]] w(2) show ?thesis by simp
  next
    case WsiOutOfDate
    then have "v' = ?w" using 1(2) a by (simp add: win_let_def win_mod_def)
    with presents_still [OF w(3) d] show ?thesis by simp
  next
    case WsiFailed
    then have "v' = w" using 1(2) a by (simp add: win_let_def)
    with presents_still [OF w(3) still_refl] show ?thesis by simp
  qed
  from presents_from [OF w(1) this] u show ?thesis by (simp add: presents_def)
next
  case (2 e)
  with wait_in_flight_run [OF inv 2(1)] presents_still [OF inv] show ?thesis by auto
next
  case 3
  with wait_in_flight_run [OF inv 3(1)] presents_still [OF inv] show ?thesis by auto
qed

subsection \<open>A new frame\<close>

definition frame_ok :: "DecodedFrame \<Rightarrow> bool" where
  "frame_ok f = (0 < unat (df_width f) * unat (df_height f) \<and> unat (df_width f) * unat (df_height f) * 4 < 2 ^ 32 \<and>
     length (df_rgba f) = unat (df_width f) * unat (df_height f) * 4)"

lemma length_to_bgra [simp]: "length (to_bgra src dst) = length dst"
  by (induction src dst rule: to_bgra.induct) simp_all

lemma four_more:
  assumes "length xs = 4 * Suc n"
  obtains a b c d rest where "xs = a # b # c # d # rest" "length rest = 4 * n"
proof -
  from assms obtain ys where "length xs = Suc (Suc (Suc (Suc (4 * n))))" by simp
  then show ?thesis by (auto simp: length_Suc_conv intro: that)
qed

lemma to_bgra_overwrites:
  "length src = 4 * n \<Longrightarrow> length a = 4 * n \<Longrightarrow> length b = 4 * n \<Longrightarrow> to_bgra src a = to_bgra src b"
proof (induction n arbitrary: src a b)
  case (Suc n)
  from Suc.prems show ?case
    by (elim four_more) (auto intro: Suc.IH)
qed simp

lemma length_resized [simp]: "length (resized n bs) = n"
  by (simp add: resized_def)

text \<open>A frame image of the right size whose staging buffer is still to be composed.\<close>

definition ready :: "VkViewer \<Rightarrow> bool" where
  "ready v = (vw_layouts_ok v \<and> (case vw_frame v of None \<Rightarrow> False
     | Some f \<Rightarrow> sized v f \<and> (vw_fence v \<noteq> FenceReset \<longrightarrow> fi_initialized f \<longrightarrow> fi_layout f = WinTransferSrc)))"

definition shows_frame :: "DecodedFrame \<Rightarrow> VkViewer \<Rightarrow> bool" where
  "shows_frame f v = (vw_clean v = to_bgra (df_rgba f) (replicate (length (df_rgba f)) 0) \<and> vw_clean_w v = df_width f \<and> vw_clean_h v = df_height f)"

lemma shows_frame_ingest: "frame_ok f \<Longrightarrow> shows_frame f (ingest f v) \<and> length (vw_clean (ingest f v)) = frame_bytes (ingest f v) \<and> 0 < frame_bytes (ingest f v)"
proof -
  assume ok: "frame_ok f"
  then have "unat (df_width f) * unat (df_height f) < 2 ^ 32" unfolding frame_ok_def by linarith
  then have m: "unat (df_width f * df_height f) = unat (df_width f) * unat (df_height f)"
    by (simp add: unat_mult_lem [symmetric])
  have "to_bgra (df_rgba f) (resized (unat (df_width f * df_height f) * 4) (vw_clean v)) = to_bgra (df_rgba f) (replicate (length (df_rgba f)) 0)"
    using ok by (intro to_bgra_overwrites [where n = "unat (df_width f) * unat (df_height f)"]) (simp_all add: frame_ok_def m)
  with ok m show ?thesis by (simp add: frame_ok_def shows_frame_def ingest_def frame_bytes_def)
qed

lemma create_frame_image_fields:
  "create_frame_image W mems w h d = (Inr f, d') \<Longrightarrow> fi_width f = w \<and> fi_height f = h \<and> \<not> fi_initialized f"
  by (auto simp: create_frame_image_def try_let_def try_option_def ret_def fail_def split: prod.splits sum.splits option.splits)

lemma ensure_frame_image_run:
  assumes inv: "viewer_inv v" and run: "ensure_frame_image W w h v = (r, u)"
  shows "content u = content v \<and> vw_presented u = vw_presented v \<and> vw_layouts_ok u \<and> r \<noteq> NoReturn \<and>
    (r \<noteq> Done () \<longrightarrow> vw_frame u = None) \<and> (r = Done () \<longrightarrow> (\<exists>f. vw_frame u = Some f \<and> fi_width f = w \<and> fi_height f = h \<and>
      (vw_fence u \<noteq> FenceReset \<longrightarrow> fi_initialized f \<longrightarrow> fi_layout f = WinTransferSrc)))"
proof (cases "case vw_frame v of Some f \<Rightarrow> fi_width f = w \<and> fi_height f = h | None \<Rightarrow> False")
  case True
  with assms show ?thesis by (auto simp: ensure_frame_image_def viewer_inv_def gpu_synced_def split: option.splits)
next
  case False
  let ?v = "drop_frame_image W v"
  have dropped: "content ?v = content v" "vw_presented ?v = vw_presented v" "vw_layouts_ok ?v" "vw_frame ?v = None"
    using inv by (auto simp: drop_frame_image_def destroy_frame_image_def content_def viewer_inv_def split: option.splits)
  have "win_let (win_dev (create_frame_image W (vw_mems v) w h)) (\<lambda>f. win_mod (\<lambda>v. v\<lparr>vw_frame := Some f\<rparr>)) ?v = (r, u)"
    using run False by (simp add: ensure_frame_image_def)
  then show ?thesis
  proof (cases rule: win_let_cases)
    case (1 f t)
    then have f: "fi_width f = w \<and> fi_height f = h \<and> \<not> fi_initialized f"
      by (auto simp: win_dev_def dest: create_frame_image_fields split: prod.splits sum.splits)
    have t: "still ?v t" using quiet_run [OF quiet_win_dev 1(1)] .
    have "u = t\<lparr>vw_frame := Some f\<rparr>" "r = Done ()" using 1(2) by (simp_all add: win_mod_def)
    with f t dropped show ?thesis by (simp add: still_def content_def)
  next
    case (2 e)
    with quiet_run [OF quiet_win_dev 2(1)] dropped show ?thesis by (simp add: still_def)
  next
    case 3
    then show ?thesis by (auto simp: win_dev_def split: prod.splits sum.splits)
  qed
qed

lemma take_frame_run:
  assumes inv: "viewer_inv v" and ok: "frame_ok f" and run: "take_frame W (Some f) v = (r, u)"
  shows "vw_presented u = vw_presented v \<and> vw_local_cursor u = vw_local_cursor v \<and> vw_version u = vw_version v \<and> vw_shape u = vw_shape v \<and>
    r \<noteq> NoReturn \<and> (if r = Done () then ready u \<and> shows_frame f u else viewer_inv u)"
proof -
  obtain q t where t: "ensure_frame_image W (df_width f) (df_height f) v = (q, t)" by fastforce
  note e = ensure_frame_image_run [OF inv t]
  show ?thesis
  proof (cases q)
    case (Done x)
    then have u: "u = ingest f t" "r = Done ()" using run t by (simp_all add: take_frame_def win_let_def win_mod_def)
    have fields: "vw_presented (ingest f t) = vw_presented t" "vw_local_cursor (ingest f t) = vw_local_cursor t"
      "vw_version (ingest f t) = vw_version t" "vw_shape (ingest f t) = vw_shape t" "vw_layouts_ok (ingest f t) = vw_layouts_ok t"
      "vw_frame (ingest f t) = vw_frame t" "vw_fence (ingest f t) = vw_fence t" by (simp_all add: ingest_def)
    from e Done obtain g where "vw_frame t = Some g" "fi_width g = df_width f" "fi_height g = df_height f"
      "vw_fence t \<noteq> FenceReset \<longrightarrow> fi_initialized g \<longrightarrow> fi_layout g = WinTransferSrc" by auto
    moreover have s: "shows_frame f (ingest f t)" "length (vw_clean (ingest f t)) = frame_bytes (ingest f t)" "0 < frame_bytes (ingest f t)"
      using shows_frame_ingest [OF ok, of t] by simp_all
    moreover have "vw_clean_w (ingest f t) = df_width f" "vw_clean_h (ingest f t) = df_height f" using s(1) by (simp_all add: shows_frame_def)
    ultimately show ?thesis using e by (simp add: u fields ready_def sized_def content_eqs [of t v])
  next
    case (Failed x)
    with run t e show ?thesis by (auto simp: take_frame_def win_let_def viewer_inv_def content_eqs [of u v])
  next
    case NoReturn
    with e show ?thesis by simp
  qed
qed

subsection \<open>The overlay is up to date\<close>

lemma composite_ready:
  assumes "ready v" "vw_last_key v = Some (cursor_key scale v)"
  shows "viewer_inv (composite_into_staging scale v) \<and> content (composite_into_staging scale v) = content v \<and>
    vw_presented (composite_into_staging scale v) = vw_presented v"
proof -
  obtain f where f: "vw_frame v = Some f" "sized v f" "vw_fence v \<noteq> FenceReset \<longrightarrow> fi_initialized f \<longrightarrow> fi_layout f = WinTransferSrc" "vw_layouts_ok v"
    using assms(1) by (auto simp: ready_def split: option.splits)
  let ?f = "f\<lparr>fi_pending_upload := True, fi_pixels := overlay scale v @ drop (frame_bytes v) (fi_pixels f)\<rparr>"
  let ?v = "v\<lparr>vw_frame := Some ?f, vw_hazards := vw_hazards v @ (if vw_fence v = FenceInFlight True then [StagingWritten] else [])\<rparr>"
  have v: "composite_into_staging scale v = ?v"
    using f by (simp add: composite_into_staging_def sized_def)
  have c: "content ?v = content v" by (simp add: content_def)
  have "length (overlay scale v) = frame_bytes v" using f(2) by (simp add: overlay_keyed sized_def)
  then have "staged v ?f = keyed_overlay v (cursor_key scale v)" by (simp add: staged_def overlay_keyed)
  then have "composed v ?f" "sized v ?f" "vw_fence v \<noteq> FenceReset \<longrightarrow> gpu_synced v ?f"
    using assms(2) f by (auto simp: composed_def gpu_synced_def sized_def)
  with f(4) show ?thesis
    unfolding v by (simp add: viewer_inv_def parts_content [OF c] c)
qed

lemma inv_ready: "viewer_inv v \<Longrightarrow> vw_frame v \<noteq> None \<Longrightarrow> ready v"
  by (auto simp: viewer_inv_def ready_def gpu_synced_def)

lemma ready_cong:
  "ready v \<Longrightarrow> vw_frame v' = vw_frame v \<Longrightarrow> vw_layouts_ok v' = vw_layouts_ok v \<Longrightarrow> vw_fence v' = vw_fence v \<Longrightarrow>
   vw_clean v' = vw_clean v \<Longrightarrow> vw_clean_w v' = vw_clean_w v \<Longrightarrow> vw_clean_h v' = vw_clean_h v \<Longrightarrow> ready v'"
  by (auto simp: ready_def sized_def frame_bytes_def split: option.splits)

lemma composite_none: "vw_frame v = None \<Longrightarrow> composite_into_staging scale v = v"
  by (simp add: composite_into_staging_def)

text \<open>The three field updates before the decision.\<close>

definition refreshed :: "(u32 \<Rightarrow> u32 \<Rightarrow> int) \<Rightarrow> CursorSlot \<Rightarrow> VkViewer \<Rightarrow> VkViewer" where
  "refreshed scale slot v = (let u = v\<lparr>vw_visible := ci_visible slot, vw_shape := (if ci_version slot \<noteq> vw_version v then ci_shape slot else vw_shape v),
     vw_version := ci_version slot\<rparr> in u\<lparr>vw_last_key := Some (cursor_key scale u)\<rparr>)"

lemma cursor_key_ignores: "cursor_key scale (v\<lparr>vw_last_key := k\<rparr>) = cursor_key scale v"
  by (simp add: cursor_key_def cursor_origin_def Let_def split: option.split)

lemma refresh_overlay_alt:
  "refresh_overlay scale slot new v =
    (if new \<or> ci_version slot \<noteq> vw_version v \<or> vw_last_key v \<noteq> vw_last_key (refreshed scale slot v)
     then composite_into_staging scale (refreshed scale slot v) else refreshed scale slot v)"
proof -
  let ?u = "v\<lparr>vw_visible := ci_visible slot, vw_shape := (if ci_version slot \<noteq> vw_version v then ci_shape slot else vw_shape v),
     vw_version := ci_version slot\<rparr>"
  let ?v2 = "if ci_version slot \<noteq> vw_version v then (v\<lparr>vw_visible := ci_visible slot\<rparr>)\<lparr>vw_shape := ci_shape slot, vw_version := ci_version slot\<rparr>
    else v\<lparr>vw_visible := ci_visible slot\<rparr>"
  have v2: "?v2 = ?u" by (cases "ci_version slot = vw_version v") (auto intro!: VkViewer.equality)
  have keep: "vw_last_key x = k \<Longrightarrow> x\<lparr>vw_last_key := k\<rparr> = x" for x :: VkViewer and k by (auto intro!: VkViewer.equality)
  have r: "refreshed scale slot v = ?u\<lparr>vw_last_key := Some (cursor_key scale ?u)\<rparr>" by (simp add: refreshed_def Let_def)
  have "refresh_overlay scale slot new v =
     (let need1 = (new \<or> ci_version slot \<noteq> vw_version v) in
      if vw_last_key ?v2 \<noteq> Some (cursor_key scale ?v2) then composite_into_staging scale (?v2\<lparr>vw_last_key := Some (cursor_key scale ?v2)\<rparr>)
      else if need1 then composite_into_staging scale ?v2 else ?v2)"
    by (simp add: refresh_overlay_def cursor_slot_snapshot_def Let_def split del: if_split)
      (simp split: if_split)
  also have "\<dots> = (if new \<or> ci_version slot \<noteq> vw_version v \<or> vw_last_key v \<noteq> vw_last_key (refreshed scale slot v)
     then composite_into_staging scale (refreshed scale slot v) else refreshed scale slot v)"
  proof (cases "vw_last_key v = Some (cursor_key scale ?u)")
    case True
    then have "refreshed scale slot v = ?u" unfolding r by (intro keep) simp
    with True show ?thesis unfolding v2 by simp
  next
    case False
    then have "vw_last_key v \<noteq> vw_last_key (refreshed scale slot v)" by (simp add: r)
    with False show ?thesis unfolding v2 r by simp
  qed
  finally show ?thesis .
qed

lemma refresh_overlay_run:
  assumes before: "if new then ready v else viewer_inv v" and v'_def: "v' = refresh_overlay scale slot new v"
  shows "viewer_inv v' \<and> vw_presented v' = vw_presented v \<and> vw_last_key v' = Some (cursor_key scale v') \<and>
    content v' = content (refreshed scale slot v)"
proof -
  let ?r = "refreshed scale slot v"
  have r: "vw_frame ?r = vw_frame v" "vw_layouts_ok ?r = vw_layouts_ok v" "vw_fence ?r = vw_fence v" "vw_clean ?r = vw_clean v"
    "vw_clean_w ?r = vw_clean_w v" "vw_clean_h ?r = vw_clean_h v" "vw_presented ?r = vw_presented v"
    "vw_last_key ?r = Some (cursor_key scale ?r)" by (simp_all add: refreshed_def Let_def cursor_key_ignores)
  have key: "vw_last_key u = Some (cursor_key scale u)" if "content u = content ?r" for u
    using r(8) content_eqs [OF that] by (simp add: cursor_key_def cursor_origin_def Let_def split: option.splits)
  have "viewer_inv v' \<and> vw_presented v' = vw_presented v \<and> content v' = content ?r"
  proof (cases "new \<or> ci_version slot \<noteq> vw_version v \<or> vw_last_key v \<noteq> vw_last_key ?r")
    case True
    then have v': "v' = composite_into_staging scale ?r" by (simp add: v'_def refresh_overlay_alt)
    show ?thesis
    proof (cases "vw_frame v")
      case None
      with before r show ?thesis by (auto simp: v' composite_none viewer_inv_def ready_def split: if_splits)
    next
      case (Some f)
      then have "ready v" using before inv_ready by (auto split: if_splits)
      then have "ready ?r" by (rule ready_cong) (simp_all add: r)
      with composite_ready [OF this r(8)] show ?thesis by (simp add: v' r(7))
    qed
  next
    case False
    then have v': "v' = ?r" by (simp add: v'_def refresh_overlay_alt)
    have s: "vw_shape ?r = vw_shape v" using False by (simp add: refreshed_def Let_def)
    have k: "keyed_overlay ?r k = keyed_overlay v k" "frame_bytes ?r = frame_bytes v" for k
      by (simp_all only: keyed_overlay_def frame_bytes_def r(4-6) s)
    have "sized ?r f = sized v f" "composed ?r f = composed v f" "gpu_synced ?r f = gpu_synced v f" for f
      using False by (simp_all add: sized_def composed_def gpu_synced_def staged_def k r(4-6))
    with before False show ?thesis by (simp add: v' r(7)) (simp add: viewer_inv_def r(1-3) split: option.splits)
  qed
  with key show ?thesis by blast
qed

text \<open>With the key current, the picture is the clean frame with the cursor on it.\<close>

lemma picture_current:
  "viewer_inv v \<Longrightarrow> vw_last_key v = Some (cursor_key scale v) \<Longrightarrow> picture v = map_option (\<lambda>_. overlay scale v) (vw_frame v)"
  by (auto simp: viewer_inv_def picture_def composed_def overlay_keyed split: option.splits)

lemma key_content:
  assumes "content u = content v"
  shows "cursor_key scale u = cursor_key scale v"
  by (simp only: cursor_key_def cursor_origin_def content_eqs [OF assms])

lemma overlay_content:
  assumes "content u = content v"
  shows "overlay scale u = overlay scale v"
  by (simp only: overlay_keyed key_content [OF assms] keyed_overlay_content [OF assms])

subsection \<open>One draw\<close>

definition shape_after :: "CursorSlot \<Rightarrow> VkViewer \<Rightarrow> CursorShape option" where
  "shape_after slot v = (if ci_version slot \<noteq> vw_version v then ci_shape slot else vw_shape v)"

lemma refreshed_fields:
  "vw_visible (refreshed scale slot v) = ci_visible slot" "vw_version (refreshed scale slot v) = ci_version slot"
  "vw_shape (refreshed scale slot v) = shape_after slot v" "vw_local_cursor (refreshed scale slot v) = vw_local_cursor v"
  "vw_clean (refreshed scale slot v) = vw_clean v" "vw_clean_w (refreshed scale slot v) = vw_clean_w v"
  "vw_clean_h (refreshed scale slot v) = vw_clean_h v"
  by (simp_all add: refreshed_def Let_def shape_after_def)

definition same_frame :: "VkViewer \<Rightarrow> VkViewer \<Rightarrow> bool" where
  "same_frame v v' = (vw_clean v' = vw_clean v \<and> vw_clean_w v' = vw_clean_w v \<and> vw_clean_h v' = vw_clean_h v)"

definition drawn_frame :: "DecodedFrame option \<Rightarrow> VkViewer \<Rightarrow> VkViewer \<Rightarrow> bool" where
  "drawn_frame new_frame v v' = (case new_frame of None \<Rightarrow> same_frame v v' | Some f \<Rightarrow> shows_frame f v')"

text \<open>What a draw does: the sprite cache holds what it held or the slot's sprite, and a presentation shows the frame
  with the slot's cursor.\<close>

definition good_draw :: "(u32 \<Rightarrow> u32 \<Rightarrow> int) \<Rightarrow> CursorSlot \<Rightarrow> DecodedFrame option \<Rightarrow> VkViewer \<Rightarrow> unit outcome \<Rightarrow> VkViewer \<Rightarrow> bool" where
  "good_draw scale slot new_frame v r v' = (viewer_inv v' \<and>
     ((vw_version v' = vw_version v \<and> vw_shape v' = vw_shape v) \<or> (vw_version v' = ci_version slot \<and> vw_shape v' = shape_after slot v)) \<and>
     (vw_presented v' = vw_presented v \<or> (r = Done () \<and> (\<exists>img. vw_presented v' = vw_presented v @ [(img, map_option (\<lambda>_. overlay scale v') (vw_frame v'))]) \<and>
        vw_shape v' = shape_after slot v \<and> vw_visible v' = ci_visible slot \<and> vw_local_cursor v' = vw_local_cursor v \<and>
        drawn_frame new_frame v v')))"

lemma draw_tail:
  assumes before: "if new_frame \<noteq> None then ready u else viewer_inv u"
    and run: "present_frame W S (refresh_overlay scale slot (new_frame \<noteq> None) u) = (r, v')"
    and same: "vw_version u = vw_version v" "vw_shape u = vw_shape v" "vw_presented u = vw_presented v" "vw_local_cursor u = vw_local_cursor v"
    and frame: "drawn_frame new_frame v u"
  shows "good_draw scale slot new_frame v r v'"
proof -
  let ?o = "refresh_overlay scale slot (new_frame \<noteq> None) u"
  note o = refresh_overlay_run [OF before refl, of scale slot]
  then have inv: "viewer_inv ?o" and key: "vw_last_key ?o = Some (cursor_key scale ?o)" and c: "content ?o = content (refreshed scale slot u)"
    and shown: "vw_presented ?o = vw_presented v" using same(3) by auto
  from present_frame_presents [OF inv run] have p: "presents ?o r v'" .
  then have c': "content v' = content (refreshed scale slot u)" and inv': "viewer_inv v'" using c by (simp_all add: presents_def)
  have key': "vw_last_key v' = Some (cursor_key scale v')"
    using key p content_eqs(8) [of v' ?o] key_content [of v' ?o] by (simp add: presents_def)
  have f: "vw_version v' = ci_version slot" "vw_shape v' = shape_after slot v" "vw_visible v' = ci_visible slot"
      "vw_local_cursor v' = vw_local_cursor v" "vw_clean v' = vw_clean u" "vw_clean_w v' = vw_clean_w u" "vw_clean_h v' = vw_clean_h u"
    using content_eqs [OF c'] same by (simp_all add: refreshed_fields shape_after_def)
  have "drawn_frame new_frame v v'" using frame f(5-7) by (auto simp: drawn_frame_def same_frame_def shows_frame_def split: option.splits)
  with p inv' f shown picture_current [OF inv' key'] show ?thesis by (auto simp: good_draw_def presents_def)
qed

lemma draw_good:
  assumes inv: "viewer_inv v" and ok: "\<And>f. new_frame = Some f \<Longrightarrow> frame_ok f" and run: "draw W S scale slot new_frame v = (r, v')"
  shows "good_draw scale slot new_frame v r v'"
  using run unfolding draw_def
proof (cases rule: win_let_cases)
  case (1 x w)
  have w: "still v w" using 1(1) quiet_recreate [of W S] by (auto simp: quiet_def split: if_splits) (metis snd_conv)
  then have invw: "viewer_inv w" using viewer_inv_still [OF inv] by simp
  have c: "vw_version w = vw_version v" "vw_shape w = vw_shape v" "vw_presented w = vw_presented v" "vw_local_cursor w = vw_local_cursor v"
    "same_frame v w" using w by (simp_all add: still_def content_def same_frame_def)
  show ?thesis
  proof (cases "fst (vw_extent w) = 0 \<or> vw_swapchain w = 0")
    case True
    with 1(2) invw c show ?thesis by (auto simp: good_draw_def)
  next
    case False
    then have "win_let (take_frame W new_frame) (\<lambda>_. win_let (win_mod (refresh_overlay scale slot (new_frame \<noteq> None))) (\<lambda>_. present_frame W S)) w = (r, v')"
      using 1(2) by auto
    then show ?thesis
    proof (cases rule: win_let_cases)
      case (1 y u)
      have tail: "present_frame W S (refresh_overlay scale slot (new_frame \<noteq> None) u) = (r, v')"
        using 1(2) by (simp add: win_let_def [of "win_mod _"] win_mod_def)
      show ?thesis
      proof (cases new_frame)
        case None
        with 1(1) have "u = w" by (simp add: take_frame_def win_ret_def)
        with None invw c show ?thesis by (intro draw_tail [OF _ tail]) (auto simp: drawn_frame_def)
      next
        case (Some f)
        with take_frame_run [OF invw ok [OF Some]] 1(1) c show ?thesis
          by (intro draw_tail [OF _ tail]) (auto simp: drawn_frame_def)
      qed
    next
      case (2 e)
      then obtain f where f: "new_frame = Some f" by (cases new_frame) (auto simp: take_frame_def win_ret_def)
      with take_frame_run [OF invw ok [OF f]] 2 c show ?thesis by (auto simp: good_draw_def)
    next
      case 3
      then obtain f where f: "new_frame = Some f" by (cases new_frame) (auto simp: take_frame_def win_ret_def)
      with take_frame_run [OF invw ok [OF f]] 3 show ?thesis by auto
    qed
  qed
next
  case (2 e)
  have w: "still v v'" using 2(1) quiet_recreate [of W S] by (auto simp: quiet_def split: if_splits) (metis snd_conv)
  with viewer_inv_still [OF inv] show ?thesis by (simp add: good_draw_def still_def content_def)
next
  case 3
  have w: "still v v'" using 3(1) quiet_recreate [of W S] by (auto simp: quiet_def split: if_splits) (metis snd_conv)
  with viewer_inv_still [OF inv] show ?thesis by (simp add: good_draw_def still_def content_def)
qed

end
