(* ===== verification/Viewer_Input.thy ===== *)
theory Viewer_Input
  imports Replay_Frame
begin

text \<open>
  \<open>viewer/src/input.rs\<close>: window events as the JSON texts the server understands. A key code is its name in
  winit's \<open>KeyCode\<close>, with a table of the codes QEMU knows; the buttons beyond the first three and the keys outside the
  table have no text. An \<open>f64\<close> is its bit pattern, and the formatting of a clamped fraction to four places is an
  argument. The lemmas show that a text says one thing only, which is what lets the far side follow what is held.
\<close>

subsection \<open>Texts\<close>

type_synonym KeyCode = string

datatype MouseButton = LeftButton | RightButton | MiddleButton | BackButton | ForwardButton | OtherButton u16

definition flag_text :: "bool \<Rightarrow> string" where
  "flag_text down = (if down then ''1'' else ''0'')"

definition mouse_move :: "(u64 \<Rightarrow> string) \<Rightarrow> u64 \<Rightarrow> u64 \<Rightarrow> string" where
  "mouse_move fixed4 x y = ''{\"t\":\"m\",\"x\":'' @ fixed4 x @ '',\"y\":'' @ fixed4 y @ ''}''"

definition button_name :: "MouseButton \<Rightarrow> string option" where
  "button_name b = (case b of LeftButton \<Rightarrow> Some ''l'' | RightButton \<Rightarrow> Some ''r'' | MiddleButton \<Rightarrow> Some ''m'' | _ \<Rightarrow> None)"

definition mouse_button :: "MouseButton \<Rightarrow> bool \<Rightarrow> string option" where
  "mouse_button button down = (case button_name button of None \<Rightarrow> None
     | Some b \<Rightarrow> Some (''{\"t\":\"b\",\"b\":\"'' @ b @ ''\",\"d\":'' @ flag_text down @ ''}''))"

text \<open>\<open>dy == 0.0\<close> on the bits: zero of either sign. A NaN is neither that nor positive.\<close>

definition f32_is_zero :: "u32 \<Rightarrow> bool" where
  "f32_is_zero b = (b = 0 \<or> b = 0x80000000)"

definition wheel :: "u32 \<Rightarrow> string option" where
  "wheel dy = (if f32_is_zero dy then None
     else Some (''{\"t\":\"w\",\"d\":'' @ (if f32_positive dy then ''1'' else ''-1'') @ ''}''))"

definition qcode_table :: "(KeyCode \<times> string) list" where
  "qcode_table =
    [(''KeyA'', ''a''), (''KeyB'', ''b''), (''KeyC'', ''c''), (''KeyD'', ''d''), (''KeyE'', ''e''), (''KeyF'', ''f''),
     (''KeyG'', ''g''), (''KeyH'', ''h''), (''KeyI'', ''i''), (''KeyJ'', ''j''), (''KeyK'', ''k''), (''KeyL'', ''l''),
     (''KeyM'', ''m''), (''KeyN'', ''n''), (''KeyO'', ''o''), (''KeyP'', ''p''), (''KeyQ'', ''q''), (''KeyR'', ''r''),
     (''KeyS'', ''s''), (''KeyT'', ''t''), (''KeyU'', ''u''), (''KeyV'', ''v''), (''KeyW'', ''w''), (''KeyX'', ''x''),
     (''KeyY'', ''y''), (''KeyZ'', ''z''), (''Digit0'', ''0''), (''Digit1'', ''1''), (''Digit2'', ''2''),
     (''Digit3'', ''3''), (''Digit4'', ''4''), (''Digit5'', ''5''), (''Digit6'', ''6''), (''Digit7'', ''7''),
     (''Digit8'', ''8''), (''Digit9'', ''9''), (''Enter'', ''ret''), (''Escape'', ''esc''), (''Space'', ''spc''),
     (''Backspace'', ''backspace''), (''Tab'', ''tab''), (''CapsLock'', ''caps_lock''), (''ShiftLeft'', ''shift''),
     (''ShiftRight'', ''shift_r''), (''ControlLeft'', ''ctrl''), (''ControlRight'', ''ctrl_r''), (''AltLeft'', ''alt''),
     (''AltRight'', ''alt_r''), (''SuperLeft'', ''meta_l''), (''SuperRight'', ''meta_r''), (''ContextMenu'', ''menu''),
     (''Minus'', ''minus''), (''Equal'', ''equal''), (''BracketLeft'', ''bracket_left''),
     (''BracketRight'', ''bracket_right''), (''Backslash'', ''backslash''), (''Semicolon'', ''semicolon''),
     (''Quote'', ''apostrophe''), (''Comma'', ''comma''), (''Period'', ''dot''), (''Slash'', ''slash''),
     (''Backquote'', ''grave_accent''), (''ArrowUp'', ''up''), (''ArrowDown'', ''down''), (''ArrowLeft'', ''left''),
     (''ArrowRight'', ''right''), (''Home'', ''home''), (''End'', ''end''), (''PageUp'', ''pgup''), (''PageDown'', ''pgdn''),
     (''Insert'', ''insert''), (''Delete'', ''delete''), (''F1'', ''f1''), (''F2'', ''f2''), (''F3'', ''f3''),
     (''F4'', ''f4''), (''F5'', ''f5''), (''F6'', ''f6''), (''F7'', ''f7''), (''F8'', ''f8''), (''F9'', ''f9''),
     (''F10'', ''f10''), (''F11'', ''f11''), (''F12'', ''f12''), (''Numpad0'', ''kp_0''), (''Numpad1'', ''kp_1''),
     (''Numpad2'', ''kp_2''), (''Numpad3'', ''kp_3''), (''Numpad4'', ''kp_4''), (''Numpad5'', ''kp_5''),
     (''Numpad6'', ''kp_6''), (''Numpad7'', ''kp_7''), (''Numpad8'', ''kp_8''), (''Numpad9'', ''kp_9''),
     (''NumpadAdd'', ''kp_add''), (''NumpadSubtract'', ''kp_subtract''), (''NumpadMultiply'', ''kp_multiply''),
     (''NumpadDivide'', ''kp_divide''), (''NumpadEnter'', ''kp_enter''), (''NumpadDecimal'', ''kp_decimal'')]"

definition qcode :: "KeyCode \<Rightarrow> string option" where
  "qcode code = map_of qcode_table code"

definition key :: "KeyCode \<Rightarrow> bool \<Rightarrow> string option" where
  "key code down = (case qcode code of None \<Rightarrow> None
     | Some q \<Rightarrow> Some (''{\"t\":\"k\",\"q\":\"'' @ q @ ''\",\"d\":'' @ flag_text down @ ''}''))"

subsection \<open>A text says one thing\<close>

lemma flag_text_eq [simp]: "flag_text a = flag_text b \<longleftrightarrow> a = b"
  by (simp add: flag_text_def)

lemma distinct_qcodes: "distinct (map snd qcode_table)"
  by (simp add: qcode_table_def)

lemma qcode_inj:
  assumes "qcode c = Some q" "qcode c' = Some q"
  shows "c = c'"
proof -
  have "(c, q) \<in> set qcode_table" "(c', q) \<in> set qcode_table"
    using assms by (auto simp: qcode_def dest: map_of_SomeD)
  moreover have "inj_on snd (set qcode_table)" using distinct_qcodes by (simp add: distinct_map)
  ultimately show ?thesis using inj_onD [of snd "set qcode_table" "(c, q)" "(c', q)"] by simp
qed

lemma key_text_inj:
  assumes "key c d = Some m" "key c' d' = Some m"
  shows "c' = c \<and> d' = d"
proof -
  obtain q q' where q: "qcode c = Some q" "qcode c' = Some q'"
    "m = ''{\"t\":\"k\",\"q\":\"'' @ q @ ''\",\"d\":'' @ flag_text d @ ''}''" "m = ''{\"t\":\"k\",\"q\":\"'' @ q' @ ''\",\"d\":'' @ flag_text d' @ ''}''"
    using assms by (auto simp: key_def split: option.splits)
  then have "q @ (''\",\"d\":'' @ flag_text d @ ''}'') = q' @ (''\",\"d\":'' @ flag_text d' @ ''}'')" by simp
  then have "q = q' \<and> ''\",\"d\":'' @ flag_text d @ ''}'' = ''\",\"d\":'' @ flag_text d' @ ''}''"
    by (subst (asm) append_eq_append_conv) (auto simp: flag_text_def)
  with q(1,2) show ?thesis using qcode_inj by (auto simp: flag_text_def split: if_splits)
qed

lemma button_text_inj: "mouse_button b d = Some m \<Longrightarrow> mouse_button b' d' = Some m \<Longrightarrow> b' = b \<and> d' = d"
  by (auto simp: mouse_button_def button_name_def flag_text_def split: option.splits MouseButton.splits if_splits)

text \<open>The fourth letter after the brace tells the four kinds apart.\<close>

lemma text_kinds:
  "key c d = Some m \<Longrightarrow> m ! 6 = CHR ''k''" "mouse_button b d = Some m \<Longrightarrow> m ! 6 = CHR ''b''"
  "wheel dy = Some m \<Longrightarrow> m ! 6 = CHR ''w''" "mouse_move fixed4 x y ! 6 = CHR ''m''"
  by (auto simp: key_def mouse_button_def wheel_def mouse_move_def split: option.splits if_splits)

subsection \<open>What the far side believes is held\<close>

definition held_after :: "string \<Rightarrow> string \<Rightarrow> string list \<Rightarrow> bool" where
  "held_after down up ms = fold (\<lambda>m held. if m = down then True else if m = up then False else held) ms False"

definition sent_text :: "string option \<Rightarrow> string list" where
  "sent_text t = (case t of None \<Rightarrow> [] | Some m \<Rightarrow> [m])"

lemma set_sent_text [simp]: "set (sent_text t) = set_option t"
  by (cases t) (simp_all add: sent_text_def)

definition tells :: "('k \<Rightarrow> bool \<Rightarrow> string option) \<Rightarrow> 'k set \<Rightarrow> string list \<Rightarrow> bool" where
  "tells say held ms = (\<forall>c down up. say c True = Some down \<longrightarrow> say c False = Some up \<longrightarrow> held_after down up ms = (c \<in> held))"

lemma held_after_snoc: "held_after down up (ms @ [m]) = (if m = down then True else if m = up then False else held_after down up ms)"
  by (simp add: held_after_def)

lemma tells_none: "tells say {} []"
  by (simp add: tells_def held_after_def)

text \<open>The contract of a family of press and release texts.\<close>

locale press_texts =
  fixes say :: "'k \<Rightarrow> bool \<Rightarrow> string option"
  assumes say_inj: "say c d = Some m \<Longrightarrow> say c' d' = Some m \<Longrightarrow> c' = c \<and> d' = d"
    and say_both: "say c d = None \<Longrightarrow> say c d' = None"
begin

lemma tells_unsaid: "say c d = None \<Longrightarrow> tells say held ms \<Longrightarrow> tells say (if d then insert c held else held - {c}) ms"
  using say_both [of c d] by (fastforce simp: tells_def)

lemma tells_said:
  assumes "say c d = Some m" "tells say held ms"
  shows "tells say (if d then insert c held else held - {c}) (ms @ [m])"
  unfolding tells_def
proof (intro allI impI)
  fix c' down up
  assume t: "say c' True = Some down" "say c' False = Some up"
  have old: "held_after down up ms = (c' \<in> held)" using assms(2) t by (simp add: tells_def)
  have "m = down \<longleftrightarrow> c' = c \<and> d" using say_inj [OF assms(1), of c' True] t(1) assms(1) by auto
  moreover have "m = up \<longleftrightarrow> c' = c \<and> \<not> d" using say_inj [OF assms(1), of c' False] t(2) assms(1) by auto
  ultimately show "held_after down up (ms @ [m]) = (c' \<in> (if d then insert c held else held - {c}))"
    by (auto simp: held_after_snoc old)
qed

lemma tells_other:
  assumes "\<And>c d m. m \<in> set ms' \<Longrightarrow> say c d \<noteq> Some m" "tells say held ms"
  shows "tells say held (ms @ ms')"
  using assms(1)
proof (induction ms' rule: rev_induct)
  case Nil
  then show ?case using assms(2) by simp
next
  case (snoc m ms')
  then have "tells say held (ms @ ms')" "\<And>c d. say c d \<noteq> Some m" by auto
  then show ?case by (simp add: tells_def held_after_snoc flip: append_assoc) metis
qed

lemma tells_step:
  "tells say held ms \<Longrightarrow> tells say (if d then insert c held else held - {c}) (ms @ sent_text (say c d))"
  using tells_said tells_unsaid by (cases "say c d") (auto simp: sent_text_def)

lemma tells_releases:
  "tells say held ms \<Longrightarrow> tells say (held - set cs) (ms @ concat (map (\<lambda>c. sent_text (say c False)) cs))"
proof (induction cs rule: rev_induct)
  case (snoc c cs)
  have "held - set (cs @ [c]) = held - set cs - {c}" by auto
  with tells_step [OF snoc.IH [OF snoc.prems], of False c] show ?case by simp
qed simp

end

interpretation key_texts: press_texts key
proof unfold_locales
  show "key c d = Some m \<Longrightarrow> key c' d' = Some m \<Longrightarrow> c' = c \<and> d' = d" for c d m c' d' by (rule key_text_inj)
  show "key c d = None \<Longrightarrow> key c d' = None" for c d d' by (simp add: key_def split: option.splits)
qed

interpretation button_texts: press_texts mouse_button
proof unfold_locales
  show "mouse_button c d = Some m \<Longrightarrow> mouse_button c' d' = Some m \<Longrightarrow> c' = c \<and> d' = d" for c d m c' d' by (rule button_text_inj)
  show "mouse_button c d = None \<Longrightarrow> mouse_button c d' = None" for c d d' by (simp add: mouse_button_def split: option.splits)
qed

end
