(* ===== verification/Viewer_App.thy ===== *)
theory Viewer_App
  imports Viewer_Draw Viewer_Input
begin

text \<open>
  \<open>viewer/src/window.rs\<close>, the event half: \<open>App\<close>, which creates the window and the Vulkan viewer, starts the network
  thread, draws the newest frame on every redraw and forwards input. The network thread's two effects on it, a frame put
  into the slot and a plane message into the cursor slot, are steps of their own between the window's events.

  A \<open>HashSet\<close> is the list of its elements. What the environment does is in \<open>AppEnv\<close>: the two drivers, the float operations, and the order in which a drained
  \<open>HashSet\<close> gives its elements. A draw that does not return leaves the window's thread stuck: later window events are
  not handled. Redraw requests and logging are not modelled.
\<close>

subsection \<open>State\<close>

record AppEnv =
  en_driver :: driver
  en_surface :: surface
  en_scale :: "u32 \<Rightarrow> u32 \<Rightarrow> int"
  en_divide :: "u64 \<Rightarrow> u32 \<Rightarrow> u64"
  en_narrow :: "u64 \<Rightarrow> u32"
  en_fixed4 :: "u64 \<Rightarrow> string"
  en_keys :: "KeyCode list \<Rightarrow> KeyCode list"
  en_buttons :: "MouseButton list \<Rightarrow> MouseButton list"

record App =
  app_window :: bool
  app_vk :: "VkViewer option"
  app_slot :: FrameSlot
  app_cursor :: CursorSlot
  app_os_cursor_hidden :: bool
  app_net_started :: bool
  app_sent :: "string list"
  app_keys :: "KeyCode list"
  app_buttons :: "MouseButton list"
  app_exit :: bool
  app_stuck :: bool

definition App_new :: App where
  "App_new = \<lparr>app_window = False, app_vk = None, app_slot = FrameSlot_new, app_cursor = CursorSlot_new, app_os_cursor_hidden = False,
     app_net_started = False, app_sent = [], app_keys = [], app_buttons = [], app_exit = False, app_stuck = False\<rparr>"

subsection \<open>Input\<close>

definition send_input :: "string option \<Rightarrow> App \<Rightarrow> App" where
  "send_input msg a = (case msg of None \<Rightarrow> a | Some m \<Rightarrow> a\<lparr>app_sent := app_sent a @ [m]\<rparr>)"

definition release_all :: "AppEnv \<Rightarrow> App \<Rightarrow> App" where
  "release_all E a =
    (let a1 = fold (\<lambda>code. send_input (key code False)) (en_keys E (app_keys a)) (a\<lparr>app_keys := []\<rparr>)
     in fold (\<lambda>button. send_input (mouse_button button False)) (en_buttons E (app_buttons a1)) (a1\<lparr>app_buttons := []\<rparr>))"

definition pointer_at :: "(u32 \<times> u32) option \<Rightarrow> App \<Rightarrow> App" where
  "pointer_at pos a = a\<lparr>app_vk := map_option (set_local_cursor pos) (app_vk a)\<rparr>"

subsection \<open>Window events\<close>

text \<open>\<open>resumed\<close>: whether the window could be created, and what the constructor's calls before the first swapchain gave.\<close>

definition resumed :: "AppEnv \<Rightarrow> bool \<Rightarrow> (Device \<times> mem_types) option \<Rightarrow> u32 \<times> u32 \<Rightarrow> App \<Rightarrow> App" where
  "resumed E made setup dims a =
    (if app_window a then a
     else if \<not> made then a\<lparr>app_exit := True\<rparr>
     else (case setup of None \<Rightarrow> a\<lparr>app_exit := True\<rparr>
       | Some (dev, mems) \<Rightarrow>
           (case recreate_swapchain (en_driver E) (en_surface E) (viewer_new dev mems (fst dims) (snd dims)) of
              (Done _, v) \<Rightarrow> a\<lparr>app_vk := Some v, app_net_started := True, app_window := True\<rparr>
            | (Failed _, _) \<Rightarrow> a\<lparr>app_exit := True\<rparr>
            | (NoReturn, _) \<Rightarrow> a\<lparr>app_stuck := True\<rparr>)))"

datatype wheel_delta = LineDelta u32 u32 | PixelDelta u64 u64

datatype win_event = CloseRequested | Resized u32 u32 | RedrawRequested
  | CursorMoved "u64 \<times> u64" "u32 \<times> u32" | CursorLeft | MouseInput MouseButton bool | MouseWheel wheel_delta
  | KeyboardInput bool "KeyCode option" bool | Focused bool | OtherEvent

definition redraw :: "AppEnv \<Rightarrow> App \<Rightarrow> App" where
  "redraw E a = (case app_vk a of
     None \<Rightarrow> a
   | Some v \<Rightarrow>
       if app_window a then
         (case slot_take (app_slot a) of (frame, slot) \<Rightarrow>
          (case draw (en_driver E) (en_surface E) (en_scale E) (app_cursor a) frame v of (r, v') \<Rightarrow>
             a\<lparr>app_os_cursor_hidden := cursor_slot_has_shape (app_cursor a), app_slot := slot, app_vk := Some v',
               app_stuck := (r = NoReturn)\<rparr>))
       else a)"

fun window_event :: "AppEnv \<Rightarrow> win_event \<Rightarrow> App \<Rightarrow> App" where
  "window_event E CloseRequested a = a\<lparr>app_exit := True\<rparr>"
| "window_event E (Resized w h) a = a\<lparr>app_vk := map_option (mark_dirty w h) (app_vk a)\<rparr>"
| "window_event E RedrawRequested a = redraw E a"
| "window_event E (CursorMoved (px, py) (w, h)) a =
    (if app_window a \<and> 0 < w \<and> 0 < h then
       let x = en_divide E px w; y = en_divide E py h in
       send_input (Some (mouse_move (en_fixed4 E) x y)) (pointer_at (Some (en_narrow E x, en_narrow E y)) a)
     else a)"
| "window_event E CursorLeft a = pointer_at None a"
| "window_event E (MouseInput button pressed) a =
    send_input (mouse_button button pressed)
      (a\<lparr>app_buttons := (if pressed then List.insert button (app_buttons a) else removeAll button (app_buttons a))\<rparr>)"
| "window_event E (MouseWheel (LineDelta x y)) a = send_input (wheel y) a"
| "window_event E (MouseWheel (PixelDelta x y)) a = send_input (wheel (en_narrow E y)) a"
| "window_event E (KeyboardInput repeat (Some code) pressed) a =
    (if repeat then a
     else send_input (key code pressed)
       (a\<lparr>app_keys := (if pressed then List.insert code (app_keys a) else removeAll code (app_keys a))\<rparr>))"
| "window_event E (KeyboardInput repeat None pressed) a = a"
| "window_event E (Focused False) a = pointer_at None (release_all E a)"
| "window_event E (Focused True) a = a"
| "window_event E OtherEvent a = a"

subsection \<open>Runs\<close>

datatype app_event = NetFrame DecodedFrame | NetPlane bytes
  | WindowResumed bool "(Device \<times> mem_types) option" "u32 \<times> u32" | WindowEvent win_event

definition app_step :: "AppEnv \<Rightarrow> app_event \<Rightarrow> App \<Rightarrow> App" where
  "app_step E e a = (case e of
     NetFrame f \<Rightarrow> a\<lparr>app_slot := slot_put f (app_slot a)\<rparr>
   | NetPlane data \<Rightarrow> a\<lparr>app_cursor := cursor_plane data (app_cursor a)\<rparr>
   | WindowResumed made setup dims \<Rightarrow> if app_stuck a then a else resumed E made setup dims a
   | WindowEvent w \<Rightarrow> if app_stuck a then a else window_event E w a)"

definition app_run :: "AppEnv \<Rightarrow> app_event list \<Rightarrow> App" where
  "app_run E es = fold (app_step E) es App_new"

end
