(* ===== verification/Viewer_Session.thy ===== *)
theory Viewer_Session
  imports Viewer_App
begin

text \<open>
  Runs of the viewer, any order of network and window events: the server is told exactly what is held, and what a redraw
  presents is the newest frame with the cursor the slot holds.
\<close>

subsection \<open>Input\<close>

lemma send_input_alt: "send_input msg a = a\<lparr>app_sent := app_sent a @ sent_text msg\<rparr>"
  by (cases msg) (simp_all add: send_input_def sent_text_def)

lemma send_inputs:
  "fold (\<lambda>x. send_input (f x)) xs a = a\<lparr>app_sent := app_sent a @ concat (map (\<lambda>x. sent_text (f x)) xs)\<rparr>"
  by (induction xs arbitrary: a) (simp_all add: send_input_alt)

text \<open>What \<open>HashSet::drain\<close> promises of the order it chooses.\<close>

definition drains :: "AppEnv \<Rightarrow> bool" where
  "drains E = ((\<forall>K. set (en_keys E K) = set K) \<and> (\<forall>B. set (en_buttons E B) = set B))"

definition input_ok :: "App \<Rightarrow> bool" where
  "input_ok a = (tells key (set (app_keys a)) (app_sent a) \<and> tells mouse_button (set (app_buttons a)) (app_sent a))"

lemma input_ok_cong:
  "input_ok a \<Longrightarrow> app_keys a' = app_keys a \<Longrightarrow> app_buttons a' = app_buttons a \<Longrightarrow> app_sent a' = app_sent a \<Longrightarrow> input_ok a'"
  by (simp add: input_ok_def)

lemma foreign_texts:
  "key c d = Some m \<Longrightarrow> mouse_button b d' \<noteq> Some m" "mouse_button b d' = Some m \<Longrightarrow> key c d \<noteq> Some m"
  "wheel dy = Some m \<Longrightarrow> key c d \<noteq> Some m" "wheel dy = Some m \<Longrightarrow> mouse_button b d' \<noteq> Some m"
  using text_kinds(1) [of c d m] text_kinds(2) [of b d' m] text_kinds(3) [of dy m] by auto

lemma move_is_foreign: "key c d \<noteq> Some (mouse_move g x y)" "mouse_button b d' \<noteq> Some (mouse_move g x y)"
  using text_kinds(1) [of c d "mouse_move g x y"] text_kinds(2) [of b d' "mouse_move g x y"] text_kinds(4) [of g x y] by auto

lemma input_ok_key:
  assumes "input_ok a"
  shows "input_ok (send_input (key c d) (a\<lparr>app_keys := (if d then List.insert c (app_keys a) else removeAll c (app_keys a))\<rparr>))"
proof -
  have "tells mouse_button (set (app_buttons a)) (app_sent a @ sent_text (key c d))"
    by (rule button_texts.tells_other) (use assms foreign_texts(1) in \<open>simp_all add: input_ok_def\<close>)
  moreover have "tells key (if d then insert c (set (app_keys a)) else set (app_keys a) - {c}) (app_sent a @ sent_text (key c d))"
    using assms by (intro key_texts.tells_step) (simp add: input_ok_def)
  ultimately show ?thesis using assms by (cases d) (simp_all add: input_ok_def send_input_alt)
qed

lemma input_ok_button:
  assumes "input_ok a"
  shows "input_ok (send_input (mouse_button c d) (a\<lparr>app_buttons := (if d then List.insert c (app_buttons a) else removeAll c (app_buttons a))\<rparr>))"
proof -
  have "tells key (set (app_keys a)) (app_sent a @ sent_text (mouse_button c d))"
    by (rule key_texts.tells_other) (use assms foreign_texts(2) in \<open>simp_all add: input_ok_def\<close>)
  moreover have "tells mouse_button (if d then insert c (set (app_buttons a)) else set (app_buttons a) - {c}) (app_sent a @ sent_text (mouse_button c d))"
    using assms by (intro button_texts.tells_step) (simp add: input_ok_def)
  ultimately show ?thesis using assms by (cases d) (simp_all add: input_ok_def send_input_alt)
qed

lemma input_ok_other:
  assumes "input_ok a" "\<And>m c d. msg = Some m \<Longrightarrow> key c d \<noteq> Some m" "\<And>m c d. msg = Some m \<Longrightarrow> mouse_button c d \<noteq> Some m"
  shows "input_ok (send_input msg a)"
  using assms key_texts.tells_other [of "sent_text msg" "set (app_keys a)" "app_sent a"] button_texts.tells_other [of "sent_text msg" "set (app_buttons a)" "app_sent a"]
  by (auto simp: input_ok_def send_input_alt)

lemma release_all_run:
  assumes "input_ok a" "drains E"
  shows "input_ok (release_all E a) \<and> app_keys (release_all E a) = [] \<and> app_buttons (release_all E a) = []"
proof -
  let ?ks = "concat (map (\<lambda>c. sent_text (key c False)) (en_keys E (app_keys a)))"
  let ?bs = "concat (map (\<lambda>b. sent_text (mouse_button b False)) (en_buttons E (app_buttons a)))"
  have r: "release_all E a = a\<lparr>app_sent := (app_sent a @ ?ks) @ ?bs, app_keys := [], app_buttons := []\<rparr>"
    by (simp add: release_all_def send_inputs Let_def)
  have drained: "set (en_keys E (app_keys a)) = set (app_keys a)" "set (en_buttons E (app_buttons a)) = set (app_buttons a)"
    using assms by (simp_all add: drains_def input_ok_def)
  have "tells key {} (app_sent a @ ?ks)"
    using key_texts.tells_releases [of "set (app_keys a)" "app_sent a" "en_keys E (app_keys a)"] assms(1) drained by (simp add: input_ok_def)
  then have keys: "tells key {} ((app_sent a @ ?ks) @ ?bs)"
    by (rule key_texts.tells_other [rotated]) (auto dest: foreign_texts)
  have "tells mouse_button (set (app_buttons a)) (app_sent a @ ?ks)"
    by (rule button_texts.tells_other) (use assms(1) in \<open>auto simp: input_ok_def dest: foreign_texts\<close>)
  then have "tells mouse_button {} ((app_sent a @ ?ks) @ ?bs)"
    using button_texts.tells_releases [of "set (app_buttons a)" "app_sent a @ ?ks" "en_buttons E (app_buttons a)"] drained by simp
  with keys show ?thesis by (simp add: r input_ok_def)
qed

lemma resumed_input: "app_keys (resumed E made setup dims a) = app_keys a \<and> app_buttons (resumed E made setup dims a) = app_buttons a \<and>
    app_sent (resumed E made setup dims a) = app_sent a"
  by (simp add: resumed_def split: option.split prod.split outcome.split)

lemma redraw_input: "app_keys (redraw E a) = app_keys a \<and> app_buttons (redraw E a) = app_buttons a \<and> app_sent (redraw E a) = app_sent a"
  by (simp add: redraw_def split: option.split prod.split)

lemma pointer_at_input [simp]:
  "app_keys (pointer_at p a) = app_keys a" "app_buttons (pointer_at p a) = app_buttons a" "app_sent (pointer_at p a) = app_sent a"
  by (simp_all add: pointer_at_def)

lemma input_ok_pointer [simp]: "input_ok (pointer_at p a) = input_ok a"
  by (simp add: input_ok_def)

lemma input_ok_wheel: "input_ok a \<Longrightarrow> input_ok (send_input (wheel dy) a)"
  by (rule input_ok_other) (use foreign_texts(3,4) in auto)

lemma input_ok_move: "input_ok a \<Longrightarrow> input_ok (send_input (Some (mouse_move g x y)) a)"
  by (rule input_ok_other) (use move_is_foreign in auto)

lemma window_event_input:
  assumes "input_ok a" "drains E"
  shows "input_ok (window_event E w a)"
proof (cases w)
  case RedrawRequested
  then show ?thesis using redraw_input input_ok_cong [OF assms(1)] by simp
next
  case (CursorMoved p q)
  then show ?thesis using assms(1) by (cases p; cases q) (simp add: Let_def input_ok_move)
next
  case (MouseInput b d)
  then show ?thesis using input_ok_button [OF assms(1)] by simp
next
  case (MouseWheel dy)
  then show ?thesis using input_ok_wheel [OF assms(1)] by (cases dy) simp_all
next
  case (KeyboardInput repeat code d)
  show ?thesis
  proof (cases code)
    case None
    with KeyboardInput assms(1) show ?thesis by simp
  next
    case (Some c)
    with KeyboardInput assms(1) input_ok_key [OF assms(1), of c d] show ?thesis by (cases repeat) simp_all
  qed
next
  case (Focused b)
  then show ?thesis using release_all_run [OF assms] assms(1) by (cases b) simp_all
qed (use assms(1) in \<open>simp_all add: input_ok_def\<close>)

lemma app_step_input:
  assumes "input_ok a" "drains E"
  shows "input_ok (app_step E e a)"
proof (cases e)
  case (WindowResumed x y z)
  then show ?thesis using assms(1) resumed_input [of E x y z a] input_ok_cong [OF assms(1)] by (simp add: app_step_def)
next
  case (WindowEvent w)
  then show ?thesis using assms(1) window_event_input [OF assms] by (simp add: app_step_def)
qed (use assms(1) in \<open>simp_all add: app_step_def input_ok_def\<close>)

lemma app_run_input: "drains E \<Longrightarrow> input_ok (app_run E es)"
  unfolding app_run_def
  by (rule fold_invariant [where Q = "\<lambda>_. True"]) (simp_all add: app_step_input, simp add: App_new_def input_ok_def tells_none)

text \<open>C19: Nothing sticks. After any run of network and window events, what the texts sent so far add up to at the far side is
  exactly the set of keys and buttons the window believes are down, for every key and button that has a text at all;
  and losing the focus sends what releases all of them.\<close>

theorem nothing_sticks:
  assumes "drains E"
  shows "tells key (set (app_keys (app_run E es))) (app_sent (app_run E es)) \<and>
    tells mouse_button (set (app_buttons (app_run E es))) (app_sent (app_run E es)) \<and>
    tells key {} (app_sent (window_event E (Focused False) (app_run E es))) \<and>
    tells mouse_button {} (app_sent (window_event E (Focused False) (app_run E es)))"
  using app_run_input [OF assms, of es] release_all_run [OF app_run_input [OF assms], of E es] assms
  by (auto simp: input_ok_def)

subsection \<open>Picture\<close>

lemma viewer_inv_pointer: "viewer_inv (set_local_cursor p v) = viewer_inv v"
proof -
  have f: "vw_clean (set_local_cursor p v) = vw_clean v" "vw_clean_w (set_local_cursor p v) = vw_clean_w v"
    "vw_clean_h (set_local_cursor p v) = vw_clean_h v" "vw_shape (set_local_cursor p v) = vw_shape v"
    "vw_last_key (set_local_cursor p v) = vw_last_key v" "vw_frame (set_local_cursor p v) = vw_frame v"
    "vw_fence (set_local_cursor p v) = vw_fence v" "vw_layouts_ok (set_local_cursor p v) = vw_layouts_ok v"
    by (simp_all add: set_local_cursor_def)
  then show ?thesis
    by (simp only: viewer_inv_def sized_def composed_def gpu_synced_def staged_def keyed_overlay_def frame_bytes_def)
qed

lemma viewer_inv_dirty: "viewer_inv v \<Longrightarrow> viewer_inv (mark_dirty w h v)"
  by (erule viewer_inv_still) (simp add: still_def content_def mark_dirty_def)

text \<open>The viewer's sprite cache is behind the slot, never beside it.\<close>

definition sprite_ok :: "CursorSlot \<Rightarrow> VkViewer \<Rightarrow> bool" where
  "sprite_ok c v = (unat (vw_version v) \<le> unat (ci_version c) \<and> (vw_version v = ci_version c \<longrightarrow> vw_shape v = ci_shape c))"

definition app_ok :: "nat \<Rightarrow> App \<Rightarrow> bool" where
  "app_ok n a = ((case app_vk a of None \<Rightarrow> True | Some v \<Rightarrow> viewer_inv v \<and> sprite_ok (app_cursor a) v) \<and>
     (case app_slot a of None \<Rightarrow> True | Some f \<Rightarrow> frame_ok f) \<and>
     (ci_version (app_cursor a) = 0 \<longrightarrow> ci_shape (app_cursor a) = None) \<and> unat (ci_version (app_cursor a)) \<le> n)"

lemma cursor_plane_cases:
  "(ci_version (cursor_plane data c) = ci_version c \<and> ci_shape (cursor_plane data c) = ci_shape c) \<or>
   (ci_version (cursor_plane data c) = ci_version c + 1)"
  by (auto simp: cursor_plane_def cursor_slot_define_def cursor_slot_set_visible_def Let_def split: option.splits if_splits)

lemma cursor_plane_step:
  assumes "unat (ci_version c) \<le> n" "Suc n < 2 ^ 64" "ci_version c = 0 \<longrightarrow> ci_shape c = None" and c'_def: "c' = cursor_plane data c"
  shows "unat (ci_version c') \<le> Suc n \<and> (ci_version c' = 0 \<longrightarrow> ci_shape c' = None) \<and> (sprite_ok c v \<longrightarrow> sprite_ok c' v)"
  using cursor_plane_cases [of data c]
proof
  assume "ci_version (cursor_plane data c) = ci_version c \<and> ci_shape (cursor_plane data c) = ci_shape c"
  with assms show ?thesis by (simp add: sprite_ok_def)
next
  assume n: "ci_version (cursor_plane data c) = ci_version c + 1"
  have "unat (ci_version c + 1) = Suc (unat (ci_version c))"
    using assms(1,2) unat_add_lem [of "ci_version c" 1] by simp
  with n have "unat (ci_version c') = Suc (unat (ci_version c))" by (simp add: c'_def)
  with assms(1) show ?thesis by (auto simp: sprite_ok_def)
qed

lemma shape_after_cached: "sprite_ok c v \<Longrightarrow> shape_after c v = ci_shape c"
  by (auto simp: shape_after_def sprite_ok_def)

lemma good_draw_cache:
  "good_draw scale c fr v r v' \<Longrightarrow> sprite_ok c v \<Longrightarrow> sprite_ok c v'"
  using shape_after_cached [of c v] by (auto simp: good_draw_def sprite_ok_def)

lemma viewer_inv_new: "viewer_inv (viewer_new dev mems w h)"
  by (simp add: viewer_inv_def viewer_new_def)

lemma recreate_cache:
  "recreate_swapchain W S (viewer_new dev mems w h) = (r, v) \<Longrightarrow> viewer_inv v \<and> vw_version v = 0 \<and> vw_shape v = None"
  using quiet_run [OF quiet_recreate] viewer_inv_still [OF viewer_inv_new]
  by (fastforce simp: still_def content_def viewer_new_def)

lemma resumed_ok: "app_ok n a \<Longrightarrow> app_ok n (resumed E made setup dims a)"
  by (auto simp: resumed_def app_ok_def sprite_ok_def dest!: recreate_cache split: option.splits prod.splits outcome.splits)

lemma redraw_alt:
  "app_vk a = Some v \<Longrightarrow> app_window a \<Longrightarrow> redraw E a =
    (case draw (en_driver E) (en_surface E) (en_scale E) (app_cursor a) (app_slot a) v of (r, v') \<Rightarrow>
      a\<lparr>app_os_cursor_hidden := cursor_slot_has_shape (app_cursor a), app_slot := None, app_vk := Some v', app_stuck := (r = NoReturn)\<rparr>)"
  by (simp add: redraw_def slot_take_def)

lemma redraw_good:
  assumes "app_ok n a" "app_vk a = Some v" "app_window a"
  shows "\<exists>r v'. good_draw (en_scale E) (app_cursor a) (app_slot a) v r v' \<and> redraw E a =
    a\<lparr>app_os_cursor_hidden := cursor_slot_has_shape (app_cursor a), app_slot := None, app_vk := Some v', app_stuck := (r = NoReturn)\<rparr>"
proof -
  obtain r v' where d: "draw (en_driver E) (en_surface E) (en_scale E) (app_cursor a) (app_slot a) v = (r, v')" by fastforce
  have "good_draw (en_scale E) (app_cursor a) (app_slot a) v r v'"
    by (rule draw_good [OF _ _ d]) (use assms in \<open>simp_all add: app_ok_def\<close>)
  moreover have "redraw E a = a\<lparr>app_os_cursor_hidden := cursor_slot_has_shape (app_cursor a), app_slot := None, app_vk := Some v',
      app_stuck := (r = NoReturn)\<rparr>"
    by (simp add: redraw_alt [OF assms(2,3)] d)
  ultimately show ?thesis by blast
qed

lemma redraw_ok:
  assumes "app_ok n a"
  shows "app_ok n (redraw E a)"
proof (cases "app_vk a = None \<or> \<not> app_window a")
  case True
  with assms show ?thesis by (auto simp: redraw_def split: option.splits)
next
  case False
  then obtain v where v: "app_vk a = Some v" "app_window a" by auto
  from redraw_good [OF assms this, of E] obtain r v' where g: "good_draw (en_scale E) (app_cursor a) (app_slot a) v r v'"
    and a': "redraw E a = a\<lparr>app_os_cursor_hidden := cursor_slot_has_shape (app_cursor a), app_slot := None, app_vk := Some v',
      app_stuck := (r = NoReturn)\<rparr>" by blast
  have "sprite_ok (app_cursor a) v" using assms v by (simp add: app_ok_def)
  from good_draw_cache [OF g this] g assms show ?thesis by (simp add: a' app_ok_def good_draw_def)
qed

lemma app_ok_mono: "app_ok n a \<Longrightarrow> app_ok (Suc n) a"
  by (simp add: app_ok_def)

lemma app_ok_cong:
  assumes "app_vk a' = app_vk a" "app_slot a' = app_slot a" "app_cursor a' = app_cursor a"
  shows "app_ok n a' = app_ok n a"
  by (simp only: app_ok_def assms)

lemma app_ok_inputs [simp]:
  "app_ok n (a\<lparr>app_sent := ms\<rparr>) = app_ok n a" "app_ok n (a\<lparr>app_keys := ks\<rparr>) = app_ok n a"
  "app_ok n (a\<lparr>app_buttons := bs\<rparr>) = app_ok n a" "app_ok n (a\<lparr>app_exit := b\<rparr>) = app_ok n a"
  by (intro app_ok_cong; simp)+

lemma send_input_ok [simp]: "app_ok n (send_input msg a) = app_ok n a"
  by (simp only: send_input_alt app_ok_inputs)

lemma release_all_ok [simp]: "app_ok n (release_all E a) = app_ok n a"
  by (simp only: release_all_def send_inputs Let_def app_ok_inputs)

lemma pointer_at_ok [simp]: "app_ok n (pointer_at p a) = app_ok n a"
proof -
  have "sprite_ok c (set_local_cursor p v) = sprite_ok c v" for c v by (simp add: sprite_ok_def set_local_cursor_def)
  then show ?thesis by (simp add: pointer_at_def app_ok_def viewer_inv_pointer split: option.split)
qed

lemma resized_ok: "app_ok n a \<Longrightarrow> app_ok n (a\<lparr>app_vk := map_option (mark_dirty w h) (app_vk a)\<rparr>)"
proof -
  have "sprite_ok c (mark_dirty w h v) = sprite_ok c v" for c v by (simp add: sprite_ok_def mark_dirty_def)
  then show "app_ok n a \<Longrightarrow> ?thesis" by (simp add: app_ok_def viewer_inv_dirty split: option.splits)
qed

lemma window_event_ok:
  assumes "app_ok n a"
  shows "app_ok n (window_event E w a)"
proof (cases w)
  case (Resized x y)
  with resized_ok [OF assms] show ?thesis by simp
next
  case RedrawRequested
  with redraw_ok [OF assms] show ?thesis by simp
next
  case (CursorMoved p q)
  with assms show ?thesis by (cases p; cases q) (simp add: Let_def)
next
  case (MouseInput b d)
  with assms show ?thesis by simp
next
  case (MouseWheel dy)
  with assms show ?thesis by (cases dy) simp_all
next
  case (KeyboardInput repeat code d)
  with assms show ?thesis by (cases code; cases repeat) simp_all
next
  case (Focused b)
  with assms show ?thesis by (cases b) simp_all
qed (use assms in simp_all)

lemma app_step_ok:
  assumes "app_ok n a" "Suc n < 2 ^ 64" "\<And>f. e = NetFrame f \<Longrightarrow> frame_ok f"
  shows "app_ok (Suc n) (app_step E e a)"
proof (cases e)
  case (NetFrame f)
  with assms(1) assms(3) [OF NetFrame] show ?thesis by (simp add: app_step_def app_ok_def slot_put_def split: option.splits)
next
  case (NetPlane data)
  have "unat (ci_version (app_cursor a)) \<le> n" "ci_version (app_cursor a) = 0 \<longrightarrow> ci_shape (app_cursor a) = None"
    using assms(1) by (simp_all add: app_ok_def)
  note step = cursor_plane_step [OF this(1) assms(2) this(2) refl, of data]
  with NetPlane assms(1) show ?thesis by (simp add: app_step_def app_ok_def split: option.splits)
next
  case (WindowResumed x y z)
  with app_ok_mono [OF assms(1)] resumed_ok show ?thesis by (simp add: app_step_def)
next
  case (WindowEvent w)
  with app_ok_mono [OF assms(1)] window_event_ok show ?thesis by (simp add: app_step_def)
qed

lemma app_steps_ok:
  "app_ok n a \<Longrightarrow> n + length es < 2 ^ 64 \<Longrightarrow> (\<And>f. NetFrame f \<in> set es \<Longrightarrow> frame_ok f) \<Longrightarrow> app_ok (n + length es) (fold (app_step E) es a)"
proof (induction es arbitrary: n a)
  case (Cons e es)
  have "app_ok (Suc n) (app_step E e a)" using Cons.prems by (intro app_step_ok) auto
  from Cons.IH [OF this] Cons.prems(2,3) show ?case by simp
qed simp

lemma app_run_ok:
  "length es < 2 ^ 64 \<Longrightarrow> (\<And>f. NetFrame f \<in> set es \<Longrightarrow> frame_ok f) \<Longrightarrow> app_ok (length es) (app_run E es)"
  using app_steps_ok [of 0 App_new es E] by (simp add: app_run_def app_ok_def App_new_def FrameSlot_new_def CursorSlot_new_def)

lemma app_run_snoc: "app_run E (es @ [e]) = app_step E e (app_run E es)"
  by (simp add: app_run_def)


subsection \<open>A run\<close>

definition demo_app_env :: AppEnv where
  "demo_app_env = \<lparr>en_driver = (\<lambda>n. \<lparr>an_ok = True, an_handle = word_of_nat n, an_size = 4, an_bits = 1\<rparr>),
     en_surface = (\<lambda>n. \<lparr>sa_result = WsiOk, sa_extent = (8, 8), sa_min_extent = (1, 1), sa_max_extent = (8, 8), sa_min_images = 2,
       sa_max_images = 0, sa_formats = [(FORMAT_B8G8R8A8_UNORM, 0)], sa_modes = [Fifo], sa_handle = 9, sa_images = [40, 41, 42], sa_index = 1\<rparr>),
     en_scale = (\<lambda>n w. int (unat n) * int (unat w)), en_divide = (\<lambda>p w. p), en_narrow = (\<lambda>x. ucast x), en_fixed4 = (\<lambda>x. ''0.0000''),
     en_keys = (\<lambda>ks. ks), en_buttons = (\<lambda>bs. bs)\<rparr>"

definition demo_frame :: DecodedFrame where
  "demo_frame = \<lparr>df_rgba = [1, 2, 3, 4], df_width = 1, df_height = 1, df_seq = 0, df_keyframe = True\<rparr>"

definition demo_events :: "app_event list" where
  "demo_events = [WindowResumed True (Some (device_new, [[DeviceLocal, HostVisible, HostCoherent]])) (8, 8), NetFrame demo_frame,
     WindowEvent (KeyboardInput False (Some ''KeyA'') True), WindowEvent (MouseInput LeftButton True)]"

definition demo_viewer :: VkViewer where
  "demo_viewer = (viewer_new \<lparr>dv_log = [(DeviceWaitIdle, \<lparr>an_ok = True, an_handle = 0, an_size = 4, an_bits = 1\<rparr>)], dv_live = {#}, dv_sound = True\<rparr>
       [[DeviceLocal, HostVisible, HostCoherent]] 8 8)
     \<lparr>vw_calls := [GetCapabilities, GetFormats, GetPresentModes, CreateSwapchain 3 (FORMAT_B8G8R8A8_UNORM, 0) (8, 8) Fifo 0, GetImages 9],
      vw_swapchain := 9, vw_swap_images := [40, 41, 42], vw_extent := (8, 8), vw_dirty := False\<rparr>"

lemma demo_run: "app_run demo_app_env demo_events = App_new\<lparr>app_window := True, app_vk := Some demo_viewer, app_slot := Some demo_frame,
    app_net_started := True, app_keys := [''KeyA''], app_buttons := [LeftButton],
    app_sent := [''{\"t\":\"k\",\"q\":\"a\",\"d\":1}'', ''{\"t\":\"b\",\"b\":\"l\",\"d\":1}'']\<rparr>"
  by (simp add: app_run_def demo_events_def app_step_def resumed_def demo_app_env_def recreate_swapchain_def win_let_def win_mod_def win_dev_def
      attempt_def call_def device_new_def viewer_new_def win_attempt_def win_ask_def win_ret_def win_get_def swap_extent_def pick_format_def pick_mode_def
      pick_image_count_def Let_def App_new_def demo_viewer_def slot_put_def send_input_def key_def qcode_def qcode_table_def flag_text_def
      mouse_button_def button_name_def)

lemmas demo_steps = swap_image_def win_get_def win_let_def win_mod_def win_dev_def attempt_def ask_def create_def call_def win_attempt_def win_ask_def win_ret_def
  try_let_def try_option_def ret_def Let_def

lemma demo_present: "vw_frame v = Some f \<Longrightarrow> vw_fence v = FenceSignaled \<Longrightarrow> vw_swap_images v = [40, 41, 42] \<Longrightarrow>
    \<exists>v'. present_frame (en_driver demo_app_env) (en_surface demo_app_env) v = (Done (), v') \<and> length (vw_presented v') = Suc (length (vw_presented v))"
  by (simp add: present_frame_def wait_in_flight_def queue_frame_def record_frame_def submit_window_def present_result_def demo_app_env_def demo_steps)

lemma refresh_overlay_keeps:
  "vw_fence (refresh_overlay scale slot new v) = vw_fence v \<and> vw_swap_images (refresh_overlay scale slot new v) = vw_swap_images v \<and>
   vw_presented (refresh_overlay scale slot new v) = vw_presented v \<and> (vw_frame (refresh_overlay scale slot new v) = None) = (vw_frame v = None)"
  by (simp add: refresh_overlay_alt refreshed_def composite_into_staging_def Let_def split: option.split)

lemma demo_take: "\<exists>v f. take_frame (en_driver demo_app_env) (Some demo_frame) demo_viewer = (Done (), v) \<and> vw_frame v = Some f \<and>
    vw_fence v = FenceSignaled \<and> vw_swap_images v = [40, 41, 42] \<and> vw_presented v = []"
  by (simp add: take_frame_def ensure_frame_image_def drop_frame_image_def create_frame_image_def find_mem_def ingest_def demo_viewer_def
      viewer_new_def demo_app_env_def demo_frame_def demo_steps)

lemma demo_draw: "\<exists>v'. draw (en_driver demo_app_env) (en_surface demo_app_env) (en_scale demo_app_env) CursorSlot_new (Some demo_frame) demo_viewer = (Done (), v') \<and>
    length (vw_presented v') = 1"
proof -
  obtain v f where v: "take_frame (en_driver demo_app_env) (Some demo_frame) demo_viewer = (Done (), v)" "vw_frame v = Some f"
    "vw_fence v = FenceSignaled" "vw_swap_images v = [40, 41, 42]" "vw_presented v = []" using demo_take by blast
  let ?u = "refresh_overlay (en_scale demo_app_env) CursorSlot_new True v"
  note keeps = refresh_overlay_keeps [of "en_scale demo_app_env" CursorSlot_new True v]
  then obtain g where "vw_frame ?u = Some g" using v(2) by auto
  with keeps v obtain v' where "present_frame (en_driver demo_app_env) (en_surface demo_app_env) ?u = (Done (), v')" "length (vw_presented v') = 1"
    using demo_present [of ?u g] by auto
  moreover have "vw_dirty demo_viewer = False" "vw_extent demo_viewer = (8, 8)" "vw_swapchain demo_viewer = 9"
    by (simp_all add: demo_viewer_def viewer_new_def)
  ultimately show ?thesis by (simp add: draw_def win_let_def win_mod_def v(1))
qed

theorem nothing_sticks_witness:
  "held_after ''{\"t\":\"k\",\"q\":\"a\",\"d\":1}'' ''{\"t\":\"k\",\"q\":\"a\",\"d\":0}'' (app_sent (app_run demo_app_env demo_events)) \<and>
   \<not> held_after ''{\"t\":\"k\",\"q\":\"a\",\"d\":1}'' ''{\"t\":\"k\",\"q\":\"a\",\"d\":0}''
     (app_sent (window_event demo_app_env (Focused False) (app_run demo_app_env demo_events)))"
proof -
  have "drains demo_app_env" by (simp add: drains_def demo_app_env_def)
  note sticks = nothing_sticks [OF this, of demo_events]
  have t: "key ''KeyA'' True = Some ''{\"t\":\"k\",\"q\":\"a\",\"d\":1}''" "key ''KeyA'' False = Some ''{\"t\":\"k\",\"q\":\"a\",\"d\":0}''"
    by (simp_all add: key_def qcode_def qcode_table_def flag_text_def)
  have "app_keys (app_run demo_app_env demo_events) = [''KeyA'']" by (simp add: demo_run)
  with sticks t show ?thesis unfolding tells_def by fastforce
qed


end
