(* ===== verification/Viewer_Hazards.thy ===== *)
theory Viewer_Hazards
  imports Viewer_Draw
begin

text \<open>
  Where \<open>VkViewer::draw\<close> touches what the GPU may still be using, and what a failed call leaves behind. Each lemma is a
  state the code reaches: the staging buffer written and the frame image destroyed before the fence is waited for, a
  fence reset and then never submitted, and the objects a failed \<open>ensure_frame_image\<close> keeps.
\<close>

subsection \<open>Before the wait\<close>

lemma composite_hazards:
  assumes "ready v"
  shows "vw_hazards (composite_into_staging scale v) = vw_hazards v @ (if vw_fence v = FenceInFlight True then [StagingWritten] else [])"
  using assms by (auto simp: ready_def sized_def composite_into_staging_def split: option.splits)

lemma staging_written_in_flight:
  assumes "ready v" "vw_fence v = FenceInFlight True"
  shows "vw_hazards (refresh_overlay scale slot True v) = vw_hazards v @ [StagingWritten]"
proof -
  let ?r = "refreshed scale slot v"
  have r: "vw_hazards ?r = vw_hazards v" "vw_fence ?r = FenceInFlight True"
    using assms(2) by (simp_all add: refreshed_def Let_def)
  have "ready ?r" by (rule ready_cong [OF assms(1)]) (simp_all add: refreshed_def Let_def)
  from composite_hazards [OF this, of scale] r show ?thesis by (simp add: refresh_overlay_alt)
qed

lemma image_destroyed_in_flight:
  assumes "vw_frame v = Some f" "vw_fence v = FenceInFlight b" "fi_width f \<noteq> w \<or> fi_height f \<noteq> h"
    and run: "ensure_frame_image W w h v = (r, v')"
  shows "vw_hazards v' = vw_hazards v @ [ImageDestroyed]"
proof -
  have kept: "vw_hazards (snd (win_let (win_dev m) (\<lambda>f. win_mod (\<lambda>v. v\<lparr>vw_frame := Some f\<rparr>)) u)) = vw_hazards u" for m u
    by (simp add: win_let_def win_dev_def win_mod_def split: prod.split sum.split)
  have "vw_hazards (drop_frame_image W v) = vw_hazards v @ [ImageDestroyed]"
    using assms(1,2) by (simp add: drop_frame_image_def in_flight_def)
  with kept [of "create_frame_image W (vw_mems v) w h" "drop_frame_image W v"] run assms(1,3) show ?thesis
    by (auto simp: ensure_frame_image_def)
qed

subsection \<open>A fence that is never submitted\<close>

text \<open>Anything that goes wrong between the reset of the fence and the submission leaves it reset.\<close>

lemma failed_recording_leaves_reset:
  "vw_fence v = FenceReset \<Longrightarrow> record_frame W S swap v = (Failed e, v') \<Longrightarrow> vw_fence v' = FenceReset"
  using record_frame_run by metis

lemma failed_submit_leaves_reset:
  assumes "vw_fence v = FenceReset" "submit_window W cmds v = (Failed e, v')"
  shows "vw_fence v' = FenceReset"
  using assms(2) unfolding submit_window_def
proof (cases rule: win_let_cases)
  case (1 x u)
  then show ?thesis by (simp add: Let_def)
next
  case (2 x)
  with fence_kept_run [OF fence_kept_steps(1) 2(1)] assms(1) show ?thesis by simp
qed simp

lemma still_reset: "still v v' \<Longrightarrow> vw_fence v = FenceReset \<Longrightarrow> vw_fence v' = FenceReset \<and> vw_presented v' = vw_presented v"
  by (auto simp: still_def)

lemma reset_never_presents:
  assumes "vw_fence v = FenceReset" "present_frame W S v = (r, v')"
  shows "r \<noteq> Done () \<and> vw_fence v' = FenceReset \<and> vw_presented v' = vw_presented v"
proof -
  have w: "q \<noteq> Done () \<and> still v u" if "wait_in_flight W v = (q, u)" for q u
    using that unfolding wait_in_flight_def
  proof (cases rule: win_let_cases)
    case (1 x t)
    with fence_kept_run [OF fence_kept_steps(1) 1(1)] quiet_run [OF quiet_win_dev 1(1)] assms(1) show ?thesis by simp
  next
    case (2 e)
    with quiet_run [OF quiet_win_dev 2(1)] show ?thesis by simp
  next
    case 3
    with quiet_run [OF quiet_win_dev 3(1)] show ?thesis by simp
  qed
  from assms(2) show ?thesis unfolding present_frame_def
  proof (cases rule: win_let_cases)
    case (1 x u)
    with w [OF 1(1)] show ?thesis by simp
  next
    case (2 e)
    with w [OF 2(1)] still_reset [of v v'] assms(1) show ?thesis by simp
  next
    case 3
    with w [OF 3(1)] still_reset [of v v'] assms(1) show ?thesis by simp
  qed
qed

text \<open>From then on no draw presents anything: each one fails, or waits for ever.\<close>

lemma take_frame_keeps:
  assumes "take_frame W new_frame v = (r, v')" "vw_fence v = FenceReset"
  shows "vw_fence v' = FenceReset \<and> vw_presented v' = vw_presented v"
proof -
  have e: "vw_fence (snd (ensure_frame_image W w h v)) = FenceReset \<and> vw_presented (snd (ensure_frame_image W w h v)) = vw_presented v" for w h
    using assms(2) by (simp add: ensure_frame_image_def drop_frame_image_def destroy_frame_image_def win_let_def win_dev_def win_mod_def
        split: option.split prod.split sum.split)
  show ?thesis
  proof (cases new_frame)
    case None
    with assms show ?thesis by (simp add: take_frame_def win_ret_def)
  next
    case (Some f)
    with assms(1) e [of "df_width f" "df_height f"] show ?thesis
      by (auto simp: take_frame_def win_let_def win_mod_def ingest_def split: prod.splits outcome.splits)
  qed
qed

lemma reset_fence_ends_drawing:
  assumes reset: "vw_fence v = FenceReset" and run: "draw W S scale slot new_frame v = (r, v')"
  shows "vw_fence v' = FenceReset \<and> vw_presented v' = vw_presented v"
proof -
  have o: "vw_fence (refresh_overlay scale slot new u) = vw_fence u \<and> vw_presented (refresh_overlay scale slot new u) = vw_presented u" for new u
    by (simp add: refresh_overlay_alt refreshed_def composite_into_staging_def Let_def split: option.split)
  have begin_quiet: "still v u" if "(if vw_dirty v then recreate_swapchain W S v else (Done (), v)) = (q, u)" for q u
    using that quiet_run [OF quiet_recreate] by (auto split: if_splits)
  from run show ?thesis unfolding draw_def
  proof (cases rule: win_let_cases)
    case (1 x w)
    then have w: "vw_fence w = FenceReset" "vw_presented w = vw_presented v" using still_reset [OF begin_quiet reset] by auto
    show ?thesis
    proof (cases "fst (vw_extent w) = 0 \<or> vw_swapchain w = 0")
      case True
      with 1(2) w show ?thesis by auto
    next
      case False
      then have "win_let (take_frame W new_frame) (\<lambda>_. win_let (win_mod (refresh_overlay scale slot (new_frame \<noteq> None))) (\<lambda>_. present_frame W S)) w = (r, v')"
        using 1(2) by auto
      then show ?thesis
      proof (cases rule: win_let_cases)
        case (1 y u)
        from take_frame_keeps [OF 1(1) w(1)] w(2) have u: "vw_fence u = FenceReset" "vw_presented u = vw_presented v" by auto
        have "present_frame W S (refresh_overlay scale slot (new_frame \<noteq> None) u) = (r, v')"
          using 1(2) by (simp add: win_let_def [of "win_mod _"] win_mod_def)
        with reset_never_presents [of "refresh_overlay scale slot (new_frame \<noteq> None) u" W S r v'] o u show ?thesis by simp
      next
        case (2 e)
        with take_frame_keeps [OF 2(1) w(1)] w(2) show ?thesis by simp
      next
        case 3
        with take_frame_keeps [OF 3(1) w(1)] w(2) show ?thesis by simp
      qed
    qed
  next
    case (2 e)
    with still_reset [OF begin_quiet [OF 2(1)] reset] show ?thesis by simp
  next
    case 3
    with still_reset [OF begin_quiet [OF 3(1)] reset] show ?thesis by simp
  qed
qed

subsection \<open>What a failure keeps\<close>

text \<open>When the image exists and no device-local memory type fits, \<open>?\<close> leaves the function with the image still alive.\<close>

lemma frame_image_leaks:
  assumes "an_ok (W (length (dv_log d)))" "find_mem mems (an_bits (W (Suc (length (dv_log d))))) [DeviceLocal] = None"
    and run: "create_frame_image W mems w h d = (r, d')"
  shows "r = Inl NoMemoryType \<and> dv_live d' = dv_live d + {#(ImageObj, an_handle (W (length (dv_log d))))#}"
  using assms by (auto simp: create_frame_image_def create_def ask_def call_def try_let_def try_option_def fail_def Let_def)

end
