(* ===== verification/Viewer_Main.thy ===== *)
theory Viewer_Main
  imports Viewer_Stream Replay_Draw
begin

text \<open>
  \<open>viewer/src/main.rs\<close>: the command line, and the address it resolves to; and the picture file of the headless probe.
  Strings are lists of bytes, as \<open>str::find\<close> counts them. The lemmas say that \<open>--port\<close> replaces exactly the port, for a
  host that contains no colon; an IPv6 host does, and loses everything after its first one.
\<close>

subsection \<open>Address\<close>

definition DEFAULT_URL :: string where
  "DEFAULT_URL = ''ws://127.0.0.1:8090''"

fun str_find :: "string \<Rightarrow> string \<Rightarrow> nat option" where
  "str_find pat [] = (if pat = [] then Some 0 else None)"
| "str_find pat (c # cs) = (if take (length pat) (c # cs) = pat then Some 0 else map_option Suc (str_find pat cs))"

definition decimal_text :: "nat \<Rightarrow> string" where
  "decimal_text n = map (\<lambda>b. char_of (unat b)) (decimal n)"

definition set_ws_port :: "string \<Rightarrow> u16 \<Rightarrow> string" where
  "set_ws_port url port =
    (let (scheme, rest) = (case str_find ''://'' url of Some idx \<Rightarrow> (take (idx + 3) url, drop (idx + 3) url) | None \<Rightarrow> (''ws://'', url));
         (hostport, path) = (case str_find ''/'' rest of Some idx \<Rightarrow> (take idx rest, drop idx rest) | None \<Rightarrow> (rest, []));
         host = takeWhile (\<lambda>c. c \<noteq> CHR '':'') hostport
     in scheme @ host @ '':'' @ decimal_text (unat port) @ path)"

definition resolve_url :: "string option \<Rightarrow> u16 option \<Rightarrow> string" where
  "resolve_url url port = (case (url, port) of
     (Some u, Some p) \<Rightarrow> set_ws_port u p
   | (Some u, None) \<Rightarrow> u
   | (None, Some p) \<Rightarrow> ''ws://127.0.0.1:'' @ decimal_text (unat p)
   | (None, None) \<Rightarrow> DEFAULT_URL)"

subsection \<open>Arguments\<close>

text \<open>\<open>parse\<close> of an unsigned integer: an optional plus, then digits, at most \<open>most\<close>.\<close>

definition digits_value :: "string \<Rightarrow> nat option" where
  "digits_value cs = (if cs = [] \<or> list_ex (\<lambda>c. (of_char c :: nat) < 48 \<or> 57 < (of_char c :: nat)) cs then None
     else Some (foldl (\<lambda>n c. n * 10 + (of_char c - 48)) 0 cs))"

definition parse_uint :: "nat \<Rightarrow> string \<Rightarrow> nat option" where
  "parse_uint most cs = (case digits_value (case cs of c # rest \<Rightarrow> if c = CHR ''+'' then rest else cs | [] \<Rightarrow> []) of
     None \<Rightarrow> None
   | Some n \<Rightarrow> if n \<le> most then Some n else None)"

record Args =
  ar_headless :: bool
  ar_frames :: nat
  ar_out :: "string option"
  ar_url :: "string option"
  ar_port :: "u16 option"

definition Args_default :: Args where
  "Args_default = \<lparr>ar_headless = False, ar_frames = 60, ar_out = None, ar_url = None, ar_port = None\<rparr>"

definition starts_with :: "string \<Rightarrow> string \<Rightarrow> bool" where
  "starts_with pat cs = (take (length pat) cs = pat)"

text \<open>\<open>None\<close> is the exit with the usage text.\<close>

fun parse_args :: "string list \<Rightarrow> Args \<Rightarrow> Args option" where
  "parse_args [] a = Some a"
| "parse_args (arg # args) a =
    (if arg = ''--headless'' then parse_args args (a\<lparr>ar_headless := True\<rparr>)
     else if arg = ''--debug'' then parse_args args a
     else if arg = ''--frames'' then
       (case args of [] \<Rightarrow> None
        | s # rest \<Rightarrow> (case parse_uint (2 ^ 64 - 1) s of None \<Rightarrow> None | Some n \<Rightarrow> parse_args rest (a\<lparr>ar_frames := n\<rparr>)))
     else if arg = ''--out'' then
       (case args of [] \<Rightarrow> None | s # rest \<Rightarrow> parse_args rest (a\<lparr>ar_out := Some s\<rparr>))
     else if arg = ''--url'' then
       (case args of [] \<Rightarrow> None | s # rest \<Rightarrow> parse_args rest (a\<lparr>ar_url := Some s\<rparr>))
     else if arg = ''--port'' then
       (case args of [] \<Rightarrow> None
        | s # rest \<Rightarrow> (case parse_uint (2 ^ 16 - 1) s of None \<Rightarrow> None
            | Some n \<Rightarrow> parse_args rest (a\<lparr>ar_port := Some (word_of_nat n)\<rparr>)))
     else if arg = ''-h'' \<or> arg = ''--help'' then None
     else if starts_with ''ws://'' arg \<or> starts_with ''wss://'' arg then parse_args args (a\<lparr>ar_url := Some arg\<rparr>)
     else None)"

datatype viewer_mode = ShowUsage | RunHeadless string nat "string option" | RunWindow string

definition viewer_job :: "string list \<Rightarrow> viewer_mode" where
  "viewer_job args = (case parse_args args Args_default of
     None \<Rightarrow> ShowUsage
   | Some a \<Rightarrow>
       let url = resolve_url (ar_url a) (ar_port a) in
       if ar_headless a then RunHeadless url (ar_frames a) (ar_out a) else RunWindow url)"

subsection \<open>Picture file\<close>

definition write_ppm :: "DecodedFrame \<Rightarrow> bytes" where
  "write_ppm f = ppm_header (df_width f) (df_height f) @ drop_alpha (df_rgba f)"

subsection \<open>The port is replaced\<close>

lemma str_find_skip:
  "list_all (\<lambda>c. c \<noteq> p) xs \<Longrightarrow> str_find (p # ps) (xs @ ys) = map_option (\<lambda>i. length xs + i) (str_find (p # ps) ys)"
proof (induction xs)
  case Nil
  show ?case by (cases "str_find (p # ps) ys") simp_all
next
  case (Cons x xs)
  then show ?case by (cases "str_find (p # ps) ys") simp_all
qed

lemma host_kept: "list_all (\<lambda>c. c \<noteq> CHR '':'') host \<Longrightarrow> takeWhile (\<lambda>c. c \<noteq> CHR '':'') (host @ CHR '':'' # rest) = host"
  by (induction host) simp_all

lemma port_replaced:
  assumes "list_all (\<lambda>c. c \<noteq> CHR '':'') scheme" "list_all (\<lambda>c. c \<noteq> CHR '':'' \<and> c \<noteq> CHR ''/'') host"
    "list_all (\<lambda>c. c \<noteq> CHR ''/'') port" "path = [] \<or> (\<exists>p. path = CHR ''/'' # p)"
  shows "set_ws_port (scheme @ ''://'' @ host @ '':'' @ port @ path) new =
    scheme @ ''://'' @ host @ '':'' @ decimal_text (unat new) @ path"
proof -
  let ?front = "host @ CHR '':'' # port"
  have "str_find ''://'' (scheme @ ''://'' @ ?front @ path) = Some (length scheme)"
    using str_find_skip [OF assms(1), of "''//''" "''://'' @ ?front @ path"] by simp
  moreover have front: "list_all (\<lambda>c. c \<noteq> CHR ''/'') ?front" using assms(2,3) by (auto simp: list_all_iff)
  have "str_find ''/'' (?front @ path) = (if path = [] then None else Some (length ?front))"
    using assms(4) str_find_skip [OF front, of "[]" path] by auto
  moreover have "takeWhile (\<lambda>c. c \<noteq> CHR '':'') ?front = host"
    using host_kept [of host port] assms(2) by (simp add: list_all_iff)
  ultimately show ?thesis by (simp add: set_ws_port_def)
qed

lemma ipv6_host_lost: "set_ws_port ''ws://[::1]:8090'' 6120 = ''ws://[:6120''"
  by (simp add: set_ws_port_def decimal_text_def decimal.simps [of 6120] decimal.simps [of 612] decimal.simps [of 61] decimal.simps [of 6]
      char_of_def bit_0)

text \<open>The order of \<open>--url\<close> and \<open>--port\<close> does not matter.\<close>

lemma port_then_url: "parse_args [''--url'', u, ''--port'', p] a = parse_args [''--port'', p, ''--url'', u] a"
  by (simp split: option.split)

end
