(* ===== verification/Guest_Wire.thy ===== *)
theory Guest_Wire
  imports Forwarded_Decode Drain_Batch Dispatch_Resource
begin

text \<open>
  The guest's side of the wire: the C encoders and the ring producer that \<open>guest-conformance/src/lib.rs\<close> wraps
  (\<open>guest/icd/infinigpu_forwarded.c\<close>, \<open>guest-conformance/csrc/guest_ring_ref.c\<close>), and the wrappers.

  A pointer with its count is a list of fewer than \<open>2 ^ 32\<close> elements, a C string is its bytes before the NUL, and a
  return of 0 is \<open>None\<close>. The theorems meet the device half of the model: what the encoder writes the device decodes
  to the draw it was given, what the producer pushes is what the device's ring calls a push, and the state a pipeline
  and its command buffer resolve to is the state the device reads.
\<close>

unbundle bit_operations_syntax

subsection \<open>The draw encoders\<close>

record ForwardedUbo =
  fu_binding :: u32
  fu_data :: bytes

record ForwardedArgs =
  fa_width :: u32
  fa_height :: u32
  fa_bg :: rgba_bits
  fa_scanout_addr :: u64
  fa_vertex_count :: u32
  fa_topology :: u32
  fa_vspirv :: "u32 list"
  fa_fspirv :: "u32 list"
  fa_vertex_entry :: bytes
  fa_fragment_entry :: bytes

definition infinigpu_encode_forwarded :: "nat \<Rightarrow> ForwardedArgs \<Rightarrow> bytes option" where
  "infinigpu_encode_forwarded cap a =
    (let vbytes = length (fa_vspirv a) * 4; fbytes = length (fa_fspirv a) * 4;
         velen = length (fa_vertex_entry a) + 1; felen = length (fa_fragment_entry a) + 1;
         total = 40 + 24 + vbytes + fbytes + velen + felen
     in if cap < total then None
        else Some (enc_VulkanWorkload \<lparr>wl_op = VK_OP_FORWARDED, wl_width = fa_width a, wl_height = fa_height a, wl_pad = 0,
            wl_bg = fa_bg a, wl_scanout_addr = fa_scanout_addr a\<rparr> @
          enc_ForwardedDrawTail \<lparr>fdt_vertex_count = fa_vertex_count a, fdt_topology = fa_topology a,
            fdt_vertex_spirv_len = word_of_nat vbytes, fdt_fragment_spirv_len = word_of_nat fbytes,
            fdt_vertex_entry_len = word_of_nat velen, fdt_fragment_entry_len = word_of_nat felen\<rparr> @
          words_le (fa_vspirv a) @ words_le (fa_fspirv a) @ (fa_vertex_entry a @ [0]) @ (fa_fragment_entry a @ [0])))"

record CmdlistArgs =
  ca_width :: u32
  ca_height :: u32
  ca_bg :: rgba_bits
  ca_scanout_addr :: u64
  ca_vspirv :: "u32 list"
  ca_fspirv :: "u32 list"
  ca_vertex_entry :: bytes
  ca_fragment_entry :: bytes
  ca_vertex_stride :: u32
  ca_attrs :: "VertexAttrWire list"
  ca_vertex_data :: bytes
  ca_index_data :: bytes
  ca_index_type :: u32
  ca_topology :: u32
  ca_depth_flags :: u32
  ca_push_const :: bytes
  ca_ubos :: "ForwardedUbo list"
  ca_ssbo :: bytes
  ca_ssbo_binding :: u32
  ca_draws :: "DrawCmdWire list"
  ca_texs :: "TextureDescWire list"
  ca_tex_binding :: u32
  ca_texpix :: bytes
  ca_raster_flags :: u32

definition ubo_record :: "ForwardedUbo \<Rightarrow> bytes" where
  "ubo_record u = u32_le (fu_binding u) @ u32_le (word_of_nat (length (fu_data u))) @ fu_data u"

definition cmdlist_bytes :: "CmdlistArgs \<Rightarrow> nat" where
  "cmdlist_bytes a = 40 + 80 + length (ca_attrs a) * 12 + length (ca_draws a) * 32 + length (ca_texs a) * 16 +
     length (ca_vspirv a) * 4 + length (ca_fspirv a) * 4 + length (ca_vertex_data a) + length (ca_index_data a) +
     (length (ca_vertex_entry a) + 1) + (length (ca_fragment_entry a) + 1) + length (ca_push_const a) +
     sum_list (map (\<lambda>u. 8 + length (fu_data u)) (ca_ubos a)) + length (ca_ssbo a) + length (ca_texpix a)"

definition cmdlist_tail :: "CmdlistArgs \<Rightarrow> ForwardedCmdListTail" where
  "cmdlist_tail a = \<lparr>fcl_vertex_spirv_len = word_of_nat (length (ca_vspirv a) * 4),
     fcl_fragment_spirv_len = word_of_nat (length (ca_fspirv a) * 4),
     fcl_vertex_entry_len = word_of_nat (length (ca_vertex_entry a) + 1),
     fcl_fragment_entry_len = word_of_nat (length (ca_fragment_entry a) + 1),
     fcl_vertex_stride = ca_vertex_stride a, fcl_attr_count = word_of_nat (length (ca_attrs a)),
     fcl_vertex_data_len = word_of_nat (length (ca_vertex_data a)), fcl_index_data_len = word_of_nat (length (ca_index_data a)),
     fcl_index_type = ca_index_type a, fcl_draw_count = word_of_nat (length (ca_draws a)), fcl_topology = ca_topology a,
     fcl_depth_flags = ca_depth_flags a, fcl_push_const_len = word_of_nat (length (ca_push_const a)),
     fcl_tex_count = word_of_nat (length (ca_texs a)),
     fcl_ubo_len = word_of_nat (sum_list (map (\<lambda>u. 8 + length (fu_data u)) (ca_ubos a))),
     fcl_ubo_count = word_of_nat (length (ca_ubos a)), fcl_tex_binding = ca_tex_binding a,
     fcl_raster_flags = ca_raster_flags a, fcl_ssbo_len = word_of_nat (length (ca_ssbo a)), fcl_ssbo_binding = ca_ssbo_binding a\<rparr>"

definition infinigpu_encode_forwarded_cmdlist :: "nat \<Rightarrow> CmdlistArgs \<Rightarrow> bytes option" where
  "infinigpu_encode_forwarded_cmdlist cap a =
    (if ca_draws a = [] \<or> (ca_vertex_stride a = 0) \<noteq> (ca_vertex_data a = []) then None
     else if cap < cmdlist_bytes a then None
     else Some (enc_VulkanWorkload \<lparr>wl_op = VK_OP_FORWARDED_CMDLIST, wl_width = ca_width a, wl_height = ca_height a, wl_pad = 0,
            wl_bg = ca_bg a, wl_scanout_addr = ca_scanout_addr a\<rparr> @
          enc_ForwardedCmdListTail (cmdlist_tail a) @
          concat (map enc_VertexAttrWire (ca_attrs a)) @ concat (map enc_DrawCmdWire (ca_draws a)) @
          concat (map enc_TextureDescWire (ca_texs a)) @ words_le (ca_vspirv a) @ words_le (ca_fspirv a) @
          ca_vertex_data a @ ca_index_data a @ (ca_vertex_entry a @ [0]) @ (ca_fragment_entry a @ [0]) @ ca_push_const a @
          concat (map ubo_record (ca_ubos a)) @ ca_ssbo a @ ca_texpix a))"

text \<open>The wrappers: a buffer sized from the arguments, at most one uniform block, and an \<open>assert\<close> on the result.\<close>

definition wrap_encode_forwarded :: "ForwardedArgs \<Rightarrow> bytes option" where
  "wrap_encode_forwarded a = infinigpu_encode_forwarded
     (64 + length (fa_vspirv a) * 4 + length (fa_fspirv a) * 4 + (length (fa_vertex_entry a) + 1) +
       (length (fa_fragment_entry a) + 1) + 16) a"

definition wrap_encode_cmdlist :: "bytes \<Rightarrow> u32 \<Rightarrow> CmdlistArgs \<Rightarrow> bytes option" where
  "wrap_encode_cmdlist ubo ubo_binding a =
    (let cap = 128 + length (ca_vspirv a) * 4 + length (ca_fspirv a) * 4 + length (ca_attrs a) * 12 + length (ca_draws a) * 32 +
           length (ca_texs a) * 16 + length (ca_vertex_data a) + length (ca_index_data a) + length (ca_push_const a) + length ubo +
           length (ca_ssbo a) + length (ca_texpix a) + (length (ca_vertex_entry a) + 1) + (length (ca_fragment_entry a) + 1);
         ubos = (if ubo = [] then [] else [\<lparr>fu_binding = ubo_binding, fu_data = ubo\<rparr>])
     in infinigpu_encode_forwarded_cmdlist cap (a\<lparr>ca_ubos := ubos\<rparr>))"

subsection \<open>Dynamic state\<close>

definition DYN_CULL_MODE :: u32 where [simp]: "DYN_CULL_MODE = 1"
definition DYN_FRONT_FACE :: u32 where [simp]: "DYN_FRONT_FACE = 2"
definition DYN_DEPTH_TEST :: u32 where [simp]: "DYN_DEPTH_TEST = 4"
definition DYN_DEPTH_WRITE :: u32 where [simp]: "DYN_DEPTH_WRITE = 8"
definition DYN_DEPTH_COMPARE :: u32 where [simp]: "DYN_DEPTH_COMPARE = 16"
definition DYN_TOPOLOGY :: u32 where [simp]: "DYN_TOPOLOGY = 32"

record StaticState =
  st_raster :: u32
  st_depth :: u32
  st_topo :: u32

record DynamicState =
  dy_dynamic_mask :: u32
  dy_set_mask :: u32
  dy_cull :: u32
  dy_front_cw :: u32
  dy_depth_test :: u32
  dy_depth_write :: u32
  dy_depth_compare :: u32
  dy_topo :: u32

definition resolve_raster :: "u32 \<Rightarrow> StaticState \<Rightarrow> DynamicState \<Rightarrow> u32" where
  "resolve_raster dm s d =
    (if dm AND (DYN_CULL_MODE OR DYN_FRONT_FACE) = 0 then st_raster s
     else let cull = (if dm AND DYN_CULL_MODE \<noteq> 0 then dy_cull d AND RASTER_CULL_MASK else drop_bit 0 (st_raster s) AND RASTER_CULL_MASK);
              front_cw = (if dm AND DYN_FRONT_FACE \<noteq> 0 then dy_front_cw d \<noteq> 0 else st_raster s AND RASTER_FRONT_FACE_CW \<noteq> 0);
              blend = (st_raster s AND RASTER_BLEND \<noteq> 0)
          in push_bit 0 cull OR (if front_cw then RASTER_FRONT_FACE_CW else 0) OR (if blend then RASTER_BLEND else 0))"

definition resolve_depth :: "u32 \<Rightarrow> StaticState \<Rightarrow> DynamicState \<Rightarrow> u32" where
  "resolve_depth dm s d =
    (let depth = (if dm AND (DYN_DEPTH_TEST OR DYN_DEPTH_WRITE OR DYN_DEPTH_COMPARE) = 0 then st_depth s
       else let dtest = (if dm AND DYN_DEPTH_TEST \<noteq> 0 then dy_depth_test d \<noteq> 0 else st_depth s AND DEPTH_TEST \<noteq> 0);
                dwrite = (if dm AND DYN_DEPTH_WRITE \<noteq> 0 then dy_depth_write d \<noteq> 0 else st_depth s AND DEPTH_WRITE \<noteq> 0);
                dcmp = (if dm AND DYN_DEPTH_COMPARE \<noteq> 0 then dy_depth_compare d AND 7 else drop_bit 4 (st_depth s) AND 7)
            in (if dtest then DEPTH_TEST else 0) OR (if dwrite then DEPTH_WRITE else 0) OR push_bit 4 dcmp)
     in if depth AND (DEPTH_TEST OR DEPTH_WRITE) = 0 then 0 else depth)"

definition infinigpu_resolve_forwarded_state :: "StaticState \<Rightarrow> DynamicState \<Rightarrow> u32 \<times> u32 \<times> u32" where
  "infinigpu_resolve_forwarded_state s d = (let dm = dy_dynamic_mask d AND dy_set_mask d in
     (resolve_raster dm s d, resolve_depth dm s d, if dm AND DYN_TOPOLOGY \<noteq> 0 then dy_topo d else st_topo s))"

subsection \<open>The ring producer\<close>

definition igpu_gref_push :: "nat \<Rightarrow> nat \<Rightarrow> nat \<Rightarrow> u32 \<Rightarrow> u32 \<Rightarrow> u32 \<Rightarrow> host_mem \<Rightarrow> u64 \<times> host_mem" where
  "igpu_gref_push idx_base desc_base cap msg_type data_offset len mem =
    (let tail = mem_u32 mem idx_base; head = mem_u32 mem (idx_base + 4) in
     if word_of_nat cap \<le> tail - head then (0, mem)
     else let seqno = (ucast tail :: u64) + 1 in
       (seqno, poke (poke (poke mem (desc_base + 32 * unat (tail AND (word_of_nat cap - 1)))
            (enc_Descriptor \<lparr>d_msg_type = msg_type, d_flags = 0, d_len = len, d_data_offset = data_offset, d_seqno = seqno, d_payload_addr = 0\<rparr>))
          (idx_base + 8) (u64_le seqno)) idx_base (u32_le (tail + 1))))"

definition igpu_gref_retired :: "nat \<Rightarrow> host_mem \<Rightarrow> u64" where
  "igpu_gref_retired idx_base mem = mem_u64 mem (idx_base + 16)"

subsection \<open>Resource messages\<close>

definition igpu_gref_create_blob :: "u32 \<Rightarrow> u64 \<Rightarrow> bytes" where
  "igpu_gref_create_blob res_id n = enc_ResourceCreateBlob \<lparr>rcb_res_id = res_id, rcb_ctx_id = 0, rcb_blob_mem = 1, rcb_blob_flags = 0, rcb_size = n\<rparr>"

definition igpu_gref_attach_backing :: "u32 \<Rightarrow> u64 \<Rightarrow> u64 \<Rightarrow> bytes" where
  "igpu_gref_attach_backing res_id addr len = enc_AttachBacking \<lparr>ab_res_id = res_id, ab_num_entries = 1\<rparr> @
     enc_MemEntry \<lparr>me_addr = addr, me_length = len\<rparr>"

definition igpu_gref_set_scanout :: "u32 \<Rightarrow> u32 \<Rightarrow> u32 \<Rightarrow> u32 \<Rightarrow> u32 \<Rightarrow> u32 \<Rightarrow> bytes" where
  "igpu_gref_set_scanout scanout_id res_id w h fmt stride = enc_SetScanoutBlob \<lparr>ssb_scanout_id = scanout_id, ssb_res_id = res_id,
     ssb_width = w, ssb_height = h, ssb_format = fmt, ssb_stride = stride\<rparr>"

definition igpu_gref_flush :: "u32 \<Rightarrow> u32 \<Rightarrow> u32 \<Rightarrow> u32 \<Rightarrow> u32 \<Rightarrow> bytes" where
  "igpu_gref_flush res_id x y w h = enc_ResourceFlush \<lparr>rf_res_id = res_id, rf_x = x, rf_y = y, rf_w = w, rf_h = h, rf_reserved = 0\<rparr>"

subsection \<open>The encoder's output\<close>

text \<open>The arguments a driver passes for a draw.\<close>

definition forwarded_args :: "VulkanWorkload \<Rightarrow> OwnedForwardedDraw \<Rightarrow> ForwardedArgs" where
  "forwarded_args wl d = \<lparr>fa_width = wl_width wl, fa_height = wl_height wl, fa_bg = wl_bg wl, fa_scanout_addr = wl_scanout_addr wl,
     fa_vertex_count = fd_vertex_count d, fa_topology = fd_topology d, fa_vspirv = fd_vertex_spirv d, fa_fspirv = fd_fragment_spirv d,
     fa_vertex_entry = fd_vertex_entry d, fa_fragment_entry = fd_fragment_entry d\<rparr>"

definition cmdlist_args :: "VulkanWorkload \<Rightarrow> OwnedForwardedDraw \<Rightarrow> OwnedGeometry \<Rightarrow> CmdlistArgs" where
  "cmdlist_args wl d g = \<lparr>ca_width = wl_width wl, ca_height = wl_height wl, ca_bg = wl_bg wl, ca_scanout_addr = wl_scanout_addr wl,
     ca_vspirv = fd_vertex_spirv d, ca_fspirv = fd_fragment_spirv d, ca_vertex_entry = fd_vertex_entry d,
     ca_fragment_entry = fd_fragment_entry d, ca_vertex_stride = og_vertex_stride g, ca_attrs = map wire_of_attr (og_attrs g),
     ca_vertex_data = og_vertex_data g, ca_index_data = og_index_data g,
     ca_index_type = (if og_index_u32 g then INDEX_U32 else INDEX_U16), ca_topology = fd_topology d,
     ca_depth_flags = depth_word (og_depth g), ca_push_const = og_push_constants g,
     ca_ubos = map (\<lambda>u. \<lparr>fu_binding = ou_binding u, fu_data = ou_bytes u\<rparr>) (og_uniforms g), ca_ssbo = storage_bytes g,
     ca_ssbo_binding = (case og_storage g of None \<Rightarrow> 0 | Some st \<Rightarrow> os_binding st), ca_draws = map wire_of_draw (og_draws g),
     ca_texs = map enc_texture (og_textures g), ca_tex_binding = og_tex_binding g, ca_texpix = concat (map ot_rgba (og_textures g)),
     ca_raster_flags = og_raster_flags g\<rparr>"

text \<open>The workload header with the operation the encoder stamps.\<close>

definition stamped :: "u32 \<Rightarrow> VulkanWorkload \<Rightarrow> VulkanWorkload" where
  "stamped op wl = wl\<lparr>wl_op := op, wl_pad := 0\<rparr>"

lemma stamped_eq: "\<lparr>wl_op = op, wl_width = wl_width wl, wl_height = wl_height wl, wl_pad = 0, wl_bg = wl_bg wl,
    wl_scanout_addr = wl_scanout_addr wl\<rparr> = stamped op wl"
  by (simp add: stamped_def)

lemma length_headers: "length (enc_VulkanWorkload w) = 40" "length (enc_ForwardedDrawTail t) = 24" "length (enc_ForwardedCmdListTail c) = 80"
  by (rule wl_codec.length_enc fdt_codec.length_enc fcl_codec.length_enc)+

lemma length_concat_const: "(\<And>x. length (f x) = n) \<Longrightarrow> length (concat (map f xs)) = length xs * n"
  by (induction xs) simp_all

lemma encode_forwarded_eq:
  "infinigpu_encode_forwarded cap (forwarded_args wl d) =
    (if cap < length (encode_forwarded (stamped VK_OP_FORWARDED wl) d) then None
     else Some (encode_forwarded (stamped VK_OP_FORWARDED wl) d))"
  by (simp add: infinigpu_encode_forwarded_def forwarded_args_def encode_forwarded_def enc_draw_tail_def stamped_eq length_headers
      length_words_le Let_def mult.commute)

lemma ubo_record_eq: "ubo_record \<lparr>fu_binding = ou_binding u, fu_data = ou_bytes u\<rparr> = enc_uniform u"
  by (simp add: ubo_record_def enc_uniform_def)

lemma length_uniforms: "sum_list (map (\<lambda>u. 8 + length (ou_bytes u)) us) = length (concat (map enc_uniform us))"
  by (induction us) (simp_all add: enc_uniform_def)

lemma cmdlist_tail_eq: "cmdlist_tail (cmdlist_args wl d g) = enc_cmdlist_tail d g"
  by (simp add: cmdlist_tail_def cmdlist_args_def enc_cmdlist_tail_def uniform_block_def length_uniforms o_def mult.commute)

lemma cmdlist_bytes_eq: "cmdlist_bytes (cmdlist_args wl d g) = length (encode_cmdlist w d g)"
  by (simp add: cmdlist_bytes_def cmdlist_args_def encode_cmdlist_def cmdlist_sections_def length_headers length_words_le uniform_block_def
      length_uniforms o_def length_concat_const [of enc_VertexAttrWire 12] length_concat_const [of enc_DrawCmdWire 32]
      length_concat_const [of enc_TextureDescWire 16] va_codec.length_enc dc_codec.length_enc td_codec.length_enc
      length_concat_const [of "\<lambda>x. enc_VertexAttrWire (f x)" 12 for f] length_concat_const [of "\<lambda>x. enc_DrawCmdWire (f x)" 32 for f]
      length_concat_const [of "\<lambda>x. enc_TextureDescWire (f x)" 16 for f])

lemma encode_cmdlist_eq:
  assumes "og_draws g \<noteq> []" "(og_vertex_stride g = 0) = (og_vertex_data g = [])"
  shows "infinigpu_encode_forwarded_cmdlist cap (cmdlist_args wl d g) =
    (if cap < length (encode_cmdlist (stamped VK_OP_FORWARDED_CMDLIST wl) d g) then None
     else Some (encode_cmdlist (stamped VK_OP_FORWARDED_CMDLIST wl) d g))"
proof -
  note bytes = cmdlist_bytes_eq [of wl d g "stamped VK_OP_FORWARDED_CMDLIST wl"]
  have "ca_draws (cmdlist_args wl d g) \<noteq> []"
    "\<not> ((ca_vertex_stride (cmdlist_args wl d g) = 0) \<noteq> (ca_vertex_data (cmdlist_args wl d g) = []))"
    using assms by (simp_all add: cmdlist_args_def)
  then show ?thesis
    by (simp add: infinigpu_encode_forwarded_cmdlist_def bytes cmdlist_tail_eq)
      (simp add: cmdlist_args_def encode_cmdlist_def cmdlist_sections_def stamped_eq [symmetric] uniform_block_def ubo_record_eq o_def)
qed

lemma wrapper_fits:
  assumes "length (ca_ubos a) \<le> 1" "\<forall>u \<in> set (ca_ubos a). fu_data u \<noteq> []" "ca_draws a \<noteq> []" "(ca_vertex_stride a = 0) = (ca_vertex_data a = [])"
  shows "wrap_encode_cmdlist (concat (map fu_data (ca_ubos a))) (case ca_ubos a of [] \<Rightarrow> 0 | u # _ \<Rightarrow> fu_binding u) a =
    infinigpu_encode_forwarded_cmdlist (cmdlist_bytes a) a \<and> infinigpu_encode_forwarded_cmdlist (cmdlist_bytes a) a \<noteq> None"
proof (cases "ca_ubos a")
  case Nil
  then have "a\<lparr>ca_ubos := []\<rparr> = a" by (cases a) simp
  with Nil assms show ?thesis
    by (simp add: wrap_encode_cmdlist_def infinigpu_encode_forwarded_cmdlist_def cmdlist_bytes_def cmdlist_tail_def)
next
  case (Cons u us)
  then have us: "us = []" using assms(1) by simp
  then have "a\<lparr>ca_ubos := [\<lparr>fu_binding = fu_binding u, fu_data = fu_data u\<rparr>]\<rparr> = a" using Cons by (cases a; cases u) simp
  with Cons us assms show ?thesis
    by (simp add: wrap_encode_cmdlist_def infinigpu_encode_forwarded_cmdlist_def cmdlist_bytes_def cmdlist_tail_def ubo_record_def)
qed

text \<open>C15: A guest's mesh reaches the device as it was drawn. For every draw the device accepts, with any mix of textures,
  uniform blocks, storage buffer, push constants and depth state, the C encoder of the guest driver writes it exactly
  when the buffer holds it, refuses a smaller buffer, and the Rust decoder of the device reads the same draw back.\<close>

theorem guest_mesh_reaches_device:
  assumes "max_bytes < 2 ^ 32" "cmdlist_ok max_bytes d" "fd_geometry d = Some g"
  shows "(case infinigpu_encode_forwarded_cmdlist cap (cmdlist_args wl d g) of
     None \<Rightarrow> cap < cmdlist_bytes (cmdlist_args wl d g)
   | Some bs \<Rightarrow> length bs = cmdlist_bytes (cmdlist_args wl d g) \<and> length bs \<le> cap \<and> decode_forwarded_cmdlist bs max_bytes = Some d)"
proof -
  let ?bs = "encode_cmdlist (stamped VK_OP_FORWARDED_CMDLIST wl) d g"
  have "og_draws g \<noteq> []" "(og_vertex_stride g = 0) = (og_vertex_data g = [])"
    using assms(2,3) by (simp_all add: cmdlist_ok_def geometry_ok_def vertices_ok_def)
  note enc = encode_cmdlist_eq [OF this, of cap wl d] and bytes = cmdlist_bytes_eq [of wl d g "stamped VK_OP_FORWARDED_CMDLIST wl"]
  have "decode_forwarded_cmdlist ?bs max_bytes = Some d"
    using decode_cmdlist_complete [OF assms(2,3,1), of "stamped VK_OP_FORWARDED_CMDLIST wl" "[]"] by simp
  with enc bytes show ?thesis by simp
qed

theorem guest_mesh_reaches_device_witness:
  "\<exists>bs. infinigpu_encode_forwarded_cmdlist 1000 (cmdlist_args demo_workload (demo_draw (Some demo_geometry)) demo_geometry) = Some bs \<and>
     decode_forwarded_cmdlist bs 1024 = Some (demo_draw (Some demo_geometry))"
proof -
  have ok: "cmdlist_ok 1024 (demo_draw (Some demo_geometry))"
    by (simp add: cmdlist_ok_def shaders_ok_def demo_draw_def geometry_ok_def demo_geometry_def vertices_ok_def
        depth_ok_def texture_ok_def uniform_ok_def storage_ok_def tex_bindings_def)
  have g: "fd_geometry (demo_draw (Some demo_geometry)) = Some demo_geometry" by (simp add: demo_draw_def)
  have "cmdlist_bytes (cmdlist_args demo_workload (demo_draw (Some demo_geometry)) demo_geometry) \<le> 1000"
    by (simp add: cmdlist_bytes_def cmdlist_args_def demo_draw_def demo_geometry_def storage_bytes_def)
  with guest_mesh_reaches_device [OF _ ok g, of 1000 demo_workload] show ?thesis
    by (cases "infinigpu_encode_forwarded_cmdlist 1000 (cmdlist_args demo_workload (demo_draw (Some demo_geometry)) demo_geometry)") auto
qed

subsection \<open>Messages\<close>

lemma guest_messages_executed:
  "execute_create (igpu_gref_create_blob k n) t = table_outcome (CreatedBlob k) (create_blob k 1 n t)"
  "execute_attach (igpu_gref_attach_backing k addr len) t =
     Some (table_outcome (AttachedBacking k 1) (attach_backing k [\<lparr>bs_addr = addr, bs_len = len\<rparr>] t))"
  "execute_scanout (igpu_gref_set_scanout i k w h fmt stride) t = table_outcome (SetScanout i) (set_scanout i k w h fmt stride t)"
  "execute_flush (igpu_gref_flush k x y w h) t = (case get_resource k t of None \<Rightarrow> Rejected (Unknown k)
     | Some r \<Rightarrow> if hr_backing r = [] then Rejected BackingTooSmall else Flush k (x, y, w, h))"
  using read_segments_enc [of "[\<lparr>me_addr = addr, me_length = len\<rparr>]" "[]"]
  by (simp_all add: execute_create_def igpu_gref_create_blob_def rcb_codec.dec_exact execute_attach_def igpu_gref_attach_backing_def
      ab_codec.dec_enc me_codec.length_enc execute_scanout_def igpu_gref_set_scanout_def ssb_codec.dec_exact execute_flush_def
      igpu_gref_flush_def rf_codec.dec_exact split: option.split)

subsection \<open>The producer is the ring's push\<close>

definition pushed_descriptor :: "u32 \<Rightarrow> u32 \<Rightarrow> u32 \<Rightarrow> u32 \<Rightarrow> Descriptor" where
  "pushed_descriptor msg_type data_offset len tail = \<lparr>d_msg_type = msg_type, d_flags = 0, d_len = len, d_data_offset = data_offset,
     d_seqno = (ucast tail :: u64) + 1, d_payload_addr = 0\<rparr>"

lemma ucast_suc: "t \<noteq> - 1 \<Longrightarrow> (ucast ((t :: u32) + 1) :: u64) = ucast t + 1"
proof -
  assume t: "t \<noteq> - 1"
  have "1 + t \<noteq> 0"
  proof
    assume "1 + t = 0"
    then have "t = - 1" by (simp add: add_eq_0_iff)
    with t show False ..
  qed
  then have "unat (t + 1) = unat t + 1" using unatSuc [of t] by (simp add: add.commute)
  then show ?thesis
    by (metis of_nat_1 of_nat_add of_nat_unat unat_1)
qed

lemma cap_word: "cap_ok cap \<Longrightarrow> (word_of_nat (cap - 1) :: u32) = word_of_nat cap - 1"
  using cap_ok_bounds [of cap] by (simp add: of_nat_diff)

lemma push_is_mem_push:
  assumes "cap_ok cap" "mem_u32 mem ip \<noteq> - 1"
  shows "igpu_gref_push ip dp cap msg_type data_offset len mem =
    (case mem_push ip dp cap (pushed_descriptor msg_type data_offset len (mem_u32 mem ip)) mem of
       (Inl _, mem') \<Rightarrow> (0, mem') | (Inr s, mem') \<Rightarrow> (s, mem'))"
  using cap_word [OF assms(1)] ucast_suc [OF assms(2)]
  by (simp add: igpu_gref_push_def mem_push_def pushed_descriptor_def Let_def)



text \<open>At the last index the two disagree: the C producer counts on in 64 bits, the ring's own push wraps to 0.\<close>

lemma push_seqno_differs:
  assumes "mem_u32 mem ip = - 1" "mem_u32 mem (ip + 4) = - 1" "1 \<le> cap" "cap < 2 ^ 32"
  shows "fst (igpu_gref_push ip dp cap msg_type data_offset len mem) = 0x100000000 \<and>
    (mem_push ip dp cap d mem = (Inl Full, mem) \<or> fst (mem_push ip dp cap d mem) = Inr 0)"
proof -
  have "(word_of_nat cap :: u32) \<noteq> 0" using assms(3,4) by (simp add: word_of_nat_eq_0_iff nat_dvd_not_less)
  moreover have "(ucast (- 1 :: u32) :: u64) = 0xFFFFFFFF" by code_simp
  ultimately show ?thesis using assms by (simp add: igpu_gref_push_def mem_push_def Let_def)
qed

subsection \<open>The resolved state\<close>

lemma raster_bits:
  assumes "c \<le> (3 :: u32)"
  shows "raster_cull (c OR (if f then 4 else 0) OR (if b then 8 else 0)) = c \<and>
    ((c OR (if f then 4 else 0) OR (if b then 8 else 0)) AND 4 \<noteq> 0) = f \<and> ((c OR (if f then 4 else 0) OR (if b then 8 else 0)) AND 8 \<noteq> 0) = b"
proof -
  have "c \<le> 7" using assms by (rule order_trans) simp
  from u32_le_7 [OF this] assms show ?thesis
    by (elim disjE; cases f; cases b; simp add: raster_cull_def)
qed

lemma depth_bits_decoded:
  assumes "c \<le> (7 :: u32)"
  shows "decode_depth (let dp = (if t then 1 else 0) OR (if w then 2 else 0) OR push_bit 4 c in if dp AND 3 = 0 then 0 else dp) =
    (if t \<or> w then Some \<lparr>dp_test = t, dp_write = w, dp_compare = c\<rparr> else None)"
  using u32_le_7 [OF assms] by (elim disjE; cases t; cases w; simp add: decode_depth_def Let_def)

lemma and_or_zero: "dm AND (a OR b) = 0 \<longleftrightarrow> dm AND a = 0 \<and> dm AND b = (0 :: u32)"
  by (auto simp: bit.conj_disj_distrib bit_eq_iff bit_simps)

lemma resolve_raster_decoded:
  "raster_cull (resolve_raster dm s d) = (if dm AND DYN_CULL_MODE \<noteq> 0 then dy_cull d AND RASTER_CULL_MASK else raster_cull (st_raster s))"
  "(resolve_raster dm s d AND RASTER_FRONT_FACE_CW \<noteq> 0) =
     (if dm AND DYN_FRONT_FACE \<noteq> 0 then dy_front_cw d \<noteq> 0 else st_raster s AND RASTER_FRONT_FACE_CW \<noteq> 0)"
  "(resolve_raster dm s d AND RASTER_BLEND \<noteq> 0) = (st_raster s AND RASTER_BLEND \<noteq> 0)"
proof -
  let ?c = "if dm AND 1 \<noteq> 0 then dy_cull d AND 3 else st_raster s AND 3"
  let ?f = "if dm AND 2 \<noteq> 0 then dy_front_cw d \<noteq> 0 else st_raster s AND 4 \<noteq> 0"
  have "?c \<le> 3" by (simp add: word_and_le1)
  note bits = raster_bits [OF this, of ?f "st_raster s AND 8 \<noteq> 0"]
  have static: "dm AND 1 = 0 \<and> dm AND 2 = 0" if "dm AND 3 = 0"
    using and_or_zero [of dm 1 2] that by simp
  let ?r = "?c OR (if ?f then 4 else 0) OR (if st_raster s AND 8 \<noteq> 0 then 8 else 0)"
  have r: "resolve_raster dm s d = (if dm AND 3 = 0 then st_raster s else ?r)"
    by (simp only: resolve_raster_def Let_def DYN_CULL_MODE_def DYN_FRONT_FACE_def RASTER_CULL_MASK_def RASTER_FRONT_FACE_CW_def RASTER_BLEND_def
        drop_bit_0 push_bit_0_id id_apply) simp
  have "raster_cull (resolve_raster dm s d) = ?c \<and> (resolve_raster dm s d AND 4 \<noteq> 0) = ?f \<and> (resolve_raster dm s d AND 8 \<noteq> 0) = (st_raster s AND 8 \<noteq> 0)"
  proof (cases "dm AND 3 = 0")
    case True
    with static have "dm AND 1 = 0" "dm AND 2 = 0" by simp_all
    with True show ?thesis by (simp only: r if_True not_True_eq_False if_False simp_thms) (simp add: raster_cull_def)
  next
    case False
    with bits show ?thesis unfolding r by (simp only: if_False if_True not_False_eq_True simp_thms or.assoc)
  qed
  then show "raster_cull (resolve_raster dm s d) = (if dm AND DYN_CULL_MODE \<noteq> 0 then dy_cull d AND RASTER_CULL_MASK else raster_cull (st_raster s))"
    "(resolve_raster dm s d AND RASTER_FRONT_FACE_CW \<noteq> 0) =
       (if dm AND DYN_FRONT_FACE \<noteq> 0 then dy_front_cw d \<noteq> 0 else st_raster s AND RASTER_FRONT_FACE_CW \<noteq> 0)"
    "(resolve_raster dm s d AND RASTER_BLEND \<noteq> 0) = (st_raster s AND RASTER_BLEND \<noteq> 0)"
    by (simp_all only: DYN_CULL_MODE_def DYN_FRONT_FACE_def RASTER_CULL_MASK_def RASTER_FRONT_FACE_CW_def RASTER_BLEND_def)
      (simp add: raster_cull_def)
qed

lemma resolve_depth_decoded:
  defines "t dm s d \<equiv> if dm AND DYN_DEPTH_TEST \<noteq> 0 then dy_depth_test d \<noteq> 0 else st_depth s AND DEPTH_TEST \<noteq> 0"
    and "w dm s d \<equiv> if dm AND DYN_DEPTH_WRITE \<noteq> 0 then dy_depth_write d \<noteq> 0 else st_depth s AND DEPTH_WRITE \<noteq> 0"
    and "c dm s d \<equiv> if dm AND DYN_DEPTH_COMPARE \<noteq> 0 then dy_depth_compare d AND 7 else drop_bit 4 (st_depth s AND DEPTH_COMPARE_MASK)"
  shows "decode_depth (resolve_depth dm s d) =
    (if t dm s d \<or> w dm s d then Some \<lparr>dp_test = t dm s d, dp_write = w dm s d, dp_compare = c dm s d\<rparr> else None)"
proof -
  have mask: "drop_bit 4 (st_depth s) AND 7 = drop_bit 4 (st_depth s AND 0x70)" by (simp add: drop_bit_and)
  then have "c dm s d \<le> 7" by (simp add: c_def word_and_le1 flip: mask)
  note bits = depth_bits_decoded [OF this, of "t dm s d" "w dm s d"]
  have three: "x AND 3 = 0 \<longleftrightarrow> x AND 1 = 0 \<and> x AND 2 = (0 :: u32)" for x using and_or_zero [of x 1 2] by simp
  have static: "dm AND 4 = 0 \<and> dm AND 8 = 0 \<and> dm AND 16 = 0" if "dm AND 0x1C = 0"
    using and_or_zero [of dm 4 "8 OR 16"] and_or_zero [of dm 8 16] that by simp
  show ?thesis
  proof (cases "dm AND 0x1C = 0")
    case True
    then show ?thesis using static mask
      by (simp add: resolve_depth_def Let_def t_def w_def c_def decode_depth_def three)
  next
    case False
    have "resolve_depth dm s d = (let dp = (if t dm s d then 1 else 0) OR (if w dm s d then 2 else 0) OR push_bit 4 (c dm s d) in if dp AND 3 = 0 then 0 else dp)"
      using False mask by (simp add: resolve_depth_def t_def w_def c_def Let_def)
    with bits show ?thesis by simp
  qed
qed

text \<open>C21: The state a draw resolves to is the state the device reads. With \<open>dm\<close> the states that the pipeline declared
  dynamic and the command buffer set, the resolved words decode to: the dynamic value where \<open>dm\<close> has the bit, the static
  one elsewhere, for the cull mode, the front face, the blend bit, the depth test, write and comparison, and the topology;
  and to no depth state at all when neither test nor write is on, whatever comparison is left over.\<close>

theorem resolved_state_decoded:
  "case infinigpu_resolve_forwarded_state s d of (raster, depth, topo) \<Rightarrow>
    (let dm = dy_dynamic_mask d AND dy_set_mask d;
         pick = (\<lambda>bit dynamic static. if dm AND bit \<noteq> 0 then dynamic else static);
         t = pick DYN_DEPTH_TEST (dy_depth_test d \<noteq> 0) (st_depth s AND DEPTH_TEST \<noteq> 0);
         w = pick DYN_DEPTH_WRITE (dy_depth_write d \<noteq> 0) (st_depth s AND DEPTH_WRITE \<noteq> 0) in
     raster_cull raster = (if dm AND DYN_CULL_MODE \<noteq> 0 then dy_cull d AND RASTER_CULL_MASK else raster_cull (st_raster s)) \<and>
     (raster AND RASTER_FRONT_FACE_CW \<noteq> 0) = pick DYN_FRONT_FACE (dy_front_cw d \<noteq> 0) (st_raster s AND RASTER_FRONT_FACE_CW \<noteq> 0) \<and>
     (raster AND RASTER_BLEND \<noteq> 0) = (st_raster s AND RASTER_BLEND \<noteq> 0) \<and>
     decode_depth depth = (if t \<or> w then Some \<lparr>dp_test = t, dp_write = w,
       dp_compare = (if dm AND DYN_DEPTH_COMPARE \<noteq> 0 then dy_depth_compare d AND 7 else drop_bit 4 (st_depth s AND DEPTH_COMPARE_MASK))\<rparr> else None) \<and>
     topo = (if dm AND DYN_TOPOLOGY \<noteq> 0 then dy_topo d else st_topo s))"
  using resolve_raster_decoded [of "dy_dynamic_mask d AND dy_set_mask d" s d] resolve_depth_decoded [of "dy_dynamic_mask d AND dy_set_mask d" s d]
  unfolding infinigpu_resolve_forwarded_state_def Let_def by simp

end
