(* ===== verification/Shared_Gpu.thy ===== *)
theory Shared_Gpu
  imports Replay_Safety Pixel_Proto
begin

text \<open>
  \<open>SharedGpu\<close> of \<open>device/src/lib.rs\<close>, the GPU every VM's backend draws on: a replay GPU that is opened by the first call
  that needs it. With it the capabilities of \<open>hal/src/lib.rs\<close> as the replay GPU and the encoder report them, and the
  readings of \<open>nvml/src/lib.rs\<close>.

  What \<open>HostGpu::open\<close> would do at each call is an argument (\<open>None\<close> when it fails), because the machine may change between
  calls. NVML's answers are arguments as well. The lock and the logging are not modelled.
\<close>

subsection \<open>Capabilities\<close>

datatype Vendor = Nvidia | Amd | Intel | Software | OtherVendor
datatype VideoCodec = VideoH264 | VideoHevc | VideoAv1

fun vendor_text :: "Vendor \<Rightarrow> string" where
  "vendor_text Nvidia = ''NVIDIA''"
| "vendor_text Amd = ''AMD''"
| "vendor_text Intel = ''Intel''"
| "vendor_text Software = ''software''"
| "vendor_text OtherVendor = ''other''"

fun codec_text :: "VideoCodec \<Rightarrow> string" where
  "codec_text VideoH264 = ''H.264''"
| "codec_text VideoHevc = ''HEVC''"
| "codec_text VideoAv1 = ''AV1''"

record GpuCaps =
  gc_vendor :: Vendor
  gc_device_name :: string
  gc_driver_name :: string
  gc_vulkan_render :: bool
  gc_timestamp_queries :: bool
  gc_external_memory :: bool
  gc_global_priority :: bool

definition can_render :: "GpuCaps \<Rightarrow> bool" where
  "can_render c = gc_vulkan_render c"

record CodecCaps =
  cc_vendor :: Vendor
  cc_hardware :: bool
  cc_encode :: "VideoCodec list"
  cc_low_latency :: bool
  cc_max_sessions :: "u32 option"

definition can_encode :: "VideoCodec \<Rightarrow> CodecCaps \<Rightarrow> bool" where
  "can_encode codec c = (codec \<in> set (cc_encode c))"

datatype DriverId = NVIDIA_PROPRIETARY | MESA_RADV | AMD_PROPRIETARY | AMD_OPEN_SOURCE | INTEL_OPEN_SOURCE_MESA
  | INTEL_PROPRIETARY_WINDOWS | MESA_LLVMPIPE | OtherDriver

record GpuIdentity =
  id_device_name :: string
  id_driver_name :: string
  id_driver :: DriverId

definition driver_vendor :: "DriverId \<Rightarrow> Vendor" where
  "driver_vendor d = (case d of NVIDIA_PROPRIETARY \<Rightarrow> Nvidia | MESA_RADV \<Rightarrow> Amd | AMD_PROPRIETARY \<Rightarrow> Amd | AMD_OPEN_SOURCE \<Rightarrow> Amd
     | INTEL_OPEN_SOURCE_MESA \<Rightarrow> Intel | INTEL_PROPRIETARY_WINDOWS \<Rightarrow> Intel | MESA_LLVMPIPE \<Rightarrow> Software | OtherDriver \<Rightarrow> OtherVendor)"

definition gpu_caps :: "GpuIdentity \<Rightarrow> GpuCaps" where
  "gpu_caps i = (let vendor = driver_vendor (id_driver i) in
     \<lparr>gc_vendor = vendor, gc_device_name = id_device_name i, gc_driver_name = id_driver_name i, gc_vulkan_render = True,
      gc_timestamp_queries = True, gc_external_memory = True, gc_global_priority = (vendor \<in> {Nvidia, Amd, Intel})\<rparr>)"

definition encoder_caps :: "bool \<Rightarrow> Codec \<Rightarrow> CodecCaps" where
  "encoder_caps hardware codec =
     \<lparr>cc_vendor = (if hardware then Nvidia else Software), cc_hardware = hardware,
      cc_encode = [case codec of H264 \<Rightarrow> VideoH264 | Hevc \<Rightarrow> VideoHevc], cc_low_latency = True,
      cc_max_sessions = (if hardware then Some 1 else None)\<rparr>"

subsection \<open>The shared GPU\<close>

type_synonym SharedGpu = "(GpuIdentity \<times> HostGpu) option"
type_synonym gpu_open = "(GpuIdentity \<times> GpuEnv) option"

definition SharedGpu_new :: SharedGpu where
  "SharedGpu_new = None"

definition opened :: "gpu_open \<Rightarrow> SharedGpu \<Rightarrow> SharedGpu" where
  "opened o' g = (case g of Some x \<Rightarrow> Some x | None \<Rightarrow> map_option (\<lambda>(i, e). (i, gpu_opened e)) o')"

definition with_gpu :: "gpu_open \<Rightarrow> (HostGpu, 'a) prog \<Rightarrow> SharedGpu \<Rightarrow> 'a option \<times> SharedGpu" where
  "with_gpu o' m g = (case opened o' g of None \<Rightarrow> (None, None)
     | Some (i, hg) \<Rightarrow> (case m hg of (Inr x, hg') \<Rightarrow> (Some x, Some (i, hg')) | (Inl _, hg') \<Rightarrow> (None, Some (i, hg'))))"

definition shared_clear :: "driver \<Rightarrow> gpu_open \<Rightarrow> u32 \<Rightarrow> u32 \<Rightarrow> u32 list \<Rightarrow> bytes \<Rightarrow> SharedGpu \<Rightarrow> Frame option \<times> SharedGpu" where
  "shared_clear W o' w h rgba pixels = with_gpu o' (render_clear W w h rgba pixels)"

definition shared_triangle :: "driver \<Rightarrow> gpu_open \<Rightarrow> u32 list \<Rightarrow> u32 \<Rightarrow> u32 \<Rightarrow> u32 list \<Rightarrow> bytes \<Rightarrow> SharedGpu \<Rightarrow> Frame option \<times> SharedGpu" where
  "shared_triangle W o' spv w h bg pixels = with_gpu o' (render_triangle W spv w h bg pixels)"

definition shared_forwarded :: "driver \<Rightarrow> gpu_open \<Rightarrow> u32 \<Rightarrow> u32 \<Rightarrow> u32 list \<Rightarrow> OwnedForwardedDraw \<Rightarrow> bytes \<Rightarrow> SharedGpu \<Rightarrow>
    Frame option \<times> SharedGpu" where
  "shared_forwarded W o' w h bg draw pixels = with_gpu o' (render_forwarded W w h bg draw pixels)"

definition shared_present :: "driver \<Rightarrow> gpu_open \<Rightarrow> u32 \<Rightarrow> u32 \<Rightarrow> u32 list \<Rightarrow> OwnedForwardedDraw \<Rightarrow> (bytes \<Rightarrow> bool) \<Rightarrow> bytes \<Rightarrow> SharedGpu \<Rightarrow>
    bool option \<times> SharedGpu" where
  "shared_present W o' w h bg draw present pixels = with_gpu o' (render_forwarded_present W w h bg draw present pixels)"

definition shared_zerocopy :: "driver \<Rightarrow> gpu_open \<Rightarrow> u32 \<Rightarrow> u32 \<Rightarrow> u32 list \<Rightarrow> OwnedForwardedDraw \<Rightarrow> u64 \<Rightarrow> SharedGpu \<Rightarrow> bool \<times> SharedGpu" where
  "shared_zerocopy W o' w h bg draw ptr g = (case with_gpu o' (render_forwarded_zerocopy W w h bg draw ptr) g of (r, g') \<Rightarrow> (r \<noteq> None, g'))"

definition shared_caps :: "gpu_open \<Rightarrow> SharedGpu \<Rightarrow> GpuCaps option \<times> SharedGpu" where
  "shared_caps o' g = (map_option (gpu_caps \<circ> fst) (opened o' g), opened o' g)"

definition shared_device_name :: "gpu_open \<Rightarrow> SharedGpu \<Rightarrow> string option \<times> SharedGpu" where
  "shared_device_name o' g = (map_option (id_device_name \<circ> fst) (opened o' g), opened o' g)"

definition shared_cache_stats :: "SharedGpu \<Rightarrow> (nat \<times> nat \<times> nat) option" where
  "shared_cache_stats g = map_option (cache_stats \<circ> snd) g"

definition shared_supports_zerocopy :: "SharedGpu \<Rightarrow> bool" where
  "shared_supports_zerocopy g = (case g of None \<Rightarrow> False | Some (_, hg) \<Rightarrow> supports_zerocopy_scanout hg)"

definition shared_forget_all :: "driver \<Rightarrow> SharedGpu \<Rightarrow> SharedGpu" where
  "shared_forget_all W g = map_option (map_prod id (forget_all_guest_imports W)) g"

subsection \<open>Readings of the probe\<close>

definition NVML_MB :: u64 where
  "NVML_MB = 1024 * 1024"

record GpuSnapshot =
  sn_index :: u32
  sn_name :: string
  sn_total_mb :: u64
  sn_used_mb :: u64
  sn_free_mb :: u64
  sn_gpu_util_pct :: u32
  sn_mem_util_pct :: u32
  sn_graphics_processes :: nat
  sn_encoder_sessions :: "u32 option"

definition usable_vram_mb :: "u64 \<Rightarrow> GpuSnapshot \<Rightarrow> u64" where
  "usable_vram_mb reserve s = (if reserve \<le> sn_free_mb s then sn_free_mb s - reserve else 0)"

text \<open>What NVML answers for one GPU: memory, utilisation, name and processes, each of which may fail, and the encoder sessions.\<close>

record NvmlDevice =
  nv_memory :: "(u64 \<times> u64 \<times> u64) option"
  nv_utilization :: "(u32 \<times> u32) option"
  nv_name :: "string option"
  nv_processes :: "(u32 \<times> u64 option) list option"
  nv_encoders :: "nat option"

definition nvml_snapshot :: "NvmlDevice list \<Rightarrow> u32 \<Rightarrow> GpuSnapshot option" where
  "nvml_snapshot gpus index = (if length gpus \<le> unat index then None
     else let g = gpus ! unat index in
       (case (nv_memory g, nv_utilization g, nv_name g, nv_processes g) of
          (Some (all_b, used_b, free_b), Some (gpu, mem), Some name, Some procs) \<Rightarrow>
            Some \<lparr>sn_index = index, sn_name = name, sn_total_mb = all_b div NVML_MB, sn_used_mb = used_b div NVML_MB,
              sn_free_mb = free_b div NVML_MB, sn_gpu_util_pct = gpu, sn_mem_util_pct = mem, sn_graphics_processes = length procs,
              sn_encoder_sessions = map_option word_of_nat (nv_encoders g)\<rparr>
        | _ \<Rightarrow> None))"

definition nvml_snapshot_all :: "NvmlDevice list \<Rightarrow> GpuSnapshot list option" where
  "nvml_snapshot_all gpus = those (map (\<lambda>i. nvml_snapshot gpus (word_of_nat i)) [0..<length gpus])"

definition process_vram :: "NvmlDevice list \<Rightarrow> u32 \<Rightarrow> (u32 \<times> u64 option) list option" where
  "process_vram gpus index = (if length gpus \<le> unat index then None
     else map_option (map (map_prod id (map_option (\<lambda>b. b div NVML_MB)))) (nv_processes (gpus ! unat index)))"

lemma usable_at_most_free: "usable_vram_mb reserve s \<le> sn_free_mb s"
  by (simp add: usable_vram_mb_def word_sub_le)

text \<open>The capability the scheduler would gate dma-buf hand-off on does not depend on what \<open>open\<close> found.\<close>

lemma caps_claim_external_memory:
  "gc_external_memory (gpu_caps i) \<and> \<not> hg_external_fd (gpu_opened (e\<lparr>ge_external_fd := False\<rparr>))"
  by (simp add: gpu_caps_def gpu_opened_def Let_def)

subsection \<open>Accounting through the shared GPU\<close>

datatype SharedOp = SharedClear u32 u32 "u32 list" bytes | SharedTriangle "u32 list" u32 u32 "u32 list" bytes
  | SharedForwarded u32 u32 "u32 list" OwnedForwardedDraw bytes
  | SharedPresent u32 u32 "u32 list" OwnedForwardedDraw "bytes \<Rightarrow> bool" bytes
  | SharedZeroCopy u32 u32 "u32 list" OwnedForwardedDraw u64 | SharedCaps | SharedName | SharedForget

fun shared_op :: "driver \<Rightarrow> gpu_open \<times> SharedOp \<Rightarrow> SharedGpu \<Rightarrow> SharedGpu" where
  "shared_op W (o', SharedClear w h rgba pixels) g = snd (shared_clear W o' w h rgba pixels g)"
| "shared_op W (o', SharedTriangle spv w h bg pixels) g = snd (shared_triangle W o' spv w h bg pixels g)"
| "shared_op W (o', SharedForwarded w h bg draw pixels) g = snd (shared_forwarded W o' w h bg draw pixels g)"
| "shared_op W (o', SharedPresent w h bg draw present pixels) g = snd (shared_present W o' w h bg draw present pixels g)"
| "shared_op W (o', SharedZeroCopy w h bg draw ptr) g = snd (shared_zerocopy W o' w h bg draw ptr g)"
| "shared_op W (o', SharedCaps) g = snd (shared_caps o' g)"
| "shared_op W (o', SharedName) g = snd (shared_device_name o' g)"
| "shared_op W (o', SharedForget) g = shared_forget_all W g"

fun shared_may_lose :: "SharedOp \<Rightarrow> bool" where
  "shared_may_lose (SharedClear w h rgba pixels) = True"
| "shared_may_lose (SharedForwarded w h bg draw pixels) = draw_repeats draw"
| "shared_may_lose (SharedPresent w h bg draw present pixels) = draw_repeats draw"
| "shared_may_lose _ = False"

definition accounted :: "vk_obj multiset \<Rightarrow> SharedGpu \<Rightarrow> bool" where
  "accounted L g = (case g of None \<Rightarrow> L = {#} | Some (_, hg) \<Rightarrow> owned L hg)"

lemma accounted_opened: "accounted L g \<Longrightarrow> accounted L (opened o' g)"
  using gpu_opened_owned by (cases g; cases o') (auto simp: accounted_def opened_def)

lemma accounted_with_gpu:
  assumes "accounted L g" "\<And>hg. owned L hg \<Longrightarrow> \<exists>K. (ok \<longrightarrow> K = {#}) \<and> owned (L + K) (snd (m hg))"
  shows "\<exists>K. (ok \<longrightarrow> K = {#}) \<and> accounted (L + K) (snd (with_gpu o' m g))"
proof (cases "opened o' g")
  case None
  with accounted_opened [OF assms(1), of o'] show ?thesis by (intro exI [of _ "{#}"]) (simp add: accounted_def with_gpu_def)
next
  case (Some x)
  obtain i hg where x: "x = (i, hg)" by (cases x)
  with accounted_opened [OF assms(1), of o'] Some have "owned L hg" by (simp add: accounted_def)
  from assms(2) [OF this] obtain K where K: "ok \<longrightarrow> K = {#}" "owned (L + K) (snd (m hg))" by blast
  have "snd (with_gpu o' m g) = Some (i, snd (m hg))" by (simp add: with_gpu_def Some x split: prod.split sum.split)
  with K show ?thesis by (auto simp: accounted_def)
qed

lemma present_snd_owned:
  assumes o: "owned L hg"
  shows "\<exists>K. (\<not> draw_repeats draw \<longrightarrow> K = {#}) \<and> owned (L + K) (snd (render_forwarded_present W w h bg draw present pixels hg))"
proof -
  from forwarded_present_owned [OF o, of draw W w h bg present pixels] obtain K where
    K: "\<not> draw_repeats draw \<longrightarrow> K = {#}" "post (L + K) nothing (render_forwarded_present W w h bg draw present pixels hg)"
    by (auto simp: may_leak_def)
  from post_snd [OF K(2)] K(1) show ?thesis by blast
qed

lemma forwarded_owned:
  assumes o: "owned L hg"
  shows "\<exists>K. (\<not> draw_repeats draw \<longrightarrow> K = {#}) \<and> owned (L + K) (snd (render_forwarded W w h bg draw pixels hg))"
proof (cases "hg_scratch_enabled hg")
  case True
  have "snd (render_forwarded W w h bg draw pixels hg) = snd (render_forwarded_present W w h bg draw (\<lambda>_. True) pixels hg)"
    using True by (simp add: render_forwarded_def render_forwarded_present_def snd_try_let ret_def split: sum.split)
  with gpu_op_owned [OF o, of "Present w h bg draw pixels" W] show ?thesis by auto
next
  case False
  have "snd (render_forwarded W w h bg draw pixels hg) = snd (render_forwarded_present W w h bg draw (\<lambda>_. True) pixels hg)"
    using False by (simp add: render_forwarded_def render_forwarded_present_def snd_try_let ret_def split: sum.split)
  with gpu_op_owned [OF o, of "Present w h bg draw pixels" W] show ?thesis by auto
qed

lemma shared_op_accounted:
  assumes a: "accounted L g"
  shows "\<exists>K. (\<not> shared_may_lose op \<longrightarrow> K = {#}) \<and> accounted (L + K) (shared_op W (o', op) g)"
proof (cases op)
  case (SharedClear w h rgba pixels)
  have "\<exists>K. (False \<longrightarrow> K = {#}) \<and> accounted (L + K) (snd (with_gpu o' (render_clear W w h rgba pixels) g))"
    by (rule accounted_with_gpu [OF a]) (use gpu_op_owned [of _ _ "Clear w h rgba pixels" W] in simp)
  then show ?thesis by (simp add: SharedClear shared_clear_def)
next
  case (SharedTriangle spv w h bg pixels)
  have "\<exists>K. (True \<longrightarrow> K = {#}) \<and> accounted (L + K) (snd (with_gpu o' (render_triangle W spv w h bg pixels) g))"
    by (rule accounted_with_gpu [OF a]) (use gpu_op_owned [of _ _ "Triangle spv w h bg pixels" W] in simp)
  then show ?thesis by (simp add: SharedTriangle shared_triangle_def)
next
  case (SharedForwarded w h bg draw pixels)
  have "\<exists>K. (\<not> draw_repeats draw \<longrightarrow> K = {#}) \<and> accounted (L + K) (snd (with_gpu o' (render_forwarded W w h bg draw pixels) g))"
    by (rule accounted_with_gpu [OF a forwarded_owned])
  then show ?thesis by (simp add: SharedForwarded shared_forwarded_def)
next
  case (SharedPresent w h bg draw present pixels)
  have "\<exists>K. (\<not> draw_repeats draw \<longrightarrow> K = {#}) \<and> accounted (L + K) (snd (with_gpu o' (render_forwarded_present W w h bg draw present pixels) g))"
    by (rule accounted_with_gpu [OF a present_snd_owned])
  then show ?thesis by (simp add: SharedPresent shared_present_def)
next
  case (SharedZeroCopy w h bg draw ptr)
  have "\<exists>K. (True \<longrightarrow> K = {#}) \<and> accounted (L + K) (snd (with_gpu o' (render_forwarded_zerocopy W w h bg draw ptr) g))"
    by (rule accounted_with_gpu [OF a]) (use gpu_op_owned [of _ _ "ZeroCopy w h bg draw ptr" W] in simp)
  then show ?thesis by (simp add: SharedZeroCopy shared_zerocopy_def case_prod_beta)
next
  case SharedCaps
  with accounted_opened [OF a, of o'] show ?thesis by (intro exI [of _ "{#}"]) (simp add: shared_caps_def)
next
  case SharedName
  with accounted_opened [OF a, of o'] show ?thesis by (intro exI [of _ "{#}"]) (simp add: shared_device_name_def)
next
  case SharedForget
  with a show ?thesis
    by (intro exI [of _ "{#}"]) (auto simp: shared_forget_all_def accounted_def forget_all_guest_imports_owned split: option.split)
qed

lemma shared_ops_accounted:
  "accounted L g \<Longrightarrow> \<exists>K. ((\<forall>c \<in> set calls. \<not> shared_may_lose (snd c)) \<longrightarrow> K = {#}) \<and> accounted (L + K) (fold (shared_op W) calls g)"
proof (induction calls arbitrary: L g)
  case (Cons c calls)
  obtain o' op where c: "c = (o', op)" by (cases c)
  from shared_op_accounted [OF Cons.prems, of op W o'] obtain K where
    K: "\<not> shared_may_lose op \<longrightarrow> K = {#}" "accounted (L + K) (shared_op W (o', op) g)" by blast
  from Cons.IH [OF K(2)] obtain K' where K': "(\<forall>c \<in> set calls. \<not> shared_may_lose (snd c)) \<longrightarrow> K' = {#}"
      "accounted (L + K + K') (fold (shared_op W) calls (shared_op W (o', op) g))" by blast
  show ?case by (rule exI [of _ "K + K'"]) (use K K' in \<open>auto simp: c ac_simps\<close>)
qed (auto intro: exI [of _ "{#}"])

text \<open>One GPU for all: however the calls of the VMs interleave and whenever opening it fails or succeeds, once open it stays
  the GPU of the attempt that succeeded.\<close>

lemma with_gpu_keeps: "\<exists>hg'. snd (with_gpu o' m (Some (i, hg))) = Some (i, hg')"
  by (simp add: with_gpu_def opened_def split: prod.split sum.split)

lemma shared_op_keeps: "\<exists>hg'. shared_op W c (Some (i, hg)) = Some (i, hg')"
  by (cases "(W, c, Some (i, hg))" rule: shared_op.cases)
    (simp_all add: shared_clear_def shared_triangle_def shared_forwarded_def shared_present_def shared_zerocopy_def case_prod_beta
      with_gpu_keeps shared_caps_def shared_device_name_def shared_forget_all_def opened_def)

lemma shared_gpu_opened_once: "\<exists>hg'. fold (shared_op W) calls (Some (i, hg)) = Some (i, hg')"
proof (induction calls arbitrary: hg)
  case (Cons c calls)
  from shared_op_keeps [of W c i hg] obtain hg1 where "shared_op W c (Some (i, hg)) = Some (i, hg1)" by blast
  with Cons show ?case by simp
qed simp

text \<open>The shared GPU keeps account of its objects, whichever VMs' draws reach it and in whatever order, with the
  GPU opened at any point: no object that is not live is destroyed, the live objects are those of the caches and what the
  named operations may lose.\<close>

lemma shared_gpu_accounted:
  "case fold (shared_op W) calls SharedGpu_new of None \<Rightarrow> True
   | Some (who, hg) \<Rightarrow> \<exists>lost. ((\<forall>c \<in> set calls. \<not> shared_may_lose (snd c)) \<longrightarrow> lost = {#}) \<and>
       dv_sound (hg_dev hg) \<and> dv_live (hg_dev hg) = lost + held hg \<and> within_caps hg"
proof -
  have "accounted {#} SharedGpu_new" by (simp add: accounted_def SharedGpu_new_def)
  from shared_ops_accounted [OF this, of calls W] obtain K where
    "(\<forall>c \<in> set calls. \<not> shared_may_lose (snd c)) \<longrightarrow> K = {#}" "accounted K (fold (shared_op W) calls SharedGpu_new)" by auto
  then show ?thesis by (auto simp: accounted_def owned_def owns_def split: option.split)
qed

end
