(* ===== verification/Host_Setup.thy ===== *)
theory Host_Setup
  imports Shared_Gpu Viewer_Blend
begin

text \<open>
  The decisions taken once on the host: which device \<open>HostGpu::open\<close> (\<open>replay/src/lib.rs\<close>) picks, with which queue family
  and extensions, and which device and queue the viewer's \<open>VkViewer::new\<close> picks (\<open>viewer/src/window.rs\<close>); the pipeline
  cache file the replay processes of all VMs share; the wait for a fence; the synthetic frames of \<open>TestPattern\<close>
  (\<open>pixel/src/lib.rs\<close>).

  What the system has is a parameter: its Vulkan devices, what creating a device answers, the driver's pipeline caches,
  the clock and the fence's status at each poll.
\<close>

subsection \<open>The first of the best\<close>

text \<open>Both loops keep a candidate only when its score is above the best so far.\<close>

definition keep_best :: "('a \<Rightarrow> int) \<Rightarrow> 'a \<Rightarrow> (int \<times> 'a) option \<Rightarrow> (int \<times> 'a) option" where
  "keep_best score x best = (if (case best of None \<Rightarrow> True | Some (s, _) \<Rightarrow> s < score x) then Some (score x, x) else best)"

definition first_best :: "('a \<Rightarrow> int) \<Rightarrow> 'a list \<Rightarrow> 'a \<Rightarrow> bool" where
  "first_best score xs x \<longleftrightarrow> (\<exists>pre post. xs = pre @ x # post \<and> (\<forall>y \<in> set pre. score y < score x) \<and> (\<forall>y \<in> set post. score y \<le> score x))"

lemma keep_best_simps [simp]:
  "keep_best score x None = Some (score x, x)"
  "keep_best score x (Some (s, y)) = (if s < score x then Some (score x, x) else Some (s, y))"
  by (simp_all add: keep_best_def)

lemma keep_best_first:
  "case fold (keep_best score) xs None of None \<Rightarrow> xs = [] | Some (s, x) \<Rightarrow> s = score x \<and> first_best score xs x"
proof (induction xs rule: rev_induct)
  case (snoc y xs)
  show ?case
  proof (cases "fold (keep_best score) xs None")
    case None
    with snoc have "xs = []" by simp
    then show ?thesis by (auto simp: first_best_def Cons_eq_append_conv)
  next
    case (Some p)
    obtain s x where p: "p = (s, x)" by (cases p)
    with snoc Some obtain pre post where
      split: "s = score x" "xs = pre @ x # post" "\<forall>z \<in> set pre. score z < score x" "\<forall>z \<in> set post. score z \<le> score x"
      by (auto simp: first_best_def)
    show ?thesis
    proof (cases "score x < score y")
      case True
      with split have "\<forall>z \<in> set xs. score z < score y" by fastforce
      then have "first_best score (xs @ [y]) y" unfolding first_best_def by (intro exI [of _ xs] exI [of _ "[]"]) simp
      with True show ?thesis by (simp add: Some p split(1))
    next
      case False
      with split have "first_best score (xs @ [y]) x"
        unfolding first_best_def by (intro exI [of _ pre] exI [of _ "post @ [y]"]) auto
      with False show ?thesis by (simp add: Some p split(1))
    qed
  qed
qed simp

subsection \<open>The replay GPU\<close>

record PhysicalGpu =
  pg_identity :: GpuIdentity
  pg_discrete :: bool
  pg_graphics :: "bool list"
  pg_exts :: "string list"
  pg_mems :: mem_types
  pg_host_ptr_align :: nat

definition EXT_MEMORY_FD :: string where "EXT_MEMORY_FD = ''VK_KHR_external_memory_fd''"
definition EXT_DMA_BUF :: string where "EXT_DMA_BUF = ''VK_EXT_external_memory_dma_buf''"
definition EXT_MEMORY_HOST :: string where "EXT_MEMORY_HOST = ''VK_EXT_external_memory_host''"
definition EXT_BORDER :: string where "EXT_BORDER = ''VK_EXT_custom_border_color''"
definition EXT_LINE :: string where "EXT_LINE = ''VK_EXT_line_rasterization''"

lemmas ext_names = EXT_MEMORY_FD_def EXT_DMA_BUF_def EXT_MEMORY_HOST_def EXT_BORDER_def EXT_LINE_def

definition gpu_score :: "PhysicalGpu \<Rightarrow> int" where
  "gpu_score p = (if id_driver (pg_identity p) = NVIDIA_PROPRIETARY then 100 else 0) + (if pg_discrete p then 10 else 0)"

definition pick_gpu :: "PhysicalGpu list \<Rightarrow> PhysicalGpu option" where
  "pick_gpu gpus = map_option snd (fold (keep_best gpu_score) gpus None)"

definition graphics_family :: "PhysicalGpu \<Rightarrow> nat option" where
  "graphics_family p = List.find (\<lambda>i. pg_graphics p ! i) [0..<length (pg_graphics p)]"

definition enabled_exts :: "PhysicalGpu \<Rightarrow> string list" where
  "enabled_exts p = (let has = (\<lambda>e. e \<in> set (pg_exts p)); want_fd = has EXT_MEMORY_FD in
     (if want_fd then [EXT_MEMORY_FD] else []) @ (if want_fd \<and> has EXT_DMA_BUF then [EXT_DMA_BUF] else [])
     @ (if has EXT_MEMORY_HOST then [EXT_MEMORY_HOST] else []) @ (if has EXT_BORDER then [EXT_BORDER] else [])
     @ (if has EXT_LINE then [EXT_LINE] else []))"

text \<open>The environment variables \<open>open\<close> reads, and what the loader and the driver answer: the devices (\<open>None\<close> when the loader or the
  instance fails), and whether a device is created (listing its extensions included).\<close>

record HostSystem =
  hs_gpus :: "PhysicalGpu list option"
  hs_device :: "PhysicalGpu \<Rightarrow> nat \<Rightarrow> string list \<Rightarrow> bool"
  hs_pipeline_cache :: "bytes option"
  hs_scratch_cache :: "bytes option"
  hs_resource_cache :: "bytes option"

definition HostGpu_open :: "HostSystem \<Rightarrow> gpu_open" where
  "HostGpu_open sys = do {
     gpus \<leftarrow> hs_gpus sys;
     p \<leftarrow> pick_gpu gpus;
     family \<leftarrow> graphics_family p;
     if \<not> hs_device sys p family (enabled_exts p) then None
     else Some (pg_identity p,
       \<lparr>ge_mems = pg_mems p, ge_pipeline_cache = hs_pipeline_cache sys, ge_scratch_cache = hs_scratch_cache sys,
        ge_resource_cache = hs_resource_cache sys, ge_external_fd = EXT_MEMORY_FD \<in> set (pg_exts p),
        ge_dma_buf = EXT_DMA_BUF \<in> set (pg_exts p), ge_mem_host = EXT_MEMORY_HOST \<in> set (pg_exts p),
        ge_host_ptr_align = pg_host_ptr_align p\<rparr>)
   }"

lemma pick_gpu_best: "pick_gpu gpus = Some p \<Longrightarrow> first_best gpu_score gpus p"
  using keep_best_first [where score = gpu_score and xs = gpus] by (auto simp: pick_gpu_def)

lemma pick_gpu_None: "pick_gpu gpus = None \<longleftrightarrow> gpus = []"
  using keep_best_first [where score = gpu_score and xs = gpus] by (auto simp: pick_gpu_def split: option.splits)

lemma first_best_in: "first_best score xs x \<Longrightarrow> x \<in> set xs \<and> (\<forall>y \<in> set xs. score y \<le> score x)"
  by (fastforce simp: first_best_def)

text \<open>A proprietary NVIDIA device wins over every other, whatever order the loader lists them in.\<close>

lemma nvidia_wins:
  assumes "pick_gpu gpus = Some p" "q \<in> set gpus" "id_driver (pg_identity q) = NVIDIA_PROPRIETARY"
  shows "id_driver (pg_identity p) = NVIDIA_PROPRIETARY"
proof -
  from first_best_in [OF pick_gpu_best [OF assms(1)]] assms(2) have "gpu_score q \<le> gpu_score p" by blast
  with assms(3) show ?thesis by (simp add: gpu_score_def split: if_splits)
qed

text \<open>Only what the device advertises is asked for, and what the replay relies on later was enabled when it was opened.\<close>

lemma exts_advertised: "set (enabled_exts p) \<subseteq> set (pg_exts p)"
  by (auto simp: enabled_exts_def Let_def split: if_splits)

lemma open_cases:
  assumes "HostGpu_open sys = Some (i, e)"
  obtains gpus p family where "hs_gpus sys = Some gpus" "pick_gpu gpus = Some p" "graphics_family p = Some family"
    "hs_device sys p family (enabled_exts p)" "i = pg_identity p" "ge_external_fd e = (EXT_MEMORY_FD \<in> set (pg_exts p))"
    "ge_dma_buf e = (EXT_DMA_BUF \<in> set (pg_exts p))" "ge_mem_host e = (EXT_MEMORY_HOST \<in> set (pg_exts p))"
  using assms by (auto simp: HostGpu_open_def split: Option.bind_splits if_splits)

lemma used_extensions_enabled:
  assumes "HostGpu_open sys = Some (i, e)"
  shows "\<exists>p. i = pg_identity p \<and> (supports_zerocopy_scanout (gpu_opened e) \<longrightarrow> EXT_MEMORY_HOST \<in> set (enabled_exts p))
    \<and> (hg_external_fd (gpu_opened e) \<longrightarrow> EXT_MEMORY_FD \<in> set (enabled_exts p))
    \<and> (hg_dma_buf (gpu_opened e) \<longrightarrow> EXT_DMA_BUF \<in> set (enabled_exts p))"
  using assms
  by (elim open_cases) (auto simp: supports_zerocopy_scanout_def gpu_opened_def Let_def enabled_exts_def)

lemma graphics_family_supports: "graphics_family p = Some f \<Longrightarrow> f < length (pg_graphics p) \<and> pg_graphics p ! f"
  by (auto simp: graphics_family_def find_Some_iff)

subsection \<open>The viewer's GPU\<close>

text \<open>A device of the viewer: discrete or not, and for each queue family whether it does graphics and what the surface answers
  (\<open>None\<close> when the call fails).\<close>

type_synonym ViewerGpu = "bool \<times> (bool \<times> bool option) list"

definition viewer_score :: "bool \<Rightarrow> int" where
  "viewer_score discrete = (if discrete then 10 else 1)"

fun viewer_families :: "nat \<Rightarrow> nat \<Rightarrow> bool \<Rightarrow> (bool \<times> bool option) list \<Rightarrow> (nat \<times> nat \<times> bool) list option" where
  "viewer_families pd qf discrete [] = Some []"
| "viewer_families pd qf discrete ((graphics, present) # qs) = (case present of None \<Rightarrow> None
     | Some p \<Rightarrow> map_option (\<lambda>r. if graphics \<and> p then (pd, qf, discrete) # r else r) (viewer_families pd (Suc qf) discrete qs))"

fun viewer_candidates :: "nat \<Rightarrow> ViewerGpu list \<Rightarrow> (nat \<times> nat \<times> bool) list option" where
  "viewer_candidates pd [] = Some []"
| "viewer_candidates pd ((discrete, qs) # gs) = (case viewer_families pd 0 discrete qs of None \<Rightarrow> None
     | Some here \<Rightarrow> map_option (append here) (viewer_candidates (Suc pd) gs))"

definition choose_queue :: "ViewerGpu list \<Rightarrow> (nat \<times> nat) option" where
  "choose_queue gpus = (case viewer_candidates 0 gpus of None \<Rightarrow> None
     | Some cs \<Rightarrow> map_option (\<lambda>(_, pd, qf, _). (pd, qf)) (fold (keep_best (\<lambda>(_, _, d). viewer_score d)) cs None))"

lemma viewer_families_sound:
  "viewer_families pd qf discrete qs = Some r \<Longrightarrow> (p, q, d) \<in> set r \<Longrightarrow>
   p = pd \<and> d = discrete \<and> (\<exists>i. q = qf + i \<and> i < length qs \<and> qs ! i = (True, Some True))"
proof (induction pd qf discrete qs arbitrary: r rule: viewer_families.induct)
  case (2 pd qf discrete graphics present qs)
  then obtain pr r' where r': "present = Some pr" "viewer_families pd (Suc qf) discrete qs = Some r'"
      "r = (if graphics \<and> pr then (pd, qf, discrete) # r' else r')" by (auto split: option.splits)
  with 2(3) consider "graphics" "pr" "(p, q, d) = (pd, qf, discrete)" | "(p, q, d) \<in> set r'" by (auto split: if_splits)
  then show ?case
  proof cases
    case 1
    then show ?thesis by (auto simp: r'(1) intro: exI [of _ 0])
  next
    case 2
    from "2.IH" [OF r'(1) r'(2) this] obtain i where
      "p = pd" "d = discrete" "q = Suc qf + i" "i < length qs" "qs ! i = (True, Some True)" by blast
    then show ?thesis by (auto intro!: exI [of _ "Suc i"])
  qed
qed simp

lemma viewer_candidates_sound:
  "viewer_candidates pd gs = Some cs \<Longrightarrow> (p, qf, d) \<in> set cs \<Longrightarrow>
   \<exists>i. p = pd + i \<and> i < length gs \<and> fst (gs ! i) = d \<and> qf < length (snd (gs ! i)) \<and> snd (gs ! i) ! qf = (True, Some True)"
proof (induction pd gs arbitrary: cs rule: viewer_candidates.induct)
  case (2 pd discrete qs gs)
  then obtain here rest where h: "viewer_families pd 0 discrete qs = Some here" "viewer_candidates (Suc pd) gs = Some rest"
      "cs = here @ rest" by (auto split: option.splits)
  from 2(3) h(3) consider "(p, qf, d) \<in> set here" | "(p, qf, d) \<in> set rest" by auto
  then show ?case
  proof cases
    case 1
    from viewer_families_sound [OF h(1) this] have "p = pd \<and> d = discrete \<and> qf < length qs \<and> qs ! qf = (True, Some True)"
      by auto
    then show ?thesis by (intro exI [of _ 0]) simp
  next
    case 2
    from "2.IH" [OF h(1) h(2) this] obtain i where "p = Suc pd + i \<and> i < length gs \<and> fst (gs ! i) = d \<and>
        qf < length (snd (gs ! i)) \<and> snd (gs ! i) ! qf = (True, Some True)" by blast
    then show ?thesis by (intro exI [of _ "Suc i"]) simp
  qed
qed simp

text \<open>The queue the viewer draws and presents on does both, and a discrete device that offers such a queue is preferred.\<close>

lemma choose_queue_sound:
  assumes "choose_queue gpus = Some (pd, qf)"
  shows "pd < length gpus \<and> qf < length (snd (gpus ! pd)) \<and> snd (gpus ! pd) ! qf = (True, Some True)"
proof -
  from assms obtain cs s d where cs: "viewer_candidates 0 gpus = Some cs"
      "fold (keep_best (\<lambda>(_, _, d). viewer_score d)) cs None = Some (s, pd, qf, d)"
    by (auto simp: choose_queue_def split: option.splits)
  with keep_best_first [where score = "\<lambda>(_, _, d). viewer_score d" and xs = cs] have "(pd, qf, d) \<in> set cs"
    by (auto simp: first_best_def)
  from viewer_candidates_sound [OF cs(1) this] show ?thesis by auto
qed

subsection \<open>The pipeline cache file\<close>

text \<open>The driver's pipeline caches: what creating one from a blob gives, merging one into another, and the blob of a cache.
  Each may fail.\<close>

record 'c CacheDriver =
  cd_create :: "bytes \<Rightarrow> 'c option"
  cd_merge :: "'c \<Rightarrow> 'c \<Rightarrow> 'c"
  cd_data :: "'c \<Rightarrow> bytes option"

definition file_bytes :: "bytes option \<Rightarrow> bytes" where
  "file_bytes disk = (case disk of Some b \<Rightarrow> b | None \<Rightarrow> [])"

definition load_pipeline_cache :: "'c CacheDriver \<Rightarrow> bool \<Rightarrow> bytes option \<Rightarrow> 'c option" where
  "load_pipeline_cache D enabled disk = (if enabled then cd_create D (file_bytes disk) else None)"

definition merged_blob :: "'c CacheDriver \<Rightarrow> 'c option \<Rightarrow> bytes option \<Rightarrow> bytes option" where
  "merged_blob D mine disk = (case mine of None \<Rightarrow> None
     | Some c \<Rightarrow> (case cd_create D (file_bytes disk) of None \<Rightarrow> None
        | Some m \<Rightarrow> (case file_bytes (cd_data D (cd_merge D m c)) of [] \<Rightarrow> None | blob \<Rightarrow> Some blob)))"

text \<open>\<open>seen\<close> is the file when it is read, \<open>disk\<close> the file when the temporary is renamed over it: other processes may have
  replaced it in between. \<open>wrote\<close> says whether writing and renaming the temporary succeed.\<close>

definition save_pipeline_cache :: "'c CacheDriver \<Rightarrow> 'c option \<Rightarrow> bytes option \<Rightarrow> bool \<Rightarrow> bytes option \<Rightarrow> bytes option" where
  "save_pipeline_cache D mine seen wrote disk = (case merged_blob D mine seen of None \<Rightarrow> disk | Some blob \<Rightarrow> if wrote then Some blob else disk)"

text \<open>What a cache and a blob hold, for a driver whose merge keeps both sides: a save with no other between its read and its
  rename loses nothing.\<close>

lemma alone_save_keeps:
  assumes "\<And>b c. cd_create D b = Some c \<Longrightarrow> entries b \<subseteq> contents c"
    and "\<And>c c'. contents (cd_merge D c c') = contents c \<union> contents c'"
    and "\<And>c b. cd_data D c = Some b \<Longrightarrow> entries b = contents c"
  shows "entries (file_bytes disk) \<subseteq> entries (file_bytes (save_pipeline_cache D mine disk wrote disk))"
proof (cases "merged_blob D mine disk")
  case (Some blob)
  then obtain c m where "cd_create D (file_bytes disk) = Some m" "cd_data D (cd_merge D m c) = Some blob"
    by (auto simp: merged_blob_def file_bytes_def split: option.splits list.splits)
  with assms have "entries (file_bytes disk) \<subseteq> entries blob" by blast
  with Some show ?thesis by (simp add: save_pipeline_cache_def file_bytes_def)
qed (simp add: save_pipeline_cache_def)

text \<open>A driver whose caches are lists of one-byte entries. Two processes that both read the file before either replaces it: the
  second rename drops what the first saved.\<close>

definition byte_caches :: "bytes CacheDriver" where
  "byte_caches = \<lparr>cd_create = Some, cd_merge = (\<lambda>c c'. c @ filter (\<lambda>e. e \<notin> set c) c'), cd_data = Some\<rparr>"

lemma concurrent_save_loses:
  "let seen = Some [1]; after_one = save_pipeline_cache byte_caches (Some [2]) seen True seen
   in after_one = Some [1, 2] \<and> save_pipeline_cache byte_caches (Some [3]) seen True after_one = Some [1, 3]"
  by (simp add: save_pipeline_cache_def merged_blob_def byte_caches_def file_bytes_def)

subsection \<open>The wait for a fence\<close>

text \<open>\<open>poll n\<close> is the fence's status at the \<open>n\<close>-th look (\<open>None\<close> for an error) and \<open>elapsed n\<close> the microseconds since the start.\<close>

partial_function (option) spin_fence :: "(nat \<Rightarrow> bool option) \<Rightarrow> (nat \<Rightarrow> nat) \<Rightarrow> nat \<Rightarrow> nat \<Rightarrow> bool option" where
  "spin_fence poll elapsed limit n = (case poll n of
     Some signalled \<Rightarrow> if signalled then Some True else if limit \<le> elapsed n then Some False else spin_fence poll elapsed limit (Suc n)
   | None \<Rightarrow> Some False)"

definition wait_fence :: "nat \<Rightarrow> (nat \<Rightarrow> bool option) \<Rightarrow> (nat \<Rightarrow> nat) \<Rightarrow> bool \<Rightarrow> bool option" where
  "wait_fence spin_us poll elapsed blocking = (if spin_us = 0 then Some blocking
     else case spin_fence poll elapsed spin_us 0 of None \<Rightarrow> None | Some signalled \<Rightarrow> Some (signalled \<or> blocking))"

text \<open>Whatever the polls answer, the wait ends once the clock passes the limit, and it succeeds without blocking only if a
  poll saw the fence signalled.\<close>

lemma spin_fence_ends:
  assumes "limit \<le> elapsed (n + k)"
  shows "\<exists>b. spin_fence poll elapsed limit n = Some b \<and> (b \<longrightarrow> (\<exists>i \<ge> n. poll i = Some True))"
  using assms
proof (induction k arbitrary: n)
  case 0
  then show ?case by (subst spin_fence.simps) (auto split: option.split)
next
  case (Suc k)
  then have "\<exists>b. spin_fence poll elapsed limit (Suc n) = Some b \<and> (b \<longrightarrow> (\<exists>i \<ge> Suc n. poll i = Some True))" by simp
  then show ?case by (subst spin_fence.simps) (auto split: option.split intro: Suc_leD)
qed

lemma wait_fence_ends:
  assumes "spin_us \<le> elapsed k"
  shows "\<exists>r. wait_fence spin_us poll elapsed blocking = Some r \<and> (r \<longrightarrow> blocking \<or> (\<exists>i. poll i = Some True))"
  using spin_fence_ends [of spin_us elapsed 0 k poll] assms by (auto simp: wait_fence_def)

subsection \<open>The test pattern\<close>

record TestPattern =
  tp_width :: u32
  tp_height :: u32
  tp_frame :: u32
  tp_buf :: bytes

definition TestPattern_new :: "u32 \<Rightarrow> u32 \<Rightarrow> TestPattern" where
  "TestPattern_new w h = \<lparr>tp_width = w, tp_height = h, tp_frame = 0, tp_buf = replicate (unat (w * h * 4)) 0\<rparr>"

definition box_at :: "nat \<Rightarrow> nat \<Rightarrow> int" where
  "box_at position side = wrap_i32 (int (position mod max (side - 80) 1))"

text \<open>One pixel; \<open>pulse\<close> is the byte the sine of the frame number gives.\<close>

definition pattern_pixel :: "nat \<Rightarrow> nat \<Rightarrow> nat \<Rightarrow> u8 \<Rightarrow> nat \<Rightarrow> nat \<Rightarrow> bytes" where
  "pattern_pixel w h f pulse y x =
    (let bx = box_at (f * 7) w; by' = box_at (f * 5 div 3) h; xi = wrap_i32 (int x); yi = wrap_i32 (int y)
     in if bx \<le> xi \<and> xi < bx + 80 \<and> by' \<le> yi \<and> yi < by' + 80 then [230, 230, 20, 255]
        else if (x + y + f * 4) div 24 mod 2 = 0 then [pulse div 3, word_of_nat (x * 255 div w), word_of_nat (y * 255 div h), 255]
        else [pulse, 40, 80, 255])"

text \<open>The pixels are written in the order of the buffer, so an index past its end (a width times height that wraps 32 bits) is a
  panic, \<open>None\<close>, and otherwise the buffer's first \<open>w * h * 4\<close> bytes are replaced.\<close>

definition next_bgra :: "(nat \<Rightarrow> u8) \<Rightarrow> TestPattern \<Rightarrow> (bytes \<times> TestPattern) option" where
  "next_bgra pulse t = (let w = unat (tp_width t); h = unat (tp_height t); f = unat (tp_frame t) in
     if length (tp_buf t) < w * h * 4 then None
     else let buf = concat (map (\<lambda>y. concat (map (pattern_pixel w h f (pulse f) y) [0..<w])) [0..<h]) @ drop (w * h * 4) (tp_buf t)
          in Some (buf, t\<lparr>tp_buf := buf, tp_frame := tp_frame t + 1\<rparr>))"

lemma pattern_pixel_length [simp]: "length (pattern_pixel w h f pulse y x) = 4"
  by (simp add: pattern_pixel_def Let_def)

lemma pattern_opaque: "pattern_pixel w h f pulse y x ! 3 = 255"
  by (simp add: pattern_pixel_def Let_def)

lemma pattern_rows_length:
  "length (concat (map (\<lambda>y. concat (map (pattern_pixel w h f p y) [0..<n])) [0..<m])) = n * m * 4"
  by (simp add: length_concat o_def sum_list_triv)

text \<open>Frames come one after the other, of the size the encoder expects, as long as their size fits 32 bits; else the first
  one panics.\<close>

fun pattern_frames :: "(nat \<Rightarrow> u8) \<Rightarrow> nat \<Rightarrow> TestPattern \<Rightarrow> bytes list option" where
  "pattern_frames pulse 0 t = Some []"
| "pattern_frames pulse (Suc n) t = (case next_bgra pulse t of None \<Rightarrow> None
     | Some (b, t') \<Rightarrow> map_option (Cons b) (pattern_frames pulse n t'))"

lemma pattern_frames_size:
  assumes "length (tp_buf t) = unat (tp_width t) * unat (tp_height t) * 4"
  shows "\<exists>bs. pattern_frames pulse n t = Some bs \<and> length bs = n \<and>
    (\<forall>b \<in> set bs. length b = unat (tp_width t) * unat (tp_height t) * 4)"
  using assms
proof (induction n arbitrary: t)
  case (Suc n)
  obtain b t' where n: "next_bgra pulse t = Some (b, t')" using Suc.prems by (simp add: next_bgra_def Let_def)
  then have b: "length b = unat (tp_width t) * unat (tp_height t) * 4" "tp_buf t' = b" "tp_width t' = tp_width t"
      "tp_height t' = tp_height t"
    using Suc.prems by (auto simp: next_bgra_def Let_def pattern_rows_length split: if_splits)
  with Suc.IH [of t'] n show ?case by auto
qed simp

lemma pattern_streams:
  "if unat w * unat h * 4 < 2 ^ 32
   then \<exists>bs. pattern_frames pulse n (TestPattern_new w h) = Some bs \<and> length bs = n \<and> (\<forall>b \<in> set bs. length b = unat w * unat h * 4)
   else next_bgra pulse (TestPattern_new w h) = None"
proof (cases "unat w * unat h * 4 < 2 ^ 32")
  case True
  then have "unat (w * h * 4) = unat w * unat h * 4" by (simp add: unat_word_ariths mod_mult_left_eq take_bit_eq_mod)
  with True pattern_frames_size [of "TestPattern_new w h" pulse n] show ?thesis by (simp add: TestPattern_new_def)
next
  case False
  have "unat (w * h * 4) < 2 ^ 32" using unsigned_less [of "w * h * 4"] by simp
  with False have "unat (w * h * 4) < unat w * unat h * 4" by linarith
  then have "next_bgra pulse (TestPattern_new w h) = None" by (simp add: next_bgra_def TestPattern_new_def Let_def)
  with False show ?thesis by (simp only: if_False)
qed

end
