(* ===== verification/Spec2Isabelle.thy ===== *)
theory Spec2Isabelle
  imports Spsc_Interleaving Mailbox_Slot Device_Elision Device_Regs Replay_Bindings Replay_Protocol Viewer_Cursor
    Viewer_Session Viewer_Hazards Viewer_Main Guest_Wire Host_Setup
begin

text \<open>
  \<^bold>\<open>A model of infinigpu: the virtual GPU, the Vulkan replay behind it, its pixel stream and the viewer.\<close>

  \<^bold>\<open>The program.\<close> A guest driver encodes each draw (\<open>guest/icd/infinigpu_forwarded.c\<close>), writes descriptors into a
  ring in its own memory and rings a doorbell register of a vfio-user PCI device. The device process
  (\<open>crates/infinigpu-device\<close>) maps the guest's memory, asks a broker shared by all VMs (\<open>infinigpu-sched\<close>) whether
  this VM may use the GPU, pops the ring (\<open>infinigpu-ring\<close>), decodes each command (\<open>infinigpu-abi\<close>), replays it on
  the host's Vulkan device (\<open>infinigpu-replay\<close>), in the process or in a jailed one it talks to over a socket, writes the pixels back
  to guest memory, publishes the sequence number that completes the guest's fence and raises an interrupt. Presented
  frames go to the pixel streamer (\<open>infinigpu-pixel\<close>), which feeds an encoder process, cuts its output into
  access units and sends them to the connected viewers. A viewer (\<open>infinigpu-viewer\<close>) decodes them, blends the guest's cursor
  over them, shows them in a window and sends the window's input back.

  \<^bold>\<open>Theories, in the order of the code.\<close>
  \<^item> \<open>Igpu_Prelude\<close>: widths, wrap-around, little-endian bytes, association maps, and the codec interface
    (locale \<open>wire_codec\<close>) that every wire record satisfies.
  \<^item> \<open>Abi_Wire\<close>, \<open>Abi_Regs\<close>, \<open>Pci_Config\<close>: \<open>abi/src/wire.rs\<close>, \<open>ids.rs\<close>, \<open>regs.rs\<close>, \<open>device/src/config.rs\<close>.
  \<^item> \<open>Spsc_Ring\<close>, \<open>Spsc_Interleaving\<close>, \<open>Drain_Batch\<close>: \<open>ring/src/lib.rs\<close> as operations on a record, as
    interleaved atomic accesses of both ends, and over the bytes of shared memory (\<open>device/src/drain.rs\<close>).
  \<^item> \<open>Sched_Broker\<close>: \<open>sched/src/lib.rs\<close>, the ledger, the token bucket and the run loop.
  \<^item> \<open>Dma_Table\<close>, \<open>Mailbox_Slot\<close>, \<open>Resource_Table\<close>, \<open>Dispatch_Resource\<close>, \<open>Profile_Hist\<close>: the files of
    \<open>device/src\<close> with those names.
  \<^item> \<open>Forwarded_Decode\<close>, \<open>Device_Pixels\<close>: the decoders of forwarded draws and the pixel arithmetic of
    \<open>device/src/lib.rs\<close>.
  \<^item> \<open>Device_State\<close>, \<open>Device_Present\<close>, \<open>Device_Submit\<close>, \<open>Device_Cursor\<close>, \<open>Device_Ring\<close>, \<open>Device_Server\<close>:
    \<open>InfinigpuBackend\<close>, one record field per field of the struct and one definition per method, up to the
    vfio-user callbacks and the runs of a device among guests, viewers and other VMs.
  \<^item> \<open>Device_Invariant\<close>, \<open>Device_Safety\<close>, \<open>Device_Scanout\<close>, \<open>Device_Elision\<close>, \<open>Device_Regs\<close>: what holds of the
    whole device.
  \<^item> \<open>Replay_Draw\<close>, \<open>Replay_Vulkan\<close>, \<open>Replay_Objects\<close>, \<open>Replay_Caches\<close>, \<open>Replay_Scoped\<close>, \<open>Replay_Frame\<close>:
    \<open>replay/src/lib.rs\<close>. A draw's derived state and keys; the driver as a parameter, a function from the number of calls made so
    far to the answer of the next, with every call recorded; the objects a render makes; the caches; the scratch guard whose drop
    frees what an early return leaves; the render paths.
  \<^item> \<open>Replay_Ownership\<close>, \<open>Replay_Guards\<close>, \<open>Replay_Safety\<close>, \<open>Replay_Bindings\<close>: every object made is either held by a
    cache or destroyed, up to the named leaks, whichever calls fail; the descriptors written are those of the set layout.
  \<^item> \<open>Replay_Protocol\<close>: \<open>replay/src/process.rs\<close>, both ends of the socket.
  \<^item> \<open>Shared_Gpu\<close>, \<open>Host_Setup\<close>: \<open>SharedGpu\<close> of \<open>device/src/lib.rs\<close>, the capabilities of \<open>hal/src/lib.rs\<close>, the readings of
    \<open>nvml/src/lib.rs\<close>; the choice of device, queue and extensions, the pipeline cache file, the fence wait, the test pattern.
  \<^item> \<open>Pixel_Proto\<close>, \<open>Pixel_Hub\<close>, \<open>Pixel_Streamer\<close>: \<open>pixel/src/lib.rs\<close>.
  \<^item> \<open>Viewer_Stream\<close>, \<open>Viewer_Sync\<close>, \<open>Viewer_Cursor\<close>: \<open>viewer/src/stream.rs\<close> and \<open>headless.rs\<close>, what reaches the decoder when the
    server's queue overflows, and the cursor from guest memory to the viewer's slot.
  \<^item> \<open>Viewer_Blend\<close>, \<open>Viewer_Window\<close>, \<open>Viewer_Draw\<close>, \<open>Viewer_Hazards\<close>: \<open>viewer/src/window.rs\<close>, the arithmetic of the overlay, the
    presenter with its swapchain, fence and recorded commands, a small GPU that executes them, and where the presenter races with it.
  \<^item> \<open>Viewer_Input\<close>, \<open>Viewer_App\<close>, \<open>Viewer_Session\<close>, \<open>Viewer_Main\<close>: \<open>input.rs\<close>, the event handler of \<open>window.rs\<close>, whole
    sessions of network and window events, and \<open>main.rs\<close>.
  \<^item> \<open>Guest_Wire\<close>: the guest's C encoders and ring producer (\<open>guest/icd/infinigpu_forwarded.c\<close>,
    \<open>guest-conformance/csrc/guest_ring_ref.c\<close>) with their Rust wrappers, against the device's decoders and ring.

  \<^bold>\<open>What the lemmas show.\<close> Of each data structure: an invariant kept by every operation (ring, DMA table, resource table,
  broker ledger, client queue, device, replay caches, presenter), and what each operation answers. Of each codec: the round trip, and for the
  decoders of guest data that they accept exactly the well-formed messages. Across components: the memory ring and the guest's
  producer refine the abstract queue; a guest's mesh and its resolved state are what the device decodes; a VM the broker refuses runs nothing;
  an accepted submission is always retired; an elided or patched frame is the frame a full render would give; the window shows
  the latest frame and cursor; a viewer's decoder never skips a frame of a run; the cursor a guest defines is the one the
  viewer blends; no key or button stays pressed when the focus is lost.
  Lemmas named in no such group state where the code departs from its comments; they are the counterexamples of the manifest's findings.

  \<^bold>\<open>Bounds and fuel.\<close> No definition takes fuel. Loops over guest data recurse on it. The broker's admission loop
  recurses over the clock readings it is given; \<open>throttled_vm_gets_through\<close> shows enough of them let the run begin. The fence spin is a
  partial function that returns once the clock passes its limit (\<open>wait_fence_ends\<close>). Waiting for a fence nobody will signal is a value of its own
  (\<open>NoReturn\<close> in \<open>Viewer_Window\<close>, \<open>Blocked\<close> in \<open>Mailbox_Slot\<close>). Machine integers are words of their width.

  \<^bold>\<open>Not modelled.\<close>
  \<^item> Vulkan, the window system, NVML, the H.264 encoder and decoder, vfio-user and the kernel: their answers are parameters.
  \<^item> Sockets, threads and processes: the accept and serve loops, the WebSocket handshake, the jail of the replay process and the
    spawning and reaping of children. Threads that share state are interleavings of the modelled operations.
  \<^item> The Vulkan set-up of the viewer before its first swapchain and its drop, and the feature structures of device creation: straight
    lists of calls with no decision besides the ones in \<open>Host_Setup\<close>.
  \<^item> The shader words of \<open>shaders.rs\<close> (data, an argument), the re-exports of \<open>abi/src/lib.rs\<close>, PPM dumps of the device, timing
    breakdowns and logging, the binaries and demos of the \<open>bin\<close> directories.
  \<^item> The guest's kernel driver and the rest of its Vulkan ICD, C code against Linux and Mesa.
  \<^item> Weak memory: the ring's release and acquire accesses are interleaved atomically.
  \<^item> Floating point: colours travel as their 32 bits; the viewer's scale factors and the profiler's quantiles are parameters or exact.
\<close>

end
